(* ===== verification/Prelude.thy ===== *)
theory Prelude
  imports Complex_Main "HOL-Library.AList" "HOL-Library.Multiset" "HOL-Library.Char_ord"
    "HOL-Library.List_Lexorder"
begin

text \<open>
  Shared vocabulary of the development: Go's time and duration values, the few string
  operations of the Go standard library that the modelled code calls, Go maps, and generic
  lemmas on lists and association lists.

  \<^item> \<open>gotime\<close> is an instant in nanoseconds since Go's zero \<open>time.Time\<close> (1 January of
    year 1, UTC), so the zero value of the Go type is \<open>0\<close> and \<open>Before\<close>, \<open>After\<close>
    and \<open>Equal\<close> are \<open><\<close>, \<open>>\<close> and \<open>=\<close>.
  \<^item> \<open>duration\<close> is Go's \<open>time.Duration\<close>, a signed 64-bit count of nanoseconds, read
    as an integer; the one operation that can leave the range, \<open>Time.Sub\<close>, saturates as
    Go's does.
  \<^item> A Go \<open>map\<close> that is only read, written and deleted by key is a partial function; a
    map that the code iterates over is an association list, whose order stands for the
    (unspecified) iteration order.
\<close>

section \<open>Time\<close>

type_synonym gotime = int
type_synonym duration = int

definition max_duration :: duration where
  "max_duration = 9223372036854775807"

definition min_duration :: duration where
  "min_duration = - 9223372036854775808"

text \<open>\<open>a.Sub(b)\<close> saturates at the limits of a 64-bit duration.\<close>

definition time_sub :: "gotime \<Rightarrow> gotime \<Rightarrow> duration" where
  "time_sub a b = max min_duration (min max_duration (a - b))"

abbreviation is_zero_time :: "gotime \<Rightarrow> bool" where
  "is_zero_time t \<equiv> t = 0"

definition nanosecond :: duration where "nanosecond = 1"
definition microsecond :: duration where "microsecond = 1000"
definition millisecond :: duration where "millisecond = 1000000"
definition second :: duration where "second = 1000000000"
definition minute :: duration where "minute = 60000000000"
definition hour :: duration where "hour = 3600000000000"

lemmas duration_unit_defs =
  nanosecond_def microsecond_def millisecond_def second_def minute_def hour_def

lemmas time_sub_defs = time_sub_def max_duration_def min_duration_def

lemma time_sub_mono: "a \<le> a' \<Longrightarrow> time_sub a b \<le> time_sub a' b"
  by (auto simp: time_sub_defs)

lemma time_sub_ge_iff:
  "min_duration < d \<Longrightarrow> d \<le> max_duration \<Longrightarrow> d \<le> time_sub a b \<longleftrightarrow> b + d \<le> a"
  by (auto simp: time_sub_defs)

lemma time_sub_less_iff:
  "min_duration < d \<Longrightarrow> d \<le> max_duration \<Longrightarrow> time_sub a b < d \<longleftrightarrow> a < b + d"
  by (auto simp: time_sub_defs)

lemma time_sub_nonneg: "b \<le> a \<Longrightarrow> 0 \<le> time_sub a b"
  by (auto simp: time_sub_defs)

lemma time_sub_self [simp]: "time_sub a a = 0"
  by (auto simp: time_sub_defs)

section \<open>Strings\<close>

text \<open>Strings are lists of bytes, as Go's are. \<open>has_prefix\<close> is \<open>strings.HasPrefix\<close>.\<close>

fun has_prefix :: "string \<Rightarrow> string \<Rightarrow> bool" where
  "has_prefix s [] = True"
| "has_prefix [] (p # ps) = False"
| "has_prefix (c # s) (p # ps) = (c = p \<and> has_prefix s ps)"

lemma has_prefix_iff: "has_prefix s p \<longleftrightarrow> (\<exists>r. s = p @ r)"
  by (induction s p rule: has_prefix.induct) auto

lemma has_prefix_append [simp]: "has_prefix (p @ s) p"
  by (auto simp: has_prefix_iff)

text \<open>
  \<open>cut_byte c s\<close> is \<open>strings.Cut\<close> for a one-byte separator: the text before and after the
  first separator and whether there is one.
\<close>

fun cut_byte :: "char \<Rightarrow> string \<Rightarrow> string \<times> string \<times> bool" where
  "cut_byte c [] = ([], [], False)"
| "cut_byte c (x # s) =
     (if x = c then ([], s, True)
      else (case cut_byte c s of (a, b, ok) \<Rightarrow> (x # a, b, ok)))"

lemma cut_byte_append [simp]:
  "c \<notin> set a \<Longrightarrow> cut_byte c (a @ c # b) = (a, b, True)"
  by (induction a) auto

lemma cut_byte_none [simp]: "c \<notin> set a \<Longrightarrow> cut_byte c a = (a, [], False)"
  by (induction a) auto

lemma cut_byte_eq:
  "cut_byte c s = (a, b, ok) \<Longrightarrow>
     c \<notin> set a \<and> (if ok then s = a @ c # b else s = a \<and> b = [])"
  by (induction s arbitrary: a b ok) (auto split: if_splits prod.splits)

text \<open>\<open>cmp.Or\<close> on strings: the first argument that is not empty.\<close>

definition str_or :: "string \<Rightarrow> string \<Rightarrow> string" where
  "str_or a b = (if a \<noteq> [] then a else b)"

definition ascii_lower :: "char \<Rightarrow> char" where
  "ascii_lower c = (if 65 \<le> (of_char c :: nat) \<and> (of_char c :: nat) \<le> 90
     then char_of ((of_char c :: nat) + 32) else c)"

definition to_lower :: "string \<Rightarrow> string" where
  "to_lower = map ascii_lower"

definition str_join :: "string \<Rightarrow> string list \<Rightarrow> string" where
  "str_join sep xs = (case xs of [] \<Rightarrow> [] | x # ys \<Rightarrow> x @ concat (map (\<lambda>y. sep @ y) ys))"

section \<open>Go maps\<close>

text \<open>Reading a missing key of a Go map gives the zero value of its element type.\<close>

definition mget :: "'v \<Rightarrow> ('k \<rightharpoonup> 'v) \<Rightarrow> 'k \<Rightarrow> 'v" where
  "mget z m k = (case m k of None \<Rightarrow> z | Some v \<Rightarrow> v)"

lemma mget_upd [simp]: "mget z (m(k \<mapsto> v)) k' = (if k' = k then v else mget z m k')"
  by (simp add: mget_def)

lemma mget_empty [simp]: "mget z Map.empty k = z"
  by (simp add: mget_def)

lemma mget_Some [simp]: "m k = Some v \<Longrightarrow> mget z m k = v"
  by (simp add: mget_def)

section \<open>Collections of the development\<close>

named_theorems ledger_defs \<open>definitions of the ledger's fold steps\<close>
named_theorems ledger_frame \<open>fields a fold step leaves alone\<close>

section \<open>Association lists\<close>

lemma distinct_AList_update [simp]:
  "distinct (map fst xs) \<Longrightarrow> distinct (map fst (AList.update k v xs))"
  by (rule AList.distinct_update)

text \<open>
  Counting the entries of an association list that satisfy a predicate: an update removes
  the old entry of the key from the count and adds the new one.
\<close>

definition acount :: "('k \<Rightarrow> 'v \<Rightarrow> bool) \<Rightarrow> ('k \<times> 'v) list \<Rightarrow> int" where
  "acount P m = int (length (filter (\<lambda>(k, v). P k v) m))"

lemma acount_Nil [simp]: "acount P [] = 0"
  by (simp add: acount_def)

lemma acount_Cons [simp]:
  "acount P ((k, v) # m) = (if P k v then 1 else 0) + acount P m"
  by (simp add: acount_def)

lemma acount_nonneg: "0 \<le> acount P m"
  by (simp add: acount_def)

lemma acount_update_new:
  "map_of m k = None \<Longrightarrow>
     acount P (AList.update k v m) = acount P m + (if P k v then 1 else 0)"
  by (induction m) (auto split: if_splits)

lemma acount_update_old:
  "distinct (map fst m) \<Longrightarrow> map_of m k = Some u \<Longrightarrow>
     acount P (AList.update k v m) =
       acount P m - (if P k u then 1 else 0) + (if P k v then 1 else 0)"
proof (induction m)
  case Nil
  then show ?case by simp
next
  case (Cons p m)
  obtain a b where p: "p = (a, b)" by (cases p)
  show ?case
  proof (cases "a = k")
    case True
    with Cons.prems p show ?thesis by auto
  next
    case False
    with Cons p show ?thesis by auto
  qed
qed

lemma fold_update_append:
  "distinct (map fst (acc @ m)) \<Longrightarrow> fold (\<lambda>(k, v). AList.update k v) m acc = acc @ m"
proof (induction m arbitrary: acc)
  case Nil
  then show ?case by simp
next
  case (Cons p m)
  obtain a b where p: "p = (a, b)" by (cases p)
  have "AList.update a b acc = acc @ [(a, b)]"
    using Cons.prems p by (induction acc) auto
  then show ?case using Cons p by simp
qed

lemma fold_update_Nil:
  "distinct (map fst m) \<Longrightarrow> fold (\<lambda>(k, v). AList.update k v) m [] = m"
  using fold_update_append [of "[]" m] by simp

end
