(* ===== verification/GoDuration.thy ===== *)
theory GoDuration
  imports Prelude
begin

text \<open>
  The two functions of Go's \<open>time\<close> package that carry a silence window through the outcome
  ledger: \<open>Duration.String\<close> writes the window into the ledger line (\<open>Ledger.Silence\<close>) and
  \<open>time.ParseDuration\<close> reads it back when the line is folded (\<open>applySilenceLocked\<close>). The
  live call and a later replay agree only because the two are inverse on the windows the
  ledger accepts, which is the round trip proved at the end of this theory.

  The fraction of an item is read with exact integer arithmetic (\<open>f * unit div scale\<close>)
  where Go multiplies in \<open>float64\<close>; the two agree whenever \<open>scale\<close> divides \<open>unit\<close>, which
  holds for everything \<open>Duration.String\<close> prints.
\<close>

section \<open>Decimal digits\<close>

definition is_digit :: "char \<Rightarrow> bool" where
  "is_digit c \<longleftrightarrow> 48 \<le> (of_char c :: nat) \<and> (of_char c :: nat) \<le> 57"

definition digit_val :: "char \<Rightarrow> nat" where
  "digit_val c = of_char c - 48"

definition digit_char :: "nat \<Rightarrow> char" where
  "digit_char n = char_of (n + 48)"

lemma of_char_digit_char: "n < 10 \<Longrightarrow> (of_char (digit_char n) :: nat) = n + 48"
  by (simp add: digit_char_def)

lemma is_digit_digit_char [simp]: "n < 10 \<Longrightarrow> is_digit (digit_char n)"
  by (simp add: is_digit_def of_char_digit_char)

lemma digit_val_digit_char [simp]: "n < 10 \<Longrightarrow> digit_val (digit_char n) = n"
  by (simp add: digit_val_def of_char_digit_char)

fun fmt_int :: "nat \<Rightarrow> string" where
  "fmt_int v = (if v < 10 then [digit_char v] else fmt_int (v div 10) @ [digit_char (v mod 10)])"

declare fmt_int.simps [simp del]

lemma fmt_int_digits: "\<forall>c \<in> set (fmt_int v). is_digit c"
proof (induction v rule: fmt_int.induct)
  case (1 v)
  then show ?case by (cases "v < 10") (auto simp: fmt_int.simps [of v])
qed

lemma fmt_int_nonempty [simp]: "fmt_int v \<noteq> []"
  by (subst fmt_int.simps) simp

section \<open>Formatting\<close>

text \<open>
  \<open>fmtFrac\<close>: the fraction of \<open>v / 10 ^ prec\<close> without trailing zeros, and the whole part. The
  loop runs over the digits from the right; \<open>print\<close> turns on at the first nonzero one.
\<close>

fun fmt_frac_loop :: "nat \<Rightarrow> nat \<Rightarrow> bool \<Rightarrow> string \<Rightarrow> string \<times> nat \<times> bool" where
  "fmt_frac_loop 0 v pr acc = (acc, v, pr)"
| "fmt_frac_loop (Suc n) v pr acc =
     (let digit = v mod 10; pr' = (pr \<or> digit \<noteq> 0)
      in fmt_frac_loop n (v div 10) pr' (if pr' then digit_char digit # acc else acc))"

definition fmt_frac :: "nat \<Rightarrow> nat \<Rightarrow> string \<times> nat" where
  "fmt_frac v prec = (case fmt_frac_loop prec v False [] of
     (ds, v', pr) \<Rightarrow> (if pr then CHR ''.'' # ds else ds, v'))"

definition micro_sign :: string where
  "micro_sign = [CHR 0xC2, CHR 0xB5]"

definition fmt_unsigned :: "nat \<Rightarrow> string" where
  "fmt_unsigned u =
     (if u < 1000000000 then
        (if u = 0 then ''0s''
         else if u < 1000 then fmt_int u @ ''ns''
         else if u < 1000000 then
           (case fmt_frac u 3 of (fr, w) \<Rightarrow> fmt_int w @ fr @ micro_sign @ ''s'')
         else (case fmt_frac u 6 of (fr, w) \<Rightarrow> fmt_int w @ fr @ ''ms''))
      else (case fmt_frac u 9 of (fr, w) \<Rightarrow>
        (let m = w div 60; h = m div 60;
             secs = fmt_int (w mod 60) @ fr @ ''s''
         in if m = 0 then secs
            else if h = 0 then fmt_int (m mod 60) @ ''m'' @ secs
            else fmt_int h @ ''h'' @ fmt_int (m mod 60) @ ''m'' @ secs)))"

definition duration_string :: "duration \<Rightarrow> string" where
  "duration_string d =
     (if d < 0 then CHR ''-'' # fmt_unsigned (nat (- d)) else fmt_unsigned (nat d))"

section \<open>Parsing\<close>

fun leading_int :: "nat \<Rightarrow> string \<Rightarrow> (nat \<times> string) option" where
  "leading_int x [] = Some (x, [])"
| "leading_int x (c # s) =
     (if \<not> is_digit c then Some (x, c # s)
      else if x > 2 ^ 63 div 10 then None
      else (let y = x * 10 + digit_val c in if y > 2 ^ 63 then None else leading_int y s))"

fun leading_frac :: "nat \<Rightarrow> nat \<Rightarrow> bool \<Rightarrow> string \<Rightarrow> nat \<times> nat \<times> string" where
  "leading_frac x scale ov [] = (x, scale, [])"
| "leading_frac x scale ov (c # s) =
     (if \<not> is_digit c then (x, scale, c # s)
      else if ov then leading_frac x scale True s
      else if x > (2 ^ 63 - 1) div 10 then leading_frac x scale True s
      else (let y = x * 10 + digit_val c
            in if y > 2 ^ 63 then leading_frac x scale True s
               else leading_frac y (scale * 10) False s))"

definition unit_char :: "char \<Rightarrow> bool" where
  "unit_char c \<longleftrightarrow> c \<noteq> CHR ''.'' \<and> \<not> is_digit c"

definition unit_of :: "string \<Rightarrow> nat option" where
  "unit_of u =
     (if u = ''ns'' then Some 1
      else if u = ''us'' \<or> u = micro_sign @ ''s'' \<or> u = [CHR 0xCE, CHR 0xBC] @ ''s'' then Some 1000
      else if u = ''ms'' then Some 1000000
      else if u = ''s'' then Some 1000000000
      else if u = ''m'' then Some 60000000000
      else if u = ''h'' then Some 3600000000000
      else None)"

text \<open>
  One number with its unit: the value in nanoseconds and the rest of the text. Go keeps the
  running sum in a \<open>uint64\<close>, so it is taken modulo \<open>2 ^ 64\<close>.
\<close>

definition parse_item :: "string \<Rightarrow> (nat \<times> string) option" where
  "parse_item s =
     (if s = [] \<or> \<not> (hd s = CHR ''.'' \<or> is_digit (hd s)) then None
      else case leading_int 0 s of
        None \<Rightarrow> None
      | Some (v, s1) \<Rightarrow>
          (let pre = (length s1 \<noteq> length s);
               (f, scale, s2, post) =
                 (if s1 \<noteq> [] \<and> hd s1 = CHR ''.''
                  then (case leading_frac 0 1 False (tl s1) of
                          (f, scale, r) \<Rightarrow> (f, scale, r, length r \<noteq> length (tl s1)))
                  else (0, 1, s1, False))
           in if \<not> pre \<and> \<not> post then None
              else (let u = takeWhile unit_char s2; rest = dropWhile unit_char s2
                    in if u = [] then None
                       else case unit_of u of
                         None \<Rightarrow> None
                       | Some un \<Rightarrow>
                           if v > 2 ^ 63 div un then None
                           else (let w = v * un + (if f > 0 then f * un div scale else 0)
                                 in if w > 2 ^ 63 then None else Some (w, rest)))))"

lemma leading_int_length: "leading_int x s = Some (v, r) \<Longrightarrow> length r \<le> length s"
  by (induction x s rule: leading_int.induct) (auto simp: Let_def split: if_splits)

lemma leading_frac_length: "leading_frac x sc ov s = (f, sc', r) \<Longrightarrow> length r \<le> length s"
  by (induction x sc ov s rule: leading_frac.induct) (auto simp: Let_def split: if_splits)

lemma dropWhile_shorter: "takeWhile P xs \<noteq> [] \<Longrightarrow> length (dropWhile P xs) < length xs"
  by (cases xs) (auto simp: length_dropWhile_le le_imp_less_Suc split: if_splits)

lemma parse_item_shorter:
  assumes "parse_item s = Some (w, rest)"
  shows "length rest < length s"
proof -
  from assms obtain v s1 where li: "leading_int 0 s = Some (v, s1)" and ne: "s \<noteq> []"
    by (auto simp: parse_item_def split: if_splits option.splits)
  have l1: "length s1 \<le> length s" using li by (rule leading_int_length)
  obtain f sc r where lf: "leading_frac 0 1 False (tl s1) = (f, sc, r)"
    by (cases "leading_frac 0 1 False (tl s1)")
  have l2: "length r \<le> length s1"
    using leading_frac_length [OF lf] by simp
  show ?thesis
    using assms li lf l1 l2 dropWhile_shorter [of unit_char r] dropWhile_shorter [of unit_char s1]
    by (fastforce simp: parse_item_def Let_def split: if_splits option.splits)
qed

function parse_items :: "nat \<Rightarrow> string \<Rightarrow> nat option" where
  "parse_items d s =
     (if s = [] then Some d
      else case parse_item s of
        None \<Rightarrow> None
      | Some (w, rest) \<Rightarrow>
          (let d' = (d + w) mod 2 ^ 64
           in if d' > 2 ^ 63 then None else parse_items d' rest))"
  by pat_completeness auto
termination
  by (relation "measure (\<lambda>(d, s). length s)") (auto dest: parse_item_shorter)

declare parse_items.simps [simp del]

definition parse_duration :: "string \<Rightarrow> duration option" where
  "parse_duration s0 =
     (let neg = (s0 \<noteq> [] \<and> hd s0 = CHR ''-'');
          s = (if s0 \<noteq> [] \<and> (hd s0 = CHR ''-'' \<or> hd s0 = CHR ''+'') then tl s0 else s0)
      in if s = ''0'' then Some 0
         else if s = [] then None
         else case parse_items 0 s of
           None \<Rightarrow> None
         | Some d \<Rightarrow> if neg then Some (- int d)
                      else if d > 2 ^ 63 - 1 then None else Some (int d))"

section \<open>Round trip\<close>

text \<open>A text that does not start with a digit ends a run of digits.\<close>

definition stops :: "string \<Rightarrow> bool" where
  "stops s \<longleftrightarrow> s = [] \<or> \<not> is_digit (hd s)"

lemma leading_int_stop: "stops r \<Longrightarrow> leading_int x r = Some (x, r)"
  by (cases r) (auto simp: stops_def)

lemma leading_int_fmt_append:
  "n \<le> 2 ^ 63 \<Longrightarrow> leading_int 0 (fmt_int n @ r) = leading_int n r"
proof (induction n arbitrary: r rule: fmt_int.induct)
  case (1 n)
  show ?case
  proof (cases "n < 10")
    case True
    then show ?thesis by (simp add: fmt_int.simps [of n])
  next
    case False
    have small: "n div 10 \<le> 2 ^ 63" using "1.prems" by simp
    have "leading_int 0 (fmt_int n @ r) = leading_int (n div 10) (digit_char (n mod 10) # r)"
      using "1.IH" [OF False small, of "digit_char (n mod 10) # r"] False
      by (simp add: fmt_int.simps [of n])
    also have "\<dots> = leading_int n r"
      using "1.prems" div_le_mono [of n "2 ^ 63" 10] by (simp add: Let_def)
    finally show ?thesis .
  qed
qed

lemma leading_int_fmt:
  "n \<le> 2 ^ 63 \<Longrightarrow> stops r \<Longrightarrow> leading_int 0 (fmt_int n @ r) = Some (n, r)"
  by (simp add: leading_int_fmt_append leading_int_stop)

text \<open>
  The digits of \<open>fmt_frac\<close>, \<open>frac_ok ds i V\<close>: the text \<open>ds\<close> is the fraction
  \<open>V mod 10 ^ i\<close> with its trailing zeros dropped.
\<close>

definition digits_value :: "string \<Rightarrow> nat" where
  "digits_value ds = foldl (\<lambda>x c. x * 10 + digit_val c) 0 ds"

lemma foldl_digits:
  "foldl (\<lambda>x c. x * 10 + digit_val c) a ds = a * 10 ^ length ds + digits_value ds"
proof (induction ds arbitrary: a)
  case Nil
  then show ?case by (simp add: digits_value_def)
next
  case (Cons c ds)
  show ?case
    using Cons [of "a * 10 + digit_val c"] Cons [of "digit_val c"]
    by (simp add: digits_value_def algebra_simps)
qed

lemma digits_value_Cons:
  "digits_value (c # ds) = digit_val c * 10 ^ length ds + digits_value ds"
  using foldl_digits [of "digit_val c" ds] by (simp add: digits_value_def)

definition frac_ok :: "string \<Rightarrow> nat \<Rightarrow> nat \<Rightarrow> bool" where
  "frac_ok ds i V \<longleftrightarrow> (\<forall>c \<in> set ds. is_digit c) \<and> length ds \<le> i
     \<and> digits_value ds * 10 ^ (i - length ds) = V mod 10 ^ i \<and> (ds = [] \<longleftrightarrow> V mod 10 ^ i = 0)"

lemma frac_ok_step:
  assumes ok: "frac_ok ds i V" and d: "d = (V div 10 ^ i) mod 10"
  shows "frac_ok (if ds \<noteq> [] \<or> d \<noteq> 0 then digit_char d # ds else ds) (Suc i) V"
proof -
  have d10: "d < 10" using d by simp
  have dec: "V mod 10 ^ Suc i = d * 10 ^ i + V mod 10 ^ i"
    using mod_mult2_eq [of V "10 ^ i" 10] d by (simp add: mult.commute)
  show ?thesis
  proof (cases "ds \<noteq> [] \<or> d \<noteq> 0")
    case True
    have len: "length ds \<le> i" and
      val: "digits_value ds * 10 ^ (i - length ds) = V mod 10 ^ i"
      using ok by (auto simp: frac_ok_def)
    have "digits_value (digit_char d # ds) * 10 ^ (i - length ds)
        = d * (10 ^ length ds * 10 ^ (i - length ds)) + V mod 10 ^ i"
      using d10 val by (simp add: digits_value_Cons algebra_simps)
    also have "\<dots> = V mod 10 ^ Suc i"
      using len dec by (simp flip: power_add)
    finally have v: "digits_value (digit_char d # ds) * 10 ^ (i - length ds) = V mod 10 ^ Suc i" .
    have nz: "V mod 10 ^ Suc i \<noteq> 0"
      using True ok dec by (auto simp: frac_ok_def)
    show ?thesis using True ok d10 v nz by (auto simp: frac_ok_def)
  next
    case False
    then have "V mod 10 ^ Suc i = 0" using ok dec by (auto simp: frac_ok_def)
    with False show ?thesis using ok by (auto simp: frac_ok_def digits_value_def)
  qed
qed

lemma fmt_frac_loop_ok:
  assumes "frac_ok acc i V" and "pr \<longleftrightarrow> acc \<noteq> []" and "v = V div 10 ^ i"
    and "fmt_frac_loop n v pr acc = (ds, w, pr')"
  shows "frac_ok ds (i + n) V \<and> w = V div 10 ^ (i + n) \<and> (pr' \<longleftrightarrow> ds \<noteq> [])"
  using assms
proof (induction n v pr acc arbitrary: i rule: fmt_frac_loop.induct)
  case (1 v pr acc)
  then show ?case by auto
next
  case (2 n v pr acc)
  define d where "d = v mod 10"
  define acc' where "acc' = (if pr \<or> d \<noteq> 0 then digit_char d # acc else acc)"
  have ok: "frac_ok acc' (Suc i) V"
    using frac_ok_step [OF "2.prems"(1), of d] "2.prems"(2,3) by (simp add: acc'_def d_def)
  have pr: "(pr \<or> d \<noteq> 0) \<longleftrightarrow> acc' \<noteq> []"
    using "2.prems"(2) by (auto simp: acc'_def)
  have "V div (10 ^ i * 10) = V div 10 ^ i div 10" by (rule div_mult2_eq)
  then have v: "v div 10 = V div 10 ^ Suc i"
    using "2.prems"(3) by (simp add: mult.commute)
  have "fmt_frac_loop n (v div 10) (pr \<or> d \<noteq> 0) acc' = (ds, w, pr')"
    using "2.prems"(4) unfolding acc'_def d_def by (simp only: fmt_frac_loop.simps Let_def)
  from "2.IH" [OF refl refl ok [unfolded acc'_def d_def] pr [unfolded acc'_def d_def] v
      this [unfolded acc'_def d_def]]
  show ?case by simp
qed

lemma fmt_frac_cases:
  obtains (whole) "V mod 10 ^ n = 0" "fmt_frac V n = ([], V div 10 ^ n)"
  | (frac) ds where "frac_ok ds n V" "ds \<noteq> []" "fmt_frac V n = (CHR ''.'' # ds, V div 10 ^ n)"
proof -
  obtain ds w pr where l: "fmt_frac_loop n V False [] = (ds, w, pr)"
    by (cases "fmt_frac_loop n V False []")
  have "frac_ok [] 0 V" by (simp add: frac_ok_def digits_value_def)
  from fmt_frac_loop_ok [OF this _ _ l]
  have r: "frac_ok ds n V" "w = V div 10 ^ n" "pr \<longleftrightarrow> ds \<noteq> []" by auto
  show thesis
  proof (cases "ds = []")
    case True
    then show thesis using r l whole by (auto simp: fmt_frac_def frac_ok_def)
  next
    case False
    then show thesis using r l frac by (auto simp: fmt_frac_def)
  qed
qed

lemma leading_frac_run:
  assumes "\<forall>c \<in> set ds. is_digit c" and "(x + 1) * 10 ^ length ds \<le> 10 ^ 9" and "stops r"
  shows "leading_frac x sc False (ds @ r)
       = (x * 10 ^ length ds + digits_value ds, sc * 10 ^ length ds, r)"
  using assms
proof (induction ds arbitrary: x sc)
  case Nil
  then show ?case by (cases r) (auto simp: stops_def digits_value_def)
next
  case (Cons c ds)
  have dv: "digit_val c < 10" and dg: "is_digit c"
    using Cons.prems(1) by (auto simp: digit_val_def is_digit_def)
  have pos: "(1::nat) \<le> 10 ^ length ds" by simp
  have "(x + 1) * 10 * 10 ^ length ds \<le> 10 ^ 9"
    using Cons.prems(2) by (simp add: algebra_simps)
  moreover have "(x * 10 + digit_val c + 1) * 10 ^ length ds \<le> (x + 1) * 10 * 10 ^ length ds"
    using dv by (intro mult_right_mono) auto
  ultimately have step: "(x * 10 + digit_val c + 1) * 10 ^ length ds \<le> 10 ^ 9"
    by linarith
  have "(x * 10 + digit_val c + 1) * 1 \<le> (x * 10 + digit_val c + 1) * 10 ^ length ds"
    using pos by (rule mult_le_mono2)
  with step have small: "x * 10 + digit_val c < 1000000000" by simp
  have "leading_frac x sc False ((c # ds) @ r)
      = leading_frac (x * 10 + digit_val c) (sc * 10) False (ds @ r)"
    using dg small by (simp add: Let_def)
  also have "\<dots> = ((x * 10 + digit_val c) * 10 ^ length ds + digits_value ds,
      sc * 10 * 10 ^ length ds, r)"
    by (rule Cons.IH) (use Cons.prems step in auto)
  finally show ?case by (simp add: digits_value_Cons algebra_simps)
qed


text \<open>A unit text followed by the next item or by nothing.\<close>

definition unit_then :: "string \<Rightarrow> nat \<Rightarrow> string \<Rightarrow> bool" where
  "unit_then u un rest \<longleftrightarrow> u \<noteq> [] \<and> (\<forall>c \<in> set u. unit_char c) \<and> unit_of u = Some un
     \<and> 0 < un \<and> (rest = [] \<or> is_digit (hd rest))"

lemma unit_then_span:
  assumes "unit_then u un rest"
  shows "takeWhile unit_char (u @ rest) = u" and "dropWhile unit_char (u @ rest) = rest"
    and "stops (u @ rest)" and "hd (u @ rest) \<noteq> CHR ''.''" and "u @ rest \<noteq> []"
proof -
  have r: "rest = [] \<or> \<not> unit_char (hd rest)"
    using assms by (auto simp: unit_then_def unit_char_def)
  have u: "\<forall>c \<in> set u. unit_char c" "u \<noteq> []" using assms by (auto simp: unit_then_def)
  show "takeWhile unit_char (u @ rest) = u" using u r
    by (cases rest) (auto simp: takeWhile_append2)
  show "dropWhile unit_char (u @ rest) = rest" using u r
    by (cases rest) (auto simp: dropWhile_append2)
  have "unit_char (hd u)" using u by simp
  then show "stops (u @ rest)" "hd (u @ rest) \<noteq> CHR ''.''" "u @ rest \<noteq> []"
    using u by (auto simp: stops_def unit_char_def)
qed

lemma hd_fmt_int [simp]: "is_digit (hd (fmt_int v))"
  by (rule bspec [OF fmt_int_digits [of v]]) simp

lemma fmt_int_head: "fmt_int v @ r \<noteq> []" "is_digit (hd (fmt_int v @ r))"
  by (simp_all add: hd_append)

lemma length_fmt_int_pos [simp]: "0 < length (fmt_int v)"
  by simp

lemma parse_item_int:
  assumes u: "unit_then u un rest" and v: "v \<le> 2 ^ 63 div un"
  shows "parse_item (fmt_int v @ u @ rest) = Some (v * un, rest)"
proof -
  have un: "0 < un" "unit_of u = Some un" "u \<noteq> []" using u by (auto simp: unit_then_def)
  have v63: "v \<le> 2 ^ 63" using v div_le_dividend le_trans by blast
  have prod: "v * un \<le> 2 ^ 63"
    using v un(1) by (metis div_times_less_eq_dividend le_trans mult_le_mono1)
  have li: "leading_int 0 (fmt_int v @ u @ rest) = Some (v, u @ rest)"
    using v63 unit_then_span(3) [OF u] by (rule leading_int_fmt)
  show ?thesis
    using v v63 prod un fmt_int_head [of v "u @ rest"] li
      unit_then_span(1,2,4,5) [OF u]
    by (simp add: parse_item_def Let_def)
qed

lemma parse_item_frac:
  assumes u: "unit_then u un rest" and n: "un = 10 ^ n" "n \<le> 9"
    and ds: "frac_ok ds n V" "ds \<noteq> []"
    and b: "w * un + V mod un \<le> 2 ^ 63"
  shows "parse_item (fmt_int w @ CHR ''.'' # ds @ u @ rest) = Some (w * un + V mod un, rest)"
proof -
  have un: "0 < un" "unit_of u = Some un" "u \<noteq> []" using u by (auto simp: unit_then_def)
  have wun: "w * un \<le> 2 ^ 63" using b by simp
  have w: "w \<le> 2 ^ 63 div un" using wun un(1) by (simp add: less_eq_div_iff_mult_less_eq)
  have w63: "w \<le> 2 ^ 63" using w div_le_dividend le_trans by blast
  have dig: "\<forall>c \<in> set ds. is_digit c" and len: "length ds \<le> n"
    and val: "digits_value ds * 10 ^ (n - length ds) = V mod un" and nz: "V mod un \<noteq> 0"
    using ds n by (auto simp: frac_ok_def)
  have len9: "(0 + 1) * (10::nat) ^ length ds \<le> 10 ^ 9"
    using power_increasing [of "length ds" 9 "10::nat"] len n(2) by simp
  have lf: "leading_frac 0 1 False (ds @ u @ rest) = (digits_value ds, 10 ^ length ds, u @ rest)"
    using leading_frac_run [OF dig len9 unit_then_span(3) [OF u], of 1] by simp
  have split: "un = 10 ^ (n - length ds) * 10 ^ length ds"
    using n len by (simp flip: power_add)
  have fr: "digits_value ds * un div 10 ^ length ds = V mod un"
    by (subst split) (simp add: val flip: mult.assoc)
  have pos: "0 < digits_value ds" using val nz by (cases "digits_value ds") auto
  have li: "leading_int 0 (fmt_int w @ CHR ''.'' # ds @ u @ rest)
      = Some (w, CHR ''.'' # ds @ u @ rest)"
    using w63 by (rule leading_int_fmt) (simp add: stops_def is_digit_def)
  show ?thesis
    using w b un pos fr ds(2) fmt_int_head [of w "CHR ''.'' # ds @ u @ rest"] li lf
      unit_then_span(1,2) [OF u]
    by (simp add: parse_item_def Let_def)
qed

text \<open>The number with its fraction, as \<open>fmt_frac\<close> prints it.\<close>

lemma parse_item_fmt_frac:
  assumes u: "unit_then u un rest" and n: "un = 10 ^ n" "n \<le> 9"
    and f: "fmt_frac V n = (fr, w)"
    and b: "w' * un + V mod un \<le> 2 ^ 63"
  shows "parse_item (fmt_int w' @ fr @ u @ rest) = Some (w' * un + V mod un, rest)"
proof (cases V n rule: fmt_frac_cases)
  case whole
  then have fr: "fr = []" and m: "V mod un = 0" using f n by auto
  have "w' \<le> 2 ^ 63 div un"
    using b u by (simp add: unit_then_def less_eq_div_iff_mult_less_eq)
  then show ?thesis using parse_item_int [OF u] fr m by simp
next
  case (frac ds)
  then have "fr = CHR ''.'' # ds" using f by simp
  then show ?thesis using parse_item_frac [OF u n frac(1,2) b] by simp
qed

lemma parse_items_end [simp]: "parse_items d [] = Some d"
  by (simp add: parse_items.simps)

lemma parse_items_step:
  assumes "s \<noteq> []" and "parse_item s = Some (w, rest)" and "d + w \<le> 2 ^ 63"
  shows "parse_items d s = parse_items (d + w) rest"
  using assms by (simp add: parse_items.simps [of d s] Let_def)


lemma unit_then_simps:
  "unit_then ''ns'' 1 rest \<longleftrightarrow> rest = [] \<or> is_digit (hd rest)"
  "unit_then (micro_sign @ ''s'') 1000 rest \<longleftrightarrow> rest = [] \<or> is_digit (hd rest)"
  "unit_then ''ms'' 1000000 rest \<longleftrightarrow> rest = [] \<or> is_digit (hd rest)"
  "unit_then ''s'' 1000000000 rest \<longleftrightarrow> rest = [] \<or> is_digit (hd rest)"
  "unit_then ''m'' 60000000000 rest \<longleftrightarrow> rest = [] \<or> is_digit (hd rest)"
  "unit_then ''h'' 3600000000000 rest \<longleftrightarrow> rest = [] \<or> is_digit (hd rest)"
  by (auto simp: unit_then_def unit_char_def unit_of_def is_digit_def micro_sign_def)

lemma fmt_frac_whole: "snd (fmt_frac V n) = V div 10 ^ n"
  by (cases V n rule: fmt_frac_cases) auto

text \<open>The three magnitudes of a duration below a second.\<close>

lemma parse_fmt_small:
  assumes "0 < u" and "u < 1000000000"
  shows "parse_items 0 (fmt_unsigned u) = Some u"
proof -
  consider "u < 1000" | "1000 \<le> u" "u < 1000000" | "1000000 \<le> u" by linarith
  then show ?thesis
  proof cases
    case 1
    have "unit_then ''ns'' 1 []" by (simp only: unit_then_simps simp_thms)
    then have "parse_item (fmt_int u @ ''ns'' @ []) = Some (u * 1, [])"
      by (rule parse_item_int) (use 1 in simp)
    then show ?thesis using 1 assms
      by (simp add: fmt_unsigned_def parse_items_step [of _ u "[]"])
  next
    case 2
    obtain fr w where f: "fmt_frac u 3 = (fr, w)" by (cases "fmt_frac u 3")
    have w: "w = u div 1000" using fmt_frac_whole [of u 3] f by simp
    have sum: "w * 1000 + u mod 1000 = u" using w by simp
    have "parse_item (fmt_int w @ fr @ (micro_sign @ ''s'') @ [])
        = Some (w * 1000 + u mod 1000, [])"
      by (rule parse_item_fmt_frac [OF _ _ _ f]) (use assms sum in \<open>auto simp: unit_then_simps\<close>)
    then have "parse_item (fmt_int w @ fr @ micro_sign @ ''s'') = Some (u, [])"
      using sum by simp
    then show ?thesis using 2 assms f
      by (simp add: fmt_unsigned_def parse_items_step [of _ u "[]"])
  next
    case 3
    obtain fr w where f: "fmt_frac u 6 = (fr, w)" by (cases "fmt_frac u 6")
    have w: "w = u div 1000000" using fmt_frac_whole [of u 6] f by simp
    have sum: "w * 1000000 + u mod 1000000 = u" using w by simp
    have "parse_item (fmt_int w @ fr @ ''ms'' @ []) = Some (w * 1000000 + u mod 1000000, [])"
      by (rule parse_item_fmt_frac [OF _ _ _ f]) (use assms sum in \<open>auto simp: unit_then_simps\<close>)
    then have "parse_item (fmt_int w @ fr @ ''ms'') = Some (u, [])"
      using sum by simp
    then show ?thesis using 3 assms f
      by (simp add: fmt_unsigned_def parse_items_step [of _ u "[]"])
  qed
qed

text \<open>A second and more: seconds with a fraction, then minutes, then hours.\<close>

lemma parse_fmt_large:
  assumes "1000000000 \<le> u" and "u \<le> 2 ^ 63"
  shows "parse_items 0 (fmt_unsigned u) = Some u"
proof -
  obtain fr w where f: "fmt_frac u 9 = (fr, w)" by (cases "fmt_frac u 9")
  have w: "w = u div 1000000000" using fmt_frac_whole [of u 9] f by simp
  define m where "m = w div 60"
  define h where "h = m div 60"
  define secs where "secs = fmt_int (w mod 60) @ fr @ ''s''"
  define sv where "sv = (w mod 60) * 1000000000 + u mod 1000000000"
  have total: "h * 3600000000000 + (m mod 60) * 60000000000 + sv = u"
    using div_mult_mod_eq [of w 60] div_mult_mod_eq [of m 60] div_mult_mod_eq [of u 1000000000]
    unfolding w [symmetric] m_def [symmetric] h_def [symmetric] sv_def by linarith
  have "parse_item (fmt_int (w mod 60) @ fr @ ''s'' @ []) = Some (sv, [])"
    unfolding sv_def
    by (rule parse_item_fmt_frac [OF _ _ _ f])
      (use mod_less_divisor [of 60 w] in \<open>auto simp: unit_then_simps\<close>)
  then have ps: "parse_item secs = Some (sv, [])" by (simp add: secs_def)
  have secs_ne: "secs \<noteq> []" and secs_hd: "is_digit (hd secs)"
    using fmt_int_head [of "w mod 60" "fr @ ''s''"] by (auto simp: secs_def)
  have secs: "parse_items d secs = Some (d + sv)" if "d + sv \<le> 2 ^ 63" for d
    using parse_items_step [OF secs_ne ps that] by simp
  have "parse_item (fmt_int (m mod 60) @ ''m'' @ secs) = Some (m mod 60 * 60000000000, secs)"
    by (rule parse_item_int) (use secs_hd mod_less_divisor [of 60 m] in \<open>auto simp: unit_then_simps\<close>)
  then have mins: "parse_items d (fmt_int (m mod 60) @ ''m'' @ secs)
      = Some (d + m mod 60 * 60000000000 + sv)"
    if "d + m mod 60 * 60000000000 + sv \<le> 2 ^ 63" for d
    using that secs by (simp add: parse_items_step)
  consider "m = 0" | "m \<noteq> 0" "h = 0" | "h \<noteq> 0" by blast
  then show ?thesis
  proof cases
    case 1
    then have "fmt_unsigned u = secs" using assms f
      by (simp add: fmt_unsigned_def Let_def m_def secs_def)
    then show ?thesis using secs [of 0] total 1 assms(2) by (simp add: h_def)
  next
    case 2
    then have "fmt_unsigned u = fmt_int (m mod 60) @ ''m'' @ secs" using assms f
      by (simp add: fmt_unsigned_def Let_def m_def h_def secs_def)
    then show ?thesis using mins [of 0] total 2 assms(2) by simp
  next
    case 3
    then have m0: "m \<noteq> 0" by (auto simp: h_def)
    have fu: "fmt_unsigned u = fmt_int h @ ''h'' @ fmt_int (m mod 60) @ ''m'' @ secs"
      using 3 m0 assms f by (simp add: fmt_unsigned_def Let_def m_def h_def secs_def)
    have "h * 3600000000000 \<le> 2 ^ 63" using total assms(2) by linarith
    then have "h \<le> 2 ^ 63 div 3600000000000" by simp
    then have "parse_item (fmt_int h @ ''h'' @ fmt_int (m mod 60) @ ''m'' @ secs)
        = Some (h * 3600000000000, fmt_int (m mod 60) @ ''m'' @ secs)"
      by (intro parse_item_int) (auto simp: unit_then_simps fmt_int_head)
    then show ?thesis
      using fu mins [of "h * 3600000000000"] total assms(2)
      by (simp add: parse_items_step)
  qed
qed

lemma fmt_unsigned_head:
  "fmt_unsigned u \<noteq> [] \<and> is_digit (hd (fmt_unsigned u))"
  using fmt_int_head
  by (auto simp: fmt_unsigned_def Let_def is_digit_def split: prod.splits)

lemma fmt_unsigned_not_0: "fmt_unsigned u \<noteq> ''0''"
proof
  assume a: "fmt_unsigned u = ''0''"
  have "last (fmt_unsigned u) = CHR ''s''"
    by (auto simp: fmt_unsigned_def Let_def split: prod.splits)
  with a show False by simp
qed

lemma parse_duration_string:
  assumes "0 < d" and "d \<le> max_duration"
  shows "parse_duration (duration_string d) = Some d"
proof -
  have nat: "0 < nat d" "nat d \<le> 2 ^ 63 - 1" using assms by (auto simp: max_duration_def)
  have pi: "parse_items 0 (fmt_unsigned (nat d)) = Some (nat d)"
    using parse_fmt_small [of "nat d"] parse_fmt_large [of "nat d"] nat
    by (cases "nat d < 1000000000") auto
  have hd: "fmt_unsigned (nat d) \<noteq> []" "hd (fmt_unsigned (nat d)) \<noteq> CHR ''-''"
    "hd (fmt_unsigned (nat d)) \<noteq> CHR ''+''"
    using fmt_unsigned_head [of "nat d"] by (auto simp: is_digit_def)
  show ?thesis
    using assms nat pi hd fmt_unsigned_not_0 [of "nat d"]
    by (simp add: parse_duration_def duration_string_def Let_def)
qed

end
