(* ===== verification/Workload.thy ===== *)
theory Workload
  imports GoDuration
begin

text \<open>
  The identity of a workload: \<open>internal/providers/providers.go\<close> (\<open>Workload\<close>, \<open>Ref\<close>,
  \<open>EntryResourceRef\<close>, \<open>NormalizeWorkloadName\<close>, \<open>NormalizePodName\<close>) and
  \<open>internal/providers/resourceid.go\<close> (\<open>parseARN\<close>, \<open>ParseResourceID\<close>, \<open>Agrees\<close>,
  \<open>resolveWorkloadIdentity\<close>, \<open>AgreesWithEntryName\<close>). The two regular expressions are
  matchers over the reversed name. Names are ASCII, as Kubernetes and AWS names are: a byte of
  128 or more counts neither as a letter nor as white space.
\<close>

section \<open>Characters and splitting\<close>

definition is_lower :: "char \<Rightarrow> bool" where
  "is_lower c \<longleftrightarrow> 97 \<le> (of_char c :: nat) \<and> (of_char c :: nat) \<le> 122"

definition is_upper :: "char \<Rightarrow> bool" where
  "is_upper c \<longleftrightarrow> 65 \<le> (of_char c :: nat) \<and> (of_char c :: nat) \<le> 90"

definition is_hex :: "char \<Rightarrow> bool" where
  "is_hex c \<longleftrightarrow> is_digit c \<or> (97 \<le> (of_char c :: nat) \<and> (of_char c :: nat) \<le> 102)"

definition is_space :: "char \<Rightarrow> bool" where
  "is_space c \<longleftrightarrow> (of_char c :: nat) = 32 \<or> (9 \<le> (of_char c :: nat) \<and> (of_char c :: nat) \<le> 13)"

definition isAlnum :: "string \<Rightarrow> bool" where
  "isAlnum s \<longleftrightarrow> list_all (\<lambda>c. is_lower c \<or> is_upper c \<or> is_digit c) s"

definition isOrdinal :: "string \<Rightarrow> bool" where
  "isOrdinal s \<longleftrightarrow> s \<noteq> [] \<and> list_all is_digit s"

text \<open>\<open>strings.TrimRight(s, c)\<close> for one character, and \<open>strings.TrimSpace\<close>.\<close>

definition trim_right :: "char \<Rightarrow> string \<Rightarrow> string" where
  "trim_right c s = rev (dropWhile (\<lambda>x. x = c) (rev s))"

definition trim_space :: "string \<Rightarrow> string" where
  "trim_space s = rev (dropWhile is_space (rev (dropWhile is_space s)))"

text \<open>The tail after the last occurrence of a character, with the text before it.\<close>

definition cut_last :: "char \<Rightarrow> string \<Rightarrow> (string \<times> string) option" where
  "cut_last c s = (let t = rev (takeWhile (\<lambda>x. x \<noteq> c) (rev s))
     in if length t = length s then None else Some (take (length s - length t - 1) s, t))"

text \<open>\<open>strings.SplitN(s, c, n)\<close>: at most \<open>n\<close> pieces, the last one unsplit.\<close>

fun split_n :: "nat \<Rightarrow> char \<Rightarrow> string \<Rightarrow> string list" where
  "split_n 0 c s = []"
| "split_n (Suc 0) c s = [s]"
| "split_n (Suc (Suc n)) c s =
     (case cut_byte c s of (a, b, ok) \<Rightarrow> if ok then a # split_n (Suc n) c b else [a])"

text \<open>\<open>strings.IndexAny\<close> as a split: the text before and after the first character of a set.\<close>

fun cut_any :: "string \<Rightarrow> string \<Rightarrow> (string \<times> string) option" where
  "cut_any cs [] = None"
| "cut_any cs (x # s) = (if x \<in> set cs then Some ([], s)
     else map_option (\<lambda>(a, b). (x # a, b)) (cut_any cs s))"

section \<open>Workloads\<close>

datatype resource_scope = ScopeUnknown | ScopeNamespaced | ScopeClusterScoped

record workload =
  wl_kind :: string
  wl_name :: string
  wl_namespace :: string
  wl_region :: string
  wl_account :: string
  wl_scope :: resource_scope

definition Ref :: "workload \<Rightarrow> string" where
  "Ref w = (if wl_namespace w = [] then []
     else if wl_name w = [] then wl_namespace w
     else wl_namespace w @ ''/'' @ wl_name w)"

definition ref_stops :: string where
  "ref_stops = '',;([{''"

definition EntryResourceRef :: "string \<Rightarrow> string" where
  "EntryResourceRef ref =
     (let tok = takeWhile (\<lambda>c. \<not> is_space c) (dropWhile is_space ref)
      in if tok = [] then []
         else (let tok1 = (case cut_any ref_stops tok of None \<Rightarrow> tok | Some (a, _) \<Rightarrow> a)
               in trim_right (CHR ''/'') tok1))"

section \<open>Per-instance suffixes\<close>

definition minFamilyName :: nat where
  "minFamilyName = 2"

text \<open>
  \<open>reDeployPod\<close>: \<open>-[a-f0-9]{8,10}-[a-z0-9]{5}$\<close>. The length of the match, from the end.
\<close>

definition deploy_pod_suffix :: "string \<Rightarrow> nat option" where
  "deploy_pod_suffix name =
     (let r = rev name; t = take 5 r; r1 = drop 5 r
      in if length t = 5 \<and> list_all (\<lambda>c. is_lower c \<or> is_digit c) t
            \<and> r1 \<noteq> [] \<and> hd r1 = CHR ''-''
         then (let r2 = tl r1; n = length (takeWhile is_hex r2)
               in if 8 \<le> n \<and> n \<le> 10 \<and> n < length r2 \<and> r2 ! n = CHR ''-'' then Some (n + 7) else None)
         else None)"

text \<open>\<open>reJobRun\<close>: \<open>-[0-9]{8,9}(?:-[0-9]{1,3})?$\<close>, leftmost match: with the index when there is one.\<close>

definition digits_then_dash :: "nat \<Rightarrow> nat \<Rightarrow> string \<Rightarrow> nat option" where
  "digits_then_dash lo hi r =
     (let n = length (takeWhile is_digit r)
      in if lo \<le> n \<and> n \<le> hi \<and> n < length r \<and> r ! n = CHR ''-'' then Some n else None)"

definition job_run_suffix :: "string \<Rightarrow> nat option" where
  "job_run_suffix name =
     (let r = rev name
      in case digits_then_dash 8 9 r of
           Some n \<Rightarrow> Some (n + 1)
         | None \<Rightarrow>
             (case digits_then_dash 1 3 r of
                None \<Rightarrow> None
              | Some k \<Rightarrow> (case digits_then_dash 8 9 (drop (k + 1) r) of
                            None \<Rightarrow> None | Some n \<Rightarrow> Some (n + 1 + k + 1))))"

definition jobRunSuffix :: "string \<Rightarrow> nat option" where
  "jobRunSuffix name =
     (if name = [] \<or> \<not> is_digit (last name) then None else job_run_suffix name)"

definition isPodHashTail :: "string \<Rightarrow> bool" where
  "isPodHashTail suf \<longleftrightarrow> length suf = 5 \<and> list_ex is_digit suf \<and> isAlnum suf"

text \<open>The family a cut leaves, or the name itself when too little would remain.\<close>

definition family_or_name :: "string \<Rightarrow> nat \<Rightarrow> string" where
  "family_or_name name n =
     (let family = trim_right (CHR ''-'') (take n name)
      in if length family < minFamilyName then name else family)"

definition stripInstanceSuffix :: "string \<Rightarrow> string" where
  "stripInstanceSuffix name =
     (case deploy_pod_suffix name of
        Some m \<Rightarrow> family_or_name name (length name - m)
      | None \<Rightarrow>
          (case cut_last (CHR ''-'') name of
             Some (a, t) \<Rightarrow>
               (if isPodHashTail t then family_or_name name (length a)
                else case jobRunSuffix name of
                       Some m \<Rightarrow> family_or_name name (length name - m) | None \<Rightarrow> name)
           | None \<Rightarrow>
               (case jobRunSuffix name of
                  Some m \<Rightarrow> family_or_name name (length name - m) | None \<Rightarrow> name)))"

definition stripReplicaOrdinal :: "string \<Rightarrow> string" where
  "stripReplicaOrdinal name =
     (case cut_last (CHR ''-'') name of
        None \<Rightarrow> name
      | Some (a, t) \<Rightarrow>
          if \<not> isOrdinal t then name else family_or_name name (length a))"

lemma length_trim_right: "length (trim_right c s) \<le> length s"
  using length_dropWhile_le [of "\<lambda>x. x = c" "rev s"] by (simp add: trim_right_def)

lemma family_or_name_cases:
  assumes "n < length name"
  shows "family_or_name name n = name \<or> length (family_or_name name n) < length name"
  using length_trim_right [of "CHR ''-''" "take n name"] assms
  by (auto simp: family_or_name_def Let_def)

lemma deploy_pod_suffix_bound: "deploy_pod_suffix name = Some m \<Longrightarrow> 0 < m \<and> name \<noteq> []"
  by (auto simp: deploy_pod_suffix_def Let_def split: if_splits)

lemma jobRunSuffix_bound: "jobRunSuffix name = Some m \<Longrightarrow> 0 < m \<and> name \<noteq> []"
  by (auto simp: jobRunSuffix_def job_run_suffix_def Let_def split: if_splits option.splits)

lemma cut_last_length:
  assumes "cut_last c s = Some (a, t)"
  shows "length a < length s"
proof -
  let ?t = "rev (takeWhile (\<lambda>x. x \<noteq> c) (rev s))"
  have "length ?t \<noteq> length s" "a = take (length s - length ?t - 1) s"
    using assms by (auto simp: cut_last_def Let_def split: if_splits)
  moreover have "length ?t \<le> length s" using length_takeWhile_le [of _ "rev s"] by simp
  ultimately show ?thesis by simp
qed

lemma stripInstanceSuffix_cases:
  "stripInstanceSuffix name = name \<or> length (stripInstanceSuffix name) < length name"
proof -
  have f: "n < length name \<Longrightarrow> family_or_name name n = name \<or> length (family_or_name name n) < length name" for n
    by (rule family_or_name_cases)
  have d: "deploy_pod_suffix name = Some m \<Longrightarrow> length name - m < length name" for m
    using deploy_pod_suffix_bound [of name m] by simp
  have j: "jobRunSuffix name = Some m \<Longrightarrow> length name - m < length name" for m
    using jobRunSuffix_bound [of name m] by simp
  show ?thesis
    unfolding stripInstanceSuffix_def
    using f d j cut_last_length [of "CHR ''-''" name]
    by (auto split: option.split prod.split)
qed

text \<open>The rules run to a fixed point; every step that changes the name shortens it.\<close>

function NormalizeWorkloadName :: "string \<Rightarrow> string" where
  "NormalizeWorkloadName name =
     (let next_name = stripInstanceSuffix name
      in if next_name = name then name else NormalizeWorkloadName next_name)"
  by pat_completeness auto
termination
  by (relation "measure length") (use stripInstanceSuffix_cases in auto)

declare NormalizeWorkloadName.simps [simp del]

definition NormalizePodName :: "string \<Rightarrow> string" where
  "NormalizePodName name = stripReplicaOrdinal (NormalizeWorkloadName name)"

lemma Normalize_fixed: "stripInstanceSuffix (NormalizeWorkloadName name) = NormalizeWorkloadName name"
proof (induction name rule: NormalizeWorkloadName.induct)
  case (1 name)
  then show ?case
    by (cases "stripInstanceSuffix name = name") (subst (1 2) NormalizeWorkloadName.simps, simp add: Let_def)+
qed

lemma Normalize_of_fixed: "stripInstanceSuffix name = name \<Longrightarrow> NormalizeWorkloadName name = name"
  by (subst NormalizeWorkloadName.simps) simp

lemma Normalize_idem: "NormalizeWorkloadName (NormalizeWorkloadName name) = NormalizeWorkloadName name"
  by (rule Normalize_of_fixed) (rule Normalize_fixed)

section \<open>Cloud resource identifiers\<close>

definition typelessResourceServices :: "string list" where
  "typelessResourceServices = [''s3'']"

text \<open>\<open>parseARN\<close>: the identifier, the region and the account, or \<open>None\<close> for anything else.\<close>

definition parseARN :: "string \<Rightarrow> (string \<times> string \<times> string) option" where
  "parseARN s =
     (if \<not> has_prefix s ''arn:'' then None
      else (let f = split_n 6 (CHR '':'') s
            in if length f \<noteq> 6 then None
               else if f ! 1 = [] \<or> f ! 2 = [] \<or> f ! 5 = [] then None
               else (let resource = (if f ! 2 \<in> set typelessResourceServices then f ! 5
                       else (case cut_any '':/'' (f ! 5) of None \<Rightarrow> f ! 5 | Some (_, b) \<Rightarrow> b))
                     in if resource = [] then None else Some (resource, f ! 3, f ! 4))))"

record resource_id =
  ri_name :: string
  ri_region :: string
  ri_account :: string

definition ParseResourceID :: "string \<Rightarrow> resource_id" where
  "ParseResourceID name = (case parseARN name of
     None \<Rightarrow> \<lparr>ri_name = NormalizeWorkloadName name, ri_region = [], ri_account = []\<rparr>
   | Some (i, region, account) \<Rightarrow>
       \<lparr>ri_name = NormalizeWorkloadName i, ri_region = region, ri_account = account\<rparr>)"

definition qualifierAgrees :: "string \<Rightarrow> string \<Rightarrow> bool" where
  "qualifierAgrees a b \<longleftrightarrow> a = [] \<or> b = [] \<or> a = b"

definition Agrees :: "resource_id \<Rightarrow> resource_id \<Rightarrow> bool" where
  "Agrees r k \<longleftrightarrow> ri_name r = ri_name k \<and> qualifierAgrees (ri_region r) (ri_region k)
     \<and> qualifierAgrees (ri_account r) (ri_account k)"

definition cloudAccountLabels :: "string list" where
  "cloudAccountLabels = [''account_id'', ''aws_account_id'']"

definition cloudRegionLabels :: "string list" where
  "cloudRegionLabels = [''region'', ''aws_region'']"

fun labelValue :: "(string \<rightharpoonup> string) \<Rightarrow> string list \<Rightarrow> string" where
  "labelValue labels [] = []"
| "labelValue labels (k # ks) =
     (let v = trim_space (mget [] labels k) in if v \<noteq> [] then v else labelValue labels ks)"

definition resolveWorkloadIdentity :: "workload \<Rightarrow> string \<Rightarrow> string \<Rightarrow> workload" where
  "resolveWorkloadIdentity w region account =
     (if wl_name w = [] then w
      else case parseARN (wl_name w) of
             None \<Rightarrow>
               (if wl_kind w \<noteq> [] then w
                else w\<lparr>wl_region := str_or (wl_region w) region,
                       wl_account := str_or (wl_account w) account\<rparr>)
           | Some (bare, arnRegion, arnAccount) \<Rightarrow>
               w\<lparr>wl_name := bare, wl_region := str_or (wl_region w) (str_or arnRegion region),
                 wl_account := str_or (wl_account w) (str_or arnAccount account)\<rparr>)"

definition ResolveWorkloadIdentity :: "workload \<Rightarrow> (string \<rightharpoonup> string) \<Rightarrow> workload" where
  "ResolveWorkloadIdentity w labels =
     resolveWorkloadIdentity w (labelValue labels cloudRegionLabels) (labelValue labels cloudAccountLabels)"

definition ReconcileWorkloadIdentity :: "workload \<Rightarrow> workload \<Rightarrow> workload" where
  "ReconcileWorkloadIdentity w origin = resolveWorkloadIdentity w (wl_region origin) (wl_account origin)"

definition foldsReplicaOrdinal :: "workload \<Rightarrow> bool" where
  "foldsReplicaOrdinal w \<longleftrightarrow> wl_kind w = ''Pod''"

definition workload_ResourceID :: "workload \<Rightarrow> resource_id" where
  "workload_ResourceID w =
     (let i = ParseResourceID (wl_name w);
          n = (if foldsReplicaOrdinal w then stripReplicaOrdinal (ri_name i) else ri_name i)
      in \<lparr>ri_name = n, ri_region = str_or (ri_region i) (wl_region w),
          ri_account = str_or (ri_account i) (wl_account w)\<rparr>)"

definition IdentityName :: "workload \<Rightarrow> string" where
  "IdentityName w = ri_name (workload_ResourceID w)"

definition AgreesWithEntryName :: "workload \<Rightarrow> string \<Rightarrow> bool" where
  "AgreesWithEntryName w name =
     (let req = workload_ResourceID w; entry = ParseResourceID name
      in if Agrees req entry then True
         else if \<not> foldsReplicaOrdinal w then False
         else Agrees req (entry\<lparr>ri_name := stripReplicaOrdinal (ri_name entry)\<rparr>))"

definition ARNResourceName :: "string \<Rightarrow> string" where
  "ARNResourceName name = (case parseARN name of None \<Rightarrow> name | Some (i, _, _) \<Rightarrow> i)"

definition NormalizeResourceName :: "string \<Rightarrow> string" where
  "NormalizeResourceName name = ri_name (ParseResourceID name)"

section \<open>Facts about names\<close>

lemma family_or_name_long: "family_or_name name n = name \<or> minFamilyName \<le> length (family_or_name name n)"
  by (auto simp: family_or_name_def Let_def)

lemma stripInstanceSuffix_long:
  "stripInstanceSuffix name = name \<or> minFamilyName \<le> length (stripInstanceSuffix name)"
  unfolding stripInstanceSuffix_def
  using family_or_name_long [of name] by (auto split: option.split prod.split)

lemma Normalize_long:
  "NormalizeWorkloadName name = name \<or> minFamilyName \<le> length (NormalizeWorkloadName name)"
proof (induction name rule: NormalizeWorkloadName.induct)
  case (1 name)
  show ?case
  proof (cases "stripInstanceSuffix name = name")
    case True
    then show ?thesis by (simp add: Normalize_of_fixed)
  next
    case False
    then have "NormalizeWorkloadName name = NormalizeWorkloadName (stripInstanceSuffix name)"
      by (subst NormalizeWorkloadName.simps) simp
    then show ?thesis using 1 False stripInstanceSuffix_long [of name] by auto
  qed
qed

lemma trim_right_idem [simp]: "trim_right c (trim_right c s) = trim_right c s"
  by (simp add: trim_right_def)

lemma set_trim_right: "set (trim_right c s) \<subseteq> set s"
  using set_dropWhileD by (fastforce simp: trim_right_def)

lemma cut_any_before: "cut_any cs s = Some (a, b) \<Longrightarrow> set a \<inter> set cs = {} \<and> set a \<subseteq> set s"
  by (induction s arbitrary: a) (auto split: if_splits)

lemma cut_any_none: "set s \<inter> set cs = {} \<Longrightarrow> cut_any cs s = None"
  by (induction s) auto

lemma cut_any_absent: "cut_any cs s = None \<Longrightarrow> set s \<inter> set cs = {}"
  by (induction s) (auto split: if_splits)

text \<open>The token \<open>EntryResourceRef\<close> trims: no white space and no list separator in it.\<close>

definition ref_token :: "string \<Rightarrow> string" where
  "ref_token ref = (let tok = takeWhile (\<lambda>c. \<not> is_space c) (dropWhile is_space ref)
     in case cut_any ref_stops tok of None \<Rightarrow> tok | Some (a, _) \<Rightarrow> a)"

lemma EntryResourceRef_token: "EntryResourceRef ref = trim_right (CHR ''/'') (ref_token ref)"
  by (auto simp: EntryResourceRef_def ref_token_def Let_def trim_right_def)

lemma cut_any_prefix:
  "set (case cut_any cs s of None \<Rightarrow> s | Some (a, _) \<Rightarrow> a) \<inter> set cs = {}
   \<and> set (case cut_any cs s of None \<Rightarrow> s | Some (a, _) \<Rightarrow> a) \<subseteq> set s"
proof (cases "cut_any cs s")
  case None
  then show ?thesis using cut_any_absent [OF None] by simp
next
  case (Some ab)
  then show ?thesis using cut_any_before [of cs s "fst ab" "snd ab"] by (cases ab) simp
qed

lemma ref_token_clean:
  "set (ref_token ref) \<inter> set ref_stops = {}" "\<forall>c \<in> set (ref_token ref). \<not> is_space c"
proof -
  let ?tok = "takeWhile (\<lambda>c. \<not> is_space c) (dropWhile is_space ref)"
  have t: "ref_token ref = (case cut_any ref_stops ?tok of None \<Rightarrow> ?tok | Some (a, _) \<Rightarrow> a)"
    by (simp only: ref_token_def Let_def)
  have p: "set (ref_token ref) \<inter> set ref_stops = {} \<and> set (ref_token ref) \<subseteq> set ?tok"
    unfolding t by (rule cut_any_prefix)
  show "set (ref_token ref) \<inter> set ref_stops = {}" by (rule p [THEN conjunct1])
  show "\<forall>c \<in> set (ref_token ref). \<not> is_space c"
    using p [THEN conjunct2] set_takeWhileD [of _ "\<lambda>c. \<not> is_space c"] by blast
qed

lemma ref_token_of_clean:
  assumes "set s \<inter> set ref_stops = {}" and "\<forall>c \<in> set s. \<not> is_space c"
  shows "ref_token s = s"
proof -
  have "dropWhile is_space s = s" using assms(2) by (cases s) auto
  moreover have "takeWhile (\<lambda>c. \<not> is_space c) s = s" using assms(2) by (simp add: takeWhile_eq_all_conv)
  ultimately show ?thesis using assms(1) by (simp only: ref_token_def Let_def cut_any_none option.case)
qed

lemma split_arn:
  assumes "CHR '':'' \<notin> set p" "CHR '':'' \<notin> set v" "CHR '':'' \<notin> set r" "CHR '':'' \<notin> set a"
  shows "split_n 6 (CHR '':'') (''arn:'' @ p @ '':'' @ v @ '':'' @ r @ '':'' @ a @ '':'' @ x)
    = [''arn'', p, v, r, a, x]"
proof -
  have s: "split_n 6 c y = split_n (Suc (Suc (Suc (Suc (Suc (Suc 0)))))) c y" for c y
    by (simp add: numeral_eq_Suc)
  have "cut_byte (CHR '':'') (''arn:'' @ y) = (''arn'', y, True)" for y by simp
  then show ?thesis unfolding s using assms by simp
qed

lemma parseARN_typed:
  assumes "CHR '':'' \<notin> set p" "CHR '':'' \<notin> set v" "CHR '':'' \<notin> set r" "CHR '':'' \<notin> set a"
    and "p \<noteq> []" "v \<noteq> []" "v \<notin> set typelessResourceServices"
    and "set rt \<inter> set '':/'' = {}" "sep \<in> set '':/''" "name \<noteq> []"
  shows "parseARN (''arn:'' @ p @ '':'' @ v @ '':'' @ r @ '':'' @ a @ '':'' @ rt @ sep # name) = Some (name, r, a)"
proof -
  have c: "cut_any '':/'' (rt @ sep # name) = Some (rt, name)"
    using assms(8,9) by (induction rt) auto
  show ?thesis
    using assms split_arn [OF assms(1-4), of "rt @ sep # name"] c
    by (simp add: parseARN_def Let_def)
qed

section \<open>Properties\<close>

text \<open>
  Reducing a name to its controller family terminates, is idempotent, and never
  leaves debris: the name is unchanged or at least two characters long.
\<close>

theorem normalize_name_stable:
  "NormalizeWorkloadName (NormalizeWorkloadName name) = NormalizeWorkloadName name
   \<and> (NormalizeWorkloadName name = name \<or> minFamilyName \<le> length (NormalizeWorkloadName name))"
  using Normalize_idem Normalize_long by blast

text \<open>
  Narrowing a reference for an entry is idempotent, and what it leaves holds no white space
  and no list separator or opening bracket, so the merge gate accepts it.
\<close>

theorem entry_resource_ref_narrow:
  "EntryResourceRef (EntryResourceRef ref) = EntryResourceRef ref
   \<and> (\<forall>c \<in> set (EntryResourceRef ref). \<not> is_space c \<and> c \<notin> set ref_stops)"
proof -
  have clean: "set (EntryResourceRef ref) \<inter> set ref_stops = {}" "\<forall>c \<in> set (EntryResourceRef ref). \<not> is_space c"
    using ref_token_clean [of ref] set_trim_right [of "CHR ''/''" "ref_token ref"]
    by (auto simp: EntryResourceRef_token)
  then show ?thesis
    using ref_token_of_clean [OF clean] by (auto simp: EntryResourceRef_token)
qed

text \<open>
  The two spellings of one cloud resource have one identity. A workload spelled by a
  full ARN and the same workload spelled by the bare identifier, with the account and region on
  its labels, resolve at ingestion to the same workload, whatever else the labels say.
\<close>

theorem arn_and_short_spelling_resolve_alike:
  assumes "CHR '':'' \<notin> set p" "CHR '':'' \<notin> set v" "CHR '':'' \<notin> set r" "CHR '':'' \<notin> set a"
    and "p \<noteq> []" "v \<noteq> []" "r \<noteq> []" "a \<noteq> []" "v \<notin> set typelessResourceServices"
    and "set rt \<inter> set '':/'' = {}" "sep \<in> set '':/''" "name \<noteq> []" "parseARN name = None"
    and "wl_kind w = []" and "labelValue short_labels cloudRegionLabels = r"
    and "labelValue short_labels cloudAccountLabels = a"
  shows "ResolveWorkloadIdentity (w\<lparr>wl_name :=
      ''arn:'' @ p @ '':'' @ v @ '':'' @ r @ '':'' @ a @ '':'' @ rt @ sep # name\<rparr>) arn_labels
    = ResolveWorkloadIdentity (w\<lparr>wl_name := name\<rparr>) short_labels"
  using parseARN_typed [OF assms(1-6,9-12)] assms(7,8,12-16)
  by (simp add: ResolveWorkloadIdentity_def resolveWorkloadIdentity_def str_or_def)

lemma arn_and_short_spelling_resolve_alike_witness:
  "let w = \<lparr>wl_kind = [], wl_name = [], wl_namespace = ''exporter'', wl_region = [], wl_account = [],
       wl_scope = ScopeUnknown\<rparr>
   in ResolveWorkloadIdentity (w\<lparr>wl_name := ''arn:aws:rds:eu-1:111:db:pg''\<rparr>) Map.empty
     = ResolveWorkloadIdentity (w\<lparr>wl_name := ''pg''\<rparr>) [''account_id'' \<mapsto> ''111'', ''region'' \<mapsto> ''eu-1'']"
  using arn_and_short_spelling_resolve_alike [of "''aws''" "''rds''" "''eu-1''" "''111''" "''db''"
      "CHR '':''" "''pg''" "\<lparr>wl_kind = [], wl_name = [], wl_namespace = ''exporter'', wl_region = [],
        wl_account = [], wl_scope = ScopeUnknown\<rparr>"
      "[''account_id'' \<mapsto> ''111'', ''region'' \<mapsto> ''eu-1'']" Map.empty]
  by (simp add: typelessResourceServices_def parseARN_def cloudRegionLabels_def cloudAccountLabels_def
      mget_def trim_space_def is_space_def Let_def)

text \<open>
  A workload never matches an entry filed under another account or region: when both
  sides carry the qualifier, a match means the qualifiers are equal; and a workload always matches
  an entry filed under its own name.
\<close>

theorem entry_match_respects_scope:
  "(AgreesWithEntryName w name \<longrightarrow>
     qualifierAgrees (ri_account (workload_ResourceID w)) (ri_account (ParseResourceID name))
     \<and> qualifierAgrees (ri_region (workload_ResourceID w)) (ri_region (ParseResourceID name)))
   \<and> (parseARN (wl_name w) = None \<longrightarrow> AgreesWithEntryName w (wl_name w))"
proof -
  have "parseARN (wl_name w) = None \<Longrightarrow> AgreesWithEntryName w (wl_name w)"
    by (auto simp: AgreesWithEntryName_def workload_ResourceID_def ParseResourceID_def Agrees_def
        qualifierAgrees_def Let_def)
  moreover have "AgreesWithEntryName w name \<Longrightarrow>
     qualifierAgrees (ri_account (workload_ResourceID w)) (ri_account (ParseResourceID name))
     \<and> qualifierAgrees (ri_region (workload_ResourceID w)) (ri_region (ParseResourceID name))"
    by (auto simp: AgreesWithEntryName_def Let_def Agrees_def split: if_splits)
  ultimately show ?thesis by blast
qed

lemma entry_match_respects_scope_witness:
  "AgreesWithEntryName \<lparr>wl_kind = ''Pod'', wl_name = ''vm-0'', wl_namespace = ''m'', wl_region = [],
     wl_account = [], wl_scope = ScopeUnknown\<rparr> ''vm-0''"
  using entry_match_respects_scope [of "\<lparr>wl_kind = ''Pod'', wl_name = ''vm-0'', wl_namespace = ''m'',
     wl_region = [], wl_account = [], wl_scope = ScopeUnknown\<rparr>" "''vm-0''"]
  by (simp add: parseARN_def)

end
