(* ===== verification/RateLimit.thy ===== *)
theory RateLimit
  imports Prelude
begin

text \<open>
  \<open>internal/ratelimit/window.go\<close>: a sliding-window limiter (\<open>Allow\<close>, \<open>Refund\<close>, \<open>Count\<close>).
  The same pattern is written out in \<open>internal/action/auto.go\<close> (\<open>reserve\<close>) and, beside a second
  ceiling, in \<open>internal/thread/budget.go\<close>, so its contract is the locale \<open>recording_limiter\<close>, with
  \<open>sliding_limiter\<close> where a full window is the only reason to refuse, interpreted here for
  \<open>Window\<close>, in the theory of the action gate for \<open>Auto\<close> and in the theory of the chat budget. An attempt reads
  the clock twice, once for the cutoff and once for the timestamp it records; a run is bounded for every non-decreasing sequence of readings.
\<close>

section \<open>The contract\<close>

definition slide :: "duration \<Rightarrow> gotime \<Rightarrow> gotime list \<Rightarrow> gotime list" where
  "slide W now ts = filter (\<lambda>t. t > now - W) ts"

text \<open>How many of the recorded instants lie in the window of length \<open>W\<close> that starts at \<open>a\<close>.\<close>

definition in_window :: "duration \<Rightarrow> gotime \<Rightarrow> gotime list \<Rightarrow> nat" where
  "in_window W a ts = length (filter (\<lambda>t. a < t \<and> t \<le> a + W) ts)"

lemma in_window_append [simp]: "in_window W a (xs @ ys) = in_window W a xs + in_window W a ys"
  by (simp add: in_window_def)

lemma in_window_butlast: "in_window W a (butlast ts) \<le> in_window W a ts"
  by (induction ts rule: rev_induct) simp_all

text \<open>The clock readings of a run; \<open>None\<close> is an operation that reads no clock.\<close>

fun readings :: "(gotime \<times> gotime) option list \<Rightarrow> gotime list" where
  "readings [] = []"
| "readings (None # rs) = readings rs"
| "readings (Some (n, n') # rs) = n # n' # readings rs"

lemma sorted_from: "sorted (rs :: gotime list) \<Longrightarrow> \<exists>m. sorted (m # rs)"
  by (cases rs) auto

locale recording_limiter =
  fixes attempt :: "gotime \<Rightarrow> gotime \<Rightarrow> 's \<Rightarrow> bool \<times> 's" and recent :: "'s \<Rightarrow> gotime list"
    and W :: duration and limit :: nat and configured :: "'s \<Rightarrow> bool"
  assumes window_pos: "configured s \<Longrightarrow> 0 < W"
    and attempt_granted: "configured s \<Longrightarrow> attempt n n' s = (True, s') \<Longrightarrow>
      configured s' \<and> recent s' = slide W n (recent s) @ [n'] \<and> length (slide W n (recent s)) < limit"
    and attempt_refused: "configured s \<Longrightarrow> attempt n n' s = (False, s') \<Longrightarrow>
      configured s' \<and> recent s' = slide W n (recent s)"
begin

text \<open>
  \<open>tracks s G c m\<close>: the state remembers exactly the granted instants \<open>G\<close> later than \<open>c\<close>, all of
  them at most \<open>m\<close>, and no window of length \<open>W\<close> holds more than \<open>limit\<close> of \<open>G\<close>.
\<close>

definition tracks :: "'s \<Rightarrow> gotime list \<Rightarrow> gotime \<Rightarrow> gotime \<Rightarrow> bool" where
  "tracks s G c m \<longleftrightarrow> configured s \<and> recent s = filter (\<lambda>t. t > c) G \<and> sorted G
     \<and> (\<forall>t \<in> set G. t \<le> m) \<and> c \<le> m - W \<and> (\<forall>a. in_window W a G \<le> limit)"

lemma tracks_init: "configured s \<Longrightarrow> recent s = [] \<Longrightarrow> tracks s [] (m - W) m"
  by (simp add: tracks_def in_window_def)

lemma tracks_frame:
  "tracks s G c m \<Longrightarrow> configured x \<Longrightarrow> recent x = recent s \<Longrightarrow> m \<le> m' \<Longrightarrow> tracks x G c m'"
  by (fastforce simp: tracks_def)

lemma tracks_configured: "tracks s G c m \<Longrightarrow> configured s"
  by (simp add: tracks_def)

lemma tracks_bound: "tracks s G c m \<Longrightarrow> in_window W a G \<le> limit"
  by (simp add: tracks_def)

lemma slide_tracks:
  assumes "tracks s G c m" and "m \<le> n"
  shows "slide W n (recent s) = filter (\<lambda>t. t > n - W) G"
proof -
  have "c \<le> n - W" using assms by (simp add: tracks_def)
  then have "filter (\<lambda>x. c < x \<and> n - W < x) G = filter (\<lambda>t. t > n - W) G"
    by (intro filter_cong) auto
  then show ?thesis using assms(1) by (simp add: tracks_def slide_def conj_commute)
qed

lemma tracks_granted:
  assumes t: "tracks s G c m" and "m \<le> n" "n \<le> n'" and at: "attempt n n' s = (True, s')"
  shows "tracks s' (G @ [n']) (n - W) n'"
proof -
  have conf: "configured s" and srt: "sorted G" and le: "\<forall>t \<in> set G. t \<le> m"
    and bd: "\<And>a. in_window W a G \<le> limit" using t by (auto simp: tracks_def)
  from attempt_granted [OF conf at] slide_tracks [OF t assms(2)]
  have s': "configured s'" "recent s' = filter (\<lambda>t. t > n - W) G @ [n']"
    and few: "length (filter (\<lambda>t. t > n - W) G) < limit" by auto
  have "in_window W a (G @ [n']) \<le> limit" for a
  proof (cases "a < n' \<and> n' \<le> a + W")
    case True
    then have "n - W \<le> a" using assms(3) by simp
    then have "length (filter (\<lambda>t. a < t \<and> t \<le> a + W) G) \<le> length (filter (\<lambda>t. t > n - W) G)"
      by (induction G) auto
    then show ?thesis using few True by (simp add: in_window_def)
  next
    case False
    then show ?thesis using bd [of a] by (auto simp: in_window_def)
  qed
  moreover have "sorted (G @ [n'])" using srt le assms(2,3) by (fastforce simp: sorted_append)
  moreover have "n - W < n'" using window_pos [OF conf] assms(3) by simp
  ultimately show ?thesis
    using s' le assms(2,3) by (fastforce simp: tracks_def)
qed

lemma tracks_slid:
  assumes t: "tracks s G c m" and "m \<le> n" and "configured x" "recent x = slide W n (recent s)"
  shows "tracks x G (n - W) n"
  using assms(2-) slide_tracks [OF t assms(2)] t by (fastforce simp: tracks_def)

lemma tracks_refused:
  assumes t: "tracks s G c m" and "m \<le> n" "n \<le> n'" and at: "attempt n n' s = (False, s')"
  shows "tracks s' G (n - W) n'"
proof -
  have r: "configured s'" "recent s' = slide W n (recent s)"
    using attempt_refused [OF tracks_configured [OF t] at] by simp_all
  show ?thesis by (rule tracks_frame [OF tracks_slid [OF t assms(2) r] r(1) refl assms(3)])
qed

text \<open>A run of attempts; every pair holds the two clock readings of one attempt.\<close>

definition attempt_step :: "gotime \<times> gotime \<Rightarrow> 's \<times> gotime list \<Rightarrow> 's \<times> gotime list" where
  "attempt_step c sg = (case attempt (fst c) (snd c) (fst sg) of (ok, s') \<Rightarrow>
     (s', if ok then snd sg @ [snd c] else snd sg))"

lemma attempts_bounded:
  assumes "tracks s G c m" and "sorted (m # concat (map (\<lambda>(n, n'). [n, n']) cs))"
  shows "\<exists>c' m'. tracks (fst (fold attempt_step cs (s, G))) (snd (fold attempt_step cs (s, G))) c' m'"
  using assms
proof (induction cs arbitrary: s G c m)
  case Nil
  then show ?case by auto
next
  case (Cons p cs)
  obtain n n' where p: "p = (n, n')" by (cases p)
  obtain ok s' where a: "attempt n n' s = (ok, s')" by (cases "attempt n n' s")
  have le: "m \<le> n" "n \<le> n'" and rest: "sorted (n' # concat (map (\<lambda>(n, n'). [n, n']) cs))"
    using Cons.prems(2) by (auto simp: p)
  show ?case
  proof (cases ok)
    case True
    with tracks_granted [OF Cons.prems(1) le] a have "tracks s' (G @ [n']) (n - W) n'" by simp
    from Cons.IH [OF this rest] show ?thesis by (simp add: attempt_step_def p a True)
  next
    case False
    with tracks_refused [OF Cons.prems(1) le] a have "tracks s' G (n - W) n'" by simp
    from Cons.IH [OF this rest] show ?thesis by (simp add: attempt_step_def p a False)
  qed
qed

end

text \<open>A limiter that refuses for no other reason than a full window.\<close>

locale sliding_limiter = recording_limiter attempt recent W limit configured
  for attempt :: "gotime \<Rightarrow> gotime \<Rightarrow> 's \<Rightarrow> bool \<times> 's" and recent :: "'s \<Rightarrow> gotime list"
    and W :: duration and limit :: nat and configured :: "'s \<Rightarrow> bool" +
  assumes attempt_full: "configured s \<Longrightarrow> attempt n n' s = (False, s') \<Longrightarrow> limit \<le> length (slide W n (recent s))"
begin

lemma refusal_means_full:
  assumes "tracks s G c m" and "m \<le> n" and "attempt n n' s = (False, s')"
  shows "limit \<le> in_window W (n - W) G"
proof -
  have "\<forall>t \<in> set G. t \<le> n" using assms(1,2) by (fastforce simp: tracks_def)
  then have "filter (\<lambda>t. t > n - W) G = filter (\<lambda>t. n - W < t \<and> t \<le> n - W + W) G"
    by (intro filter_cong) auto
  then show ?thesis
    using attempt_full [OF tracks_configured [OF assms(1)] assms(3)] slide_tracks [OF assms(1,2)]
    by (simp add: in_window_def)
qed

end

text \<open>A limiter whose caller may hand a token back.\<close>

locale refunding_limiter = sliding_limiter attempt recent W limit configured
  for attempt :: "gotime \<Rightarrow> gotime \<Rightarrow> 's \<Rightarrow> bool \<times> 's" and recent :: "'s \<Rightarrow> gotime list"
    and W :: duration and limit :: nat and configured :: "'s \<Rightarrow> bool" +
  fixes refund :: "'s \<Rightarrow> 's"
  assumes refund_configured: "configured s \<Longrightarrow> configured (refund s)"
    and refund_recent: "configured s \<Longrightarrow> recent (refund s) = butlast (recent s)"
begin

text \<open>
  A refund takes back the newest granted instant, when it is still remembered.
\<close>

definition returned :: "'s \<Rightarrow> gotime list \<Rightarrow> gotime list" where
  "returned s G = (if recent s = [] then G else butlast G)"

lemma filter_butlast_sorted:
  assumes "sorted G" and "filter (\<lambda>t. t > c) G \<noteq> []"
  shows "filter (\<lambda>t. t > c) (butlast G) = butlast (filter (\<lambda>t. t > c) G)"
proof (cases G rule: rev_cases)
  case Nil
  then show ?thesis by simp
next
  case (snoc xs x)
  obtain y where "y \<in> set G" "c < y" using assms(2) by (auto simp: filter_empty_conv)
  then have "c < x" using assms(1) snoc by (auto simp: sorted_append)
  then show ?thesis by (simp add: snoc)
qed

lemma tracks_refund:
  assumes t: "tracks s G c m"
  shows "tracks (refund s) (returned s G) c m"
proof -
  have conf: "configured s" and r: "recent s = filter (\<lambda>t. t > c) G" and srt: "sorted G"
    and le: "\<forall>t \<in> set G. t \<le> m" and bd: "\<And>a. in_window W a G \<le> limit" using t by (auto simp: tracks_def)
  have b: "\<And>a. in_window W a (butlast G) \<le> limit"
    using bd in_window_butlast order_trans by blast
  show ?thesis
  proof (cases "recent s = []")
    case True
    then show ?thesis using t refund_configured [OF conf] refund_recent [OF conf]
      by (simp add: tracks_def returned_def)
  next
    case False
    then have "recent (refund s) = filter (\<lambda>t. t > c) (butlast G)"
      using refund_recent [OF conf] filter_butlast_sorted [OF srt] r by simp
    then show ?thesis
      using False t refund_configured [OF conf] b le srt
      by (auto simp: tracks_def returned_def sorted_butlast dest: in_set_butlastD)
  qed
qed

text \<open>A run of attempts and refunds: \<open>Some\<close> the two clock readings, or \<open>None\<close> for a refund.\<close>

definition limiter_step :: "(gotime \<times> gotime) option \<Rightarrow> 's \<times> gotime list \<Rightarrow> 's \<times> gotime list" where
  "limiter_step r sg = (case r of None \<Rightarrow> (refund (fst sg), returned (fst sg) (snd sg))
     | Some c \<Rightarrow> attempt_step c sg)"

lemma limiter_step_tracks:
  assumes "tracks (fst sg) (snd sg) c m" and "case r of None \<Rightarrow> m' = m | Some (n, n') \<Rightarrow> m \<le> n \<and> n \<le> n' \<and> m' = n'"
  shows "\<exists>c'. tracks (fst (limiter_step r sg)) (snd (limiter_step r sg)) c' m'"
proof (cases r)
  case None
  then show ?thesis using tracks_refund [OF assms(1)] assms(2) by (auto simp: limiter_step_def)
next
  case (Some p)
  obtain n n' where p: "p = (n, n')" by (cases p)
  obtain ok s' where a: "attempt n n' (fst sg) = (ok, s')" by (cases "attempt n n' (fst sg)")
  have le: "m \<le> n" "n \<le> n'" "m' = n'" using assms(2) by (simp_all add: Some p)
  show ?thesis
    using tracks_granted [OF assms(1) le(1,2)] tracks_refused [OF assms(1) le(1,2)] a
    by (cases ok) (auto simp: limiter_step_def attempt_step_def Some p le(3))
qed

lemma run_tracks:
  assumes "tracks (fst sg) (snd sg) c m" and "sorted (m # readings rs)"
  shows "\<exists>c' m'. tracks (fst (fold limiter_step rs sg)) (snd (fold limiter_step rs sg)) c' m'"
  using assms
proof (induction rs arbitrary: sg c m)
  case Nil
  then show ?case by auto
next
  case (Cons r rs)
  define m' where "m' = (case r of None \<Rightarrow> m | Some (n, n') \<Rightarrow> n')"
  have "\<exists>c'. tracks (fst (limiter_step r sg)) (snd (limiter_step r sg)) c' m'"
    using Cons.prems by (intro limiter_step_tracks [of sg c m]) (auto simp: m'_def split: option.splits)
  moreover have "sorted (m' # readings rs)"
    using Cons.prems(2) by (auto simp: m'_def split: option.splits)
  ultimately show ?case using Cons.IH by (simp add: limiter_step_def) blast
qed

lemma grants_bounded:
  assumes "configured s" and "recent s = []" and "sorted (readings rs)"
  shows "in_window W a (snd (fold limiter_step rs (s, []))) \<le> limit"
proof -
  obtain m where "sorted (m # readings rs)" using sorted_from [OF assms(3)] ..
  then obtain c' m' where "tracks (fst (fold limiter_step rs (s, []))) (snd (fold limiter_step rs (s, []))) c' m'"
    using run_tracks [of "(s, [])" "m - W" m rs] tracks_init [OF assms(1,2)] by auto
  then show ?thesis by (simp add: tracks_def)
qed

end

section \<open>The window\<close>

record window =
  w_max :: int
  w_window :: duration
  w_recent :: "gotime list"

definition New_window :: "int \<Rightarrow> duration \<Rightarrow> window" where
  "New_window maxEvents w = \<lparr>w_max = maxEvents, w_window = w, w_recent = []\<rparr>"

definition slideLocked :: "gotime \<Rightarrow> window \<Rightarrow> window" where
  "slideLocked now w = w\<lparr>w_recent := slide (w_window w) now (w_recent w)\<rparr>"

definition Allow :: "gotime \<Rightarrow> gotime \<Rightarrow> window \<Rightarrow> bool \<times> window" where
  "Allow now now' w =
     (if w_max w \<le> 0 then (True, w)
      else (let w1 = slideLocked now w
            in if int (length (w_recent w1)) \<ge> w_max w then (False, w1)
               else (True, w1\<lparr>w_recent := w_recent w1 @ [now']\<rparr>)))"

definition Refund :: "window \<Rightarrow> window" where
  "Refund w = (if w_max w \<le> 0 then w
     else if w_recent w = [] then w else w\<lparr>w_recent := butlast (w_recent w)\<rparr>)"

definition Count :: "gotime \<Rightarrow> window \<Rightarrow> int \<times> window" where
  "Count now w = (let w1 = slideLocked now w in (int (length (w_recent w1)), w1))"

interpretation window_limiter: refunding_limiter Allow w_recent W limit
    "\<lambda>w. w_window w = W \<and> w_max w = int limit \<and> 0 < limit \<and> 0 < W" Refund for W limit
  by unfold_locales
    (auto simp: Allow_def Refund_def slideLocked_def Let_def split: if_splits)

text \<open>\<open>Count\<close> drops expired instants and grants nothing: what follows is unaffected.\<close>

lemma Count_Allow:
  assumes "now \<le> n" and "0 < w_max w"
  shows "Allow n n' (snd (Count now w)) = Allow n n' w"
proof -
  have "slide W n (slide W now ts) = slide W n ts" for W ts
    using assms(1) by (auto simp: slide_def intro: filter_cong)
  then show ?thesis using assms(2) by (auto simp: Allow_def Count_def slideLocked_def Let_def)
qed

section \<open>Properties\<close>

definition window_run :: "(gotime \<times> gotime) option list \<Rightarrow> window \<times> gotime list \<Rightarrow> window \<times> gotime list" where
  "window_run rs = fold (\<lambda>r sg. case r of
       None \<Rightarrow> (Refund (fst sg), if w_recent (fst sg) = [] then snd sg else butlast (snd sg))
     | Some (n, n') \<Rightarrow> (case Allow n n' (fst sg) of (ok, w) \<Rightarrow> (w, if ok then snd sg @ [n'] else snd sg))) rs"

text \<open>
  The limiter bounds its grants. For every sequence of attempts and refunds on a new
  window with a positive maximum, with clock readings that never go back, no interval as long as
  the window holds more than the maximum of granted and not refunded events.
\<close>

theorem window_bounds_grants:
  assumes "0 < n" and "0 < w" and "sorted (readings rs)"
  shows "int (in_window w a (snd (window_run rs (New_window n w, [])))) \<le> n"
proof -
  have "window_run rs = fold window_limiter.limiter_step rs"
    unfolding window_run_def window_limiter.limiter_step_def window_limiter.attempt_step_def
      window_limiter.returned_def
    by (intro arg_cong [where f = "\<lambda>f. fold f rs"] ext) (auto split: option.split prod.split)
  moreover have "in_window w a (snd (fold window_limiter.limiter_step rs (New_window n w, []))) \<le> nat n"
    using assms by (intro window_limiter.grants_bounded) (simp_all add: New_window_def)
  ultimately show ?thesis using assms(1) by simp
qed

lemma window_bounds_grants_witness:
  "int (in_window 10 0 (snd (window_run [Some (1, 1), Some (2, 2), None, Some (3, 3), Some (4, 4)]
     (New_window 1 10, [])))) \<le> 1"
  by (rule window_bounds_grants) (simp_all add: readings.simps)

end
