(* ===== verification/AuditLog.thy ===== *)
theory AuditLog
  imports Prelude
begin

text \<open>
  \<open>internal/audit/audit.go\<close>: the append-only, hash-chained log of action attempts. A line is
  \<open>None\<close> when it does not parse as a record. The hash of a record's JSON (SHA-256, from Go's
  \<open>crypto\<close>) is the parameter \<open>h\<close>, applied to the record with an empty hash field; where a
  property needs it, it is assumed not to collide on the records at hand. A write may fail before
  any byte, be cut short, or succeed and then fail in \<open>fsync\<close>.
\<close>

section \<open>Records and verification\<close>

datatype decision = DecisionExecuted | DecisionDryRun | DecisionSkipped | DecisionDenied | DecisionFailed

record audit_record =
  ar_time :: gotime
  ar_actor :: string
  ar_op :: string
  ar_target :: string
  ar_decision :: decision
  ar_reason :: string
  ar_prevHash :: string
  ar_hash :: string

definition hashRecord :: "(audit_record \<Rightarrow> string) \<Rightarrow> audit_record \<Rightarrow> string" where
  "hashRecord h r = h (r\<lparr>ar_hash := []\<rparr>)"

datatype chain_error = BadRecord nat | PrevMismatch nat | HashMismatch nat

text \<open>\<open>verifyChain\<close>: the hash of the last record, or the first broken link.\<close>

fun verify_from :: "(audit_record \<Rightarrow> string) \<Rightarrow> nat \<Rightarrow> string \<Rightarrow> audit_record option list \<Rightarrow> chain_error + string" where
  "verify_from h n prev [] = Inr prev"
| "verify_from h n prev (None # ls) = Inl (BadRecord (n + 1))"
| "verify_from h n prev (Some r # ls) =
     (if ar_prevHash r \<noteq> prev then Inl (PrevMismatch (n + 1))
      else if hashRecord h r \<noteq> ar_hash r then Inl (HashMismatch (n + 1))
      else verify_from h (n + 1) (ar_hash r) ls)"

definition verifyChain :: "(audit_record \<Rightarrow> string) \<Rightarrow> audit_record option list \<Rightarrow> chain_error + string" where
  "verifyChain h ls = verify_from h 0 [] ls"

definition Verify_chain :: "(audit_record \<Rightarrow> string) \<Rightarrow> audit_record option list \<Rightarrow> chain_error option" where
  "Verify_chain h ls = (case verifyChain h ls of Inl e \<Rightarrow> Some e | Inr _ \<Rightarrow> None)"

text \<open>\<open>lastHash\<close>: the hash of the last record that parses and carries one.\<close>

definition lastHash :: "audit_record option list \<Rightarrow> string" where
  "lastHash ls = fold (\<lambda>x lh. case x of None \<Rightarrow> lh | Some r \<Rightarrow> if ar_hash r \<noteq> [] then ar_hash r else lh) ls []"

section \<open>The logger\<close>

datatype log_outcome = LogOk | LogWriteFails | LogShortWrite | LogSyncFails

record logger =
  lg_lines :: "audit_record option list"
  lg_torn :: bool
  lg_lastHash :: string

definition Open_log :: "audit_record option list \<Rightarrow> bool \<Rightarrow> logger" where
  "Open_log ls torn = \<lparr>lg_lines = ls, lg_torn = torn, lg_lastHash = lastHash ls\<rparr>"

definition OpenVerified ::
  "(audit_record \<Rightarrow> string) \<Rightarrow> audit_record option list \<Rightarrow> bool \<Rightarrow> chain_error + logger" where
  "OpenVerified h ls torn = (case verifyChain h ls of
     Inl e \<Rightarrow> Inl e
   | Inr lh \<Rightarrow> Inr \<lparr>lg_lines = ls, lg_torn = torn, lg_lastHash = lh\<rparr>)"

definition log_append :: "audit_record option \<Rightarrow> logger \<Rightarrow> logger" where
  "log_append x l = (if lg_torn l then l\<lparr>lg_torn := False\<rparr> else l\<lparr>lg_lines := lg_lines l @ [x]\<rparr>)"

text \<open>The record that is written: the clock fills a missing time, the chain fills both hashes.\<close>

definition chained :: "(audit_record \<Rightarrow> string) \<Rightarrow> gotime \<Rightarrow> string \<Rightarrow> audit_record \<Rightarrow> audit_record" where
  "chained h now lh r =
     (let r1 = (if is_zero_time (ar_time r) then r\<lparr>ar_time := now\<rparr> else r);
          r2 = r1\<lparr>ar_prevHash := lh, ar_hash := []\<rparr>
      in r2\<lparr>ar_hash := hashRecord h r2\<rparr>)"

text \<open>The flag says whether \<open>Log\<close> returned without error.\<close>

definition Log :: "(audit_record \<Rightarrow> string) \<Rightarrow> log_outcome \<Rightarrow> gotime \<Rightarrow> audit_record \<Rightarrow> logger \<Rightarrow> bool \<times> logger" where
  "Log h io now r0 l =
     (let r = chained h now (lg_lastHash l) r0
      in case io of
           LogWriteFails \<Rightarrow> (False, l)
         | LogShortWrite \<Rightarrow> (False, (log_append None l)\<lparr>lg_torn := True\<rparr>)
         | LogSyncFails \<Rightarrow> (False, log_append (Some r) l)
         | LogOk \<Rightarrow> (True, (log_append (Some r) l)\<lparr>lg_lastHash := ar_hash r\<rparr>))"

section \<open>Facts\<close>

lemma verify_from_append:
  "verify_from h n prev (xs @ ys) = (case verify_from h n prev xs of
     Inl e \<Rightarrow> Inl e | Inr lh \<Rightarrow> verify_from h (n + length xs) lh ys)"
  by (induction h n prev xs rule: verify_from.induct) (auto split: sum.split)

lemma chained_simps [simp]:
  "ar_prevHash (chained h now lh r) = lh"
  "hashRecord h (chained h now lh r) = ar_hash (chained h now lh r)"
  by (simp_all add: chained_def hashRecord_def Let_def)

lemma verify_chained:
  "verifyChain h ls = Inr lh \<Longrightarrow>
     verifyChain h (ls @ [Some (chained h now lh r)]) = Inr (ar_hash (chained h now lh r))"
  by (simp add: verifyChain_def verify_from_append)

definition log_run :: "(audit_record \<Rightarrow> string) \<Rightarrow> (log_outcome \<times> gotime \<times> audit_record) list \<Rightarrow> logger \<Rightarrow> logger" where
  "log_run h rs l = fold (\<lambda>(io, now, r) l. snd (Log h io now r l)) rs l"

lemma log_run_chain:
  assumes "verifyChain h (lg_lines l) = Inr (lg_lastHash l)" and "\<not> lg_torn l"
    and "\<forall>(io, now, r) \<in> set rs. io = LogOk \<or> io = LogWriteFails"
  shows "verifyChain h (lg_lines (log_run h rs l)) = Inr (lg_lastHash (log_run h rs l))
    \<and> \<not> lg_torn (log_run h rs l)"
  using assms
proof (induction rs arbitrary: l)
  case Nil
  then show ?case by (simp add: log_run_def)
next
  case (Cons x rs)
  obtain io now r where x: "x = (io, now, r)" by (cases x)
  let ?l = "snd (Log h io now r l)"
  have "verifyChain h (lg_lines ?l) = Inr (lg_lastHash ?l) \<and> \<not> lg_torn ?l"
    using Cons.prems verify_chained [OF Cons.prems(1)]
    by (auto simp: x Log_def Let_def log_append_def)
  then show ?case using Cons.IH [of ?l] Cons.prems(3) by (simp add: log_run_def x)
qed

text \<open>Two verified chains that end in the same hash are the same chain.\<close>

lemma verify_snoc:
  "verifyChain h (xs @ [x]) = Inr lh \<Longrightarrow>
     \<exists>r. x = Some r \<and> verifyChain h xs = Inr (ar_prevHash r) \<and> hashRecord h r = ar_hash r \<and> lh = ar_hash r"
  by (cases x) (auto simp: verifyChain_def verify_from_append split: sum.splits if_splits)

lemma chains_equal:
  assumes "verifyChain h xs = Inr lh" and "verifyChain h ys = Inr lh"
    and "inj_on (hashRecord h) {r. Some r \<in> set xs \<union> set ys}"
    and "\<forall>r. hashRecord h r \<noteq> []"
  shows "xs = ys"
  using assms
proof (induction xs arbitrary: ys lh rule: rev_induct)
  case Nil
  then have "lh = []" by (simp add: verifyChain_def)
  show ?case
  proof (cases ys rule: rev_cases)
    case Nil
    then show ?thesis by simp
  next
    case (snoc ys' y)
    then obtain r where "hashRecord h r = []"
      using Nil.prems(2) verify_snoc [of h ys' y lh] \<open>lh = []\<close> by auto
    then show ?thesis using Nil.prems(4) by simp
  qed
next
  case prem: (snoc x xs)
  obtain r where r: "x = Some r" "verifyChain h xs = Inr (ar_prevHash r)" "hashRecord h r = ar_hash r"
      "lh = ar_hash r" using verify_snoc [OF prem.prems(1)] by blast
  show ?case
  proof (cases ys rule: rev_cases)
    case Nil
    then show ?thesis using prem.prems(2,4) r by (simp add: verifyChain_def)
  next
    case (snoc ys' y)
    obtain q where q: "y = Some q" "verifyChain h ys' = Inr (ar_prevHash q)" "hashRecord h q = ar_hash q"
      "lh = ar_hash q" using verify_snoc [of h ys' y lh] prem.prems(2) snoc by auto
    have "r = q"
      using prem.prems(3) r q snoc by (auto simp: inj_on_def)
    moreover have "xs = ys'"
      by (rule prem.IH [OF r(2)]) (use q(2) \<open>r = q\<close> prem.prems(3,4) snoc in \<open>auto intro: inj_on_subset\<close>)
    ultimately show ?thesis using r q snoc by simp
  qed
qed

section \<open>Properties\<close>

text \<open>
  A log that was opened verified stays verifiable: after any appends that succeed or
  fail before writing, the file verifies, its last hash is the one the logger chains from, and it
  can be opened verified again.
\<close>

theorem audit_log_stays_verified:
  assumes "OpenVerified h ls False = Inr l"
    and "\<forall>(io, now, r) \<in> set rs. io = LogOk \<or> io = LogWriteFails"
  shows "OpenVerified h (lg_lines (log_run h rs l)) False = Inr (log_run h rs l)"
proof -
  have "verifyChain h (lg_lines l) = Inr (lg_lastHash l)" "\<not> lg_torn l"
    using assms(1) by (auto simp: OpenVerified_def split: sum.splits)
  from log_run_chain [OF this assms(2)] show ?thesis
    by (cases "log_run h rs l") (simp add: OpenVerified_def)
qed

definition demo_hash :: "audit_record \<Rightarrow> string" where
  "demo_hash r = ''h'' @ ar_prevHash r @ ar_op r"

definition demo_record :: "string \<Rightarrow> audit_record" where
  "demo_record op = \<lparr>ar_time = 1, ar_actor = ''auto'', ar_op = op, ar_target = ''t'',
     ar_decision = DecisionExecuted, ar_reason = [], ar_prevHash = [], ar_hash = []\<rparr>"

lemma audit_log_stays_verified_witness:
  "let l = \<lparr>lg_lines = [], lg_torn = False, lg_lastHash = []\<rparr>; rs = [(LogOk, 5, demo_record ''a''), (LogOk, 6, demo_record ''b'')]
   in OpenVerified demo_hash (lg_lines (log_run demo_hash rs l)) False = Inr (log_run demo_hash rs l)"
  unfolding Let_def
  by (rule audit_log_stays_verified [of _ "[]"]) (simp_all add: OpenVerified_def verifyChain_def)

text \<open>
  C33: The last hash determines the whole log. Two files that verify and end in the same hash
  hold the same records, as long as the hash does not collide on the records of the two files and
  is never empty: no past record can be inserted, edited or removed without changing what follows.
\<close>

theorem audit_last_hash_determines_log:
  assumes "verifyChain h xs = Inr lh" and "verifyChain h ys = Inr lh"
    and "inj_on (hashRecord h) {r. Some r \<in> set xs \<union> set ys}"
    and "\<forall>r. hashRecord h r \<noteq> []"
  shows "xs = ys"
  by (rule chains_equal [OF assms])

lemma audit_last_hash_determines_log_witness:
  "[Some (chained demo_hash 1 [] (demo_record ''a''))] = [Some (chained demo_hash 2 [] (demo_record ''a''))]"
  by (rule audit_last_hash_determines_log [of demo_hash _ "''ha''"])
    (simp_all add: verifyChain_def chained_def hashRecord_def demo_hash_def demo_record_def Let_def inj_on_def)

text \<open>
  Removing records from the end is not detected: every prefix of a log that verifies
  verifies.
\<close>

theorem audit_truncation_undetected:
  assumes "Verify_chain h (xs @ ys) = None"
  shows "Verify_chain h xs = None"
  using assms by (auto simp: Verify_chain_def verifyChain_def verify_from_append split: sum.splits)

lemma audit_truncation_undetected_witness:
  "Verify_chain demo_hash [Some (chained demo_hash 1 [] (demo_record ''a''))] = None"
  by (rule audit_truncation_undetected [of _ _ "[Some (chained demo_hash 1 ''ha'' (demo_record ''b''))]"])
    (simp add: Verify_chain_def verifyChain_def chained_def hashRecord_def demo_hash_def demo_record_def Let_def)

text \<open>
  A single failed \<open>fsync\<close> breaks the chain for good. The record was written but the
  logger keeps chaining from the hash before it, so after the next successful append the file does
  not verify and cannot be opened verified.
\<close>

theorem audit_sync_failure_breaks_chain:
  assumes "verifyChain h (lg_lines l) = Inr (lg_lastHash l)" and "\<not> lg_torn l"
    and "ar_hash (chained h n1 (lg_lastHash l) r1) \<noteq> lg_lastHash l"
  shows "let l1 = snd (Log h LogSyncFails n1 r1 l); l2 = snd (Log h LogOk n2 r2 l1)
    in OpenVerified h (lg_lines l2) False = Inl (PrevMismatch (length (lg_lines l) + 2))"
proof -
  have "verify_from h 0 [] (lg_lines l @ [Some (chained h n1 (lg_lastHash l) r1)])
      = Inr (ar_hash (chained h n1 (lg_lastHash l) r1))"
    using verify_chained [OF assms(1)] by (simp add: verifyChain_def)
  then show ?thesis using assms(2,3)
    verify_from_append [of h 0 "[]" "lg_lines l @ [Some (chained h n1 (lg_lastHash l) r1)]"]
    by (simp add: Let_def Log_def log_append_def OpenVerified_def verifyChain_def)
qed

lemma audit_sync_failure_breaks_chain_witness:
  "let l = \<lparr>lg_lines = [], lg_torn = False, lg_lastHash = []\<rparr>;
       l1 = snd (Log demo_hash LogSyncFails 1 (demo_record ''a'') l);
       l2 = snd (Log demo_hash LogOk 2 (demo_record ''b'') l1)
   in OpenVerified demo_hash (lg_lines l2) False = Inl (PrevMismatch 2)"
  using audit_sync_failure_breaks_chain [of demo_hash "\<lparr>lg_lines = [], lg_torn = False, lg_lastHash = []\<rparr>"
      1 "demo_record ''a''" 2 "demo_record ''b''"]
  by (simp add: Let_def verifyChain_def chained_def hashRecord_def demo_hash_def demo_record_def)

end
