(* ===== verification/Action.thy ===== *)
theory Action
  imports Workload RateLimit AuditLog
begin

text \<open>
  The action gate: \<open>internal/action\<close> (\<open>policy.go\<close>, \<open>safety.go\<close>, \<open>auto.go\<close>, \<open>approvals.go\<close>,
  \<open>executor.go\<close>) with the operation registry \<open>Ops\<close> and the type \<open>Action\<close> of
  \<open>internal/providers/providers.go\<close>. Every call of the cluster executor is recorded in a trace,
  and what the executor answers is a function parameter, as is the redaction of its error text
  (\<open>internal/redact\<close>). The clock readings, the random approval ids and the kill-switch
  commands that land while an action is being gated are arguments. Confidences are exact
  rationals.
\<close>

section \<open>Actions and their safety\<close>

record action =
  ac_name :: string
  ac_description :: string
  ac_op :: string
  ac_target :: workload
  ac_mutating :: bool
  ac_reversible :: bool
  ac_blastRadius :: int
  ac_approvalID :: string

record op_safety =
  os_reversible :: bool
  os_blast :: int

definition Ops :: "string \<rightharpoonup> op_safety" where
  "Ops = [''suspend'' \<mapsto> \<lparr>os_reversible = True, os_blast = 1\<rparr>,
          ''resume'' \<mapsto> \<lparr>os_reversible = True, os_blast = 1\<rparr>,
          ''reconcile'' \<mapsto> \<lparr>os_reversible = True, os_blast = 1\<rparr>]"

definition builtinProtectedNamespaces :: "string list" where
  "builtinProtectedNamespaces = [''flux-system'', ''kube-system'']"

definition deriveSafety :: "action \<Rightarrow> action" where
  "deriveSafety a =
     (if ac_op a = [] then a
      else case Ops (ac_op a) of
             Some meta \<Rightarrow> a\<lparr>ac_reversible := os_reversible meta, ac_blastRadius := os_blast meta\<rparr>
           | None \<Rightarrow> a\<lparr>ac_reversible := False\<rparr>)"

definition knownOp :: "string \<Rightarrow> bool" where
  "knownOp op \<longleftrightarrow> Ops op \<noteq> None"

section \<open>The policy\<close>

record action_allow =
  al_reversibleOnly :: bool
  al_namespaces :: "string list"
  al_protectedNamespaces :: "string list"
  al_maxBlastRadius :: int
  al_kinds :: "string list"

record action_policy =
  po_mode :: string
  po_allow :: action_allow

definition policy_Enabled :: "action_policy \<Rightarrow> bool" where
  "policy_Enabled p \<longleftrightarrow> po_mode p \<noteq> [] \<and> po_mode p \<noteq> ''off''"

definition IsAuto :: "action_policy \<Rightarrow> bool" where
  "IsAuto p \<longleftrightarrow> po_mode p = ''auto''"

definition fmt_decimal :: "int \<Rightarrow> string" where
  "fmt_decimal i = (if i < 0 then CHR ''-'' # fmt_int (nat (- i)) else fmt_int (nat i))"

definition namespaceViolation :: "action_policy \<Rightarrow> string \<Rightarrow> string" where
  "namespaceViolation p ns =
     (if ns = [] then ''target namespace required''
      else if ns \<in> set builtinProtectedNamespaces \<or> ns \<in> set (al_protectedNamespaces (po_allow p))
      then ''namespace '' @ ns @ '' is protected (never an action target)''
      else if ns \<notin> set (al_namespaces (po_allow p))
      then ''namespace '' @ ns @ '' not in the action allowlist''
      else [])"

definition violation :: "action_policy \<Rightarrow> action \<Rightarrow> string" where
  "violation p a =
     (let allow = po_allow p; executable = (ac_op a \<noteq> []); kind = wl_kind (ac_target a)
      in if executable \<and> \<not> knownOp (ac_op a) then ''unknown op '' @ ac_op a
         else if al_reversibleOnly allow \<and> \<not> ac_reversible a then ''irreversible; reversible_only is set''
         else if al_maxBlastRadius allow > 0 \<and> ac_blastRadius a > al_maxBlastRadius allow
         then ''blast radius '' @ fmt_decimal (ac_blastRadius a) @ '' exceeds max ''
                @ fmt_decimal (al_maxBlastRadius allow)
         else if al_kinds allow \<noteq> [] \<and> kind \<noteq> [] \<and> kind \<notin> set (al_kinds allow)
         then ''kind '' @ kind @ '' not in allowed kinds''
         else if \<not> executable then []
         else if kind = [] then ''executable action needs a target kind''
         else namespaceViolation p (wl_namespace (ac_target a)))"

definition actionLabel :: "action \<Rightarrow> string" where
  "actionLabel a = (if ac_description a \<noteq> [] then ac_description a else ac_name a)"

fun review_loop :: "action_policy \<Rightarrow> action list \<Rightarrow> action list \<times> string list" where
  "review_loop p [] = ([], [])"
| "review_loop p (a0 # as) =
     (let a = deriveSafety a0; reason = violation p a
      in case review_loop p as of (kept, withheld) \<Rightarrow>
           if reason \<noteq> [] then (kept, (actionLabel a @ '' ('' @ reason @ '')'') # withheld)
           else (a # kept, withheld))"

definition Review :: "action_policy \<Rightarrow> action list \<Rightarrow> action list \<times> string list" where
  "Review p as = (if \<not> policy_Enabled p then ([], []) else review_loop p as)"

section \<open>The executor seam\<close>

record attempt_record =
  at_actor :: string
  at_op :: string
  at_target :: string
  at_decision :: decision
  at_reason :: string

text \<open>
  The calls of the cluster executor with the actor of their context, the attempts handed to the
  auditor, and those of them it could write, oldest first. Whether it can may depend on all attempts
  made before; \<open>recordAttempt\<close> drops its error.
\<close>

record world =
  wd_calls :: "(string \<times> action) list"
  wd_attempts :: "attempt_record list"
  wd_audit :: "attempt_record list"
  wd_auditor :: "attempt_record list \<Rightarrow> attempt_record \<Rightarrow> bool"

definition target :: "action \<Rightarrow> string" where
  "target a = wl_kind (ac_target a) @ ''/'' @ wl_namespace (ac_target a) @ ''/'' @ wl_name (ac_target a)"

definition recordAttempt :: "string \<Rightarrow> action \<Rightarrow> decision \<Rightarrow> string \<Rightarrow> world \<Rightarrow> world" where
  "recordAttempt actor act d reason wd =
     (let r = \<lparr>at_actor = actor, at_op = ac_op act, at_target = target act, at_decision = d, at_reason = reason\<rparr>
      in wd\<lparr>wd_attempts := wd_attempts wd @ [r],
            wd_audit := wd_audit wd @ (if wd_auditor wd (wd_attempts wd) r then [r] else [])\<rparr>)"

definition actorFromContext :: "string \<Rightarrow> string" where
  "actorFromContext actor = (if actor \<noteq> [] then actor else ''unknown'')"

text \<open>
  \<open>auditedExecutor.Execute\<close>, in two halves: the call of the inner executor, and what follows its
  return. \<open>exec\<close> answers \<open>None\<close> or the text of the error.
\<close>

definition call_inner :: "string \<Rightarrow> action \<Rightarrow> world \<Rightarrow> world" where
  "call_inner actor act wd = wd\<lparr>wd_calls := wd_calls wd @ [(actor, act)]\<rparr>"

definition inner_returned :: "(string \<Rightarrow> action \<Rightarrow> string option) \<Rightarrow> string \<Rightarrow> action \<Rightarrow> world \<Rightarrow> string option \<times> world" where
  "inner_returned exec actor act wd = (case exec actor act of
     Some err \<Rightarrow> (Some err, recordAttempt (actorFromContext actor) act DecisionFailed err wd)
   | None \<Rightarrow> (None, recordAttempt (actorFromContext actor) act DecisionExecuted [] wd))"

definition Execute :: "(string \<Rightarrow> action \<Rightarrow> string option) \<Rightarrow> string \<Rightarrow> action \<Rightarrow> world \<Rightarrow> string option \<times> world" where
  "Execute exec actor act wd = inner_returned exec actor act (call_inner actor act wd)"

section \<open>Unattended execution\<close>

record auto_policy =
  ap_dryRun :: bool
  ap_minConfidence :: rat
  ap_maxPerWindow :: int
  ap_window :: duration

record auto =
  au_dryRun :: bool
  au_minConfidence :: rat
  au_maxPerWindow :: int
  au_window :: duration
  au_policy :: "action_policy option"
  au_paused :: bool
  au_recent :: "gotime list"

definition NewAuto :: "auto_policy \<Rightarrow> action_policy option \<Rightarrow> auto" where
  "NewAuto p policy = \<lparr>au_dryRun = ap_dryRun p, au_minConfidence = ap_minConfidence p,
     au_maxPerWindow = ap_maxPerWindow p, au_window = (if ap_window p \<le> 0 then hour else ap_window p),
     au_policy = policy, au_paused = True, au_recent = []\<rparr>"

datatype kill_switch = Pause | Resume

fun switch :: "kill_switch \<Rightarrow> auto \<Rightarrow> auto" where
  "switch Pause a = a\<lparr>au_paused := True\<rparr>"
| "switch Resume a = a\<lparr>au_paused := False\<rparr>"

definition switches :: "kill_switch list \<Rightarrow> auto \<Rightarrow> auto" where
  "switches ks a = fold switch ks a"

definition reserve :: "gotime \<Rightarrow> gotime \<Rightarrow> auto \<Rightarrow> bool \<times> auto" where
  "reserve now now' a =
     (let kept = slide (au_window a) now (au_recent a); a1 = a\<lparr>au_recent := kept\<rparr>
      in if au_maxPerWindow a > 0 \<and> int (length kept) \<ge> au_maxPerWindow a then (False, a1)
         else (True, a1\<lparr>au_recent := kept @ [now']\<rparr>))"

text \<open>\<open>%.2f\<close>: two decimals, ties to even.\<close>

definition fmt_2f :: "rat \<Rightarrow> string" where
  "fmt_2f x =
     (let y = abs x * 100; fl = \<lfloor>y\<rfloor>; d = y - of_int fl;
          n = (if d > 1 / 2 \<or> (d = 1 / 2 \<and> odd fl) then fl + 1 else fl);
          i = nat (n div 100); f = nat (n mod 100)
      in (if x < 0 then ''-'' else []) @ fmt_int i @ ''.'' @ fmt_int (f div 10) @ fmt_int (f mod 10))"

definition em_dash :: string where
  "em_dash = [CHR 0xE2, CHR 0x80, CHR 0x94]"

definition annotate :: "string \<Rightarrow> action \<Rightarrow> action" where
  "annotate prefix act = act\<lparr>ac_description := prefix @ '' '' @ ac_description act\<rparr>"

definition skipped :: "string \<Rightarrow> string" where
  "skipped why = ''[auto: skipped '' @ em_dash @ '' '' @ why @ '']''"

text \<open>
  \<open>runOne\<close>: \<open>ks\<close> are the kill-switch commands that land between the first check and the
  re-check, \<open>now\<close> and \<open>now'\<close> the clock readings of \<open>reserve\<close>.
\<close>

definition runOne ::
  "(string \<Rightarrow> action \<Rightarrow> string option) \<Rightarrow> (string \<Rightarrow> string) \<Rightarrow> kill_switch list \<Rightarrow> gotime \<Rightarrow> gotime \<Rightarrow> rat
     \<Rightarrow> action \<Rightarrow> auto \<times> world \<Rightarrow> action \<times> auto \<times> world" where
  "runOne exec redact ks now now' confidence act aw =
     (case aw of (a, wd) \<Rightarrow>
      let skip = (\<lambda>reason why a1. (annotate (skipped why) act, a1, recordAttempt ''auto'' act DecisionSkipped reason wd))
      in if au_paused a then skip ''paused'' ''paused'' (switches ks a)
         else if confidence < au_minConfidence a
         then (let why = ''confidence '' @ fmt_2f confidence @ '' < '' @ fmt_2f (au_minConfidence a)
               in skip why why (switches ks a))
         else if \<not> ac_reversible act then skip ''irreversible'' ''irreversible'' (switches ks a)
         else if ac_op act = [] then skip ''no executable op'' ''no executable op'' (switches ks a)
         else if au_dryRun a
         then (annotate (''[auto: dry-run '' @ em_dash @ '' would execute]'') act, switches ks a,
               recordAttempt ''auto'' act DecisionDryRun [] wd)
         else (let a1 = switches ks a
               in if au_paused a1 then skip ''paused'' ''paused'' a1
                  else (let act1 = deriveSafety act;
                            reason = (case au_policy a1 of None \<Rightarrow> [] | Some p \<Rightarrow> violation p act1)
                        in if reason \<noteq> []
                           then (annotate (''[auto: denied '' @ em_dash @ '' '' @ reason @ '']'') act1, a1,
                                 recordAttempt ''auto'' act1 DecisionDenied reason wd)
                           else (case reserve now now' a1 of
                                   (False, a2) \<Rightarrow> (annotate (skipped ''rate-limited'') act1, a2,
                                       recordAttempt ''auto'' act1 DecisionSkipped ''rate-limited'' wd)
                                 | (True, a2) \<Rightarrow>
                                     (case Execute exec ''auto'' act1 wd of
                                        (Some err, wd1) \<Rightarrow>
                                          (annotate (''[auto: FAILED '' @ em_dash @ '' '' @ redact err @ '']'') act1, a2, wd1)
                                      | (None, wd1) \<Rightarrow> (annotate ''[auto-executed]'' act1, a2, wd1))))))"

text \<open>\<open>Run\<close>: the actions of one investigation in order, each with its own environment.\<close>

record gate_env =
  ge_switches :: "kill_switch list"
  ge_now :: gotime
  ge_now' :: gotime

fun Run ::
  "(string \<Rightarrow> action \<Rightarrow> string option) \<Rightarrow> (string \<Rightarrow> string) \<Rightarrow> rat \<Rightarrow> (gate_env \<times> action) list
     \<Rightarrow> auto \<times> world \<Rightarrow> action list \<times> auto \<times> world" where
  "Run exec redact confidence [] aw = ([], aw)"
| "Run exec redact confidence ((env, act) # as) aw =
     (case runOne exec redact (ge_switches env) (ge_now env) (ge_now' env) confidence act aw of
        (out, aw1) \<Rightarrow> (case Run exec redact confidence as aw1 of (outs, aw2) \<Rightarrow> (out # outs, aw2)))"

section \<open>Approvals\<close>

record approval_entry =
  en_action :: action
  en_created :: gotime

text \<open>The pending map as an association list: \<open>List\<close> iterates over it.\<close>

record approvals =
  av_policy :: action_policy
  av_ttl :: duration
  av_pending :: "(string \<times> approval_entry) list"

definition NewApprovals :: "action_policy \<Rightarrow> approvals" where
  "NewApprovals p = \<lparr>av_policy = p, av_ttl = 30 * minute, av_pending = []\<rparr>"

definition expired :: "gotime \<Rightarrow> approvals \<Rightarrow> approval_entry \<Rightarrow> bool" where
  "expired now av e \<longleftrightarrow> time_sub now (en_created e) > av_ttl av"

definition Register :: "string \<Rightarrow> gotime \<Rightarrow> action \<Rightarrow> approvals \<Rightarrow> string \<times> approvals" where
  "Register newID now act av = (newID,
     av\<lparr>av_pending := AList.update newID \<lparr>en_action = act, en_created = now\<rparr> (av_pending av)\<rparr>)"

definition gc :: "gotime \<Rightarrow> approvals \<Rightarrow> approvals" where
  "gc now av = av\<lparr>av_pending := filter (\<lambda>(k, e). \<not> expired now av e) (av_pending av)\<rparr>"

definition List_pending :: "gotime \<Rightarrow> approvals \<Rightarrow> (string \<times> action) list \<times> approvals" where
  "List_pending now av = (let av1 = gc now av in (map (\<lambda>(k, e). (k, en_action e)) (av_pending av1), av1))"

datatype approve_error = NoPending string | OutOfPolicy string | ExecFailed string

text \<open>The claim of the entry under the lock, then the envelope, then the execution.\<close>

definition claim :: "string \<Rightarrow> gotime \<Rightarrow> approvals \<Rightarrow> approval_entry option \<times> approvals" where
  "claim i now av = (case map_of (av_pending av) i of
     None \<Rightarrow> (None, av)
   | Some e \<Rightarrow> if expired now av e then (None, av)
              else (Some e, av\<lparr>av_pending := AList.delete i (av_pending av)\<rparr>))"

definition Approve ::
  "(string \<Rightarrow> action \<Rightarrow> string option) \<Rightarrow> string \<Rightarrow> string \<Rightarrow> gotime \<Rightarrow> approvals \<times> world
     \<Rightarrow> (approve_error + action) \<times> approvals \<times> world" where
  "Approve exec i actor now aw = (case aw of (av, wd) \<Rightarrow>
     (case claim i now av of
        (None, av1) \<Rightarrow> (Inl (NoPending i), av1, wd)
      | (Some e, av1) \<Rightarrow>
          (let act = deriveSafety (en_action e); reason = violation (av_policy av1) act
           in if reason \<noteq> []
              then (Inl (OutOfPolicy reason), av1, recordAttempt actor act DecisionDenied reason wd)
              else (case Execute exec actor act wd of
                      (Some err, wd1) \<Rightarrow> (Inl (ExecFailed err), av1, wd1)
                    | (None, wd1) \<Rightarrow> (Inr act, av1, wd1)))))"

definition Reject :: "string \<Rightarrow> approvals \<Rightarrow> approve_error option \<times> approvals" where
  "Reject i av = (if map_of (av_pending av) i = None then (Some (NoPending i), av)
     else (None, av\<lparr>av_pending := AList.delete i (av_pending av)\<rparr>))"

text \<open>
  A goroutine in \<open>Approve\<close>, between its points of contact with shared state: the claim under the lock;
  the envelope and the start of the call; the return of the call.
\<close>

datatype approval_thread =
    ThClaimed string string action
  | ThExecuting string string action
  | ThAnswered string "approve_error + action"

fun thread_id :: "approval_thread \<Rightarrow> string" where
  "thread_id (ThClaimed i _ _) = i"
| "thread_id (ThExecuting i _ _) = i"
| "thread_id (ThAnswered i _) = i"

definition approve_claim :: "string \<Rightarrow> string \<Rightarrow> gotime \<Rightarrow> approvals \<Rightarrow> approval_thread \<times> approvals" where
  "approve_claim i actor now av = (case claim i now av of
     (None, av1) \<Rightarrow> (ThAnswered i (Inl (NoPending i)), av1)
   | (Some e, av1) \<Rightarrow> (ThClaimed i actor (en_action e), av1))"

fun approve_resume ::
  "(string \<Rightarrow> action \<Rightarrow> string option) \<Rightarrow> action_policy \<Rightarrow> approval_thread \<Rightarrow> world \<Rightarrow> approval_thread \<times> world" where
  "approve_resume exec p (ThClaimed i actor a) wd =
     (let act = deriveSafety a; reason = violation p act
      in if reason \<noteq> [] then (ThAnswered i (Inl (OutOfPolicy reason)), recordAttempt actor act DecisionDenied reason wd)
         else (ThExecuting i actor act, call_inner actor act wd))"
| "approve_resume exec p (ThExecuting i actor act) wd = (case inner_returned exec actor act wd of
     (Some err, wd1) \<Rightarrow> (ThAnswered i (Inl (ExecFailed err)), wd1)
   | (None, wd1) \<Rightarrow> (ThAnswered i (Inr act), wd1))"
| "approve_resume exec p (ThAnswered i r) wd = (ThAnswered i r, wd)"

text \<open>\<open>Approve\<close> is such a goroutine that nothing interrupts.\<close>

lemma Approve_uninterrupted:
  "Approve exec i actor now (av, wd) = (case approve_claim i actor now av of (t, av1) \<Rightarrow>
     (case approve_resume exec (av_policy av1) t wd of (t1, wd1) \<Rightarrow>
        (case approve_resume exec (av_policy av1) t1 wd1 of
           (ThAnswered j r, wd2) \<Rightarrow> (r, av1, wd2) | (_, wd2) \<Rightarrow> (undefined, av1, wd2))))"
  by (auto simp: Approve_def approve_claim_def Execute_def Let_def split: prod.split option.split)

section \<open>What the envelope guarantees\<close>

text \<open>An action that may be executed under a policy.\<close>

definition safe_action :: "action_policy \<Rightarrow> action \<Rightarrow> bool" where
  "safe_action p a \<longleftrightarrow>
     (\<exists>meta. Ops (ac_op a) = Some meta \<and> ac_reversible a = os_reversible meta \<and> ac_blastRadius a = os_blast meta)
     \<and> (al_reversibleOnly (po_allow p) \<longrightarrow> ac_reversible a)
     \<and> (al_maxBlastRadius (po_allow p) > 0 \<longrightarrow> ac_blastRadius a \<le> al_maxBlastRadius (po_allow p))
     \<and> wl_kind (ac_target a) \<noteq> []
     \<and> (al_kinds (po_allow p) \<noteq> [] \<longrightarrow> wl_kind (ac_target a) \<in> set (al_kinds (po_allow p)))
     \<and> wl_namespace (ac_target a) \<in> set (al_namespaces (po_allow p))
     \<and> wl_namespace (ac_target a) \<notin> set builtinProtectedNamespaces \<union> set (al_protectedNamespaces (po_allow p))"

lemma Ops_Nil [simp]: "Ops [] = None"
  by (simp add: Ops_def)

lemma violation_safe:
  assumes "violation p (deriveSafety a) = []" and "ac_op a \<noteq> []"
  shows "safe_action p (deriveSafety a)"
proof -
  have op: "ac_op (deriveSafety a) = ac_op a" by (simp add: deriveSafety_def split: option.split)
  obtain meta where m: "Ops (ac_op a) = Some meta"
    using assms by (auto simp: violation_def Let_def op knownOp_def split: if_splits)
  then have "ac_reversible (deriveSafety a) = os_reversible meta" "ac_blastRadius (deriveSafety a) = os_blast meta"
    using assms(2) by (simp_all add: deriveSafety_def)
  then show ?thesis
    using assms m by (auto simp: safe_action_def violation_def namespaceViolation_def Let_def op split: if_splits)
qed

lemma deriveSafety_reversible: "ac_op a \<noteq> [] \<Longrightarrow> ac_reversible (deriveSafety a) \<Longrightarrow> knownOp (ac_op a)"
  by (auto simp: deriveSafety_def knownOp_def split: option.splits)

lemma wd_recordAttempt [simp]: "wd_calls (recordAttempt actor act d r wd) = wd_calls wd"
  by (simp add: recordAttempt_def Let_def)

lemma Execute_calls: "wd_calls (snd (Execute exec actor act wd)) = wd_calls wd @ [(actor, act)]"
  by (simp add: Execute_def inner_returned_def call_inner_def split: option.split)

definition same_config :: "auto \<Rightarrow> auto \<Rightarrow> bool" where
  "same_config a b \<longleftrightarrow> au_policy b = au_policy a \<and> au_window b = au_window a
     \<and> au_maxPerWindow b = au_maxPerWindow a \<and> au_minConfidence b = au_minConfidence a
     \<and> au_dryRun b = au_dryRun a"

lemma same_config_refl [simp]: "same_config a a"
  by (simp add: same_config_def)

lemma same_config_trans: "same_config a b \<Longrightarrow> same_config b c \<Longrightarrow> same_config a c"
  by (simp add: same_config_def)

lemma switch_frame: "same_config a (switch k a) \<and> au_recent (switch k a) = au_recent a"
  by (cases k) (simp_all add: same_config_def)

lemma switches_frame: "same_config a (switches ks a)" "au_recent (switches ks a) = au_recent a"
proof (induction ks arbitrary: a)
  case (Cons k ks)
  { case 1 show ?case
      using same_config_trans [of a "switch k a"] switch_frame [of a k] Cons(1) [of "switch k a"]
      by (simp add: switches_def) }
  { case 2 show ?case using switch_frame [of a k] Cons(2) [of "switch k a"] by (simp add: switches_def) }
qed (simp_all add: switches_def)

lemma reserve_config: "same_config a (snd (reserve n n' a))"
  by (simp add: reserve_def Let_def same_config_def)

text \<open>What one gated action can do, by outcome.\<close>

definition gates_pass :: "rat \<Rightarrow> kill_switch list \<Rightarrow> action \<Rightarrow> auto \<Rightarrow> bool" where
  "gates_pass confidence ks act a \<longleftrightarrow> \<not> au_paused a \<and> \<not> au_paused (switches ks a)
     \<and> \<not> confidence < au_minConfidence a \<and> ac_reversible act \<and> ac_op act \<noteq> [] \<and> \<not> au_dryRun a
     \<and> (case au_policy a of None \<Rightarrow> True | Some p \<Rightarrow> violation p (deriveSafety act) = [])"

lemma runOne_idle:
  assumes "\<not> gates_pass confidence ks act a"
  shows "\<exists>out wd'. runOne exec redact ks n n' confidence act (a, wd) = (out, switches ks a, wd')
    \<and> wd_calls wd' = wd_calls wd"
proof -
  have p: "au_policy (switches ks a) = au_policy a"
    using switches_frame(1) [where a = a and ks = ks] by (simp add: same_config_def)
  consider "au_paused a" | "\<not> au_paused a" "confidence < au_minConfidence a"
    | "\<not> au_paused a" "\<not> confidence < au_minConfidence a" "\<not> ac_reversible act"
    | "\<not> au_paused a" "\<not> confidence < au_minConfidence a" "ac_reversible act" "ac_op act = []"
    | "\<not> au_paused a" "\<not> confidence < au_minConfidence a" "ac_reversible act" "ac_op act \<noteq> []" "au_dryRun a"
    | "\<not> au_paused a" "\<not> confidence < au_minConfidence a" "ac_reversible act" "ac_op act \<noteq> []" "\<not> au_dryRun a"
      "au_paused (switches ks a)"
    | (denied) q where "\<not> au_paused a" "\<not> confidence < au_minConfidence a" "ac_reversible act" "ac_op act \<noteq> []"
      "\<not> au_dryRun a" "\<not> au_paused (switches ks a)" "au_policy a = Some q" "violation q (deriveSafety act) \<noteq> []"
    using assms by (auto simp: gates_pass_def split: option.splits)
  then show ?thesis
  proof cases
    case denied
    then show ?thesis by (simp add: runOne_def Let_def p)
  qed (simp_all add: runOne_def Let_def)
qed

lemma runOne_gated:
  assumes "gates_pass confidence ks act a"
  shows "runOne exec redact ks n n' confidence act (a, wd) =
    (case reserve n n' (switches ks a) of
       (False, a2) \<Rightarrow> (annotate (skipped ''rate-limited'') (deriveSafety act), a2,
           recordAttempt ''auto'' (deriveSafety act) DecisionSkipped ''rate-limited'' wd)
     | (True, a2) \<Rightarrow> (case Execute exec ''auto'' (deriveSafety act) wd of
            (Some err, wd1) \<Rightarrow>
              (annotate (''[auto: FAILED '' @ em_dash @ '' '' @ redact err @ '']'') (deriveSafety act), a2, wd1)
          | (None, wd1) \<Rightarrow> (annotate ''[auto-executed]'' (deriveSafety act), a2, wd1)))"
proof -
  have p: "au_policy (switches ks a) = au_policy a"
    using switches_frame(1) [where a = a and ks = ks] by (simp add: same_config_def)
  have r: "(case au_policy a of None \<Rightarrow> [] | Some q \<Rightarrow> violation q (deriveSafety act)) = []"
    using assms by (auto simp: gates_pass_def split: option.splits)
  show ?thesis using assms r by (simp add: gates_pass_def runOne_def Let_def p)
qed

text \<open>The three outcomes: no reservation and no call, a refused one, or a granted one and a call.\<close>

lemma runOne_outcome:
  assumes "runOne exec redact ks n n' confidence act (a, wd) = (out, a', wd')"
  obtains (idle) "au_recent a' = au_recent a" "same_config a a'" "wd_calls wd' = wd_calls wd"
  | (limited) "reserve n n' (switches ks a) = (False, a')" "same_config a a'" "wd_calls wd' = wd_calls wd"
  | (called) "reserve n n' (switches ks a) = (True, a')" "same_config a a'" "gates_pass confidence ks act a"
      "wd_calls wd' = wd_calls wd @ [(''auto'', deriveSafety act)]"
proof (cases "gates_pass confidence ks act a")
  case False
  then show ?thesis
    using runOne_idle [OF False, of exec redact n n' wd] assms switches_frame [where a = a and ks = ks] idle by auto
next
  case True
  obtain ok a2 where r: "reserve n n' (switches ks a) = (ok, a2)" by (cases "reserve n n' (switches ks a)")
  have sc: "same_config a a2"
    using same_config_trans [OF switches_frame(1) reserve_config] r by (metis snd_conv)
  obtain err wd1 where e: "Execute exec ''auto'' (deriveSafety act) wd = (err, wd1)"
    by (cases "Execute exec ''auto'' (deriveSafety act) wd")
  have c: "wd_calls wd1 = wd_calls wd @ [(''auto'', deriveSafety act)]"
    using Execute_calls [of exec "''auto''" "deriveSafety act" wd] e by simp
  show ?thesis
    using assms runOne_gated [OF True, of exec redact n n' wd] r e sc c limited called True
    by (cases ok; cases err) auto
qed

section \<open>The rate limit of unattended execution\<close>

interpretation auto_limiter: sliding_limiter reserve au_recent W limit
    "\<lambda>a. au_window a = W \<and> au_maxPerWindow a = int limit \<and> 0 < limit \<and> 0 < W" for W limit
  by unfold_locales (auto simp: reserve_def Let_def split: if_splits)

text \<open>
  A sequence of gated actions with the instants at which the executor was called. Each element
  carries the environment of one action: kill-switch commands, clock readings, confidence.
\<close>

record gated =
  gt_switches :: "kill_switch list"
  gt_now :: gotime
  gt_now' :: gotime
  gt_confidence :: rat
  gt_action :: action

definition gated_step ::
  "(string \<Rightarrow> action \<Rightarrow> string option) \<Rightarrow> (string \<Rightarrow> string) \<Rightarrow> gated \<Rightarrow> (auto \<times> world) \<times> gotime list
     \<Rightarrow> (auto \<times> world) \<times> gotime list" where
  "gated_step exec redact g st =
     (case runOne exec redact (gt_switches g) (gt_now g) (gt_now' g) (gt_confidence g) (gt_action g) (fst st) of
        (_, aw) \<Rightarrow> (aw, if length (wd_calls (snd aw)) > length (wd_calls (snd (fst st)))
                         then snd st @ [gt_now' g] else snd st))"

lemma gated_step_tracks:
  assumes t: "auto_limiter.tracks W limit (fst (fst st)) (snd st) c m" and "m \<le> gt_now g" "gt_now g \<le> gt_now' g"
  shows "\<exists>c'. auto_limiter.tracks W limit (fst (fst (gated_step exec redact g st)))
    (snd (gated_step exec redact g st)) c' (gt_now' g)"
proof -
  obtain a wd where aw: "fst st = (a, wd)" by (cases "fst st")
  obtain out a' wd' where r: "runOne exec redact (gt_switches g) (gt_now g) (gt_now' g) (gt_confidence g)
      (gt_action g) (a, wd) = (out, a', wd')" by (cases "runOne exec redact (gt_switches g) (gt_now g)
      (gt_now' g) (gt_confidence g) (gt_action g) (a, wd)")
  let ?b = "switches (gt_switches g) a"
  have cfg: "same_config a x \<Longrightarrow> au_window x = au_window a \<and> au_maxPerWindow x = au_maxPerWindow a" for x
    by (simp add: same_config_def)
  have tb: "auto_limiter.tracks W limit x (snd st) c (gt_now g)"
    if "same_config a x" "au_recent x = au_recent a" for x
    using auto_limiter.tracks_frame [OF t _ _ assms(2), of x] auto_limiter.tracks_configured [OF t]
      cfg [OF that(1)] that(2) by (simp add: aw)
  from r show ?thesis
  proof (cases rule: runOne_outcome)
    case idle
    note ta = tb [OF idle(2,1)]
    have "auto_limiter.tracks W limit a' (snd st) c (gt_now' g)"
      by (rule auto_limiter.tracks_frame [OF ta auto_limiter.tracks_configured [OF ta] refl assms(3)])
    then show ?thesis using idle r by (auto simp: gated_step_def aw)
  next
    case limited
    from auto_limiter.tracks_refused [OF tb [OF switches_frame] order_refl assms(3) limited(1)]
    show ?thesis using limited r by (auto simp: gated_step_def aw)
  next
    case called
    from auto_limiter.tracks_granted [OF tb [OF switches_frame] order_refl assms(3) called(1)]
    show ?thesis using called r by (auto simp: gated_step_def aw)
  qed
qed

lemma gated_run_tracks:
  assumes "auto_limiter.tracks W limit (fst (fst st)) (snd st) c m"
    and "sorted (m # concat (map (\<lambda>g. [gt_now g, gt_now' g]) gs))"
  shows "\<exists>c' m'. auto_limiter.tracks W limit (fst (fst (fold (gated_step exec redact) gs st)))
    (snd (fold (gated_step exec redact) gs st)) c' m'"
  using assms
proof (induction gs arbitrary: st c m)
  case Nil
  then show ?case by auto
next
  case (Cons g gs)
  have "m \<le> gt_now g" "gt_now g \<le> gt_now' g" using Cons.prems(2) by auto
  from gated_step_tracks [OF Cons.prems(1) this, of exec redact] obtain c' where
    "auto_limiter.tracks W limit (fst (fst (gated_step exec redact g st))) (snd (gated_step exec redact g st)) c' (gt_now' g)" ..
  moreover have "sorted (gt_now' g # concat (map (\<lambda>g. [gt_now g, gt_now' g]) gs))" using Cons.prems(2) by auto
  ultimately show ?case using Cons.IH by simp
qed

section \<open>Properties\<close>

text \<open>
  C1: Unattended execution only ever calls the cluster with safe actions. Whatever the
  model proposed, whatever kill-switch commands land in between, every call that a run adds is for
  a known operation whose reversibility and blast radius come from the registry, in an allowlisted
  namespace that is not protected, of an allowed kind, under the actor "auto", with the confidence
  at or above the floor, and never in dry-run mode.
\<close>

theorem auto_calls_are_safe:
  assumes "Run exec redact confidence as (a, wd) = (outs, a', wd')" and "au_policy a = Some p"
  shows "\<exists>new. wd_calls wd' = wd_calls wd @ new
    \<and> (\<forall>(actor, act) \<in> set new. actor = ''auto'' \<and> safe_action p act \<and> \<not> au_dryRun a
         \<and> \<not> confidence < au_minConfidence a)"
  using assms
proof (induction as arbitrary: a wd outs)
  case Nil
  then show ?case by auto
next
  case (Cons x as)
  obtain env act where x: "x = (env, act)" by (cases x)
  obtain out a1 wd1 where r: "runOne exec redact (ge_switches env) (ge_now env) (ge_now' env) confidence act (a, wd)
      = (out, a1, wd1)" by (cases "runOne exec redact (ge_switches env) (ge_now env) (ge_now' env) confidence act (a, wd)")
  obtain outs2 where run: "Run exec redact confidence as (a1, wd1) = (outs2, a', wd')"
    using Cons.prems(1) r by (auto simp: x split: prod.splits)
  have cfg: "same_config a a1" using r by (cases rule: runOne_outcome) auto
  then have a1: "au_policy a1 = Some p" "au_dryRun a1 = au_dryRun a" "au_minConfidence a1 = au_minConfidence a"
    using Cons.prems(2) by (simp_all add: same_config_def)
  obtain new where new: "wd_calls wd' = wd_calls wd1 @ new" and ok: "\<forall>(actor, act) \<in> set new. actor = ''auto''
      \<and> safe_action p act \<and> \<not> au_dryRun a \<and> \<not> confidence < au_minConfidence a"
    using Cons.IH [OF run a1(1)] a1 by auto
  from r show ?case
  proof (cases rule: runOne_outcome)
    case called
    have "safe_action p (deriveSafety act)"
      using called(3) Cons.prems(2) violation_safe [of p act] by (simp add: gates_pass_def)
    then show ?thesis
      using called new ok by (intro exI [of _ "(''auto'', deriveSafety act) # new"]) (auto simp: gates_pass_def)
  qed (use new ok in auto)
qed

definition demo_policy :: action_policy where
  "demo_policy = \<lparr>po_mode = ''auto'', po_allow = \<lparr>al_reversibleOnly = True, al_namespaces = [''apps''],
     al_protectedNamespaces = [], al_maxBlastRadius = 0, al_kinds = []\<rparr>\<rparr>"

definition demo_action :: action where
  "demo_action = \<lparr>ac_name = ''a'', ac_description = ''d'', ac_op = ''suspend'', ac_target =
     \<lparr>wl_kind = ''Kustomization'', wl_name = ''x'', wl_namespace = ''apps'', wl_region = [],
      wl_account = [], wl_scope = ScopeUnknown\<rparr>,
     ac_mutating = True, ac_reversible = True, ac_blastRadius = 0, ac_approvalID = []\<rparr>"

definition demo_auto :: auto where
  "demo_auto = switch Resume (NewAuto \<lparr>ap_dryRun = False, ap_minConfidence = 1 / 2, ap_maxPerWindow = 1,
     ap_window = hour\<rparr> (Some demo_policy))"

definition empty_world :: world where
  "empty_world = \<lparr>wd_calls = [], wd_attempts = [], wd_audit = [], wd_auditor = \<lambda>_ _. True\<rparr>"

lemmas demo_auto_defs = demo_policy_def demo_action_def demo_auto_def empty_world_def NewAuto_def

lemma auto_calls_are_safe_witness:
  "\<exists>new. wd_calls (snd (snd (Run (\<lambda>_ _. None) id 1 [(\<lparr>ge_switches = [], ge_now = 1, ge_now' = 1\<rparr>, demo_action)]
       (demo_auto, empty_world)))) = new
     \<and> new \<noteq> [] \<and> (\<forall>(actor, act) \<in> set new. safe_action demo_policy act)"
proof -
  obtain outs a' wd' where r: "Run (\<lambda>_ _. None) id 1 [(\<lparr>ge_switches = [], ge_now = 1, ge_now' = 1\<rparr>, demo_action)]
       (demo_auto, empty_world) = (outs, a', wd')" by (metis prod.exhaust)
  have "wd_calls wd' \<noteq> []"
    using r by (auto simp: demo_auto_defs runOne_def switches_def deriveSafety_def Ops_def violation_def
        namespaceViolation_def knownOp_def builtinProtectedNamespaces_def reserve_def slide_def
        Execute_def inner_returned_def call_inner_def recordAttempt_def Let_def)
  moreover have "au_policy demo_auto = Some demo_policy" by (simp add: demo_auto_def NewAuto_def)
  ultimately show ?thesis
    using auto_calls_are_safe [OF r] r by (fastforce simp: empty_world_def)
qed

text \<open>
  Unattended execution is rate-limited. Over any sequence of gated actions with clock
  readings that never go back, no interval as long as the window holds more executor calls than
  the configured maximum, also when kill-switch commands and failed executions are mixed in.
\<close>

theorem auto_executions_rate_limited:
  assumes "0 < ap_maxPerWindow p"
    and "sorted (concat (map (\<lambda>g. [gt_now g, gt_now' g]) gs))"
  shows "int (in_window (if ap_window p \<le> 0 then hour else ap_window p) t
    (snd (fold (gated_step exec redact) gs ((NewAuto p policy, wd), [])))) \<le> ap_maxPerWindow p"
proof -
  let ?W = "if ap_window p \<le> 0 then hour else ap_window p" and ?n = "nat (ap_maxPerWindow p)"
  let ?st = "((NewAuto p policy, wd), [] :: gotime list)"
  define m where "m = (case gs of [] \<Rightarrow> 0 | g # _ \<Rightarrow> gt_now g)"
  have s: "sorted (m # concat (map (\<lambda>g. [gt_now g, gt_now' g]) gs))"
    using assms(2) by (cases gs) (auto simp: m_def)
  have "0 < ?W" by (simp add: hour_def)
  then have "auto_limiter.tracks ?W ?n (fst (fst ?st)) (snd ?st) (m - ?W) m"
    using assms(1) auto_limiter.tracks_init [of "NewAuto p policy" ?W ?n m] by (simp add: NewAuto_def)
  from gated_run_tracks [OF this s, of exec redact] obtain c' m' where
    "auto_limiter.tracks ?W ?n (fst (fst (fold (gated_step exec redact) gs ?st)))
      (snd (fold (gated_step exec redact) gs ?st)) c' m'" by blast
  from auto_limiter.tracks_bound [OF this, of t] show ?thesis
    using assms(1) by (simp only: nat_le_iff int_nat_eq split: if_splits)
qed

lemma auto_executions_rate_limited_witness:
  "int (in_window hour 0 (snd (fold (gated_step (\<lambda>_ _. None) id)
     [\<lparr>gt_switches = [Resume], gt_now = 1, gt_now' = 1, gt_confidence = 1, gt_action = demo_action\<rparr>]
     ((NewAuto \<lparr>ap_dryRun = False, ap_minConfidence = 1 / 2, ap_maxPerWindow = 1, ap_window = hour\<rparr> (Some demo_policy),
       empty_world), [])))) \<le> 1"
  using auto_executions_rate_limited [of "\<lparr>ap_dryRun = False, ap_minConfidence = 1 / 2, ap_maxPerWindow = 1,
      ap_window = hour\<rparr>" "[\<lparr>gt_switches = [Resume], gt_now = 1, gt_now' = 1, gt_confidence = 1, gt_action = demo_action\<rparr>]"
      0 "\<lambda>_ _. None" id "Some demo_policy" empty_world]
  by (simp add: hour_def)

lemma switches_paused: "au_paused a \<Longrightarrow> Resume \<notin> set ks \<Longrightarrow> au_paused (switches ks a)"
proof (induction ks arbitrary: a)
  case (Cons k ks)
  then show ?case by (cases k) (simp_all add: switches_def)
qed (simp add: switches_def)

text \<open>
  The kill switch holds. A process starts with it engaged, and as long as no Resume is
  given, nothing is executed, whatever is proposed: no call is made and the switch stays engaged.
\<close>

theorem paused_auto_never_executes:
  assumes "\<forall>(env, act) \<in> set as. Resume \<notin> set (ge_switches env)"
    and "Run exec redact confidence as (NewAuto p policy, wd) = (outs, a', wd')"
  shows "wd_calls wd' = wd_calls wd \<and> au_paused a'"
proof -
  have "au_paused a \<Longrightarrow> Run exec redact confidence as (a, wd) = (outs, a', wd') \<Longrightarrow>
      wd_calls wd' = wd_calls wd \<and> au_paused a'" for a
    using assms(1)
  proof (induction as arbitrary: a wd outs)
    case Nil
    then show ?case by auto
  next
    case (Cons x as)
    obtain env act where x: "x = (env, act)" by (cases x)
    have "\<not> gates_pass confidence (ge_switches env) act a" using Cons.prems(1) by (simp add: gates_pass_def)
    from runOne_idle [OF this] obtain out wd1 where r: "runOne exec redact (ge_switches env) (ge_now env)
        (ge_now' env) confidence act (a, wd) = (out, switches (ge_switches env) a, wd1)"
      and c: "wd_calls wd1 = wd_calls wd" by blast
    obtain outs2 where run: "Run exec redact confidence as (switches (ge_switches env) a, wd1) = (outs2, a', wd')"
      using Cons.prems(2) r by (auto simp: x split: prod.splits)
    have "au_paused (switches (ge_switches env) a)"
      using Cons.prems(1,3) by (intro switches_paused) (auto simp: x)
    from Cons.IH [OF this run] Cons.prems(3) c show ?case by simp
  qed
  from this [of "NewAuto p policy"] assms(2) show ?thesis by (simp add: NewAuto_def)
qed

lemma paused_auto_never_executes_witness:
  "wd_calls (snd (snd (Run (\<lambda>_ _. None) id 1 [(\<lparr>ge_switches = [Pause], ge_now = 1, ge_now' = 1\<rparr>, demo_action)]
     (NewAuto \<lparr>ap_dryRun = False, ap_minConfidence = 0, ap_maxPerWindow = 1, ap_window = hour\<rparr> (Some demo_policy),
      empty_world)))) = []"
proof -
  obtain outs a' wd' where r: "Run (\<lambda>_ _. None) id 1 [(\<lparr>ge_switches = [Pause], ge_now = 1, ge_now' = 1\<rparr>, demo_action)]
     (NewAuto \<lparr>ap_dryRun = False, ap_minConfidence = 0, ap_maxPerWindow = 1, ap_window = hour\<rparr> (Some demo_policy),
      empty_world) = (outs, a', wd')" by (metis prod.exhaust)
  show ?thesis using paused_auto_never_executes [OF _ r] r by (simp add: empty_world_def)
qed

section \<open>Properties of approvals and of the review\<close>

lemma Approve_outcome:
  assumes "Approve exec i actor now (av, wd) = (r, av', wd')"
  shows "(av' = av \<and> wd' = wd) \<or> (\<exists>e. map_of (av_pending av) i = Some e \<and> \<not> expired now av e
    \<and> av' = av\<lparr>av_pending := AList.delete i (av_pending av)\<rparr>
    \<and> (wd_calls wd' = wd_calls wd
       \<or> (wd' = snd (Execute exec actor (deriveSafety (en_action e)) wd)
          \<and> violation (av_policy av) (deriveSafety (en_action e)) = [])))"
proof (cases "map_of (av_pending av) i")
  case None
  then show ?thesis using assms by (simp add: Approve_def claim_def)
next
  case (Some e)
  obtain err wd1 where x: "Execute exec actor (deriveSafety (en_action e)) wd = (err, wd1)"
    by (cases "Execute exec actor (deriveSafety (en_action e)) wd")
  consider "expired now av e" | "\<not> expired now av e" "violation (av_policy av) (deriveSafety (en_action e)) \<noteq> []"
    | "\<not> expired now av e" "violation (av_policy av) (deriveSafety (en_action e)) = []" by blast
  then show ?thesis
  proof cases
    case 1
    then show ?thesis using assms Some by (simp add: Approve_def claim_def)
  next
    case 2
    then show ?thesis using assms Some by (simp add: Approve_def claim_def Let_def) auto
  next
    case 3
    then show ?thesis using assms Some x by (cases err) (simp_all add: Approve_def claim_def Let_def)
  qed
qed

definition demo_queue :: approvals where
  "demo_queue = \<lparr>av_policy = demo_policy, av_ttl = 30 * minute,
     av_pending = [(''i'', \<lparr>en_action = demo_action, en_created = 1\<rparr>)]\<rparr>"

text \<open>
  An approval that reaches the executor was pending and not expired, is consumed by
  it, runs the registered action with safety derived by the server, under the approver's name, and
  an executable action is within the envelope as it stands at that moment.
\<close>

theorem approve_executes_within_envelope:
  assumes "Approve exec i actor now (av, wd) = (r, av', wd')" and "wd_calls wd' \<noteq> wd_calls wd"
  shows "\<exists>e. map_of (av_pending av) i = Some e \<and> \<not> expired now av e \<and> map_of (av_pending av') i = None
    \<and> wd_calls wd' = wd_calls wd @ [(actor, deriveSafety (en_action e))]
    \<and> (ac_op (en_action e) \<noteq> [] \<longrightarrow> safe_action (av_policy av) (deriveSafety (en_action e)))"
proof -
  from Approve_outcome [OF assms(1)] assms(2) obtain e where
    e: "map_of (av_pending av) i = Some e" "\<not> expired now av e"
    "av' = av\<lparr>av_pending := AList.delete i (av_pending av)\<rparr>"
    "wd' = snd (Execute exec actor (deriveSafety (en_action e)) wd)"
    "violation (av_policy av) (deriveSafety (en_action e)) = []" by auto
  then show ?thesis
    using Execute_calls [of exec actor "deriveSafety (en_action e)" wd] violation_safe
    by (auto simp: delete_conv')
qed

lemma approve_executes_within_envelope_witness:
  "safe_action demo_policy (deriveSafety demo_action)"
proof -
  obtain r av' wd' where a: "Approve (\<lambda>_ _. None) ''i'' ''bob'' 2 (demo_queue, empty_world) = (r, av', wd')"
    by (metis prod.exhaust)
  then have "wd_calls wd' \<noteq> wd_calls empty_world"
    by (auto simp: Approve_def claim_def demo_queue_def expired_def time_sub_defs minute_def demo_policy_def
        demo_action_def deriveSafety_def Ops_def violation_def knownOp_def namespaceViolation_def
        builtinProtectedNamespaces_def Execute_def inner_returned_def call_inner_def recordAttempt_def Let_def)
  from approve_executes_within_envelope [OF a this] show ?thesis
    by (auto simp: demo_queue_def demo_action_def)
qed

text \<open>
  The review surfaces only compliant actions, each with server-derived safety, and
  accounts for every proposed action: kept ones and withheld reasons add up to the proposals.
\<close>

theorem review_keeps_compliant:
  assumes "Review p as = (kept, withheld)"
  shows "(\<forall>a \<in> set kept. violation p a = [] \<and> (\<exists>b \<in> set as. a = deriveSafety b))
    \<and> (policy_Enabled p \<longrightarrow> length kept + length withheld = length as)
    \<and> (\<not> policy_Enabled p \<longrightarrow> kept = [])"
proof -
  have "(\<forall>a \<in> set k. violation p a = [] \<and> (\<exists>b \<in> set as. a = deriveSafety b))
      \<and> length k + length w = length as" if "review_loop p as = (k, w)" for k w
    using that
  proof (induction as arbitrary: k w)
    case (Cons a0 as)
    obtain k1 w1 where r: "review_loop p as = (k1, w1)" by (cases "review_loop p as")
    from Cons.IH [OF r] Cons.prems show ?case by (auto simp: Let_def r split: if_splits)
  qed simp
  then show ?thesis using assms by (auto simp: Review_def split: if_splits)
qed

lemma review_keeps_compliant_witness:
  "length (fst (Review demo_policy [demo_action])) + length (snd (Review demo_policy [demo_action])) = 1"
  using review_keeps_compliant [of demo_policy "[demo_action]" "fst (Review demo_policy [demo_action])"
      "snd (Review demo_policy [demo_action])"] by (simp add: policy_Enabled_def demo_policy_def)

end
