(* ===== verification/ApprovalRun.thy ===== *)
theory ApprovalRun
  imports Action "HOL-Library.Sublist"
begin

text \<open>
  Approvals under concurrency: any number of goroutines in \<open>Approve\<close>, interleaved at their points of
  contact with shared state with each other, with the other requests to the approval queue and with
  unattended execution. No approval executes twice, and every call of the executor is handed to the
  auditor.
\<close>

section \<open>The system\<close>

datatype approval_event =
    ARegister string action
  | AList
  | AReject string
  | AApprove string string
  | AResume nat
  | AAuto "kill_switch list" gotime rat action

text \<open>\<open>as_started\<close> has the id of every approval whenever it calls the executor.\<close>

record approval_system =
  as_queue :: approvals
  as_auto :: auto
  as_world :: world
  as_threads :: "approval_thread list"
  as_started :: "string list"

definition resume_thread :: "(string \<Rightarrow> action \<Rightarrow> string option) \<Rightarrow> nat \<Rightarrow> approval_system \<Rightarrow> approval_system" where
  "resume_thread exec k s =
     (if k < length (as_threads s)
      then (case approve_resume exec (av_policy (as_queue s)) (as_threads s ! k) (as_world s) of (t, wd) \<Rightarrow>
              s\<lparr>as_threads := (as_threads s)[k := t], as_world := wd,
                as_started := as_started s
                  @ (if length (wd_calls wd) > length (wd_calls (as_world s)) then [thread_id (as_threads s ! k)] else [])\<rparr>)
      else s)"

text \<open>One event at a clock reading. An approval enters at its claim; \<open>AResume k\<close> lets the \<open>k\<close>th go on.\<close>

definition approval_step ::
  "(string \<Rightarrow> action \<Rightarrow> string option) \<Rightarrow> (string \<Rightarrow> string) \<Rightarrow> gotime \<times> approval_event \<Rightarrow> approval_system \<Rightarrow> approval_system" where
  "approval_step exec redact x s = (case x of (now, ev) \<Rightarrow> (case ev of
     ARegister i act \<Rightarrow> s\<lparr>as_queue := snd (Register i now act (as_queue s))\<rparr>
   | AList \<Rightarrow> s\<lparr>as_queue := snd (List_pending now (as_queue s))\<rparr>
   | AReject i \<Rightarrow> s\<lparr>as_queue := snd (Reject i (as_queue s))\<rparr>
   | AApprove i actor \<Rightarrow> (case approve_claim i actor now (as_queue s) of (t, av) \<Rightarrow>
       s\<lparr>as_queue := av, as_threads := as_threads s @ [t]\<rparr>)
   | AResume k \<Rightarrow> resume_thread exec k s
   | AAuto ks now' confidence act \<Rightarrow> (case runOne exec redact ks now now' confidence act (as_auto s, as_world s) of
       (_, a, wd) \<Rightarrow> s\<lparr>as_auto := a, as_world := wd\<rparr>)))"

definition approval_run ::
  "(string \<Rightarrow> action \<Rightarrow> string option) \<Rightarrow> (string \<Rightarrow> string) \<Rightarrow> (gotime \<times> approval_event) list \<Rightarrow> approval_system \<Rightarrow> approval_system" where
  "approval_run exec redact xs s = fold (approval_step exec redact) xs s"

definition start_system :: "action_policy \<Rightarrow> auto \<Rightarrow> world \<Rightarrow> approval_system" where
  "start_system p a wd = \<lparr>as_queue = NewApprovals p, as_auto = a, as_world = wd, as_threads = [], as_started = []\<rparr>"

fun registered :: "(gotime \<times> approval_event) list \<Rightarrow> string list" where
  "registered [] = []"
| "registered ((now, ARegister i act) # xs) = i # registered xs"
| "registered (_ # xs) = registered xs"

section \<open>One ticket per approval\<close>

text \<open>An id is pending, claimed by one goroutine, or spent on a call; it moves, and is never copied.\<close>

fun claimed_id :: "approval_thread \<Rightarrow> string list" where
  "claimed_id (ThClaimed i _ _) = [i]"
| "claimed_id _ = []"

definition tickets :: "approval_system \<Rightarrow> string list" where
  "tickets s = as_started s @ concat (map claimed_id (as_threads s)) @ map fst (av_pending (as_queue s))"

definition tickets_ok :: "string set \<Rightarrow> approval_system \<Rightarrow> bool" where
  "tickets_ok R s \<longleftrightarrow> distinct (tickets s) \<and> set (tickets s) \<subseteq> R"

lemma distinct_submset:
  assumes "mset xs \<subseteq># mset ys" and "distinct ys"
  shows "distinct xs"
proof -
  obtain C where C: "mset ys = mset xs + C" using assms(1) unfolding mset_subset_eq_exists_conv by blast
  obtain zs where "mset zs = C" using ex_mset by blast
  with C have "mset ys = mset (xs @ zs)" by simp
  from mset_eq_imp_distinct_iff [OF this] assms(2) have "distinct (xs @ zs)" by blast
  then show ?thesis by (simp only: distinct_append)
qed

lemma tickets_submset: "mset (tickets s') \<subseteq># mset (tickets s) \<Longrightarrow> tickets_ok R s \<Longrightarrow> tickets_ok R s'"
  using set_mset_mono [of "mset (tickets s')" "mset (tickets s)"] by (auto simp: tickets_ok_def intro: distinct_submset)

lemma pending_submset:
  "distinct (map fst xs) \<Longrightarrow> mset (map fst (filter P xs)) \<subseteq># mset (map fst xs)"
  by (simp add: image_mset_subseteq_mono)

lemma mset_delete_id:
  "distinct (map fst xs) \<Longrightarrow> map_of xs i = Some e \<Longrightarrow> add_mset i (mset (map fst (AList.delete i xs))) = mset (map fst xs)"
proof (induction xs)
  case (Cons x xs)
  obtain k v where x: "x = (k, v)" by (cases x)
  show ?case
  proof (cases "k = i")
    case True
    then have "AList.delete i xs = xs" using Cons.prems(1) by (intro delete_id) (simp add: x)
    then show ?thesis using True by (simp add: x)
  next
    case False
    then show ?thesis using Cons by (simp add: x)
  qed
qed simp

lemma thread_step_calls:
  assumes "approve_resume exec p t wd = (t', wd')"
  shows "(\<exists>i actor a. t = ThClaimed i actor a \<and> wd_calls wd' = wd_calls wd @ [(actor, deriveSafety a)]
      \<and> t' = ThExecuting i actor (deriveSafety a))
    \<or> wd_calls wd' = wd_calls wd \<and> claimed_id t' = []"
  using assms by (cases t) (auto simp: Let_def call_inner_def inner_returned_def split: if_splits option.splits)

lemma threads_mset:
  assumes "k < length ts"
  shows "mset (concat (map f (ts[k := t]))) + mset (f (ts ! k)) = mset (concat (map f ts)) + mset (f t)"
proof -
  have "mset (concat (map f (take k ts @ t # drop (Suc k) ts))) + mset (f (ts ! k))
      = mset (concat (map f (take k ts @ ts ! k # drop (Suc k) ts))) + mset (f t)" by simp
  then show ?thesis using assms by (simp only: upd_conv_take_nth_drop id_take_nth_drop [symmetric])
qed

lemma resume_tickets: "tickets_ok R s \<Longrightarrow> tickets_ok R (resume_thread exec k s)"
proof -
  assume ok: "tickets_ok R s"
  show ?thesis
  proof (cases "k < length (as_threads s)")
    case True
    let ?t = "as_threads s ! k"
    obtain t' wd' where r: "approve_resume exec (av_policy (as_queue s)) ?t (as_world s) = (t', wd')" by (metis prod.exhaust)
    note m = threads_mset [OF True, of claimed_id t']
    have "mset (tickets (resume_thread exec k s)) \<subseteq># mset (tickets s)"
      using thread_step_calls [OF r]
    proof
      assume "\<exists>i actor a. ?t = ThClaimed i actor a \<and> wd_calls wd' = wd_calls (as_world s) @ [(actor, deriveSafety a)]
        \<and> t' = ThExecuting i actor (deriveSafety a)"
      then obtain i actor a where t: "?t = ThClaimed i actor a" "wd_calls wd' = wd_calls (as_world s) @ [(actor, deriveSafety a)]"
        "t' = ThExecuting i actor (deriveSafety a)" by blast
      then have "mset (concat (map claimed_id (as_threads s))) = add_mset i (mset (concat (map claimed_id ((as_threads s)[k := t']))))"
        using m by simp
      then show ?thesis using True r t by (simp add: resume_thread_def tickets_def)
    next
      assume t: "wd_calls wd' = wd_calls (as_world s) \<and> claimed_id t' = []"
      then have "mset (concat (map claimed_id ((as_threads s)[k := t']))) \<subseteq># mset (concat (map claimed_id (as_threads s)))"
        using m by (metis add.right_neutral mset.simps(1) mset_subset_eq_add_left)
      then show ?thesis using True r t by (simp add: resume_thread_def tickets_def)
    qed
    then show ?thesis using ok by (rule tickets_submset)
  qed (simp add: resume_thread_def ok)
qed

lemma claim_tickets: "tickets_ok R s \<Longrightarrow> tickets_ok R (approval_step exec redact (now, AApprove i actor) s)"
proof -
  assume ok: "tickets_ok R s"
  then have d: "distinct (map fst (av_pending (as_queue s)))" by (simp add: tickets_ok_def tickets_def)
  have "mset (tickets (approval_step exec redact (now, AApprove i actor) s)) \<subseteq># mset (tickets s)"
    using mset_delete_id [OF d, of i]
    by (auto simp: approval_step_def approve_claim_def claim_def tickets_def split: option.split prod.split)
  then show ?thesis using ok by (rule tickets_submset)
qed

lemma step_tickets:
  assumes ok: "tickets_ok R s" and fresh: "case ev of ARegister i act \<Rightarrow> i \<notin> R | _ \<Rightarrow> True"
  shows "tickets_ok (case ev of ARegister i act \<Rightarrow> insert i R | _ \<Rightarrow> R) (approval_step exec redact (now, ev) s)"
proof -
  have d: "distinct (map fst (av_pending (as_queue s)))" using ok by (simp add: tickets_ok_def tickets_def)
  show ?thesis
  proof (cases ev)
    case (ARegister i act)
    have "set (map fst (AList.update i e (av_pending (as_queue s)))) = insert i (set (map fst (av_pending (as_queue s))))" for e
      using dom_update [of i e "av_pending (as_queue s)"] by (simp add: dom_map_of_conv_image_fst)
    moreover have "i \<notin> set (tickets s)" using ok fresh ARegister by (auto simp: tickets_ok_def)
    ultimately show ?thesis using ok ARegister
      by (auto simp: approval_step_def Register_def tickets_ok_def tickets_def distinct_update simp del: set_map)
  next
    case AList
    have "mset (tickets (approval_step exec redact (now, ev) s)) \<subseteq># mset (tickets s)"
      using pending_submset [OF d] AList by (simp add: approval_step_def List_pending_def Let_def gc_def tickets_def)
    then show ?thesis using tickets_submset [OF _ ok] AList by simp
  next
    case (AReject i)
    have "mset (tickets (approval_step exec redact (now, ev) s)) \<subseteq># mset (tickets s)"
      using pending_submset [OF d] AReject by (auto simp: approval_step_def Reject_def tickets_def AList.delete_eq)
    then show ?thesis using tickets_submset [OF _ ok] AReject by simp
  next
    case (AApprove i actor)
    then show ?thesis using claim_tickets [OF ok] by simp
  next
    case (AResume k)
    then show ?thesis using resume_tickets [OF ok] by (simp add: approval_step_def)
  next
    case (AAuto ks now' confidence act)
    have "tickets (approval_step exec redact (now, ev) s) = tickets s"
      using AAuto by (simp add: approval_step_def tickets_def split: prod.split)
    then show ?thesis using ok AAuto by (simp add: tickets_ok_def)
  qed
qed

lemma run_tickets:
  assumes "tickets_ok R s" and "distinct (registered xs)" and "set (registered xs) \<inter> R = {}"
  shows "tickets_ok (R \<union> set (registered xs)) (approval_run exec redact xs s)"
  using assms
proof (induction xs arbitrary: s R)
  case Nil
  then show ?case by (simp add: approval_run_def)
next
  case (Cons x xs)
  obtain now ev where x: "x = (now, ev)" by (cases x)
  let ?R = "case ev of ARegister i act \<Rightarrow> insert i R | _ \<Rightarrow> R"
  have reg: "R \<union> set (registered (x # xs)) = ?R \<union> set (registered xs)"
    "distinct (registered xs)" "set (registered xs) \<inter> ?R = {}"
    "case ev of ARegister i act \<Rightarrow> i \<notin> R | _ \<Rightarrow> True"
    using Cons.prems(2,3) by (cases ev; auto simp: x)+
  from step_tickets [OF Cons.prems(1) reg(4), of exec redact now]
  show ?case using Cons.IH [OF _ reg(2,3)] by (simp add: approval_run_def x reg(1) [simplified x])
qed

text \<open>
  C17: An approval executes at most once. However many approvals, also of one id and by different
  people, run at once, and however they interleave with each other, with registrations under distinct
  ids, listings, rejections and unattended execution, no id reaches the executor twice, and only
  registered ids do.
\<close>

theorem approval_executes_at_most_once:
  assumes "distinct (registered xs)"
  shows "distinct (as_started (approval_run exec redact xs (start_system p a wd)))
    \<and> set (as_started (approval_run exec redact xs (start_system p a wd))) \<subseteq> set (registered xs)"
proof -
  have "tickets_ok {} (start_system p a wd)" by (simp add: tickets_ok_def tickets_def start_system_def NewApprovals_def)
  then have "tickets_ok (set (registered xs)) (approval_run exec redact xs (start_system p a wd))"
    using run_tickets [of "{}" "start_system p a wd" xs] assms by simp
  then show ?thesis by (auto simp: tickets_ok_def tickets_def)
qed

text \<open>Two people approve the same action at once; the one that claims it second finds nothing.\<close>

definition race :: "(gotime \<times> approval_event) list" where
  "race = [(1, ARegister ''i'' demo_action), (2, AApprove ''i'' ''bob''), (2, AApprove ''i'' ''eve''), (3, AResume 1), (3, AResume 0),
     (4, AResume 0)]"

lemma approval_executes_at_most_once_witness:
  "as_started (approval_run (\<lambda>_ _. None) id race (start_system demo_policy demo_auto empty_world)) = [''i'']
   \<and> distinct (as_started (approval_run (\<lambda>_ _. None) id race (start_system demo_policy demo_auto empty_world)))"
proof -
  have "as_started (approval_run (\<lambda>_ _. None) id race (start_system demo_policy demo_auto empty_world)) = [''i'']" by code_simp
  moreover have "distinct (registered race)" by code_simp
  ultimately show ?thesis using approval_executes_at_most_once [of race "\<lambda>_ _. None" id demo_policy demo_auto empty_world] by simp
qed

section \<open>The audit trail\<close>

text \<open>A call as the trail describes it: actor, operation, target, and whether it succeeded.\<close>

definition call_record :: "(string \<Rightarrow> action \<Rightarrow> string option) \<Rightarrow> string \<Rightarrow> action \<Rightarrow> string \<times> string \<times> string \<times> bool" where
  "call_record exec actor a = (actorFromContext actor, ac_op a, target a, exec actor a = None)"

definition made_calls :: "(string \<Rightarrow> action \<Rightarrow> string option) \<Rightarrow> world \<Rightarrow> (string \<times> string \<times> string \<times> bool) list" where
  "made_calls exec wd = map (\<lambda>(actor, a). call_record exec actor a) (wd_calls wd)"

definition attempted_calls :: "world \<Rightarrow> (string \<times> string \<times> string \<times> bool) list" where
  "attempted_calls wd = map (\<lambda>r. (at_actor r, at_op r, at_target r, at_decision r = DecisionExecuted))
     (filter (\<lambda>r. at_decision r = DecisionExecuted \<or> at_decision r = DecisionFailed) (wd_attempts wd))"

fun flying :: "(string \<Rightarrow> action \<Rightarrow> string option) \<Rightarrow> approval_thread \<Rightarrow> (string \<times> string \<times> string \<times> bool) list" where
  "flying exec (ThExecuting i actor act) = [call_record exec actor act]"
| "flying exec _ = []"

definition in_flight :: "(string \<Rightarrow> action \<Rightarrow> string option) \<Rightarrow> approval_system \<Rightarrow> (string \<times> string \<times> string \<times> bool) list" where
  "in_flight exec s = concat (map (flying exec) (as_threads s))"

text \<open>The trail misses nothing but what the auditor could not write.\<close>

definition trail_ok :: "(attempt_record list \<Rightarrow> attempt_record \<Rightarrow> bool) \<Rightarrow> world \<Rightarrow> bool" where
  "trail_ok A wd \<longleftrightarrow> wd_auditor wd = A \<and> subseq (wd_audit wd) (wd_attempts wd) \<and> ((\<forall>h r. A h r) \<longrightarrow> wd_audit wd = wd_attempts wd)"

definition balanced :: "(string \<Rightarrow> action \<Rightarrow> string option) \<Rightarrow> (attempt_record list \<Rightarrow> attempt_record \<Rightarrow> bool)
     \<Rightarrow> (string \<times> string \<times> string \<times> bool) multiset \<Rightarrow> world \<Rightarrow> bool" where
  "balanced exec A M wd \<longleftrightarrow> trail_ok A wd \<and> mset (made_calls exec wd) = mset (attempted_calls wd) + M"

lemma recordAttempt_frame [simp]:
  "wd_auditor (recordAttempt actor act d r wd) = wd_auditor wd"
  "made_calls exec (recordAttempt actor act d r wd) = made_calls exec wd"
  by (simp_all add: recordAttempt_def made_calls_def Let_def)

lemma recordAttempt_trail: "trail_ok A wd \<Longrightarrow> trail_ok A (recordAttempt actor act d r wd)"
  by (auto simp: trail_ok_def recordAttempt_def Let_def intro: list_emb_append_mono)

lemma balanced_record:
  "d = DecisionSkipped \<or> d = DecisionDenied \<or> d = DecisionDryRun \<Longrightarrow> balanced exec A M wd \<Longrightarrow>
     balanced exec A M (recordAttempt actor act d r wd)"
  by (auto simp: balanced_def recordAttempt_trail) (auto simp: attempted_calls_def recordAttempt_def Let_def)

lemma balanced_call: "balanced exec A M wd \<Longrightarrow> balanced exec A (add_mset (call_record exec actor act) M) (call_inner actor act wd)"
  by (simp add: balanced_def trail_ok_def made_calls_def attempted_calls_def call_inner_def)

lemma balanced_returned:
  assumes "balanced exec A (add_mset (call_record exec actor act) M) wd"
  shows "balanced exec A M (snd (inner_returned exec actor act wd))"
  using assms
  by (auto simp: balanced_def inner_returned_def recordAttempt_trail split: option.split)
    (auto simp: attempted_calls_def recordAttempt_def call_record_def Let_def)

lemma balanced_Execute: "balanced exec A M wd \<Longrightarrow> balanced exec A M (snd (Execute exec actor act wd))"
  unfolding Execute_def by (intro balanced_returned balanced_call)

lemma balanced_runOne:
  assumes "balanced exec A M wd" and "runOne exec redact ks n n' confidence act (a, wd) = (out, a', wd')"
  shows "balanced exec A M wd'"
proof -
  obtain err wd1 where e: "Execute exec ''auto'' (deriveSafety act) wd = (err, wd1)" by (metis prod.exhaust)
  have b: "balanced exec A M wd1" using balanced_Execute [OF assms(1)] e by (metis snd_conv)
  show ?thesis
    using assms(2) b e
    by (cases err) (auto simp: runOne_def Let_def intro!: balanced_record assms(1) split: if_splits option.splits prod.splits bool.splits)
qed

lemma balanced_resume:
  assumes "balanced exec A (M + mset (flying exec t)) wd" and "approve_resume exec p t wd = (t', wd')"
  shows "balanced exec A (M + mset (flying exec t')) wd'"
proof (cases t)
  case (ThClaimed i actor a)
  then show ?thesis
    using assms balanced_call [of exec A M wd actor "deriveSafety a"]
    by (auto simp: Let_def intro!: balanced_record split: if_splits)
next
  case (ThExecuting i actor act)
  then show ?thesis using assms balanced_returned [of exec A actor act M wd] by (auto split: prod.splits option.splits)
next
  case (ThAnswered i r)
  then show ?thesis using assms by auto
qed

lemma balanced_step:
  assumes "balanced exec A (mset (in_flight exec s)) (as_world s)"
  shows "balanced exec A (mset (in_flight exec (approval_step exec redact x s))) (as_world (approval_step exec redact x s))"
proof -
  obtain now ev where x: "x = (now, ev)" by (cases x)
  show ?thesis
  proof (cases ev)
    case (AApprove i actor)
    have "flying exec t = []" if "approve_claim i actor now (as_queue s) = (t, av)" for t av
      using that by (auto simp: approve_claim_def split: option.splits prod.splits)
    then show ?thesis using assms AApprove by (auto simp: x approval_step_def in_flight_def split: prod.split)
  next
    case (AResume k)
    show ?thesis
    proof (cases "k < length (as_threads s)")
      case True
      let ?t = "as_threads s ! k"
      obtain t' wd' where r: "approve_resume exec (av_policy (as_queue s)) ?t (as_world s) = (t', wd')" by (metis prod.exhaust)
      obtain M where M: "mset (in_flight exec s) = M + mset (flying exec ?t)"
        "mset (concat (map (flying exec) ((as_threads s)[k := t']))) = M + mset (flying exec t')"
      proof
        have "concat (map (flying exec) (as_threads s))
            = concat (map (flying exec) (take k (as_threads s) @ ?t # drop (Suc k) (as_threads s)))"
          using True by (simp only: id_take_nth_drop [symmetric])
        then show "mset (in_flight exec s) = mset (concat (map (flying exec) (take k (as_threads s)))
            @ concat (map (flying exec) (drop (Suc k) (as_threads s)))) + mset (flying exec ?t)"
          by (simp add: in_flight_def)
        show "mset (concat (map (flying exec) ((as_threads s)[k := t']))) = mset (concat (map (flying exec) (take k (as_threads s)))
            @ concat (map (flying exec) (drop (Suc k) (as_threads s)))) + mset (flying exec t')"
          using True by (simp add: upd_conv_take_nth_drop)
      qed
      then show ?thesis using balanced_resume [OF _ r, of A M] assms True r AResume
        by (simp add: x approval_step_def resume_thread_def in_flight_def)
    qed (use assms AResume in \<open>simp add: x approval_step_def resume_thread_def\<close>)
  next
    case (AAuto ks now' confidence act)
    obtain out a wd' where r: "runOne exec redact ks now now' confidence act (as_auto s, as_world s) = (out, a, wd')" by (metis prod.exhaust)
    show ?thesis using balanced_runOne [OF assms r] AAuto r by (simp add: x approval_step_def in_flight_def)
  qed (use assms in \<open>simp_all add: x approval_step_def in_flight_def\<close>)
qed

lemma balanced_run:
  "balanced exec A (mset (in_flight exec s)) (as_world s) \<Longrightarrow>
     balanced exec A (mset (in_flight exec (approval_run exec redact xs s))) (as_world (approval_run exec redact xs s))"
  by (induction xs arbitrary: s) (simp_all add: approval_run_def balanced_step)

definition fresh_world :: "(attempt_record list \<Rightarrow> attempt_record \<Rightarrow> bool) \<Rightarrow> world" where
  "fresh_world auditor = \<lparr>wd_calls = [], wd_attempts = [], wd_audit = [], wd_auditor = auditor\<rparr>"

text \<open>
  C39: No execution escapes the auditor. Whatever approvals and unattended actions run, and however
  they interleave, every call the executor got is still running or was handed to the auditor exactly
  once, with the actor of its context (or "unknown" when the context names none), its operation, target
  and result. The trail holds, in that order, the attempts that the auditor could write: an attempt it
  fails to write is lost, since the error is dropped, and when no write fails none is missing.
\<close>

theorem every_execution_audited:
  assumes "s = approval_run exec redact xs (start_system p a (fresh_world auditor))"
  shows "mset (made_calls exec (as_world s)) = mset (attempted_calls (as_world s)) + mset (in_flight exec s)
    \<and> subseq (wd_audit (as_world s)) (wd_attempts (as_world s))
    \<and> ((\<forall>h r. auditor h r) \<longrightarrow> wd_audit (as_world s) = wd_attempts (as_world s))"
proof -
  have "balanced exec auditor (mset (in_flight exec s)) (as_world s)"
    unfolding assms by (rule balanced_run)
      (simp add: balanced_def trail_ok_def start_system_def in_flight_def made_calls_def attempted_calls_def fresh_world_def)
  then show ?thesis by (auto simp: balanced_def trail_ok_def)
qed

lemma every_execution_audited_witness:
  "\<exists>s. s = approval_run (\<lambda>_ _. None) id race (start_system demo_policy demo_auto (fresh_world (\<lambda>_ _. True)))
     \<and> wd_audit (as_world s) \<noteq> [] \<and> wd_audit (as_world s) = wd_attempts (as_world s) \<and> in_flight (\<lambda>_ _. None) s = []
     \<and> mset (made_calls (\<lambda>_ _. None) (as_world s)) = mset (attempted_calls (as_world s))"
proof -
  let ?s = "approval_run (\<lambda>_ _. None) id race (start_system demo_policy demo_auto (fresh_world (\<lambda>_ _. True)))"
  have "in_flight (\<lambda>_ _. None) ?s = []" "wd_audit (as_world ?s) \<noteq> []" by code_simp+
  then show ?thesis using every_execution_audited [OF refl, of "\<lambda>_ _. None" id race demo_policy demo_auto "\<lambda>_ _. True"]
    by (intro exI [of _ ?s]) simp
qed

end
