(* ===== verification/LedgerTypes.thy ===== *)
theory LedgerTypes
  imports GoDuration
begin

text \<open>
  The data of \<open>internal/outcome/ledger.go\<close>: ledger lines, the per-entry aggregate, the
  per-trigger roll-up, votes, silences, verifications, the checkpoint a compaction writes, and
  the in-memory state that the fold of the lines maintains. Also the pure predicates on them
  (\<open>Event.resolvable\<close>, \<open>Derived\<close>, \<open>Verdict.Conclusive\<close>, \<open>Aggregate.HasEvidence\<close>,
  \<open>Aggregate.Factor\<close>, \<open>TriggerRecurrence\<close>'s \<open>Contested\<close>, \<open>Concluded\<close> and
  \<open>SilenceOutranksFeedback\<close>).

  Go structs are records; \<open>map[string]T\<close> is a partial function, except \<open>votes\<close> and
  \<open>verifies\<close>, which the code iterates over and which are association lists.
\<close>

section \<open>Verdicts\<close>

type_synonym verdict = string

definition verdict_conclusive :: "verdict \<Rightarrow> bool" where
  "verdict_conclusive v \<longleftrightarrow>
     v = ''no_action'' \<or> v = ''action_suggested'' \<or> v = ''action_required''"

definition verdict_valid :: "verdict \<Rightarrow> bool" where
  "verdict_valid v \<longleftrightarrow> verdict_conclusive v \<or> v = ''inconclusive''"

definition verdict_claims_action :: "verdict \<Rightarrow> bool" where
  "verdict_claims_action v \<longleftrightarrow> verdict_conclusive v \<and> v \<noteq> ''no_action''"

lemma not_conclusive_Nil [simp]: "\<not> verdict_conclusive []"
  by (simp add: verdict_conclusive_def)

section \<open>Ledger lines\<close>

text \<open>
  One parsed line of the ledger, without its checkpoint payload. \<open>ev_resolvable\<close> is the
  three-state pointer of the source: \<open>None\<close> on a line written before the field existed.
\<close>

record event =
  ev_event :: string
  ev_fingerprint :: string
  ev_dupFingerprint :: string
  ev_kind :: string
  ev_entry :: string
  ev_title :: string
  ev_resource :: string
  ev_at :: gotime
  ev_startedAt :: gotime
  ev_triggerKey :: string
  ev_curatedURL :: string
  ev_verdict :: verdict
  ev_room :: string
  ev_tokens :: int
  ev_user :: string
  ev_resolvable :: "bool option"

definition zero_event :: event where
  "zero_event = \<lparr>ev_event = [], ev_fingerprint = [], ev_dupFingerprint = [], ev_kind = [],
     ev_entry = [], ev_title = [], ev_resource = [], ev_at = 0, ev_startedAt = 0,
     ev_triggerKey = [], ev_curatedURL = [], ev_verdict = [], ev_room = [], ev_tokens = 0,
     ev_user = [], ev_resolvable = None\<rparr>"

definition mk_event :: "string \<Rightarrow> string \<Rightarrow> gotime \<Rightarrow> event" where
  "mk_event k fp t = zero_event\<lparr>ev_event := k, ev_fingerprint := fp, ev_at := t\<rparr>"

definition resolvable :: "'a event_scheme \<Rightarrow> bool" where
  "resolvable e = (case ev_resolvable e of None \<Rightarrow> True | Some b \<Rightarrow> b)"

definition GitOpsFingerprintPrefix :: string where
  "GitOpsFingerprintPrefix = ''gitops:''"

definition ReinvestigateFingerprintPrefix :: string where
  "ReinvestigateFingerprintPrefix = ''reinvestigate:''"

definition Derived :: "string \<Rightarrow> bool" where
  "Derived fp \<longleftrightarrow> has_prefix fp GitOpsFingerprintPrefix
     \<or> has_prefix fp ReinvestigateFingerprintPrefix"

text \<open>
  \<open>DeriveFingerprint\<close>: the hash is the parameter \<open>sum8\<close> (the hex text of the first eight
  bytes of SHA-256).
\<close>

definition DeriveFingerprint :: "(string \<Rightarrow> string) \<Rightarrow> string \<Rightarrow> string \<Rightarrow> string" where
  "DeriveFingerprint sum8 prefix key = prefix @ sum8 key"

lemma Derived_DeriveFingerprint:
  "Derived (DeriveFingerprint sum8 GitOpsFingerprintPrefix key)"
  "Derived (DeriveFingerprint sum8 ReinvestigateFingerprintPrefix key)"
  by (simp_all add: Derived_def DeriveFingerprint_def)

section \<open>Aggregates and the trust factor\<close>

record aggregate =
  ag_recalls :: int
  ag_resolved :: int
  ag_feedbackUp :: int
  ag_feedbackDown :: int
  ag_lastConfirmed :: gotime
  ag_confirms :: int
  ag_verified :: int
  ag_failed :: int

definition zero_agg :: aggregate where
  "zero_agg = \<lparr>ag_recalls = 0, ag_resolved = 0, ag_feedbackUp = 0, ag_feedbackDown = 0,
     ag_lastConfirmed = 0, ag_confirms = 0, ag_verified = 0, ag_failed = 0\<rparr>"

lemma zero_agg_simps [simp]:
  "ag_recalls zero_agg = 0" "ag_resolved zero_agg = 0" "ag_feedbackUp zero_agg = 0"
  "ag_feedbackDown zero_agg = 0" "ag_lastConfirmed zero_agg = 0" "ag_confirms zero_agg = 0"
  "ag_verified zero_agg = 0" "ag_failed zero_agg = 0"
  by (simp_all add: zero_agg_def)

text \<open>Go computes in \<open>float64\<close>; the model computes with exact rationals.\<close>

definition confirmWeight :: rat where
  "confirmWeight = 1 / 2"

definition HasEvidence :: "aggregate \<Rightarrow> bool" where
  "HasEvidence a \<longleftrightarrow> ag_resolved a > 0 \<or> ag_feedbackUp a > 0 \<or> ag_feedbackDown a > 0
     \<or> ag_confirms a > 0 \<or> ag_verified a > 0 \<or> ag_failed a > 0"

definition Factor :: "aggregate \<Rightarrow> rat \<Rightarrow> rat" where
  "Factor a k =
     (let c = confirmWeight * of_int (ag_confirms a)
      in (of_int (ag_resolved a + ag_feedbackUp a + ag_verified a) + c + k / 2)
         / (of_int (ag_recalls a + ag_feedbackUp a + ag_feedbackDown a + ag_verified a + ag_failed a)
            + c + k))"

section \<open>Triggers, votes, silences, verifications\<close>

record conclusive_prior =
  cp_at :: gotime
  cp_verdict :: verdict
  cp_title :: string
  cp_curatedURL :: string

definition zero_prior :: conclusive_prior where
  "zero_prior = \<lparr>cp_at = 0, cp_verdict = [], cp_title = [], cp_curatedURL = []\<rparr>"

record trigger_agg =
  ta_count :: int
  ta_last :: gotime
  ta_curatedURL :: string
  ta_entry :: string
  ta_verdict :: verdict
  ta_fingerprint :: string
  ta_conclusive :: conclusive_prior
  ta_linkedURL :: string

definition zero_trigger :: trigger_agg where
  "zero_trigger = \<lparr>ta_count = 0, ta_last = 0, ta_curatedURL = [], ta_entry = [], ta_verdict = [],
     ta_fingerprint = [], ta_conclusive = zero_prior, ta_linkedURL = []\<rparr>"

lemma zero_trigger_simps [simp]:
  "ta_count zero_trigger = 0" "ta_last zero_trigger = 0" "ta_curatedURL zero_trigger = []"
  "ta_entry zero_trigger = []" "ta_verdict zero_trigger = []" "ta_fingerprint zero_trigger = []"
  "ta_conclusive zero_trigger = zero_prior" "ta_linkedURL zero_trigger = []"
  "cp_at zero_prior = 0" "cp_verdict zero_prior = []" "cp_title zero_prior = []"
  "cp_curatedURL zero_prior = []"
  by (simp_all add: zero_trigger_def zero_prior_def)

record feedback_vote =
  fv_rating :: string
  fv_entry :: string
  fv_at :: gotime

record silence_state =
  si_at :: gotime
  si_until :: gotime

record verify_state =
  vs_entry :: string
  vs_dupFP :: string
  vs_held :: bool
  vs_at :: gotime

record pending_open =
  po_entry :: string
  po_counted :: bool

section \<open>Checkpoint and in-memory state\<close>

text \<open>
  The JSON mirrors of the unexported index types have the same fields, so the checkpoint uses
  the types themselves; the silences travel as two sibling maps, as in the source.
\<close>

record checkpoint =
  ck_agg :: "string \<rightharpoonup> aggregate"
  ck_byTrigger :: "string \<rightharpoonup> trigger_agg"
  ck_openIndex :: "string \<rightharpoonup> event"
  ck_pendingOpens :: "string \<rightharpoonup> pending_open list"
  ck_pendingResolves :: "string \<rightharpoonup> gotime list"
  ck_votes :: "(string \<times> feedback_vote) list"
  ck_silences :: "string \<rightharpoonup> gotime"
  ck_silencedAt :: "string \<rightharpoonup> gotime"
  ck_triggerConfirms :: "string \<rightharpoonup> int"
  ck_verifies :: "(string \<times> verify_state) list"
  ck_droppedResolves :: int
  ck_staleResolves :: int
  ck_resolvesSeen :: int

text \<open>A line of the file: an event, with a payload on a compaction's checkpoint line.\<close>

record line = event +
  ln_checkpoint :: "checkpoint option"

text \<open>A line without a payload.\<close>

definition plain_line :: "event \<Rightarrow> line" where
  "plain_line e = event.extend e \<lparr>ln_checkpoint = None\<rparr>"

lemma plain_line_simps [simp]:
  "ev_event (plain_line e) = ev_event e" "ev_fingerprint (plain_line e) = ev_fingerprint e"
  "ev_dupFingerprint (plain_line e) = ev_dupFingerprint e" "ev_kind (plain_line e) = ev_kind e"
  "ev_entry (plain_line e) = ev_entry e" "ev_title (plain_line e) = ev_title e"
  "ev_resource (plain_line e) = ev_resource e" "ev_at (plain_line e) = ev_at e"
  "ev_startedAt (plain_line e) = ev_startedAt e" "ev_triggerKey (plain_line e) = ev_triggerKey e"
  "ev_curatedURL (plain_line e) = ev_curatedURL e" "ev_verdict (plain_line e) = ev_verdict e"
  "ev_room (plain_line e) = ev_room e" "ev_tokens (plain_line e) = ev_tokens e"
  "ev_user (plain_line e) = ev_user e" "ev_resolvable (plain_line e) = ev_resolvable e"
  "ln_checkpoint (plain_line e) = None" "event.truncate (plain_line e) = e"
  by (simp_all add: plain_line_def event.defs)

record ledger =
  l_open :: "string \<rightharpoonup> event"
  l_agg :: "string \<rightharpoonup> aggregate"
  l_pendingOpens :: "string \<rightharpoonup> pending_open list"
  l_pendingResolves :: "string \<rightharpoonup> gotime list"
  l_byTrigger :: "string \<rightharpoonup> trigger_agg"
  l_votes :: "(string \<times> feedback_vote) list"
  l_silences :: "string \<rightharpoonup> silence_state"
  l_triggerConfirms :: "string \<rightharpoonup> int"
  l_verifies :: "(string \<times> verify_state) list"
  l_droppedResolves :: int
  l_staleResolves :: int
  l_resolvesSeen :: int

definition reset_state :: ledger where
  "reset_state = \<lparr>l_open = Map.empty, l_agg = Map.empty, l_pendingOpens = Map.empty,
     l_pendingResolves = Map.empty, l_byTrigger = Map.empty, l_votes = [], l_silences = Map.empty,
     l_triggerConfirms = Map.empty, l_verifies = [], l_droppedResolves = 0, l_staleResolves = 0,
     l_resolvesSeen = 0\<rparr>"

lemma reset_state_simps [simp]:
  "l_open reset_state = Map.empty" "l_agg reset_state = Map.empty"
  "l_pendingOpens reset_state = Map.empty" "l_pendingResolves reset_state = Map.empty"
  "l_byTrigger reset_state = Map.empty" "l_votes reset_state = []"
  "l_silences reset_state = Map.empty" "l_triggerConfirms reset_state = Map.empty"
  "l_verifies reset_state = []" "l_droppedResolves reset_state = 0"
  "l_staleResolves reset_state = 0" "l_resolvesSeen reset_state = 0"
  by (simp_all add: reset_state_def)

text \<open>The aggregate of an entry and the roll-up of a trigger, zero when absent.\<close>

abbreviation agg_of :: "ledger \<Rightarrow> string \<Rightarrow> aggregate" where
  "agg_of L x \<equiv> mget zero_agg (l_agg L) x"

abbreviation trigger_of :: "ledger \<Rightarrow> string \<Rightarrow> trigger_agg" where
  "trigger_of L tk \<equiv> mget zero_trigger (l_byTrigger L) tk"

section \<open>The recurrence snapshot\<close>

record trigger_recurrence =
  tr_count :: int
  tr_last :: gotime
  tr_verdict :: verdict
  tr_curatedURL :: string
  tr_feedbackDown :: int
  tr_feedbackDownLatest :: gotime
  tr_conclusive :: conclusive_prior
  tr_silencedUntil :: gotime
  tr_silencedAt :: gotime

definition zero_recurrence :: trigger_recurrence where
  "zero_recurrence = \<lparr>tr_count = 0, tr_last = 0, tr_verdict = [], tr_curatedURL = [],
     tr_feedbackDown = 0, tr_feedbackDownLatest = 0, tr_conclusive = zero_prior,
     tr_silencedUntil = 0, tr_silencedAt = 0\<rparr>"

definition Contested :: "trigger_recurrence \<Rightarrow> bool" where
  "Contested r \<longleftrightarrow> tr_feedbackDown r > 0"

definition SilenceOutranksFeedback :: "trigger_recurrence \<Rightarrow> bool" where
  "SilenceOutranksFeedback r =
     (if \<not> Contested r then True
      else if is_zero_time (tr_silencedAt r) \<or> is_zero_time (tr_feedbackDownLatest r) then False
      else tr_silencedAt r > tr_feedbackDownLatest r)"

definition Concluded :: "trigger_recurrence \<Rightarrow> bool" where
  "Concluded r \<longleftrightarrow> verdict_conclusive (cp_verdict (tr_conclusive r))"

end
