(* ===== verification/LedgerFold.thy ===== *)
theory LedgerFold
  imports LedgerTypes
begin

text \<open>
  The fold of \<open>internal/outcome/ledger.go\<close>: one definition per \<open>apply...Locked\<close> function,
  each a function from the in-memory state to the next one, and \<open>fold_line\<close>, the dispatch of
  \<open>foldLocked\<close>. The lemmas say which fields a step leaves alone (\<open>ledger_frame\<close>).
\<close>

section \<open>Opens and resolves\<close>

definition maxPendingResolvesPerFingerprint :: nat where
  "maxPendingResolvesPerFingerprint = 64"

definition legacyMaxEarlyResolveAge :: duration where
  "legacyMaxEarlyResolveAge = hour"

text \<open>
  \<open>resolvesSince\<close>: the buffered resolves that can belong to the open \<open>e\<close>, in arrival order,
  and how many were dropped.
\<close>

definition resolve_cutoff :: "'a event_scheme \<Rightarrow> gotime" where
  "resolve_cutoff e =
     (if is_zero_time (ev_startedAt e) then ev_at e - legacyMaxEarlyResolveAge
      else ev_startedAt e)"

definition resolvesSince :: "gotime list \<Rightarrow> 'a event_scheme \<Rightarrow> gotime list \<times> int" where
  "resolvesSince rs e =
     (let cutoff = resolve_cutoff e
      in (filter (\<lambda>t. \<not> t < cutoff) rs, int (length (filter (\<lambda>t. t < cutoff) rs))))"

definition upd_agg :: "string \<Rightarrow> (aggregate \<Rightarrow> aggregate) \<Rightarrow> ledger \<Rightarrow> ledger" where
  "upd_agg x f L = L\<lparr>l_agg := (l_agg L)(x \<mapsto> f (agg_of L x))\<rparr>"

definition creditResolve :: "string \<Rightarrow> gotime \<Rightarrow> ledger \<Rightarrow> ledger" where
  "creditResolve entry t = upd_agg entry (\<lambda>a.
     a\<lparr>ag_resolved := ag_resolved a + 1,
       ag_lastConfirmed := (if t > ag_lastConfirmed a then t else ag_lastConfirmed a)\<rparr>)"

definition counted_open :: "'a event_scheme \<Rightarrow> bool" where
  "counted_open e \<longleftrightarrow> ev_kind e = ''recall'' \<and> ev_entry e \<noteq> [] \<and> resolvable e"

definition push_open :: "'a event_scheme \<Rightarrow> ledger \<Rightarrow> ledger" where
  "push_open e L = L\<lparr>l_pendingOpens := (l_pendingOpens L)(ev_fingerprint e \<mapsto>
     mget [] (l_pendingOpens L) (ev_fingerprint e)
       @ [\<lparr>po_entry = ev_entry e, po_counted = counted_open e\<rparr>])\<rparr>"

definition count_recall :: "'a event_scheme \<Rightarrow> ledger \<Rightarrow> ledger" where
  "count_recall e L = (if counted_open e
     then upd_agg (ev_entry e) (\<lambda>a. a\<lparr>ag_recalls := ag_recalls a + 1\<rparr>) L else L)"

definition note_stale :: "int \<Rightarrow> ledger \<Rightarrow> ledger" where
  "note_stale n L = (if n > 0 then L\<lparr>l_staleResolves := l_staleResolves L + n\<rparr> else L)"

definition applyOpen :: "'a event_scheme \<Rightarrow> ledger \<Rightarrow> ledger" where
  "applyOpen e L0 =
     (let fp = ev_fingerprint e;
          L = count_recall e L0;
          rs = mget [] (l_pendingResolves L) fp
      in if rs \<noteq> [] then
           (case resolvesSince rs e of (kept, stale) \<Rightarrow>
              (let L1 = note_stale stale L
               in if kept \<noteq> [] then
                    (let L2 = L1\<lparr>l_pendingResolves := (l_pendingResolves L1)(fp \<mapsto> tl kept)\<rparr>
                     in if counted_open e then creditResolve (ev_entry e) (hd kept) L2 else L2)
                  else push_open e
                    (L1\<lparr>l_pendingResolves := (l_pendingResolves L1)(fp := None)\<rparr>)))
         else push_open e L)"

definition clearSilencesForFingerprint :: "string \<Rightarrow> ledger \<Rightarrow> ledger" where
  "clearSilencesForFingerprint fp L =
     (if fp = [] then L
      else L\<lparr>l_silences := (\<lambda>tk. case l_silences L tk of
               None \<Rightarrow> None
             | Some s \<Rightarrow> if ta_fingerprint (trigger_of L tk) = fp then None else Some s)\<rparr>)"

text \<open>The silence on the trigger of the fingerprint's live open.\<close>

definition clearSilenceOfOpen :: "string \<Rightarrow> ledger \<Rightarrow> ledger" where
  "clearSilenceOfOpen fp L =
     (case l_open L fp of
        None \<Rightarrow> L
      | Some o' \<Rightarrow> if ev_triggerKey o' \<noteq> []
                  then L\<lparr>l_silences := (l_silences L)(ev_triggerKey o' := None)\<rparr> else L)"

definition buffer_resolve :: "string \<Rightarrow> gotime \<Rightarrow> ledger \<Rightarrow> ledger" where
  "buffer_resolve fp t L =
     (let rs = mget [] (l_pendingResolves L) fp
      in if length rs \<ge> maxPendingResolvesPerFingerprint
         then L\<lparr>l_droppedResolves := l_droppedResolves L + 1,
                l_pendingResolves := (l_pendingResolves L)(fp \<mapsto> tl rs @ [t])\<rparr>
         else L\<lparr>l_pendingResolves := (l_pendingResolves L)(fp \<mapsto> rs @ [t])\<rparr>)"

text \<open>The pairing half of \<open>applyResolveLocked\<close>: pop the newest open, or buffer.\<close>

definition pair_resolve :: "string \<Rightarrow> gotime \<Rightarrow> ledger \<Rightarrow> ledger" where
  "pair_resolve fp t L =
     (let stack = mget [] (l_pendingOpens L) fp
      in if stack = [] then buffer_resolve fp t L
         else (let top = last stack;
                   L1 = L\<lparr>l_pendingOpens := (l_pendingOpens L)(fp \<mapsto> butlast stack)\<rparr>
               in if po_counted top then creditResolve (po_entry top) t L1 else L1))"

definition applyResolve :: "string \<Rightarrow> gotime \<Rightarrow> ledger \<Rightarrow> ledger" where
  "applyResolve fp t L0 =
     (let L1 = clearSilenceOfOpen fp L0;
          L2 = clearSilencesForFingerprint fp L1;
          L3 = L2\<lparr>l_resolvesSeen := l_resolvesSeen L2 + 1\<rparr>
      in pair_resolve fp t L3)"

section \<open>The per-trigger index\<close>

definition applyTrigger :: "'a event_scheme \<Rightarrow> ledger \<Rightarrow> ledger" where
  "applyTrigger e L =
     (if ev_triggerKey e = [] then L
      else (let a0 = trigger_of L (ev_triggerKey e);
                a1 = a0\<lparr>ta_count := ta_count a0 + 1\<rparr>;
                a2 = (if \<not> ev_at e < ta_last a1
                      then a1\<lparr>ta_last := ev_at e,
                              ta_curatedURL := str_or (ev_curatedURL e) (ta_linkedURL a1),
                              ta_entry := ev_entry e,
                              ta_verdict := ev_verdict e,
                              ta_fingerprint := ev_fingerprint e\<rparr>
                      else a1);
                a3 = (if verdict_conclusive (ev_verdict e) \<and> \<not> ev_at e < cp_at (ta_conclusive a2)
                      then a2\<lparr>ta_conclusive := \<lparr>cp_at = ev_at e, cp_verdict = ev_verdict e,
                             cp_title = ev_title e,
                             cp_curatedURL = str_or (ev_curatedURL e) (ta_linkedURL a2)\<rparr>\<rparr>
                      else a2)
            in L\<lparr>l_byTrigger := (l_byTrigger L)(ev_triggerKey e \<mapsto> a3)\<rparr>))"

definition applyLink :: "'a event_scheme \<Rightarrow> ledger \<Rightarrow> ledger" where
  "applyLink e L =
     (if ev_triggerKey e = [] \<or> ev_curatedURL e = [] then L
      else (let a0 = trigger_of L (ev_triggerKey e);
                a1 = a0\<lparr>ta_curatedURL := ev_curatedURL e, ta_linkedURL := ev_curatedURL e\<rparr>;
                c = ta_conclusive a1;
                a2 = (if \<not> is_zero_time (cp_at c) \<and> cp_curatedURL c = []
                      then a1\<lparr>ta_conclusive := c\<lparr>cp_curatedURL := ev_curatedURL e\<rparr>\<rparr> else a1)
            in L\<lparr>l_byTrigger := (l_byTrigger L)(ev_triggerKey e \<mapsto> a2)\<rparr>))"

section \<open>Votes, silences, confirmations, verifications\<close>

definition creditFeedback :: "string \<Rightarrow> string \<Rightarrow> int \<Rightarrow> ledger \<Rightarrow> ledger" where
  "creditFeedback entry rating delta L =
     (if entry = [] then L
      else upd_agg entry (\<lambda>a. if rating = ''up''
             then a\<lparr>ag_feedbackUp := ag_feedbackUp a + delta\<rparr>
             else a\<lparr>ag_feedbackDown := ag_feedbackDown a + delta\<rparr>) L)"

definition vote_key :: "string \<Rightarrow> string \<Rightarrow> string" where
  "vote_key tk user = tk @ CHR 0x00 # user"

definition applyFeedback :: "'a event_scheme \<Rightarrow> ledger \<Rightarrow> ledger" where
  "applyFeedback e L =
     (if ev_triggerKey e = [] \<or> (ev_kind e \<noteq> ''up'' \<and> ev_kind e \<noteq> ''down'') then L
      else (let key = vote_key (ev_triggerKey e) (ev_user e);
                entry = ta_entry (trigger_of L (ev_triggerKey e));
                new = \<lparr>fv_rating = ev_kind e, fv_entry = entry, fv_at = ev_at e\<rparr>
            in case map_of (l_votes L) key of
                 Some prev \<Rightarrow>
                   (if fv_rating prev = ev_kind e \<and> fv_entry prev = entry
                    then (if ev_at e > fv_at prev
                          then L\<lparr>l_votes := AList.update key (prev\<lparr>fv_at := ev_at e\<rparr>) (l_votes L)\<rparr>
                          else L)
                    else (let L1 = creditFeedback (fv_entry prev) (fv_rating prev) (-1) L;
                              L2 = L1\<lparr>l_votes := AList.update key new (l_votes L1)\<rparr>
                          in creditFeedback entry (ev_kind e) 1 L2))
               | None \<Rightarrow>
                   (let L2 = L\<lparr>l_votes := AList.update key new (l_votes L)\<rparr>
                    in creditFeedback entry (ev_kind e) 1 L2)))"

definition applySilence :: "'a event_scheme \<Rightarrow> ledger \<Rightarrow> ledger" where
  "applySilence e L =
     (if ev_triggerKey e = [] then L
      else case parse_duration (ev_kind e) of
             None \<Rightarrow> L
           | Some window \<Rightarrow>
               if window \<le> 0 then L
               else L\<lparr>l_silences := (l_silences L)(ev_triggerKey e \<mapsto>
                        \<lparr>si_at = ev_at e, si_until = ev_at e + window\<rparr>)\<rparr>)"

definition applyConfirm :: "'a event_scheme \<Rightarrow> ledger \<Rightarrow> ledger" where
  "applyConfirm e L =
     (if ev_entry e = [] then L
      else (let L1 = upd_agg (ev_entry e) (\<lambda>a. a\<lparr>ag_confirms := ag_confirms a + 1\<rparr>) L
            in if ev_triggerKey e = [] then L1
               else L1\<lparr>l_triggerConfirms := (l_triggerConfirms L1)(ev_triggerKey e \<mapsto>
                        mget 0 (l_triggerConfirms L1) (ev_triggerKey e) + 1)\<rparr>))"

definition creditVerify :: "string \<Rightarrow> bool \<Rightarrow> int \<Rightarrow> ledger \<Rightarrow> ledger" where
  "creditVerify entry held delta = upd_agg entry (\<lambda>a. if held
     then a\<lparr>ag_verified := ag_verified a + delta\<rparr> else a\<lparr>ag_failed := ag_failed a + delta\<rparr>)"

definition applyVerify :: "'a event_scheme \<Rightarrow> ledger \<Rightarrow> ledger" where
  "applyVerify e L =
     (if ev_entry e = [] \<or> ev_room e = [] \<or> (ev_kind e \<noteq> ''held'' \<and> ev_kind e \<noteq> ''failed'') then L
      else (let held = (ev_kind e = ''held'');
                new = \<lparr>vs_entry = ev_entry e, vs_dupFP = ev_dupFingerprint e, vs_held = held,
                       vs_at = ev_at e\<rparr>
            in case map_of (l_verifies L) (ev_room e) of
                 Some prev \<Rightarrow>
                   (if ev_at e < vs_at prev then L
                    else if vs_entry prev = ev_entry e \<and> vs_held prev = held
                    then L\<lparr>l_verifies := AList.update (ev_room e)
                             (prev\<lparr>vs_at := ev_at e, vs_dupFP := ev_dupFingerprint e\<rparr>)
                             (l_verifies L)\<rparr>
                    else (let L1 = creditVerify (vs_entry prev) (vs_held prev) (-1) L;
                              L2 = L1\<lparr>l_verifies := AList.update (ev_room e) new (l_verifies L1)\<rparr>
                          in creditVerify (ev_entry e) held 1 L2))
               | None \<Rightarrow>
                   (let L2 = L\<lparr>l_verifies := AList.update (ev_room e) new (l_verifies L)\<rparr>
                    in creditVerify (ev_entry e) held 1 L2)))"

section \<open>Checkpoints and the dispatch\<close>

definition seedCheckpoint :: "checkpoint option \<Rightarrow> ledger \<Rightarrow> ledger" where
  "seedCheckpoint c L = (case c of
     None \<Rightarrow> L
   | Some cd \<Rightarrow> L\<lparr>
       l_agg := l_agg L ++ ck_agg cd,
       l_pendingResolves := l_pendingResolves L ++ ck_pendingResolves cd,
       l_open := l_open L ++ ck_openIndex cd,
       l_byTrigger := l_byTrigger L ++ ck_byTrigger cd,
       l_verifies := fold (\<lambda>(k, v). AList.update k v) (ck_verifies cd) (l_verifies L),
       l_votes := fold (\<lambda>(k, v). AList.update k v) (ck_votes cd) (l_votes L),
       l_silences := l_silences L ++ (\<lambda>k. map_option
          (\<lambda>u. \<lparr>si_at = mget 0 (ck_silencedAt cd) k, si_until = u\<rparr>) (ck_silences cd k)),
       l_triggerConfirms := l_triggerConfirms L ++ ck_triggerConfirms cd,
       l_pendingOpens := l_pendingOpens L ++ ck_pendingOpens cd,
       l_droppedResolves := l_droppedResolves L + ck_droppedResolves cd,
       l_staleResolves := l_staleResolves L + ck_staleResolves cd,
       l_resolvesSeen := l_resolvesSeen L + ck_resolvesSeen cd\<rparr>)"

definition fold_line :: "line \<Rightarrow> ledger \<Rightarrow> ledger" where
  "fold_line e L =
     (if ev_event e = ''open'' then
        applyTrigger e (applyOpen e
          (L\<lparr>l_open := (l_open L)(ev_fingerprint e \<mapsto> event.truncate e)\<rparr>))
      else if ev_event e = ''resolve'' then
        (let L1 = applyResolve (ev_fingerprint e) (ev_at e) L
         in L1\<lparr>l_open := (l_open L1)(ev_fingerprint e := None)\<rparr>)
      else if ev_event e = ''feedback'' then applyFeedback e L
      else if ev_event e = ''silence'' then applySilence e L
      else if ev_event e = ''confirm'' then applyConfirm e L
      else if ev_event e = ''verify'' then applyVerify e L
      else if ev_event e = ''link'' then applyLink e L
      else if ev_event e = ''checkpoint'' then seedCheckpoint (ln_checkpoint e) L
      else L)"

definition replay :: "line list \<Rightarrow> ledger \<Rightarrow> ledger" where
  "replay es L = fold fold_line es L"

lemma replay_simps [simp]:
  "replay [] L = L" "replay (e # es) L = replay es (fold_line e L)"
  "replay (xs @ ys) L = replay ys (replay xs L)"
  by (simp_all add: replay_def)


section \<open>Which fields a step leaves alone\<close>

lemma upd_agg_frame [simp]:
  "l_open (upd_agg x f L) = l_open L"
  "l_pendingOpens (upd_agg x f L) = l_pendingOpens L"
  "l_pendingResolves (upd_agg x f L) = l_pendingResolves L"
  "l_byTrigger (upd_agg x f L) = l_byTrigger L"
  "l_votes (upd_agg x f L) = l_votes L"
  "l_silences (upd_agg x f L) = l_silences L"
  "l_triggerConfirms (upd_agg x f L) = l_triggerConfirms L"
  "l_verifies (upd_agg x f L) = l_verifies L"
  "l_droppedResolves (upd_agg x f L) = l_droppedResolves L"
  "l_staleResolves (upd_agg x f L) = l_staleResolves L"
  "l_resolvesSeen (upd_agg x f L) = l_resolvesSeen L"
  by (simp_all add: upd_agg_def)

lemma agg_of_upd_agg [simp]:
  "agg_of (upd_agg x f L) y = (if y = x then f (agg_of L x) else agg_of L y)"
  by (simp add: upd_agg_def)

lemma creditResolve_frame [simp]:
  "l_open (creditResolve x t L) = l_open L"
  "l_pendingOpens (creditResolve x t L) = l_pendingOpens L"
  "l_pendingResolves (creditResolve x t L) = l_pendingResolves L"
  "l_byTrigger (creditResolve x t L) = l_byTrigger L"
  "l_votes (creditResolve x t L) = l_votes L"
  "l_silences (creditResolve x t L) = l_silences L"
  "l_triggerConfirms (creditResolve x t L) = l_triggerConfirms L"
  "l_verifies (creditResolve x t L) = l_verifies L"
  "l_droppedResolves (creditResolve x t L) = l_droppedResolves L"
  "l_staleResolves (creditResolve x t L) = l_staleResolves L"
  "l_resolvesSeen (creditResolve x t L) = l_resolvesSeen L"
  by (simp_all add: creditResolve_def)

lemma creditFeedback_frame [simp]:
  "l_open (creditFeedback x r d L) = l_open L"
  "l_pendingOpens (creditFeedback x r d L) = l_pendingOpens L"
  "l_pendingResolves (creditFeedback x r d L) = l_pendingResolves L"
  "l_byTrigger (creditFeedback x r d L) = l_byTrigger L"
  "l_votes (creditFeedback x r d L) = l_votes L"
  "l_silences (creditFeedback x r d L) = l_silences L"
  "l_triggerConfirms (creditFeedback x r d L) = l_triggerConfirms L"
  "l_verifies (creditFeedback x r d L) = l_verifies L"
  "l_droppedResolves (creditFeedback x r d L) = l_droppedResolves L"
  "l_staleResolves (creditFeedback x r d L) = l_staleResolves L"
  "l_resolvesSeen (creditFeedback x r d L) = l_resolvesSeen L"
  by (simp_all add: creditFeedback_def)

lemma creditVerify_frame [simp]:
  "l_open (creditVerify x h d L) = l_open L"
  "l_pendingOpens (creditVerify x h d L) = l_pendingOpens L"
  "l_pendingResolves (creditVerify x h d L) = l_pendingResolves L"
  "l_byTrigger (creditVerify x h d L) = l_byTrigger L"
  "l_votes (creditVerify x h d L) = l_votes L"
  "l_silences (creditVerify x h d L) = l_silences L"
  "l_triggerConfirms (creditVerify x h d L) = l_triggerConfirms L"
  "l_verifies (creditVerify x h d L) = l_verifies L"
  "l_droppedResolves (creditVerify x h d L) = l_droppedResolves L"
  "l_staleResolves (creditVerify x h d L) = l_staleResolves L"
  "l_resolvesSeen (creditVerify x h d L) = l_resolvesSeen L"
  by (simp_all add: creditVerify_def)

lemma push_open_frame [simp]:
  "l_open (push_open e L) = l_open L"
  "l_agg (push_open e L) = l_agg L"
  "l_pendingResolves (push_open e L) = l_pendingResolves L"
  "l_byTrigger (push_open e L) = l_byTrigger L"
  "l_votes (push_open e L) = l_votes L"
  "l_silences (push_open e L) = l_silences L"
  "l_triggerConfirms (push_open e L) = l_triggerConfirms L"
  "l_verifies (push_open e L) = l_verifies L"
  "l_droppedResolves (push_open e L) = l_droppedResolves L"
  "l_staleResolves (push_open e L) = l_staleResolves L"
  "l_resolvesSeen (push_open e L) = l_resolvesSeen L"
  by (simp_all add: push_open_def)

lemma count_recall_frame [simp]:
  "l_open (count_recall e L) = l_open L"
  "l_pendingOpens (count_recall e L) = l_pendingOpens L"
  "l_pendingResolves (count_recall e L) = l_pendingResolves L"
  "l_byTrigger (count_recall e L) = l_byTrigger L"
  "l_votes (count_recall e L) = l_votes L"
  "l_silences (count_recall e L) = l_silences L"
  "l_triggerConfirms (count_recall e L) = l_triggerConfirms L"
  "l_verifies (count_recall e L) = l_verifies L"
  "l_droppedResolves (count_recall e L) = l_droppedResolves L"
  "l_staleResolves (count_recall e L) = l_staleResolves L"
  "l_resolvesSeen (count_recall e L) = l_resolvesSeen L"
  by (simp_all add: count_recall_def)

lemma note_stale_frame [simp]:
  "l_open (note_stale n L) = l_open L"
  "l_agg (note_stale n L) = l_agg L"
  "l_pendingOpens (note_stale n L) = l_pendingOpens L"
  "l_pendingResolves (note_stale n L) = l_pendingResolves L"
  "l_byTrigger (note_stale n L) = l_byTrigger L"
  "l_votes (note_stale n L) = l_votes L"
  "l_silences (note_stale n L) = l_silences L"
  "l_triggerConfirms (note_stale n L) = l_triggerConfirms L"
  "l_verifies (note_stale n L) = l_verifies L"
  "l_droppedResolves (note_stale n L) = l_droppedResolves L"
  "l_resolvesSeen (note_stale n L) = l_resolvesSeen L"
  by (simp_all add: note_stale_def)

lemma applyOpen_frame [simp]:
  "l_open (applyOpen e L) = l_open L"
  "l_byTrigger (applyOpen e L) = l_byTrigger L"
  "l_votes (applyOpen e L) = l_votes L"
  "l_silences (applyOpen e L) = l_silences L"
  "l_triggerConfirms (applyOpen e L) = l_triggerConfirms L"
  "l_verifies (applyOpen e L) = l_verifies L"
  "l_droppedResolves (applyOpen e L) = l_droppedResolves L"
  "l_resolvesSeen (applyOpen e L) = l_resolvesSeen L"
  by (simp_all add: applyOpen_def Let_def split: prod.split)

lemma clearSilencesForFingerprint_frame [simp]:
  "l_open (clearSilencesForFingerprint fp L) = l_open L"
  "l_agg (clearSilencesForFingerprint fp L) = l_agg L"
  "l_pendingOpens (clearSilencesForFingerprint fp L) = l_pendingOpens L"
  "l_pendingResolves (clearSilencesForFingerprint fp L) = l_pendingResolves L"
  "l_byTrigger (clearSilencesForFingerprint fp L) = l_byTrigger L"
  "l_votes (clearSilencesForFingerprint fp L) = l_votes L"
  "l_triggerConfirms (clearSilencesForFingerprint fp L) = l_triggerConfirms L"
  "l_verifies (clearSilencesForFingerprint fp L) = l_verifies L"
  "l_droppedResolves (clearSilencesForFingerprint fp L) = l_droppedResolves L"
  "l_staleResolves (clearSilencesForFingerprint fp L) = l_staleResolves L"
  "l_resolvesSeen (clearSilencesForFingerprint fp L) = l_resolvesSeen L"
  by (simp_all add: clearSilencesForFingerprint_def)

lemma clearSilenceOfOpen_frame [simp]:
  "l_open (clearSilenceOfOpen fp L) = l_open L"
  "l_agg (clearSilenceOfOpen fp L) = l_agg L"
  "l_pendingOpens (clearSilenceOfOpen fp L) = l_pendingOpens L"
  "l_pendingResolves (clearSilenceOfOpen fp L) = l_pendingResolves L"
  "l_byTrigger (clearSilenceOfOpen fp L) = l_byTrigger L"
  "l_votes (clearSilenceOfOpen fp L) = l_votes L"
  "l_triggerConfirms (clearSilenceOfOpen fp L) = l_triggerConfirms L"
  "l_verifies (clearSilenceOfOpen fp L) = l_verifies L"
  "l_droppedResolves (clearSilenceOfOpen fp L) = l_droppedResolves L"
  "l_staleResolves (clearSilenceOfOpen fp L) = l_staleResolves L"
  "l_resolvesSeen (clearSilenceOfOpen fp L) = l_resolvesSeen L"
  by (simp_all add: clearSilenceOfOpen_def split: option.split)

lemma buffer_resolve_frame [simp]:
  "l_open (buffer_resolve fp t L) = l_open L"
  "l_agg (buffer_resolve fp t L) = l_agg L"
  "l_pendingOpens (buffer_resolve fp t L) = l_pendingOpens L"
  "l_byTrigger (buffer_resolve fp t L) = l_byTrigger L"
  "l_votes (buffer_resolve fp t L) = l_votes L"
  "l_silences (buffer_resolve fp t L) = l_silences L"
  "l_triggerConfirms (buffer_resolve fp t L) = l_triggerConfirms L"
  "l_verifies (buffer_resolve fp t L) = l_verifies L"
  "l_staleResolves (buffer_resolve fp t L) = l_staleResolves L"
  "l_resolvesSeen (buffer_resolve fp t L) = l_resolvesSeen L"
  by (simp_all add: buffer_resolve_def Let_def)

lemma pair_resolve_frame [simp]:
  "l_open (pair_resolve fp t L) = l_open L"
  "l_byTrigger (pair_resolve fp t L) = l_byTrigger L"
  "l_votes (pair_resolve fp t L) = l_votes L"
  "l_silences (pair_resolve fp t L) = l_silences L"
  "l_triggerConfirms (pair_resolve fp t L) = l_triggerConfirms L"
  "l_verifies (pair_resolve fp t L) = l_verifies L"
  "l_staleResolves (pair_resolve fp t L) = l_staleResolves L"
  "l_resolvesSeen (pair_resolve fp t L) = l_resolvesSeen L"
  by (simp_all add: pair_resolve_def Let_def)

lemma applyResolve_frame [simp]:
  "l_open (applyResolve fp t L) = l_open L"
  "l_byTrigger (applyResolve fp t L) = l_byTrigger L"
  "l_votes (applyResolve fp t L) = l_votes L"
  "l_triggerConfirms (applyResolve fp t L) = l_triggerConfirms L"
  "l_verifies (applyResolve fp t L) = l_verifies L"
  "l_staleResolves (applyResolve fp t L) = l_staleResolves L"
  by (simp_all add: applyResolve_def Let_def)

lemma applyTrigger_frame [simp]:
  "l_open (applyTrigger e L) = l_open L"
  "l_agg (applyTrigger e L) = l_agg L"
  "l_pendingOpens (applyTrigger e L) = l_pendingOpens L"
  "l_pendingResolves (applyTrigger e L) = l_pendingResolves L"
  "l_votes (applyTrigger e L) = l_votes L"
  "l_silences (applyTrigger e L) = l_silences L"
  "l_triggerConfirms (applyTrigger e L) = l_triggerConfirms L"
  "l_verifies (applyTrigger e L) = l_verifies L"
  "l_droppedResolves (applyTrigger e L) = l_droppedResolves L"
  "l_staleResolves (applyTrigger e L) = l_staleResolves L"
  "l_resolvesSeen (applyTrigger e L) = l_resolvesSeen L"
  by (simp_all add: applyTrigger_def Let_def)

lemma applyLink_frame [simp]:
  "l_open (applyLink e L) = l_open L"
  "l_agg (applyLink e L) = l_agg L"
  "l_pendingOpens (applyLink e L) = l_pendingOpens L"
  "l_pendingResolves (applyLink e L) = l_pendingResolves L"
  "l_votes (applyLink e L) = l_votes L"
  "l_silences (applyLink e L) = l_silences L"
  "l_triggerConfirms (applyLink e L) = l_triggerConfirms L"
  "l_verifies (applyLink e L) = l_verifies L"
  "l_droppedResolves (applyLink e L) = l_droppedResolves L"
  "l_staleResolves (applyLink e L) = l_staleResolves L"
  "l_resolvesSeen (applyLink e L) = l_resolvesSeen L"
  by (simp_all add: applyLink_def Let_def)

lemma applyFeedback_frame [simp]:
  "l_open (applyFeedback e L) = l_open L"
  "l_pendingOpens (applyFeedback e L) = l_pendingOpens L"
  "l_pendingResolves (applyFeedback e L) = l_pendingResolves L"
  "l_byTrigger (applyFeedback e L) = l_byTrigger L"
  "l_silences (applyFeedback e L) = l_silences L"
  "l_triggerConfirms (applyFeedback e L) = l_triggerConfirms L"
  "l_verifies (applyFeedback e L) = l_verifies L"
  "l_droppedResolves (applyFeedback e L) = l_droppedResolves L"
  "l_staleResolves (applyFeedback e L) = l_staleResolves L"
  "l_resolvesSeen (applyFeedback e L) = l_resolvesSeen L"
  by (simp_all add: applyFeedback_def Let_def split: option.split)

lemma applySilence_frame [simp]:
  "l_open (applySilence e L) = l_open L"
  "l_agg (applySilence e L) = l_agg L"
  "l_pendingOpens (applySilence e L) = l_pendingOpens L"
  "l_pendingResolves (applySilence e L) = l_pendingResolves L"
  "l_byTrigger (applySilence e L) = l_byTrigger L"
  "l_votes (applySilence e L) = l_votes L"
  "l_triggerConfirms (applySilence e L) = l_triggerConfirms L"
  "l_verifies (applySilence e L) = l_verifies L"
  "l_droppedResolves (applySilence e L) = l_droppedResolves L"
  "l_staleResolves (applySilence e L) = l_staleResolves L"
  "l_resolvesSeen (applySilence e L) = l_resolvesSeen L"
  by (simp_all add: applySilence_def split: option.split)

lemma applyConfirm_frame [simp]:
  "l_open (applyConfirm e L) = l_open L"
  "l_pendingOpens (applyConfirm e L) = l_pendingOpens L"
  "l_pendingResolves (applyConfirm e L) = l_pendingResolves L"
  "l_byTrigger (applyConfirm e L) = l_byTrigger L"
  "l_votes (applyConfirm e L) = l_votes L"
  "l_silences (applyConfirm e L) = l_silences L"
  "l_verifies (applyConfirm e L) = l_verifies L"
  "l_droppedResolves (applyConfirm e L) = l_droppedResolves L"
  "l_staleResolves (applyConfirm e L) = l_staleResolves L"
  "l_resolvesSeen (applyConfirm e L) = l_resolvesSeen L"
  by (simp_all add: applyConfirm_def Let_def)

lemma applyVerify_frame [simp]:
  "l_open (applyVerify e L) = l_open L"
  "l_pendingOpens (applyVerify e L) = l_pendingOpens L"
  "l_pendingResolves (applyVerify e L) = l_pendingResolves L"
  "l_byTrigger (applyVerify e L) = l_byTrigger L"
  "l_votes (applyVerify e L) = l_votes L"
  "l_silences (applyVerify e L) = l_silences L"
  "l_triggerConfirms (applyVerify e L) = l_triggerConfirms L"
  "l_droppedResolves (applyVerify e L) = l_droppedResolves L"
  "l_staleResolves (applyVerify e L) = l_staleResolves L"
  "l_resolvesSeen (applyVerify e L) = l_resolvesSeen L"
  by (simp_all add: applyVerify_def Let_def split: option.split)

text \<open>The dispatch, one equation per kind of line.\<close>

lemma fold_line_cases:
  "ev_event e = ''open'' \<Longrightarrow> fold_line e L = applyTrigger e (applyOpen e
     (L\<lparr>l_open := (l_open L)(ev_fingerprint e \<mapsto> event.truncate e)\<rparr>))"
  "ev_event e = ''resolve'' \<Longrightarrow> fold_line e L = (applyResolve (ev_fingerprint e) (ev_at e) L)
     \<lparr>l_open := (l_open L)(ev_fingerprint e := None)\<rparr>"
  "ev_event e = ''feedback'' \<Longrightarrow> fold_line e L = applyFeedback e L"
  "ev_event e = ''silence'' \<Longrightarrow> fold_line e L = applySilence e L"
  "ev_event e = ''confirm'' \<Longrightarrow> fold_line e L = applyConfirm e L"
  "ev_event e = ''verify'' \<Longrightarrow> fold_line e L = applyVerify e L"
  "ev_event e = ''link'' \<Longrightarrow> fold_line e L = applyLink e L"
  "ev_event e = ''checkpoint'' \<Longrightarrow> fold_line e L = seedCheckpoint (ln_checkpoint e) L"
  by (simp_all add: fold_line_def Let_def)

definition known_kinds :: "string list" where
  "known_kinds = [''open'', ''resolve'', ''feedback'', ''silence'', ''confirm'', ''verify'', ''link'',
     ''checkpoint'']"

lemma fold_line_unknown: "ev_event e \<notin> set known_kinds \<Longrightarrow> fold_line e L = L"
  by (simp add: fold_line_def known_kinds_def)

text \<open>Case analysis over the kinds of line, for one-step proofs.\<close>

lemma fold_line_kinds:
  obtains (opened) "ev_event e = ''open''" | (resolve) "ev_event e = ''resolve''"
  | (feedback) "ev_event e = ''feedback''" | (silence) "ev_event e = ''silence''"
  | (confirm) "ev_event e = ''confirm''" | (verify) "ev_event e = ''verify''"
  | (link) "ev_event e = ''link''" | (checkpoint) "ev_event e = ''checkpoint''"
  | (unknown) "ev_event e \<notin> set known_kinds"
  unfolding known_kinds_def by fastforce

text \<open>A property kept by every line of a list is kept by its replay.\<close>

lemma replay_invariant:
  assumes "P L" and "\<And>e L. e \<in> set es \<Longrightarrow> P L \<Longrightarrow> P (fold_line e L)"
  shows "P (replay es L)"
  using assms by (induction es arbitrary: L) auto

section \<open>Which counters of an entry a step leaves alone\<close>

lemma creditResolve_agg [simp]:
  "ag_recalls (agg_of (creditResolve y t L) x) = ag_recalls (agg_of L x)"
  "ag_feedbackUp (agg_of (creditResolve y t L) x) = ag_feedbackUp (agg_of L x)"
  "ag_feedbackDown (agg_of (creditResolve y t L) x) = ag_feedbackDown (agg_of L x)"
  "ag_confirms (agg_of (creditResolve y t L) x) = ag_confirms (agg_of L x)"
  "ag_verified (agg_of (creditResolve y t L) x) = ag_verified (agg_of L x)"
  "ag_failed (agg_of (creditResolve y t L) x) = ag_failed (agg_of L x)"
  by (simp_all add: creditResolve_def)

lemma push_open_agg [simp]: "agg_of (push_open e L) = agg_of L"
  by (simp add: push_open_def)

lemma count_recall_agg [simp]:
  "ag_resolved (agg_of (count_recall e L) x) = ag_resolved (agg_of L x)"
  "ag_feedbackUp (agg_of (count_recall e L) x) = ag_feedbackUp (agg_of L x)"
  "ag_feedbackDown (agg_of (count_recall e L) x) = ag_feedbackDown (agg_of L x)"
  "ag_lastConfirmed (agg_of (count_recall e L) x) = ag_lastConfirmed (agg_of L x)"
  "ag_confirms (agg_of (count_recall e L) x) = ag_confirms (agg_of L x)"
  "ag_verified (agg_of (count_recall e L) x) = ag_verified (agg_of L x)"
  "ag_failed (agg_of (count_recall e L) x) = ag_failed (agg_of L x)"
  by (simp_all add: count_recall_def)

lemma applyOpen_agg [simp]:
  "ag_feedbackUp (agg_of (applyOpen e L) x) = ag_feedbackUp (agg_of L x)"
  "ag_feedbackDown (agg_of (applyOpen e L) x) = ag_feedbackDown (agg_of L x)"
  "ag_confirms (agg_of (applyOpen e L) x) = ag_confirms (agg_of L x)"
  "ag_verified (agg_of (applyOpen e L) x) = ag_verified (agg_of L x)"
  "ag_failed (agg_of (applyOpen e L) x) = ag_failed (agg_of L x)"
  by (simp_all add: applyOpen_def Let_def split: prod.split)

lemma buffer_resolve_agg [simp]: "agg_of (buffer_resolve fp t L) = agg_of L"
  by (simp add: buffer_resolve_def Let_def)

lemma pair_resolve_agg [simp]:
  "ag_recalls (agg_of (pair_resolve fp t L) x) = ag_recalls (agg_of L x)"
  "ag_feedbackUp (agg_of (pair_resolve fp t L) x) = ag_feedbackUp (agg_of L x)"
  "ag_feedbackDown (agg_of (pair_resolve fp t L) x) = ag_feedbackDown (agg_of L x)"
  "ag_confirms (agg_of (pair_resolve fp t L) x) = ag_confirms (agg_of L x)"
  "ag_verified (agg_of (pair_resolve fp t L) x) = ag_verified (agg_of L x)"
  "ag_failed (agg_of (pair_resolve fp t L) x) = ag_failed (agg_of L x)"
  by (simp_all add: pair_resolve_def Let_def)

lemma applyResolve_agg [simp]:
  "ag_recalls (agg_of (applyResolve fp t L) x) = ag_recalls (agg_of L x)"
  "ag_feedbackUp (agg_of (applyResolve fp t L) x) = ag_feedbackUp (agg_of L x)"
  "ag_feedbackDown (agg_of (applyResolve fp t L) x) = ag_feedbackDown (agg_of L x)"
  "ag_confirms (agg_of (applyResolve fp t L) x) = ag_confirms (agg_of L x)"
  "ag_verified (agg_of (applyResolve fp t L) x) = ag_verified (agg_of L x)"
  "ag_failed (agg_of (applyResolve fp t L) x) = ag_failed (agg_of L x)"
  by (simp_all add: applyResolve_def Let_def)

lemma creditFeedback_agg [simp]:
  "ag_recalls (agg_of (creditFeedback y r d L) x) = ag_recalls (agg_of L x)"
  "ag_resolved (agg_of (creditFeedback y r d L) x) = ag_resolved (agg_of L x)"
  "ag_lastConfirmed (agg_of (creditFeedback y r d L) x) = ag_lastConfirmed (agg_of L x)"
  "ag_confirms (agg_of (creditFeedback y r d L) x) = ag_confirms (agg_of L x)"
  "ag_verified (agg_of (creditFeedback y r d L) x) = ag_verified (agg_of L x)"
  "ag_failed (agg_of (creditFeedback y r d L) x) = ag_failed (agg_of L x)"
  by (simp_all add: creditFeedback_def)

lemma applyFeedback_agg [simp]:
  "ag_recalls (agg_of (applyFeedback e L) x) = ag_recalls (agg_of L x)"
  "ag_resolved (agg_of (applyFeedback e L) x) = ag_resolved (agg_of L x)"
  "ag_lastConfirmed (agg_of (applyFeedback e L) x) = ag_lastConfirmed (agg_of L x)"
  "ag_confirms (agg_of (applyFeedback e L) x) = ag_confirms (agg_of L x)"
  "ag_verified (agg_of (applyFeedback e L) x) = ag_verified (agg_of L x)"
  "ag_failed (agg_of (applyFeedback e L) x) = ag_failed (agg_of L x)"
  by (simp_all add: applyFeedback_def Let_def split: option.split)

lemma applyConfirm_agg [simp]:
  "ag_recalls (agg_of (applyConfirm e L) x) = ag_recalls (agg_of L x)"
  "ag_resolved (agg_of (applyConfirm e L) x) = ag_resolved (agg_of L x)"
  "ag_feedbackUp (agg_of (applyConfirm e L) x) = ag_feedbackUp (agg_of L x)"
  "ag_feedbackDown (agg_of (applyConfirm e L) x) = ag_feedbackDown (agg_of L x)"
  "ag_lastConfirmed (agg_of (applyConfirm e L) x) = ag_lastConfirmed (agg_of L x)"
  "ag_verified (agg_of (applyConfirm e L) x) = ag_verified (agg_of L x)"
  "ag_failed (agg_of (applyConfirm e L) x) = ag_failed (agg_of L x)"
  by (simp_all add: applyConfirm_def Let_def)

lemma creditVerify_agg [simp]:
  "ag_recalls (agg_of (creditVerify y h d L) x) = ag_recalls (agg_of L x)"
  "ag_resolved (agg_of (creditVerify y h d L) x) = ag_resolved (agg_of L x)"
  "ag_feedbackUp (agg_of (creditVerify y h d L) x) = ag_feedbackUp (agg_of L x)"
  "ag_feedbackDown (agg_of (creditVerify y h d L) x) = ag_feedbackDown (agg_of L x)"
  "ag_lastConfirmed (agg_of (creditVerify y h d L) x) = ag_lastConfirmed (agg_of L x)"
  "ag_confirms (agg_of (creditVerify y h d L) x) = ag_confirms (agg_of L x)"
  by (simp_all add: creditVerify_def)

lemma applyVerify_agg [simp]:
  "ag_recalls (agg_of (applyVerify e L) x) = ag_recalls (agg_of L x)"
  "ag_resolved (agg_of (applyVerify e L) x) = ag_resolved (agg_of L x)"
  "ag_feedbackUp (agg_of (applyVerify e L) x) = ag_feedbackUp (agg_of L x)"
  "ag_feedbackDown (agg_of (applyVerify e L) x) = ag_feedbackDown (agg_of L x)"
  "ag_lastConfirmed (agg_of (applyVerify e L) x) = ag_lastConfirmed (agg_of L x)"
  "ag_confirms (agg_of (applyVerify e L) x) = ag_confirms (agg_of L x)"
  by (simp_all add: applyVerify_def Let_def split: option.split)

end
