(* ===== verification/LedgerTally.thy ===== *)
theory LedgerTally
  imports LedgerFold
begin

text \<open>
  Human votes and factory verifications share one contract: a table holds one live observation
  per key, the latest wins, and a counter per class of observation counts the live ones. The
  locale \<open>observation_tally\<close> states that contract and proves that posting keeps the counters
  equal to the table; it is interpreted for the votes (\<open>applyFeedbackLocked\<close>,
  \<open>creditFeedbackLocked\<close>) and for the verifications (\<open>applyVerifyLocked\<close>,
  \<open>creditVerifyLocked\<close>).
\<close>

section \<open>The contract\<close>

locale observation_tally =
  fixes table :: "'s \<Rightarrow> (string \<times> 'o) list"
    and tally :: "'s \<Rightarrow> 'c \<Rightarrow> int"
    and cls :: "'o \<Rightarrow> 'c option"
    and post :: "string \<Rightarrow> 'o \<Rightarrow> 's \<Rightarrow> 's"
  assumes table_post: "table (post k v s) = AList.update k v (table s)"
    and tally_post: "tally (post k v s) c = tally s c
      - (case map_of (table s) k of None \<Rightarrow> 0 | Some u \<Rightarrow> if cls u = Some c then 1 else 0)
      + (if cls v = Some c then 1 else 0)"
begin

definition balanced :: "'s \<Rightarrow> bool" where
  "balanced s \<longleftrightarrow> distinct (map fst (table s))
     \<and> (\<forall>c. tally s c = acount (\<lambda>k v. cls v = Some c) (table s))"

lemma balanced_post: "balanced s \<Longrightarrow> balanced (post k v s)"
  by (cases "map_of (table s) k")
    (auto simp: balanced_def table_post tally_post acount_update_new acount_update_old)

lemma balanced_frame:
  "table s' = table s \<Longrightarrow> tally s' = tally s \<Longrightarrow> balanced s \<Longrightarrow> balanced s'"
  by (simp add: balanced_def)

lemma balanced_distinct: "balanced s \<Longrightarrow> distinct (map fst (table s))"
  by (simp add: balanced_def)

lemma balanced_tally:
  "balanced s \<Longrightarrow> tally s c = acount (\<lambda>k v. cls v = Some c) (table s)"
  by (simp add: balanced_def)

lemma balanced_nonneg: "balanced s \<Longrightarrow> 0 \<le> tally s c"
  by (simp add: balanced_tally acount_nonneg)

end

section \<open>Votes\<close>

definition vote_tally :: "ledger \<Rightarrow> string \<times> bool \<Rightarrow> int" where
  "vote_tally L c = (case c of (x, up) \<Rightarrow>
     if up then ag_feedbackUp (agg_of L x) else ag_feedbackDown (agg_of L x))"

definition vote_class :: "feedback_vote \<Rightarrow> (string \<times> bool) option" where
  "vote_class v = (if fv_entry v = [] then None else Some (fv_entry v, fv_rating v = ''up''))"

text \<open>Replace the live vote of a key: un-credit the old one, store and credit the new one.\<close>

definition post_vote :: "string \<Rightarrow> feedback_vote \<Rightarrow> ledger \<Rightarrow> ledger" where
  "post_vote key v L =
     (let L1 = (case map_of (l_votes L) key of
                  None \<Rightarrow> L
                | Some u \<Rightarrow> creditFeedback (fv_entry u) (fv_rating u) (-1) L)
      in creditFeedback (fv_entry v) (fv_rating v) 1
           (L1\<lparr>l_votes := AList.update key v (l_votes L1)\<rparr>))"

lemma vote_tally_credit:
  "vote_tally (creditFeedback x r d L) c =
     vote_tally L c + (if x \<noteq> [] \<and> c = (x, r = ''up'') then d else 0)"
  by (cases c) (auto simp: vote_tally_def creditFeedback_def)

lemma vote_tally_votes [simp]: "vote_tally (L\<lparr>l_votes := m\<rparr>) = vote_tally L"
  by (rule ext) (simp add: vote_tally_def split: prod.split)

interpretation votes: observation_tally l_votes vote_tally vote_class post_vote
proof
  fix k v L and c :: "string \<times> bool"
  show "l_votes (post_vote k v L) = AList.update k v (l_votes L)"
    by (simp add: post_vote_def Let_def split: option.split)
  show "vote_tally (post_vote k v L) c = vote_tally L c
      - (case map_of (l_votes L) k of None \<Rightarrow> 0 | Some u \<Rightarrow> if vote_class u = Some c then 1 else 0)
      + (if vote_class v = Some c then 1 else 0)"
    by (auto simp: post_vote_def Let_def vote_tally_credit vote_class_def split: option.split)
qed

text \<open>
  \<open>applyFeedback\<close> is a post or nothing, as far as the table and the counters go; a repeated
  vote moves only its time, which posting the same class does too.
\<close>

lemma creditFeedback_cancel:
  "vote_tally (creditFeedback x r 1 ((creditFeedback x r (-1) L)\<lparr>l_votes := m\<rparr>)) c = vote_tally L c"
  by (simp add: vote_tally_credit)

lemma applyFeedback_post:
  "applyFeedback e L =
     (let key = vote_key (ev_triggerKey e) (ev_user e);
          entry = ta_entry (trigger_of L (ev_triggerKey e));
          new = \<lparr>fv_rating = ev_kind e, fv_entry = entry, fv_at = ev_at e\<rparr>
      in if ev_triggerKey e = [] \<or> (ev_kind e \<noteq> ''up'' \<and> ev_kind e \<noteq> ''down'') then L
         else case map_of (l_votes L) key of
           None \<Rightarrow> post_vote key new L
         | Some prev \<Rightarrow>
             if fv_rating prev = ev_kind e \<and> fv_entry prev = entry
             then (if ev_at e > fv_at prev
                   then L\<lparr>l_votes := AList.update key (prev\<lparr>fv_at := ev_at e\<rparr>) (l_votes L)\<rparr> else L)
             else post_vote key new L)"
  unfolding applyFeedback_def post_vote_def Let_def by (simp split: option.split)

lemma applyFeedback_balanced:
  assumes "votes.balanced L"
  shows "votes.balanced (applyFeedback e L)"
proof -
  let ?key = "vote_key (ev_triggerKey e) (ev_user e)"
  let ?entry = "ta_entry (trigger_of L (ev_triggerKey e))"
  let ?new = "\<lparr>fv_rating = ev_kind e, fv_entry = ?entry, fv_at = ev_at e\<rparr>"
  have post: "votes.balanced (post_vote ?key v L)" for v
    using assms by (rule votes.balanced_post)
  have moved: "votes.balanced (L\<lparr>l_votes := AList.update ?key (prev\<lparr>fv_at := t\<rparr>) (l_votes L)\<rparr>)"
    if "map_of (l_votes L) ?key = Some prev" for prev t
  proof (rule votes.balanced_frame [OF _ _ post [of "prev\<lparr>fv_at := t\<rparr>"]])
    show "vote_tally (L\<lparr>l_votes := AList.update ?key (prev\<lparr>fv_at := t\<rparr>) (l_votes L)\<rparr>)
        = vote_tally (post_vote ?key (prev\<lparr>fv_at := t\<rparr>) L)"
      using that by (intro ext) (simp add: post_vote_def Let_def creditFeedback_cancel)
  qed (simp add: votes.table_post)
  show ?thesis
    unfolding applyFeedback_post Let_def
    by (simp add: assms moved post split: option.split)
qed

section \<open>Verifications\<close>

definition verify_tally :: "ledger \<Rightarrow> string \<times> bool \<Rightarrow> int" where
  "verify_tally L c = (case c of (x, held) \<Rightarrow>
     if held then ag_verified (agg_of L x) else ag_failed (agg_of L x))"

definition verify_class :: "verify_state \<Rightarrow> (string \<times> bool) option" where
  "verify_class v = Some (vs_entry v, vs_held v)"

definition post_verify :: "string \<Rightarrow> verify_state \<Rightarrow> ledger \<Rightarrow> ledger" where
  "post_verify room v L =
     (let L1 = (case map_of (l_verifies L) room of
                  None \<Rightarrow> L
                | Some u \<Rightarrow> creditVerify (vs_entry u) (vs_held u) (-1) L)
      in creditVerify (vs_entry v) (vs_held v) 1
           (L1\<lparr>l_verifies := AList.update room v (l_verifies L1)\<rparr>))"

lemma verify_tally_credit:
  "verify_tally (creditVerify x h d L) c = verify_tally L c + (if c = (x, h) then d else 0)"
  by (cases c) (auto simp: verify_tally_def creditVerify_def)

lemma verify_tally_verifies [simp]: "verify_tally (L\<lparr>l_verifies := m\<rparr>) = verify_tally L"
  by (rule ext) (simp add: verify_tally_def split: prod.split)

interpretation verifies: observation_tally l_verifies verify_tally verify_class post_verify
proof
  fix k v L and c :: "string \<times> bool"
  show "l_verifies (post_verify k v L) = AList.update k v (l_verifies L)"
    by (simp add: post_verify_def Let_def split: option.split)
  show "verify_tally (post_verify k v L) c = verify_tally L c
      - (case map_of (l_verifies L) k of
           None \<Rightarrow> 0 | Some u \<Rightarrow> if verify_class u = Some c then 1 else 0)
      + (if verify_class v = Some c then 1 else 0)"
    by (auto simp: post_verify_def Let_def verify_tally_credit verify_class_def split: option.split)
qed

lemma applyVerify_post:
  "applyVerify e L =
     (let held = (ev_kind e = ''held'');
          new = \<lparr>vs_entry = ev_entry e, vs_dupFP = ev_dupFingerprint e, vs_held = held,
                 vs_at = ev_at e\<rparr>
      in if ev_entry e = [] \<or> ev_room e = [] \<or> (ev_kind e \<noteq> ''held'' \<and> ev_kind e \<noteq> ''failed'') then L
         else case map_of (l_verifies L) (ev_room e) of
           None \<Rightarrow> post_verify (ev_room e) new L
         | Some prev \<Rightarrow>
             if ev_at e < vs_at prev then L
             else if vs_entry prev = ev_entry e \<and> vs_held prev = held
             then L\<lparr>l_verifies := AList.update (ev_room e)
                      (prev\<lparr>vs_at := ev_at e, vs_dupFP := ev_dupFingerprint e\<rparr>) (l_verifies L)\<rparr>
             else post_verify (ev_room e) new L)"
  unfolding applyVerify_def post_verify_def Let_def by (simp split: option.split)

lemma applyVerify_balanced:
  assumes "verifies.balanced L"
  shows "verifies.balanced (applyVerify e L)"
proof -
  let ?new = "\<lparr>vs_entry = ev_entry e, vs_dupFP = ev_dupFingerprint e,
    vs_held = (ev_kind e = ''held''), vs_at = ev_at e\<rparr>"
  have post: "verifies.balanced (post_verify (ev_room e) v L)" for v
    using assms by (rule verifies.balanced_post)
  have moved: "verifies.balanced (L\<lparr>l_verifies := AList.update (ev_room e) v (l_verifies L)\<rparr>)"
    if "map_of (l_verifies L) (ev_room e) = Some prev" "vs_entry v = vs_entry prev"
      "vs_held v = vs_held prev" for prev v
  proof (rule verifies.balanced_frame [OF _ _ post [of v]])
    show "verify_tally (L\<lparr>l_verifies := AList.update (ev_room e) v (l_verifies L)\<rparr>)
        = verify_tally (post_verify (ev_room e) v L)"
      using that by (intro ext) (simp add: post_verify_def Let_def verify_tally_credit)
  qed (simp add: verifies.table_post)
  show ?thesis
    unfolding applyVerify_post Let_def
    by (simp add: assms moved post split: option.split)
qed

section \<open>Every line keeps both tallies balanced\<close>

lemma fold_line_vote_tally:
  assumes "ev_event e \<noteq> ''feedback''" and "ev_event e \<noteq> ''checkpoint''"
  shows "vote_tally (fold_line e L) = vote_tally L" and "l_votes (fold_line e L) = l_votes L"
  using assms
  by (cases e rule: fold_line_kinds;
      simp add: fun_eq_iff vote_tally_def fold_line_cases fold_line_unknown)+

lemma fold_line_verify_tally:
  assumes "ev_event e \<noteq> ''verify''" and "ev_event e \<noteq> ''checkpoint''"
  shows "verify_tally (fold_line e L) = verify_tally L"
    and "l_verifies (fold_line e L) = l_verifies L"
  using assms
  by (cases e rule: fold_line_kinds;
      simp add: fun_eq_iff verify_tally_def fold_line_cases fold_line_unknown)+

lemma fold_line_votes_balanced:
  assumes "votes.balanced L" and "ev_event e \<noteq> ''checkpoint''"
  shows "votes.balanced (fold_line e L)"
proof (cases "ev_event e = ''feedback''")
  case True
  then show ?thesis using assms applyFeedback_balanced by (simp add: fold_line_cases)
next
  case False
  then show ?thesis
    using votes.balanced_frame [OF fold_line_vote_tally(2,1)] assms by blast
qed

lemma fold_line_verifies_balanced:
  assumes "verifies.balanced L" and "ev_event e \<noteq> ''checkpoint''"
  shows "verifies.balanced (fold_line e L)"
proof (cases "ev_event e = ''verify''")
  case True
  then show ?thesis using assms applyVerify_balanced by (simp add: fold_line_cases)
next
  case False
  then show ?thesis
    using verifies.balanced_frame [OF fold_line_verify_tally(2,1)] assms by blast
qed

definition no_checkpoint :: "line list \<Rightarrow> bool" where
  "no_checkpoint es \<longleftrightarrow> (\<forall>e \<in> set es. ev_event e \<noteq> ''checkpoint'')"

lemma no_checkpoint_simps [simp]:
  "no_checkpoint []" "no_checkpoint (e # es) \<longleftrightarrow> ev_event e \<noteq> ''checkpoint'' \<and> no_checkpoint es"
  "no_checkpoint (xs @ ys) \<longleftrightarrow> no_checkpoint xs \<and> no_checkpoint ys"
  by (auto simp: no_checkpoint_def)

lemma replay_votes_balanced:
  "no_checkpoint es \<Longrightarrow> votes.balanced L \<Longrightarrow> votes.balanced (replay es L)"
  by (rule replay_invariant) (auto simp: no_checkpoint_def intro: fold_line_votes_balanced)

lemma replay_verifies_balanced:
  "no_checkpoint es \<Longrightarrow> verifies.balanced L \<Longrightarrow> verifies.balanced (replay es L)"
  by (rule replay_invariant) (auto simp: no_checkpoint_def intro: fold_line_verifies_balanced)

lemma reset_balanced [simp]: "votes.balanced reset_state" "verifies.balanced reset_state"
  by (auto simp: votes.balanced_def verifies.balanced_def vote_tally_def verify_tally_def)

end
