(* ===== verification/LedgerEpisodes.thy ===== *)
theory LedgerEpisodes
  imports LedgerTally
begin

text \<open>
  \<open>episodesOf\<close> of \<open>internal/outcome/ledger.go\<close> replays the ledger into one episode per
  open, pairing every resolve with the newest unresolved open of its fingerprint. The cached
  aggregate that recall reads (\<open>OpenCounts\<close>) is maintained incrementally instead; this theory
  proves that the two agree for every sequence of lines, as long as the bound on buffered
  resolves never drops one. The simulation relates the ledger's pairing stacks to the indices
  that the replay keeps.
\<close>

section \<open>The replay into episodes\<close>

record episode =
  ep_kind :: string
  ep_entry :: string
  ep_title :: string
  ep_resource :: string
  ep_dupFingerprint :: string
  ep_openedAt :: gotime
  ep_resolvedAt :: gotime
  ep_duration :: duration
  ep_resolved :: bool

definition open_episode :: "'a event_scheme \<Rightarrow> episode" where
  "open_episode e = \<lparr>ep_kind = ev_kind e, ep_entry = ev_entry e, ep_title = ev_title e,
     ep_resource = ev_resource e, ep_dupFingerprint = ev_dupFingerprint e, ep_openedAt = ev_at e,
     ep_resolvedAt = 0, ep_duration = 0, ep_resolved = False\<rparr>"

definition resolve_episode :: "gotime \<Rightarrow> episode \<Rightarrow> episode" where
  "resolve_episode t ep =
     (let d = time_sub t (ep_openedAt ep)
      in ep\<lparr>ep_resolvedAt := t, ep_duration := (if d < 0 then 0 else d), ep_resolved := True\<rparr>)"

record pairing =
  pr_out :: "episode list"
  pr_opens :: "string \<rightharpoonup> nat list"
  pr_resolves :: "string \<rightharpoonup> gotime list"

definition pairing_init :: pairing where
  "pairing_init = \<lparr>pr_out = [], pr_opens = Map.empty, pr_resolves = Map.empty\<rparr>"

definition resolve_at :: "nat \<Rightarrow> gotime \<Rightarrow> episode list \<Rightarrow> episode list" where
  "resolve_at i t out = out[i := resolve_episode t (out ! i)]"

definition pairing_push :: "string \<Rightarrow> nat \<Rightarrow> pairing \<Rightarrow> pairing" where
  "pairing_push fp i S = S\<lparr>pr_opens := (pr_opens S)(fp \<mapsto> mget [] (pr_opens S) fp @ [i])\<rparr>"

definition pairing_step :: "'a event_scheme \<Rightarrow> pairing \<Rightarrow> pairing" where
  "pairing_step e S =
     (let fp = ev_fingerprint e
      in if ev_event e = ''open'' then
           (let i = length (pr_out S);
                S1 = S\<lparr>pr_out := pr_out S @ [open_episode e]\<rparr>;
                rs = mget [] (pr_resolves S1) fp
            in if rs \<noteq> [] then
                 (case resolvesSince rs e of (kept, _) \<Rightarrow>
                    if kept \<noteq> []
                    then S1\<lparr>pr_out := resolve_at i (hd kept) (pr_out S1),
                            pr_resolves := (pr_resolves S1)(fp \<mapsto> tl kept)\<rparr>
                    else pairing_push fp i
                           (S1\<lparr>pr_resolves := (pr_resolves S1)(fp := None)\<rparr>))
               else pairing_push fp i S1)
         else if ev_event e = ''resolve'' then
           (let stack = mget [] (pr_opens S) fp
            in if stack = []
               then S\<lparr>pr_resolves := (pr_resolves S)(fp \<mapsto> mget [] (pr_resolves S) fp @ [ev_at e])\<rparr>
               else S\<lparr>pr_opens := (pr_opens S)(fp \<mapsto> butlast stack),
                      pr_out := resolve_at (last stack) (ev_at e) (pr_out S)\<rparr>)
         else S)"

definition pairing_run :: "'a event_scheme list \<Rightarrow> pairing" where
  "pairing_run es = fold pairing_step es pairing_init"

definition episodesOf :: "'a event_scheme list \<Rightarrow> episode list" where
  "episodesOf es = pr_out (pairing_run es)"

lemma pairing_run_snoc: "pairing_run (es @ [e]) = pairing_step e (pairing_run es)"
  by (simp add: pairing_run_def)

section \<open>Counting episodes per entry\<close>

definition opens_of :: "'a event_scheme list \<Rightarrow> 'a event_scheme list" where
  "opens_of es = filter (\<lambda>e. ev_event e = ''open'') es"

definition recalls_of :: "'a event_scheme list \<Rightarrow> string \<Rightarrow> int" where
  "recalls_of ops x = int (length (filter (\<lambda>e. counted_open e \<and> ev_entry e = x) ops))"

text \<open>The opens of entry \<open>x\<close> that count and whose episode is resolved.\<close>

definition resolved_ix :: "'a event_scheme list \<Rightarrow> episode list \<Rightarrow> string \<Rightarrow> nat list" where
  "resolved_ix ops eps x = filter (\<lambda>i. counted_open (ops ! i) \<and> ev_entry (ops ! i) = x
     \<and> ep_resolved (eps ! i)) [0..<length ops]"

definition resolved_of :: "'a event_scheme list \<Rightarrow> episode list \<Rightarrow> string \<Rightarrow> int" where
  "resolved_of ops eps x = int (length (resolved_ix ops eps x))"

definition confirmed_of :: "'a event_scheme list \<Rightarrow> episode list \<Rightarrow> string \<Rightarrow> gotime" where
  "confirmed_of ops eps x = Max (set (0 # map (\<lambda>i. ep_resolvedAt (eps ! i)) (resolved_ix ops eps x)))"

definition agg_matches :: "ledger \<Rightarrow> line list \<Rightarrow> episode list \<Rightarrow> bool" where
  "agg_matches L ops eps \<longleftrightarrow> (\<forall>x. ag_recalls (agg_of L x) = recalls_of ops x
     \<and> ag_resolved (agg_of L x) = resolved_of ops eps x
     \<and> ag_lastConfirmed (agg_of L x) = confirmed_of ops eps x)"

lemma resolved_length: "int (length (resolved_ix ops eps x)) = int (card (set (resolved_ix ops eps x)))"
proof -
  have "distinct (resolved_ix ops eps x)" by (simp add: resolved_ix_def)
  then show ?thesis by (simp only: distinct_card)
qed

lemma resolved_ix_open:
  assumes "length eps = length ops"
  shows "resolved_ix (ops @ [e]) (eps @ [open_episode f]) x = resolved_ix ops eps x"
proof -
  have "filter (\<lambda>i. counted_open ((ops @ [e]) ! i) \<and> ev_entry ((ops @ [e]) ! i) = x
      \<and> ep_resolved ((eps @ [open_episode f]) ! i)) [0..<length ops]
    = filter (\<lambda>i. counted_open (ops ! i) \<and> ev_entry (ops ! i) = x \<and> ep_resolved (eps ! i)) [0..<length ops]"
    by (rule filter_cong) (use assms in \<open>auto simp: nth_append\<close>)
  moreover have "\<not> ep_resolved ((eps @ [open_episode f]) ! length ops)"
    by (simp add: nth_append open_episode_def flip: assms)
  ultimately show ?thesis by (simp add: resolved_ix_def)
qed

lemma resolved_of_open:
  assumes "length eps = length ops"
  shows "resolved_of (ops @ [e]) (eps @ [open_episode f]) x = resolved_of ops eps x"
  by (simp add: resolved_of_def resolved_ix_open assms)

lemma resolved_ix_lt: "i \<in> set (resolved_ix ops eps x) \<Longrightarrow> i < length ops"
  by (simp add: resolved_ix_def)

lemma confirmed_of_open:
  assumes "length eps = length ops"
  shows "confirmed_of (ops @ [e]) (eps @ [open_episode f]) x = confirmed_of ops eps x"
proof -
  have "map (\<lambda>i. ep_resolvedAt ((eps @ [open_episode f]) ! i)) (resolved_ix ops eps x)
      = map (\<lambda>i. ep_resolvedAt (eps ! i)) (resolved_ix ops eps x)"
    by (rule map_cong) (use assms resolved_ix_lt in \<open>fastforce simp: nth_append\<close>)+
  then show ?thesis by (simp add: confirmed_of_def resolved_ix_open [OF assms] del: map_map)
qed

lemma recalls_of_snoc:
  "recalls_of (ops @ [e]) x = recalls_of ops x + (if counted_open e \<and> ev_entry e = x then 1 else 0)"
  by (simp add: recalls_of_def)

lemma set_resolved_ix_resolve:
  assumes "i < length ops" and "length eps = length ops"
  shows "set (resolved_ix ops (resolve_at i t eps) x)
    = (if counted_open (ops ! i) \<and> ev_entry (ops ! i) = x then insert i (set (resolved_ix ops eps x))
       else set (resolved_ix ops eps x))"
  using assms
  by (auto simp: resolved_ix_def resolve_at_def resolve_episode_def Let_def nth_list_update
      split: if_splits)

lemma agg_matches_resolve:
  assumes m: "agg_matches L ops eps" and i: "i < length ops" and len: "length eps = length ops"
    and u: "\<not> ep_resolved (eps ! i)" and e: "x0 = ev_entry (ops ! i)"
    and L': "L' = (if counted_open (ops ! i) then creditResolve x0 t L else L)"
  shows "agg_matches L' ops (resolve_at i t eps)"
  unfolding agg_matches_def
proof
  fix x
  let ?S = "set (resolved_ix ops eps x)" and ?S' = "set (resolved_ix ops (resolve_at i t eps) x)"
  have i_new: "i \<notin> ?S" using u by (simp add: resolved_ix_def)
  have old: "ag_recalls (agg_of L x) = recalls_of ops x"
    "ag_resolved (agg_of L x) = int (card ?S)"
    "ag_lastConfirmed (agg_of L x) = Max (insert 0 ((\<lambda>j. ep_resolvedAt (eps ! j)) ` ?S))"
    using m by (simp_all add: agg_matches_def resolved_of_def resolved_length confirmed_of_def)
  have same: "(\<lambda>j. ep_resolvedAt (resolve_at i t eps ! j)) ` ?S = (\<lambda>j. ep_resolvedAt (eps ! j)) ` ?S"
    by (rule image_cong [OF refl]) (use i_new in \<open>metis nth_list_update_neq resolve_at_def\<close>)
  have at_i: "ep_resolvedAt (resolve_at i t eps ! i) = t"
    using i len by (simp add: resolve_at_def resolve_episode_def Let_def)
  show "ag_recalls (agg_of L' x) = recalls_of ops x
     \<and> ag_resolved (agg_of L' x) = resolved_of ops (resolve_at i t eps) x
     \<and> ag_lastConfirmed (agg_of L' x) = confirmed_of ops (resolve_at i t eps) x"
  proof (cases "counted_open (ops ! i) \<and> x0 = x")
    case True
    then have S': "?S' = insert i ?S"
      using set_resolved_ix_resolve [OF i len, of t x] e by simp
    have img: "set (map (\<lambda>j. ep_resolvedAt (resolve_at i t eps ! j)) (resolved_ix ops (resolve_at i t eps) x))
        = insert t ((\<lambda>j. ep_resolvedAt (eps ! j)) ` ?S)"
      using S' at_i same by (simp add: image_insert)
    have "confirmed_of ops (resolve_at i t eps) x
        = Max (insert t (insert 0 ((\<lambda>j. ep_resolvedAt (eps ! j)) ` ?S)))"
      by (simp only: confirmed_of_def list.set img insert_commute)
    also have "\<dots> = max t (ag_lastConfirmed (agg_of L x))"
      unfolding old(3) by (rule Max_insert) auto
    finally have c: "confirmed_of ops (resolve_at i t eps) x = max t (ag_lastConfirmed (agg_of L x))" .
    show ?thesis
      using True L' old(1,2) S' i_new c
      by (simp add: creditResolve_def resolved_of_def resolved_length max_def)
  next
    case False
    then have S': "?S' = ?S" using set_resolved_ix_resolve [OF i len, of t x] e by auto
    have img: "set (map (\<lambda>j. ep_resolvedAt (resolve_at i t eps ! j)) (resolved_ix ops (resolve_at i t eps) x))
        = (\<lambda>j. ep_resolvedAt (eps ! j)) ` ?S"
      using S' same by simp
    have c: "confirmed_of ops (resolve_at i t eps) x = ag_lastConfirmed (agg_of L x)"
      by (simp only: confirmed_of_def list.set img old(3))
    show ?thesis
      using False L' old(1,2) S' c
      by (auto simp: creditResolve_def resolved_of_def resolved_length)
  qed
qed

section \<open>The simulation\<close>

definition pending_of :: "line list \<Rightarrow> nat \<Rightarrow> pending_open" where
  "pending_of ops i = \<lparr>po_entry = ev_entry (ops ! i), po_counted = counted_open (ops ! i)\<rparr>"

definition stack_ok :: "line list \<Rightarrow> episode list \<Rightarrow> string \<Rightarrow> nat list \<Rightarrow> bool" where
  "stack_ok ops eps fp st \<longleftrightarrow> distinct st
     \<and> (\<forall>i \<in> set st. i < length ops \<and> ev_fingerprint (ops ! i) = fp \<and> \<not> ep_resolved (eps ! i))"

definition pairing_sim :: "ledger \<Rightarrow> pairing \<Rightarrow> line list \<Rightarrow> bool" where
  "pairing_sim L S ops \<longleftrightarrow>
     length (pr_out S) = length ops
     \<and> l_pendingResolves L = pr_resolves S
     \<and> (\<forall>fp. mget [] (l_pendingOpens L) fp = map (pending_of ops) (mget [] (pr_opens S) fp))
     \<and> (\<forall>fp. stack_ok ops (pr_out S) fp (mget [] (pr_opens S) fp))
     \<and> agg_matches L ops (pr_out S)"

lemma pairing_simD:
  assumes "pairing_sim L S ops"
  shows "length (pr_out S) = length ops" and "l_pendingResolves L = pr_resolves S"
    and "mget [] (l_pendingOpens L) fp = map (pending_of ops) (mget [] (pr_opens S) fp)"
    and "stack_ok ops (pr_out S) fp (mget [] (pr_opens S) fp)"
    and "agg_matches L ops (pr_out S)"
  using assms by (auto simp: pairing_sim_def)

lemma stack_ok_append:
  "length eps = length ops \<Longrightarrow> stack_ok ops eps fp st \<Longrightarrow> stack_ok (ops @ [e]) (eps @ [ep]) fp st"
  by (force simp: stack_ok_def nth_append)

lemma pending_of_append: "\<forall>i \<in> set st. i < length ops \<Longrightarrow>
    map (pending_of (ops @ [e])) st = map (pending_of ops) st"
  by (auto simp: pending_of_def nth_append)

lemma stack_ok_lt: "stack_ok ops eps fp st \<Longrightarrow> \<forall>i \<in> set st. i < length ops"
  by (simp add: stack_ok_def)

text \<open>The new open, before it is paired: the counters after the open's own credit.\<close>

lemma agg_matches_open:
  assumes "agg_matches L ops eps" and "length eps = length ops"
    and "L' = count_recall e L"
  shows "agg_matches L' (ops @ [e]) (eps @ [open_episode e])"
  using assms
  by (auto simp: agg_matches_def count_recall_def recalls_of_snoc resolved_of_open confirmed_of_open)

lemma agg_matches_cong: "agg_of L' = agg_of L \<Longrightarrow> agg_matches L' = agg_matches L"
  by (simp add: agg_matches_def fun_eq_iff)

text \<open>An open that stays unresolved is pushed on both sides.\<close>

lemma pairing_sim_push:
  assumes sim: "pairing_sim L0 S ops"
    and L: "L = count_recall e L0"
    and L1: "agg_of L1 = agg_of L" "l_pendingOpens L1 = l_pendingOpens L0"
    and r: "l_pendingResolves L1 = pr_resolves S1"
    and S1: "pr_opens S1 = pr_opens S" "pr_out S1 = pr_out S @ [open_episode e]"
  shows "pairing_sim (push_open e L1) (pairing_push (ev_fingerprint e) (length (pr_out S)) S1) (ops @ [e])"
proof -
  note d = pairing_simD [OF sim]
  have agg: "agg_matches (push_open e L1) (ops @ [e]) (pr_out S @ [open_episode e])"
    using agg_matches_open [OF d(5,1) L] agg_matches_cong [of "push_open e L1" L] L1(1) by simp
  have st: "stack_ok (ops @ [e]) (pr_out S @ [open_episode e]) fp (mget [] (pr_opens S) fp)" for fp
    using d(1,4) by (rule stack_ok_append)
  have pe: "map (pending_of (ops @ [e])) (mget [] (pr_opens S) fp)
      = mget [] (l_pendingOpens L0) fp" for fp
    using pending_of_append [OF stack_ok_lt [OF d(4)]] d(3) by simp
  have new: "pending_of (ops @ [e]) (length ops)
      = \<lparr>po_entry = ev_entry e, po_counted = counted_open e\<rparr>"
    by (simp add: pending_of_def)
  have fresh: "length ops \<notin> set (mget [] (pr_opens S) fp)" for fp
    using stack_ok_lt [OF d(4)] by fastforce
  have "stack_ok (ops @ [e]) (pr_out S @ [open_episode e]) (ev_fingerprint e)
      (mget [] (pr_opens S) (ev_fingerprint e) @ [length ops])"
    using st [of "ev_fingerprint e"] fresh d(1)
    by (auto simp: stack_ok_def nth_append open_episode_def)
  then show ?thesis
    using agg st pe new d(1) r S1 L1(2)
    by (auto simp: pairing_sim_def push_open_def pairing_push_def)
qed

lemma pairing_sim_cong:
  assumes "l_pendingResolves L' = l_pendingResolves L" and "l_pendingOpens L' = l_pendingOpens L"
    and "\<And>x. ag_recalls (agg_of L' x) = ag_recalls (agg_of L x)"
    and "\<And>x. ag_resolved (agg_of L' x) = ag_resolved (agg_of L x)"
    and "\<And>x. ag_lastConfirmed (agg_of L' x) = ag_lastConfirmed (agg_of L x)"
  shows "pairing_sim L' = pairing_sim L"
  using assms by (intro ext) (simp add: pairing_sim_def agg_matches_def)

lemma stack_ok_resolve_other:
  "i \<notin> set st \<Longrightarrow> stack_ok ops eps fp st \<Longrightarrow> stack_ok ops (resolve_at i t eps) fp st"
  by (auto simp: stack_ok_def resolve_at_def) (metis nth_list_update_neq)

lemma length_resolve_at [simp]: "length (resolve_at i t eps) = length eps"
  by (simp add: resolve_at_def)

text \<open>An open that finds a buffered resolve is resolved at once on both sides.\<close>

lemma pairing_sim_pair:
  assumes sim: "pairing_sim L0 S ops"
    and L: "L = count_recall e L0"
    and L1: "agg_of L1 = agg_of L" "l_pendingOpens L1 = l_pendingOpens L0"
    and L2: "L2 = (if counted_open e then creditResolve (ev_entry e) t L1 else L1)"
    and r: "l_pendingResolves L1 = pr_resolves S1"
    and S1: "pr_opens S1 = pr_opens S"
      "pr_out S1 = resolve_at (length (pr_out S)) t (pr_out S @ [open_episode e])"
  shows "pairing_sim L2 S1 (ops @ [e])"
proof -
  note d = pairing_simD [OF sim]
  have m: "agg_matches L1 (ops @ [e]) (pr_out S @ [open_episode e])"
    using agg_matches_open [OF d(5,1) L] agg_matches_cong [OF L1(1)] by simp
  have "(pr_out S @ [open_episode e]) ! length ops = open_episode e"
    using d(1) by (metis nth_append_length)
  then have agg: "agg_matches L2 (ops @ [e])
      (resolve_at (length ops) t (pr_out S @ [open_episode e]))"
    by (intro agg_matches_resolve [OF m, of "length ops" "ev_entry e"])
      (simp_all add: d(1) L2 open_episode_def)
  have fresh: "length ops \<notin> set (mget [] (pr_opens S) fp)" for fp
    using stack_ok_lt [OF d(4) [of fp]] by auto
  have st: "stack_ok (ops @ [e]) (resolve_at (length ops) t (pr_out S @ [open_episode e])) fp
      (mget [] (pr_opens S) fp)" for fp
    by (rule stack_ok_resolve_other [OF fresh stack_ok_append [OF d(1,4)]])
  have pe: "mget [] (l_pendingOpens L2) fp = map (pending_of (ops @ [e])) (mget [] (pr_opens S) fp)" for fp
    using pending_of_append [OF stack_ok_lt [OF d(4)]] d(3) L1(2) L2 by simp
  show ?thesis
    using agg st pe d(1) r S1 L2 by (simp add: pairing_sim_def)
qed

lemma applyOpen_sim:
  assumes sim: "pairing_sim L S ops" and e: "ev_event e = ''open''"
  shows "pairing_sim (applyOpen e L) (pairing_step e S) (ops @ [e])"
proof -
  let ?fp = "ev_fingerprint e"
  let ?L = "count_recall e L"
  have rs: "l_pendingResolves L = pr_resolves S" by (rule pairing_simD(2) [OF sim])
  obtain kept stale where k: "resolvesSince (mget [] (pr_resolves S) ?fp) e = (kept, stale)"
    by (cases "resolvesSince (mget [] (pr_resolves S) ?fp) e")
  consider (none) "mget [] (pr_resolves S) ?fp = []"
    | (stale) "mget [] (pr_resolves S) ?fp \<noteq> []" "kept = []"
    | (paired) "mget [] (pr_resolves S) ?fp \<noteq> []" "kept \<noteq> []" by blast
  then show ?thesis
  proof cases
    case none
    have "pairing_sim (push_open e ?L) (pairing_push ?fp (length (pr_out S))
        (S\<lparr>pr_out := pr_out S @ [open_episode e]\<rparr>)) (ops @ [e])"
      by (rule pairing_sim_push [OF sim refl]) (simp_all add: rs)
    then show ?thesis using none e rs by (simp add: applyOpen_def pairing_step_def Let_def)
  next
    case stale
    let ?L1 = "note_stale stale ?L"
    have "pairing_sim (push_open e (?L1\<lparr>l_pendingResolves := (l_pendingResolves ?L1)(?fp := None)\<rparr>))
        (pairing_push ?fp (length (pr_out S)) (S\<lparr>pr_out := pr_out S @ [open_episode e],
           pr_resolves := (pr_resolves S)(?fp := None)\<rparr>)) (ops @ [e])"
      by (rule pairing_sim_push [OF sim refl]) (simp_all add: rs)
    then show ?thesis using stale e rs k by (simp add: applyOpen_def pairing_step_def Let_def)
  next
    case paired
    let ?L1 = "note_stale stale ?L"
    let ?L2 = "?L1\<lparr>l_pendingResolves := (l_pendingResolves ?L1)(?fp \<mapsto> tl kept)\<rparr>"
    have "pairing_sim (if counted_open e then creditResolve (ev_entry e) (hd kept) ?L2 else ?L2)
        (S\<lparr>pr_out := resolve_at (length (pr_out S)) (hd kept) (pr_out S @ [open_episode e]),
           pr_resolves := (pr_resolves S)(?fp \<mapsto> tl kept)\<rparr>) (ops @ [e])"
      by (rule pairing_sim_pair [OF sim refl _ _ refl]) (simp_all add: rs)
    then show ?thesis using paired e rs k
      by (cases "counted_open e") (simp_all add: applyOpen_def pairing_step_def Let_def)
  qed
qed

lemma pair_resolve_sim:
  assumes sim: "pairing_sim L S ops" and e: "ev_event e = ''resolve''"
    and nodrop: "l_droppedResolves (pair_resolve (ev_fingerprint e) (ev_at e) L) = l_droppedResolves L"
  shows "pairing_sim (pair_resolve (ev_fingerprint e) (ev_at e) L) (pairing_step e S) ops"
proof -
  let ?fp = "ev_fingerprint e" and ?t = "ev_at e"
  note d = pairing_simD [OF sim]
  show ?thesis
  proof (cases "mget [] (pr_opens S) ?fp = []")
    case True
    then have "mget [] (l_pendingOpens L) ?fp = []" using d(3) [of ?fp] by simp
    then show ?thesis
      using True e nodrop sim d(2)
      by (auto simp: pair_resolve_def buffer_resolve_def pairing_step_def pairing_sim_def
          agg_matches_def Let_def split: if_splits)
  next
    case False
    define st where "st = mget [] (pr_opens S) ?fp"
    define i where "i = last st"
    have st: "mget [] (l_pendingOpens L) ?fp = map (pending_of ops) st" "st \<noteq> []"
      using d(3) False by (simp_all add: st_def)
    have ok: "stack_ok ops (pr_out S) ?fp st" using d(4) by (simp add: st_def)
    have i: "i \<in> set st" "i < length ops" "ev_fingerprint (ops ! i) = ?fp"
      "\<not> ep_resolved (pr_out S ! i)"
      using st(2) ok by (auto simp: i_def stack_ok_def)
    let ?L1 = "L\<lparr>l_pendingOpens := (l_pendingOpens L)(?fp \<mapsto> map (pending_of ops) (butlast st))\<rparr>"
    let ?L2 = "if counted_open (ops ! i) then creditResolve (ev_entry (ops ! i)) ?t ?L1 else ?L1"
    have "agg_matches ?L1 ops (pr_out S)" using d(5) by (simp add: agg_matches_def)
    from agg_matches_resolve [OF this i(2) d(1) i(4) refl refl]
    have agg: "agg_matches ?L2 ops (resolve_at i ?t (pr_out S))" .
    have "distinct (butlast st @ [i])" using ok st(2) by (simp add: stack_ok_def i_def)
    then have i_out: "i \<notin> set (butlast st)" by simp
    have st_fp: "stack_ok ops (resolve_at i ?t (pr_out S)) ?fp (butlast st)"
      by (rule stack_ok_resolve_other [OF i_out])
        (use ok in \<open>auto simp: stack_ok_def distinct_butlast dest: in_set_butlastD\<close>)
    have st_other: "stack_ok ops (resolve_at i ?t (pr_out S)) fp (mget [] (pr_opens S) fp)"
      if "fp \<noteq> ?fp" for fp
    proof (rule stack_ok_resolve_other [OF _ d(4)])
      show "i \<notin> set (mget [] (pr_opens S) fp)"
        using d(4) [of fp] i(3) that by (auto simp: stack_ok_def)
    qed
    have "pair_resolve ?fp ?t L = ?L2"
      using st by (simp add: pair_resolve_def Let_def map_butlast last_map pending_of_def i_def)
    moreover have "pairing_step e S = S\<lparr>pr_opens := (pr_opens S)(?fp \<mapsto> butlast st),
        pr_out := resolve_at i ?t (pr_out S)\<rparr>"
      using e st(2) by (simp add: pairing_step_def Let_def st_def i_def)
    ultimately show ?thesis
      using agg st_fp st_other d(1,2,3) by (simp add: pairing_sim_def)
  qed
qed

text \<open>Only a full buffer drops a resolve, and the count of dropped ones never goes down.\<close>

lemma buffer_resolve_dropped_mono: "l_droppedResolves L \<le> l_droppedResolves (buffer_resolve fp t L)"
  by (simp add: buffer_resolve_def Let_def)

lemma pair_resolve_dropped_mono: "l_droppedResolves L \<le> l_droppedResolves (pair_resolve fp t L)"
  by (simp add: pair_resolve_def Let_def buffer_resolve_dropped_mono)

lemma applyResolve_dropped_mono: "l_droppedResolves L \<le> l_droppedResolves (applyResolve fp t L)"
  using pair_resolve_dropped_mono
    [of "(clearSilencesForFingerprint fp (clearSilenceOfOpen fp L))
      \<lparr>l_resolvesSeen := l_resolvesSeen (clearSilencesForFingerprint fp (clearSilenceOfOpen fp L)) + 1\<rparr>" fp t]
  by (simp add: applyResolve_def Let_def)

lemma fold_line_dropped_mono:
  assumes "ev_event e \<noteq> ''checkpoint''"
  shows "l_droppedResolves L \<le> l_droppedResolves (fold_line e L)"
  by (cases e rule: fold_line_kinds)
    (use assms in \<open>simp_all add: fold_line_cases fold_line_unknown applyResolve_dropped_mono\<close>)

lemma pairing_step_other:
  "ev_event e \<noteq> ''open'' \<Longrightarrow> ev_event e \<noteq> ''resolve'' \<Longrightarrow> pairing_step e S = S"
  by (simp add: pairing_step_def Let_def)

text \<open>One line keeps the simulation.\<close>

lemma fold_line_sim:
  assumes sim: "pairing_sim L S (opens_of es)" and nc: "ev_event e \<noteq> ''checkpoint''"
    and nd: "l_droppedResolves (fold_line e L) = l_droppedResolves L"
  shows "pairing_sim (fold_line e L) (pairing_step e S) (opens_of (es @ [e]))"
proof (cases e rule: fold_line_kinds)
  case opened
  let ?L = "L\<lparr>l_open := (l_open L)(ev_fingerprint e \<mapsto> event.truncate e)\<rparr>"
  have "pairing_sim ?L S (opens_of es)"
    using sim pairing_sim_cong [of ?L L] by simp
  then have "pairing_sim (applyOpen e ?L) (pairing_step e S) (opens_of es @ [e])"
    using opened by (rule applyOpen_sim)
  then show ?thesis
    using opened pairing_sim_cong [of "applyTrigger e (applyOpen e ?L)" "applyOpen e ?L"]
    by (simp add: fold_line_cases opens_of_def)
next
  case resolve
  let ?fp = "ev_fingerprint e"
  let ?L = "clearSilencesForFingerprint ?fp (clearSilenceOfOpen ?fp L)"
  let ?L1 = "?L\<lparr>l_resolvesSeen := l_resolvesSeen ?L + 1\<rparr>"
  have "pairing_sim ?L1 S (opens_of es)"
    using sim pairing_sim_cong [of ?L1 L] by simp
  moreover have "l_droppedResolves (pair_resolve ?fp (ev_at e) ?L1) = l_droppedResolves ?L1"
    using nd resolve by (simp add: fold_line_cases applyResolve_def Let_def)
  ultimately have "pairing_sim (applyResolve ?fp (ev_at e) L) (pairing_step e S) (opens_of es)"
    using pair_resolve_sim [of ?L1 S "opens_of es" e] resolve
    by (simp add: applyResolve_def Let_def)
  then show ?thesis
    using resolve pairing_sim_cong [of "(applyResolve ?fp (ev_at e) L)\<lparr>l_open := (l_open L)(?fp := None)\<rparr>"
        "applyResolve ?fp (ev_at e) L"]
    by (simp add: fold_line_cases opens_of_def)
qed (use sim nc pairing_sim_cong [of "fold_line e L" L] in
      \<open>simp_all add: fold_line_cases fold_line_unknown opens_of_def pairing_step_other known_kinds_def\<close>)

lemma pairing_sim_init: "pairing_sim reset_state pairing_init []"
  by (simp add: pairing_sim_def pairing_init_def stack_ok_def agg_matches_def recalls_of_def
      resolved_of_def resolved_ix_def confirmed_of_def)

lemma replay_sim:
  assumes "no_checkpoint es" and "l_droppedResolves (replay es reset_state) = 0"
  shows "pairing_sim (replay es reset_state) (pairing_run es) (opens_of es)"
  using assms
proof (induction es rule: rev_induct)
  case Nil
  then show ?case by (simp add: pairing_run_def opens_of_def pairing_sim_init)
next
  case (snoc e es)
  let ?L = "replay es reset_state"
  have "0 \<le> l_droppedResolves ?L"
  proof (rule replay_invariant)
    fix f :: line and L :: ledger assume "f \<in> set es" and "0 \<le> l_droppedResolves L"
    then show "0 \<le> l_droppedResolves (fold_line f L)"
      using snoc.prems(1) order_trans [OF _ fold_line_dropped_mono]
      by (simp add: no_checkpoint_def)
  qed simp
  moreover have "l_droppedResolves ?L \<le> l_droppedResolves (fold_line e ?L)"
    using snoc.prems(1) by (simp add: fold_line_dropped_mono)
  ultimately have z: "l_droppedResolves ?L = 0" "l_droppedResolves (fold_line e ?L) = 0"
    using snoc.prems(2) by simp_all
  then have "pairing_sim ?L (pairing_run es) (opens_of es)"
    using snoc by simp
  from fold_line_sim [OF this] show ?case
    using snoc.prems(1) z by (simp add: pairing_run_snoc)
qed

end
