(* ===== verification/LedgerCheckpoint.thy ===== *)
theory LedgerCheckpoint
  imports LedgerTally
begin

text \<open>
  Load and compaction of \<open>internal/outcome/ledger.go\<close>: \<open>snapshotCheckpointLocked\<close>,
  \<open>pruneLapsedSilencesLocked\<close>, \<open>compactLocked\<close> and the replay that seeds from the checkpoint.
  The result is that a compaction is invisible to a later load: whatever lines follow, the
  load of the compacted file and the load of the original give the same state. The proof
  relates states that differ only in silences that had already lapsed when the checkpoint was
  written.
\<close>

section \<open>Snapshot and prune\<close>

definition snapshotCheckpoint :: "ledger \<Rightarrow> checkpoint" where
  "snapshotCheckpoint L = \<lparr>
     ck_agg = l_agg L,
     ck_byTrigger = l_byTrigger L,
     ck_openIndex = l_open L,
     ck_pendingOpens = l_pendingOpens L,
     ck_pendingResolves = l_pendingResolves L,
     ck_votes = l_votes L,
     ck_silences = (\<lambda>k. map_option si_until (l_silences L k)),
     ck_silencedAt = (\<lambda>k. map_option si_at (l_silences L k)),
     ck_triggerConfirms = l_triggerConfirms L,
     ck_verifies = l_verifies L,
     ck_droppedResolves = l_droppedResolves L,
     ck_staleResolves = l_staleResolves L,
     ck_resolvesSeen = l_resolvesSeen L\<rparr>"

definition pruneLapsedSilences :: "gotime \<Rightarrow> ledger \<Rightarrow> ledger" where
  "pruneLapsedSilences now L = L\<lparr>l_silences := (\<lambda>tk. case l_silences L tk of
       None \<Rightarrow> None | Some s \<Rightarrow> if si_until s > now then Some s else None)\<rparr>"

text \<open>Seeding an empty ledger from a snapshot restores the ledger.\<close>

lemma seed_snapshot:
  assumes "distinct (map fst (l_votes L))" and "distinct (map fst (l_verifies L))"
  shows "seedCheckpoint (Some (snapshotCheckpoint L)) reset_state = L"
proof -
  have "(\<lambda>k. map_option (\<lambda>u. \<lparr>si_at = mget 0 (\<lambda>k. map_option si_at (l_silences L k)) k, si_until = u\<rparr>)
      (map_option si_until (l_silences L k))) = l_silences L"
    by (rule ext) (simp add: mget_def split: option.split)
  then show ?thesis
    using assms by (simp add: seedCheckpoint_def snapshotCheckpoint_def fold_update_Nil)
qed

section \<open>Compaction\<close>

definition checkpoint_line :: "gotime \<Rightarrow> ledger \<Rightarrow> line" where
  "checkpoint_line now L = event.extend (mk_event ''checkpoint'' [] now)
     \<lparr>ln_checkpoint = Some (snapshotCheckpoint L)\<rparr>"

text \<open>
  \<open>compactLocked\<close>: the lines the file holds afterwards. Nothing is rewritten when there is
  nothing old enough to absorb.
\<close>

definition compact_lines :: "gotime \<Rightarrow> int \<Rightarrow> line list \<Rightarrow> line list" where
  "compact_lines now maxEvents es =
     (let keep = (if maxEvents - 1 < 0 then 0 else maxEvents - 1);
          cut = int (length es) - keep
      in if cut \<le> 0 then es
         else (let scratch = replay (take (nat cut) es) reset_state
               in checkpoint_line now (pruneLapsedSilences now scratch) # drop (nat cut) es))"

lemma fold_checkpoint_line:
  assumes "distinct (map fst (l_votes L))" and "distinct (map fst (l_verifies L))"
  shows "fold_line (checkpoint_line now L) reset_state = L"
  using assms seed_snapshot
  by (simp add: fold_line_def checkpoint_line_def mk_event_def event.defs)

lemma distinct_fold_update:
  "distinct (map fst acc) \<Longrightarrow> distinct (map fst (fold (\<lambda>(k, v). AList.update k v) m acc))"
  by (induction m arbitrary: acc) auto

text \<open>The two association lists never hold a key twice, whatever is folded.\<close>

lemma fold_line_distinct_votes:
  assumes "distinct (map fst (l_votes L))"
  shows "distinct (map fst (l_votes (fold_line e L)))"
proof (cases e rule: fold_line_kinds)
  case feedback
  then show ?thesis using assms
    by (simp add: fold_line_cases applyFeedback_def Let_def split: option.split)
next
  case checkpoint
  then show ?thesis using assms
    by (simp add: fold_line_cases seedCheckpoint_def distinct_fold_update split: option.split)
qed (use assms in \<open>simp_all add: fold_line_cases fold_line_unknown\<close>)

lemma fold_line_distinct_verifies:
  assumes "distinct (map fst (l_verifies L))"
  shows "distinct (map fst (l_verifies (fold_line e L)))"
proof (cases e rule: fold_line_kinds)
  case verify
  then show ?thesis using assms
    by (simp add: fold_line_cases applyVerify_def Let_def split: option.split)
next
  case checkpoint
  then show ?thesis using assms
    by (simp add: fold_line_cases seedCheckpoint_def distinct_fold_update split: option.split)
qed (use assms in \<open>simp_all add: fold_line_cases fold_line_unknown\<close>)

lemma replay_distinct:
  "distinct (map fst (l_votes (replay es reset_state)))"
  "distinct (map fst (l_verifies (replay es reset_state)))"
  by (rule replay_invariant, simp, erule fold_line_distinct_votes)
    (rule replay_invariant, simp, erule fold_line_distinct_verifies)

section \<open>States that differ in lapsed silences only\<close>

definition lapsed_eq :: "gotime \<Rightarrow> ledger \<Rightarrow> ledger \<Rightarrow> bool" where
  "lapsed_eq now L L' \<longleftrightarrow> (\<exists>m. L' = L\<lparr>l_silences := m\<rparr> \<and> (\<forall>tk. m tk = l_silences L tk
     \<or> (m tk = None \<and> (\<exists>s. l_silences L tk = Some s \<and> si_until s \<le> now))))"

lemma lapsed_eq_refl: "lapsed_eq now L L"
  unfolding lapsed_eq_def by (rule exI [of _ "l_silences L"]) simp

lemma lapsed_eq_prune: "lapsed_eq now L (pruneLapsedSilences now L)"
  unfolding lapsed_eq_def pruneLapsedSilences_def
  by (rule exI, rule conjI, rule refl) (auto split: option.split)

text \<open>Both states look the same to a load that prunes at the same time or later.\<close>

lemma prune_lapsed_eq:
  assumes "lapsed_eq now L L'" and "now \<le> now'"
  shows "pruneLapsedSilences now' L' = pruneLapsedSilences now' L"
proof -
  obtain m where L': "L' = L\<lparr>l_silences := m\<rparr>" and m: "\<And>tk. m tk = l_silences L tk
     \<or> (m tk = None \<and> (\<exists>s. l_silences L tk = Some s \<and> si_until s \<le> now))"
    using assms(1) by (auto simp: lapsed_eq_def)
  have "(case m tk of None \<Rightarrow> None | Some s \<Rightarrow> if now' < si_until s then Some s else None)
      = (case l_silences L tk of None \<Rightarrow> None | Some s \<Rightarrow> if now' < si_until s then Some s else None)" for tk
    using m [of tk] assms(2) by (cases "l_silences L tk") auto
  then show ?thesis by (simp add: pruneLapsedSilences_def L')
qed

text \<open>
  The steps that do not touch silences commute with replacing them; the three that do set or
  clear single triggers.
\<close>

lemma upd_agg_silences [simp]:
  "upd_agg x f (L\<lparr>l_silences := m\<rparr>) = (upd_agg x f L)\<lparr>l_silences := m\<rparr>"
  by (simp add: upd_agg_def)

lemma credits_silences [simp]:
  "creditResolve x t (L\<lparr>l_silences := m\<rparr>) = (creditResolve x t L)\<lparr>l_silences := m\<rparr>"
  "creditFeedback x r d (L\<lparr>l_silences := m\<rparr>) = (creditFeedback x r d L)\<lparr>l_silences := m\<rparr>"
  "creditVerify x h d (L\<lparr>l_silences := m\<rparr>) = (creditVerify x h d L)\<lparr>l_silences := m\<rparr>"
  "count_recall e (L\<lparr>l_silences := m\<rparr>) = (count_recall e L)\<lparr>l_silences := m\<rparr>"
  "note_stale n (L\<lparr>l_silences := m\<rparr>) = (note_stale n L)\<lparr>l_silences := m\<rparr>"
  "push_open e (L\<lparr>l_silences := m\<rparr>) = (push_open e L)\<lparr>l_silences := m\<rparr>"
  by (simp_all add: creditResolve_def creditFeedback_def creditVerify_def count_recall_def
      note_stale_def push_open_def)

lemma silences_comm:
  "L\<lparr>l_silences := m, l_open := z0\<rparr> = L\<lparr>l_open := z0, l_silences := m\<rparr>"
  "L\<lparr>l_silences := m, l_resolvesSeen := z1\<rparr> = L\<lparr>l_resolvesSeen := z1, l_silences := m\<rparr>"
  "L\<lparr>l_silences := m, l_agg := z2\<rparr> = L\<lparr>l_agg := z2, l_silences := m\<rparr>"
  "L\<lparr>l_silences := m, l_pendingOpens := z3\<rparr> = L\<lparr>l_pendingOpens := z3, l_silences := m\<rparr>"
  "L\<lparr>l_silences := m, l_pendingResolves := z4\<rparr> = L\<lparr>l_pendingResolves := z4, l_silences := m\<rparr>"
  "L\<lparr>l_silences := m, l_byTrigger := z5\<rparr> = L\<lparr>l_byTrigger := z5, l_silences := m\<rparr>"
  "L\<lparr>l_silences := m, l_votes := z6\<rparr> = L\<lparr>l_votes := z6, l_silences := m\<rparr>"
  "L\<lparr>l_silences := m, l_triggerConfirms := z7\<rparr> = L\<lparr>l_triggerConfirms := z7, l_silences := m\<rparr>"
  "L\<lparr>l_silences := m, l_verifies := z8\<rparr> = L\<lparr>l_verifies := z8, l_silences := m\<rparr>"
  by simp_all

lemma fold_line_silences_frame:
  assumes "ev_event e \<notin> {''resolve'', ''silence'', ''checkpoint''}"
  shows "fold_line e (L\<lparr>l_silences := m\<rparr>) = (fold_line e L)\<lparr>l_silences := m\<rparr>
    \<and> l_silences (fold_line e L) = l_silences L"
proof (cases e rule: fold_line_kinds)
  case opened
  have "applyOpen e (K\<lparr>l_silences := m\<rparr>) = (applyOpen e K)\<lparr>l_silences := m\<rparr>" for K
    by (simp add: applyOpen_def Let_def silences_comm split: prod.split)
  moreover have "applyTrigger e (K\<lparr>l_silences := m\<rparr>) = (applyTrigger e K)\<lparr>l_silences := m\<rparr>" for K
    by (simp add: applyTrigger_def Let_def)
  moreover define K where "K = L\<lparr>l_open := (l_open L)(ev_fingerprint e \<mapsto> event.truncate e)\<rparr>"
  have "fold_line e (L\<lparr>l_silences := m\<rparr>) = applyTrigger e (applyOpen e (K\<lparr>l_silences := m\<rparr>))"
    "fold_line e L = applyTrigger e (applyOpen e K)" "l_silences K = l_silences L"
    using opened by (simp_all add: fold_line_cases K_def silences_comm)
  ultimately show ?thesis by simp
next
  case feedback
  then show ?thesis by (simp add: fold_line_cases applyFeedback_def Let_def silences_comm split: option.split)
next
  case confirm
  then show ?thesis by (simp add: fold_line_cases applyConfirm_def Let_def silences_comm)
next
  case verify
  then show ?thesis by (simp add: fold_line_cases applyVerify_def Let_def silences_comm split: option.split)
next
  case link
  then show ?thesis by (simp add: fold_line_cases applyLink_def Let_def silences_comm)
qed (use assms in \<open>simp_all add: fold_line_unknown\<close>)

text \<open>The silences a resolve leaves, and how it acts on the rest of the state.\<close>

definition resolve_clears :: "string \<Rightarrow> ledger \<Rightarrow> string \<Rightarrow> bool" where
  "resolve_clears fp L tk \<longleftrightarrow>
     (\<exists>o'. l_open L fp = Some o' \<and> ev_triggerKey o' \<noteq> [] \<and> ev_triggerKey o' = tk)
     \<or> (fp \<noteq> [] \<and> ta_fingerprint (trigger_of L tk) = fp)"

lemma applyResolve_silences:
  "l_silences (applyResolve fp t L) tk = (if resolve_clears fp L tk then None else l_silences L tk)"
  by (auto simp: applyResolve_def Let_def clearSilencesForFingerprint_def clearSilenceOfOpen_def
      resolve_clears_def split: option.split)

lemma pair_resolve_silences:
  "pair_resolve fp t (L\<lparr>l_silences := m\<rparr>) = (pair_resolve fp t L)\<lparr>l_silences := m\<rparr>"
  by (simp add: pair_resolve_def buffer_resolve_def Let_def silences_comm)

lemma applyResolve_split:
  "applyResolve fp t L = (pair_resolve fp t (L\<lparr>l_resolvesSeen := l_resolvesSeen L + 1\<rparr>))
     \<lparr>l_silences := (\<lambda>tk. if resolve_clears fp L tk then None else l_silences L tk)\<rparr>"
proof -
  let ?m = "\<lambda>tk. if resolve_clears fp L tk then None else l_silences L tk"
  let ?K = "clearSilencesForFingerprint fp (clearSilenceOfOpen fp L)"
  have sil: "l_silences ?K = ?m"
    by (rule ext) (auto simp: clearSilencesForFingerprint_def clearSilenceOfOpen_def
      resolve_clears_def split: option.split)
  have "?K = L\<lparr>l_silences := l_silences ?K\<rparr>"
    by (simp add: clearSilencesForFingerprint_def clearSilenceOfOpen_def split: option.split)
  then have K: "?K = L\<lparr>l_silences := ?m\<rparr>" by (simp only: sil)
  have "?K\<lparr>l_resolvesSeen := l_resolvesSeen ?K + 1\<rparr>
      = (L\<lparr>l_resolvesSeen := l_resolvesSeen L + 1\<rparr>)\<lparr>l_silences := ?m\<rparr>"
    unfolding K by simp
  then show ?thesis by (simp add: applyResolve_def Let_def pair_resolve_silences)
qed

lemma lapsed_eqI:
  assumes "L' = L\<lparr>l_silences := l_silences L'\<rparr>"
    and "\<And>tk. l_silences L' tk = l_silences L tk \<or> (l_silences L' tk = None
      \<and> (\<exists>s. l_silences L tk = Some s \<and> si_until s \<le> now))"
  shows "lapsed_eq now L L'"
  using assms unfolding lapsed_eq_def by (intro exI [of _ "l_silences L'"]) blast

lemma lapsed_eqE:
  assumes "lapsed_eq now L L'"
  obtains m where "L' = L\<lparr>l_silences := m\<rparr>" and "\<And>tk. m tk = l_silences L tk
      \<or> (m tk = None \<and> (\<exists>s. l_silences L tk = Some s \<and> si_until s \<le> now))"
  using assms unfolding lapsed_eq_def by blast

text \<open>Folding one more line keeps two such states related.\<close>

lemma lapsed_eq_fold_line:
  assumes "lapsed_eq now L L'"
  shows "lapsed_eq now (fold_line e L) (fold_line e L')"
proof -
  obtain m where L': "L' = L\<lparr>l_silences := m\<rparr>" and m: "\<And>tk. m tk = l_silences L tk
      \<or> (m tk = None \<and> (\<exists>s. l_silences L tk = Some s \<and> si_until s \<le> now))"
    by (rule lapsed_eqE [OF assms]) blast
  consider (frame) "ev_event e \<notin> {''resolve'', ''silence'', ''checkpoint''}"
    | (resolve) "ev_event e = ''resolve''" | (silence) "ev_event e = ''silence''"
    | (checkpoint) "ev_event e = ''checkpoint''" by blast
  then show ?thesis
  proof cases
    case frame
    then show ?thesis
      using fold_line_silences_frame [where m = m and L = L, OF frame] m
      by (intro lapsed_eqI) (simp_all add: L')
  next
    case resolve
    have rc: "resolve_clears fp (L\<lparr>l_silences := m\<rparr>) = resolve_clears fp L" for fp
      by (rule ext) (simp add: resolve_clears_def)
    have pr: "pair_resolve fp t (L\<lparr>l_silences := m, l_resolvesSeen := r\<rparr>)
      = (pair_resolve fp t (L\<lparr>l_resolvesSeen := r\<rparr>))\<lparr>l_silences := m\<rparr>" for fp t r
      using pair_resolve_silences [where L = "L\<lparr>l_resolvesSeen := r\<rparr>" and fp = fp and t = t and m = m]
      by (simp add: silences_comm)
    show ?thesis
      using m by (intro lapsed_eqI) (simp_all add: fold_line_cases resolve L' applyResolve_split rc pr)
  next
    case silence
    then show ?thesis
      using m by (intro lapsed_eqI) (auto simp: fold_line_cases L' applySilence_def split: option.split)
  next
    case checkpoint
    then show ?thesis
      using m by (intro lapsed_eqI)
        (auto simp: fold_line_cases L' seedCheckpoint_def map_add_def split: option.splits)
  qed
qed

lemma lapsed_eq_replay:
  "lapsed_eq now L L' \<Longrightarrow> lapsed_eq now (replay es L) (replay es L')"
  by (induction es arbitrary: L L') (simp_all add: lapsed_eq_fold_line)

lemma lapsed_eq_compact:
  "lapsed_eq now (replay es reset_state) (replay (compact_lines now maxEvents es) reset_state)"
proof (cases "int (length es) - (if maxEvents - 1 < 0 then 0 else maxEvents - 1) \<le> 0")
  case True
  then show ?thesis by (simp add: compact_lines_def Let_def lapsed_eq_refl)
next
  case False
  define n where "n = nat (int (length es) - (if maxEvents - 1 < 0 then 0 else maxEvents - 1))"
  let ?s = "replay (take n es) reset_state"
  have c: "compact_lines now maxEvents es = checkpoint_line now (pruneLapsedSilences now ?s) # drop n es"
    using False by (simp add: compact_lines_def Let_def n_def)
  have "replay (compact_lines now maxEvents es) reset_state = replay (drop n es) (pruneLapsedSilences now ?s)"
    unfolding c using replay_distinct [of "take n es"]
    by (simp add: fold_checkpoint_line pruneLapsedSilences_def)
  moreover have "replay es reset_state = replay (drop n es) ?s"
    by (metis append_take_drop_id replay_simps(3))
  ultimately show ?thesis by (simp add: lapsed_eq_replay lapsed_eq_prune)
qed

text \<open>
  The checkpoint loses nothing. Whatever lines a ledger was folded from, earlier
  checkpoints included, seeding an empty ledger from the snapshot of its state restores the state:
  aggregates, pairing stacks, buffered resolves, votes, verifications, silences and triggers.
\<close>

theorem checkpoint_roundtrip:
  "seedCheckpoint (Some (snapshotCheckpoint (replay es reset_state))) reset_state = replay es reset_state"
  by (rule seed_snapshot [OF replay_distinct])

end
