(* ===== verification/LedgerStore.thy ===== *)
theory LedgerStore
  imports LedgerCheckpoint LedgerEpisodes
begin

text \<open>
  The ledger as its callers see it (\<open>internal/outcome/ledger.go\<close>): the file, the in-memory
  state, the write operations \<open>Open\<close>, \<open>Resolve\<close>, \<open>Feedback\<close>, \<open>Silence\<close>, \<open>Confirm\<close>,
  \<open>Verify\<close>, \<open>Link\<close>, the load path (\<open>readEvents\<close>, \<open>loadLocked\<close>, \<open>Reload\<close>,
  \<open>NewWithMaxEvents\<close>) and the reads (\<open>Recurrence\<close>, \<open>ContestedTriggers\<close>, \<open>OpenCounts\<close>,
  \<open>Verifications\<close>, \<open>Measures\<close>, \<open>Status\<close>, \<open>Episodes\<close>).

  The file is a list of physical lines, \<open>None\<close> for a line that does not parse. Each append
  takes its outcome as an argument: it may succeed, fail before writing, be cut short, or be
  written and then fail in \<open>fsync\<close>. \<open>st_torn\<close> says that the last line lacks its newline, so
  the next append is glued to it. \<open>fits\<close> says which physical lines are within the scanner's
  one-megabyte limit. Every operation runs under the ledger's mutex, so a run is a sequence.
\<close>

section \<open>The store\<close>

datatype ledger_error =
    BadRating string | EmptyTriggerKey | BadWindow duration | WindowOverCap duration duration
  | EmptyEntry | EmptyEntryOrRoom | EmptyKeyOrURL | AppendError | ReadError

datatype append_outcome = AppendOk | OpenFails | ShortWrite | SyncFails

record store =
  st_path :: string
  st_file :: "line option list option"
  st_torn :: bool
  st_state :: ledger
  st_maxSilenceWindow :: duration
  st_maxEvents :: int
  st_corruptLines :: int

type_synonym 'a outcome = "(ledger_error + 'a) \<times> store"

definition enabled :: "store \<Rightarrow> bool" where
  "enabled s \<longleftrightarrow> st_path s \<noteq> []"

definition file_lines :: "store \<Rightarrow> line option list" where
  "file_lines s = (case st_file s of None \<Rightarrow> [] | Some ls \<Rightarrow> ls)"

text \<open>The lines of the file that parse.\<close>

definition good_lines :: "line option list \<Rightarrow> line list" where
  "good_lines ls = map the (filter (\<lambda>x. x \<noteq> None) ls)"

lemma good_lines_simps [simp]:
  "good_lines [] = []" "good_lines (Some e # ls) = e # good_lines ls"
  "good_lines (None # ls) = good_lines ls" "good_lines (ls @ ls') = good_lines ls @ good_lines ls'"
  "good_lines (map Some es) = es"
  by (simp_all add: good_lines_def filter_map o_def)

section \<open>Reading the file\<close>

text \<open>The parsed events, how many lines did not parse, and whether the scan failed.\<close>

definition readEvents :: "(line option \<Rightarrow> bool) \<Rightarrow> store \<Rightarrow> line list \<times> int \<times> bool" where
  "readEvents fits s =
     (if \<not> enabled s then ([], 0, False)
      else case st_file s of
             None \<Rightarrow> ([], 0, False)
           | Some ls \<Rightarrow>
               (let scanned = takeWhile fits ls
                in (good_lines scanned, int (length (filter (\<lambda>x. x = None) scanned)),
                    \<not> list_all fits ls)))"

text \<open>
  \<open>loadLocked\<close>: \<open>now\<close> is the clock the prune reads, \<open>now_c\<close> the one the compaction reads,
  \<open>rewrite_ok\<close> whether the temporary file could be written and renamed.
\<close>

definition loadLocked :: "(line option \<Rightarrow> bool) \<Rightarrow> bool \<Rightarrow> gotime \<Rightarrow> gotime \<Rightarrow> store \<Rightarrow> unit outcome" where
  "loadLocked fits rewrite_ok now now_c s =
     (case readEvents fits s of (events, corrupt, failed) \<Rightarrow>
        if failed then (Inl ReadError, s)
        else (let s1 = s\<lparr>st_state := pruneLapsedSilences now (replay events reset_state),
                         st_corruptLines := corrupt\<rparr>
              in if st_maxEvents s > 0 \<and> int (length events) > st_maxEvents s \<and> rewrite_ok
                 then (Inr (), s1\<lparr>st_file := Some (map Some (compact_lines now_c (st_maxEvents s) events)),
                                  st_torn := False\<rparr>)
                 else (Inr (), s1)))"

definition NewWithMaxEvents ::
  "(line option \<Rightarrow> bool) \<Rightarrow> bool \<Rightarrow> gotime \<Rightarrow> gotime \<Rightarrow> string \<Rightarrow> int \<Rightarrow> line option list option \<Rightarrow> bool
     \<Rightarrow> unit outcome" where
  "NewWithMaxEvents fits rewrite_ok now now_c path maxEvents file torn =
     loadLocked fits rewrite_ok now now_c
       \<lparr>st_path = path, st_file = file, st_torn = torn, st_state = reset_state,
        st_maxSilenceWindow = 0, st_maxEvents = maxEvents, st_corruptLines = 0\<rparr>"

definition Reload :: "(line option \<Rightarrow> bool) \<Rightarrow> bool \<Rightarrow> gotime \<Rightarrow> gotime \<Rightarrow> store \<Rightarrow> unit outcome" where
  "Reload fits rewrite_ok now now_c s =
     (if \<not> enabled s then (Inr (), s) else loadLocked fits rewrite_ok now now_c s)"

record ledger_status =
  ls_path :: string
  ls_configured :: bool
  ls_present :: bool
  ls_events :: nat

definition Status :: "(line option \<Rightarrow> bool) \<Rightarrow> store \<Rightarrow> ledger_status" where
  "Status fits s =
     (if \<not> enabled s then \<lparr>ls_path = [], ls_configured = False, ls_present = False, ls_events = 0\<rparr>
      else \<lparr>ls_path = st_path s, ls_configured = True, ls_present = (st_file s \<noteq> None),
             ls_events = (case readEvents fits s of (events, _, failed) \<Rightarrow>
                if failed then 0 else length events)\<rparr>)"

definition Episodes :: "(line option \<Rightarrow> bool) \<Rightarrow> store \<Rightarrow> ledger_error + episode list" where
  "Episodes fits s =
     (if \<not> enabled s then Inr []
      else case readEvents fits s of (events, _, failed) \<Rightarrow>
             if failed then Inl ReadError else Inr (episodesOf events))"

section \<open>Writing\<close>

definition file_append :: "line option \<Rightarrow> store \<Rightarrow> store" where
  "file_append x s = (if st_torn s then s\<lparr>st_torn := False\<rparr>
     else s\<lparr>st_file := Some (file_lines s @ [x])\<rparr>)"

definition appendLocked :: "append_outcome \<Rightarrow> event \<Rightarrow> store \<Rightarrow> ledger_error option \<times> store" where
  "appendLocked io e s = (case io of
     AppendOk \<Rightarrow> (None, file_append (Some (plain_line e)) s)
   | OpenFails \<Rightarrow> (Some AppendError, s)
   | ShortWrite \<Rightarrow> (Some AppendError, (file_append None s)\<lparr>st_torn := True\<rparr>)
   | SyncFails \<Rightarrow> (Some AppendError, file_append (Some (plain_line e)) s))"

text \<open>The durable-first order every writer has: append, and only then fold.\<close>

definition durably :: "append_outcome \<Rightarrow> event \<Rightarrow> (ledger \<Rightarrow> ledger) \<Rightarrow> store \<Rightarrow> unit outcome" where
  "durably io e f s = (case appendLocked io e s of
     (Some err, s1) \<Rightarrow> (Inl err, s1)
   | (None, s1) \<Rightarrow> (Inr (), s1\<lparr>st_state := f (st_state s1)\<rparr>))"

definition open_fold :: "event \<Rightarrow> ledger \<Rightarrow> ledger" where
  "open_fold e L = applyTrigger e (applyOpen e (L\<lparr>l_open := (l_open L)(ev_fingerprint e \<mapsto> e)\<rparr>))"

definition Open :: "append_outcome \<Rightarrow> event \<Rightarrow> store \<Rightarrow> unit outcome" where
  "Open io e0 s =
     (if \<not> enabled s then (Inr (), s)
      else (let e = e0\<lparr>ev_event := ''open''\<rparr> in durably io e (open_fold e) s))"

definition Feedback :: "append_outcome \<Rightarrow> string \<Rightarrow> string \<Rightarrow> string \<Rightarrow> gotime \<Rightarrow> store \<Rightarrow> unit outcome" where
  "Feedback io tk rating user t s =
     (if rating \<noteq> ''up'' \<and> rating \<noteq> ''down'' then (Inl (BadRating rating), s)
      else if \<not> enabled s then (Inr (), s)
      else (let e = zero_event\<lparr>ev_event := ''feedback'', ev_triggerKey := tk, ev_kind := rating,
                      ev_user := user, ev_at := t\<rparr>
            in durably io e (applyFeedback e) s))"

definition SetMaxSilenceWindow :: "duration \<Rightarrow> store \<Rightarrow> store" where
  "SetMaxSilenceWindow d s = s\<lparr>st_maxSilenceWindow := d\<rparr>"

definition Silence :: "append_outcome \<Rightarrow> string \<Rightarrow> duration \<Rightarrow> string \<Rightarrow> gotime \<Rightarrow> store \<Rightarrow> unit outcome" where
  "Silence io tk window user t s =
     (if tk = [] then (Inl EmptyTriggerKey, s)
      else if window \<le> 0 then (Inl (BadWindow window), s)
      else if st_maxSilenceWindow s > 0 \<and> window > st_maxSilenceWindow s
      then (Inl (WindowOverCap window (st_maxSilenceWindow s)), s)
      else if \<not> enabled s then (Inr (), s)
      else (let e = zero_event\<lparr>ev_event := ''silence'', ev_triggerKey := tk,
                      ev_kind := duration_string window, ev_user := user, ev_at := t\<rparr>
            in durably io e (applySilence e) s))"

definition Confirm :: "append_outcome \<Rightarrow> string \<Rightarrow> string \<Rightarrow> string \<Rightarrow> gotime \<Rightarrow> store \<Rightarrow> unit outcome" where
  "Confirm io entry tk dupFP t s =
     (if entry = [] then (Inl EmptyEntry, s)
      else if \<not> enabled s then (Inr (), s)
      else (let e = zero_event\<lparr>ev_event := ''confirm'', ev_entry := entry, ev_triggerKey := tk,
                      ev_dupFingerprint := dupFP, ev_at := t\<rparr>
            in durably io e (applyConfirm e) s))"

record verification =
  vf_entry :: string
  vf_dupFingerprint :: string
  vf_triggerKey :: string
  vf_room :: string
  vf_held :: bool
  vf_at :: gotime

definition Verify :: "append_outcome \<Rightarrow> verification \<Rightarrow> store \<Rightarrow> unit outcome" where
  "Verify io v s =
     (if vf_entry v = [] \<or> vf_room v = [] then (Inl EmptyEntryOrRoom, s)
      else if \<not> enabled s then (Inr (), s)
      else (let e = zero_event\<lparr>ev_event := ''verify'', ev_entry := vf_entry v,
                      ev_dupFingerprint := vf_dupFingerprint v, ev_triggerKey := vf_triggerKey v,
                      ev_room := vf_room v, ev_kind := (if vf_held v then ''held'' else ''failed''),
                      ev_at := vf_at v\<rparr>
            in durably io e (applyVerify e) s))"

definition Link :: "append_outcome \<Rightarrow> string \<Rightarrow> string \<Rightarrow> gotime \<Rightarrow> store \<Rightarrow> unit outcome" where
  "Link io tk curatedURL t s =
     (if tk = [] \<or> curatedURL = [] then (Inl EmptyKeyOrURL, s)
      else if \<not> enabled s then (Inr (), s)
      else (let e = zero_event\<lparr>ev_event := ''link'', ev_triggerKey := tk,
                      ev_curatedURL := curatedURL, ev_at := t\<rparr>
            in durably io e (applyLink e) s))"

text \<open>\<open>Resolve\<close> also returns the episode of the open it closes, when there is one.\<close>

definition Resolve :: "append_outcome \<Rightarrow> string \<Rightarrow> gotime \<Rightarrow> store \<Rightarrow> episode option outcome" where
  "Resolve io fp t s =
     (if \<not> enabled s then (Inr None, s)
      else (case appendLocked io (mk_event ''resolve'' fp t) s of
              (Some err, s1) \<Rightarrow> (Inl err, s1)
            | (None, s1) \<Rightarrow>
                (let L = applyResolve fp t (st_state s1)
                 in case l_open L fp of
                      None \<Rightarrow> (Inr None, s1\<lparr>st_state := L\<rparr>)
                    | Some o' \<Rightarrow>
                        (Inr (Some \<lparr>ep_kind = ev_kind o', ep_entry = ev_entry o', ep_title = ev_title o',
                            ep_resource = ev_resource o', ep_dupFingerprint = ev_dupFingerprint o',
                            ep_openedAt = ev_at o', ep_resolvedAt = t,
                            ep_duration = time_sub t (ev_at o'), ep_resolved = True\<rparr>),
                         s1\<lparr>st_state := L\<lparr>l_open := (l_open L)(fp := None)\<rparr>\<rparr>))))"

section \<open>Reads\<close>

definition recurrence_of :: "ledger \<Rightarrow> string \<Rightarrow> trigger_recurrence" where
  "recurrence_of L tk =
     (let a = trigger_of L tk;
          downs = filter (\<lambda>(k, v). fv_rating v = ''down'' \<and> has_prefix k (tk @ [CHR 0x00])) (l_votes L)
      in \<lparr>tr_count = ta_count a, tr_last = ta_last a, tr_verdict = ta_verdict a,
          tr_curatedURL = ta_curatedURL a,
          tr_feedbackDown = int (length downs),
          tr_feedbackDownLatest = fold (\<lambda>(k, v) m. if fv_at v > m then fv_at v else m) downs 0,
          tr_conclusive = ta_conclusive a,
          tr_silencedUntil = (case l_silences L tk of None \<Rightarrow> 0 | Some x \<Rightarrow> si_until x),
          tr_silencedAt = (case l_silences L tk of None \<Rightarrow> 0 | Some x \<Rightarrow> si_at x)\<rparr>)"

definition Recurrence :: "store \<Rightarrow> string \<Rightarrow> trigger_recurrence" where
  "Recurrence s tk =
     (if \<not> enabled s \<or> tk = [] then zero_recurrence else recurrence_of (st_state s) tk)"

definition Occurrences :: "store \<Rightarrow> string \<Rightarrow> int \<times> gotime \<times> string" where
  "Occurrences s tk = (let r = Recurrence s tk in (tr_count r, tr_last r, tr_curatedURL r))"

record contested_trigger =
  ct_triggerKey :: string
  ct_curatedURL :: string
  ct_downs :: int
  ct_last :: gotime
  ct_confirms :: int

definition count_down :: "string \<times> feedback_vote \<Rightarrow> (string \<times> int) list \<Rightarrow> (string \<times> int) list" where
  "count_down kv downs =
     (if fv_rating (snd kv) \<noteq> ''down'' then downs
      else case cut_byte (CHR 0x00) (fst kv) of (trigger, _, ok) \<Rightarrow>
             if \<not> ok then downs
             else AList.update trigger (mget 0 (map_of downs) trigger + 1) downs)"

definition contested_of :: "ledger \<Rightarrow> contested_trigger list" where
  "contested_of L =
     sort_key ct_triggerKey
       (map (\<lambda>(trigger, n). \<lparr>ct_triggerKey = trigger,
              ct_curatedURL = ta_curatedURL (trigger_of L trigger), ct_downs = n,
              ct_last = ta_last (trigger_of L trigger),
              ct_confirms = mget 0 (l_triggerConfirms L) trigger\<rparr>)
         (filter (\<lambda>(trigger, n). ta_curatedURL (trigger_of L trigger) \<noteq> [])
           (fold count_down (l_votes L) [])))"

definition ContestedTriggers :: "store \<Rightarrow> contested_trigger list" where
  "ContestedTriggers s = (if \<not> enabled s then [] else contested_of (st_state s))"

definition ResolveChannelLive :: "store \<Rightarrow> bool" where
  "ResolveChannelLive s \<longleftrightarrow> l_resolvesSeen (st_state s) > 0"

definition OpenCounts :: "store \<Rightarrow> (string \<rightharpoonup> aggregate)" where
  "OpenCounts s = l_agg (st_state s)"

text \<open>\<open>Verifications\<close>: per dedup fingerprint the newest observation, a failure winning a tie.\<close>

definition newest_verify ::
  "string \<times> verify_state \<Rightarrow> (string \<rightharpoonup> gotime \<times> bool) \<Rightarrow> (string \<rightharpoonup> gotime \<times> bool)" where
  "newest_verify rv m =
     (let v = snd rv
      in if vs_dupFP v = [] then m
         else case m (vs_dupFP v) of
                None \<Rightarrow> m(vs_dupFP v \<mapsto> (vs_at v, vs_held v))
              | Some (t, _) \<Rightarrow>
                  if vs_at v > t \<or> (vs_at v = t \<and> \<not> vs_held v)
                  then m(vs_dupFP v \<mapsto> (vs_at v, vs_held v)) else m)"

definition Verifications :: "store \<Rightarrow> (string \<rightharpoonup> bool)" where
  "Verifications s =
     (if \<not> enabled s then Map.empty
      else map_option snd \<circ> fold newest_verify (l_verifies (st_state s)) Map.empty)"

record measures =
  ms_incidents :: int
  ms_instantRecalls :: int
  ms_recallsResolved :: int
  ms_tokensPerIncident :: int
  ms_partial :: bool

text \<open>
  Whether the window reaches past the retained lines: the first line is a checkpoint, and the
  first later line that carries a time lies after \<open>since\<close>, or there is no later line.
\<close>

definition measures_partial :: "gotime \<Rightarrow> line list \<Rightarrow> bool" where
  "measures_partial since es = (case es of
     [] \<Rightarrow> False
   | e # rest \<Rightarrow>
       if ev_event e \<noteq> ''checkpoint'' then False
       else if rest = [] then True
       else (case filter (\<lambda>x. \<not> is_zero_time (ev_at x)) rest of
               [] \<Rightarrow> False | x # _ \<Rightarrow> ev_at x > since))"

definition measure_step :: "gotime \<Rightarrow> line \<times> episode \<Rightarrow> measures \<times> int \<Rightarrow> measures \<times> int" where
  "measure_step since x acc = (case x of (e, ep) \<Rightarrow> case acc of (m, tokens) \<Rightarrow>
     if ev_triggerKey e = [] \<or> ev_at e < since then (m, tokens)
     else (let m1 = m\<lparr>ms_incidents := ms_incidents m + 1\<rparr>;
               m2 = (if ev_kind e = ''recall'' \<and> ev_entry e \<noteq> []
                     then (let m3 = m1\<lparr>ms_instantRecalls := ms_instantRecalls m1 + 1\<rparr>
                           in if ep_resolved ep
                              then m3\<lparr>ms_recallsResolved := ms_recallsResolved m3 + 1\<rparr> else m3)
                     else m1)
           in (m2, tokens + ev_tokens e)))"

text \<open>Go's integer division rounds towards zero.\<close>

definition go_div :: "int \<Rightarrow> int \<Rightarrow> int" where
  "go_div a b = sgn a * sgn b * (abs a div abs b)"

definition measures_of :: "gotime \<Rightarrow> line list \<Rightarrow> measures" where
  "measures_of since es =
     (let m0 = \<lparr>ms_incidents = 0, ms_instantRecalls = 0, ms_recallsResolved = 0,
                ms_tokensPerIncident = 0, ms_partial = measures_partial since es\<rparr>
      in case fold (measure_step since) (zip (opens_of es) (episodesOf es)) (m0, 0) of (m, tokens) \<Rightarrow>
           if ms_incidents m > 0
           then m\<lparr>ms_tokensPerIncident := go_div tokens (ms_incidents m)\<rparr> else m)"

definition Measures :: "(line option \<Rightarrow> bool) \<Rightarrow> gotime \<Rightarrow> store \<Rightarrow> ledger_error + measures" where
  "Measures fits since s =
     (if \<not> enabled s then Inr \<lparr>ms_incidents = 0, ms_instantRecalls = 0, ms_recallsResolved = 0,
                ms_tokensPerIncident = 0, ms_partial = False\<rparr>
      else case readEvents fits s of (events, _, failed) \<Rightarrow>
             if failed then Inl ReadError else Inr (measures_of since events))"

section \<open>A line folds the same whether it was just written or read back\<close>

lemma counted_open_plain [simp]: "counted_open (plain_line e) = counted_open e"
  by (simp add: counted_open_def resolvable_def)

lemma resolvesSince_plain [simp]: "resolvesSince rs (plain_line e) = resolvesSince rs e"
  by (simp add: resolvesSince_def resolve_cutoff_def)

lemma open_steps_plain [simp]:
  "push_open (plain_line e) = push_open e" "count_recall (plain_line e) = count_recall e"
  by (rule ext, simp add: push_open_def count_recall_def)+

lemma apply_plain [simp]:
  "applyOpen (plain_line e) L = applyOpen e L" "applyTrigger (plain_line e) L = applyTrigger e L"
  "applyFeedback (plain_line e) L = applyFeedback e L" "applySilence (plain_line e) L = applySilence e L"
  "applyConfirm (plain_line e) L = applyConfirm e L" "applyVerify (plain_line e) L = applyVerify e L"
  "applyLink (plain_line e) L = applyLink e L"
  by (simp_all add: applyOpen_def applyTrigger_def applyFeedback_def applySilence_def
      applyConfirm_def applyVerify_def applyLink_def Let_def split: prod.split option.split)

lemma open_fold_line:
  "ev_event e = ''open'' \<Longrightarrow> open_fold e L = fold_line (plain_line e) L"
  by (simp add: open_fold_def fold_line_cases)

end
