(* ===== verification/LedgerRun.thy ===== *)
theory LedgerRun
  imports LedgerStore
begin

text \<open>
  Runs of the ledger. \<open>journal\<close> is the contract of a write-ahead log: a clean step appends
  lines and folds exactly those lines into the state. The ledger's operations meet it when
  every append succeeds or fails before writing, and with the transparency of compaction this
  gives the property that a restart reads from the file: the state a reload computes is the
  live state without its lapsed silences.
\<close>

section \<open>Write-ahead journals\<close>

locale journal =
  fixes step :: "'i \<Rightarrow> 's \<Rightarrow> 's" and clean :: "'i \<Rightarrow> bool" and sound :: "'s \<Rightarrow> bool"
    and log :: "'s \<Rightarrow> 'l list" and state :: "'s \<Rightarrow> 'm" and apply_line :: "'l \<Rightarrow> 'm \<Rightarrow> 'm"
  assumes step_sound: "clean i \<Longrightarrow> sound s \<Longrightarrow> sound (step i s)"
    and step_log: "clean i \<Longrightarrow> sound s \<Longrightarrow>
      \<exists>ls. log (step i s) = log s @ ls \<and> state (step i s) = fold apply_line ls (state s)"
begin

definition run :: "'i list \<Rightarrow> 's \<Rightarrow> 's" where
  "run is s = fold step is s"

lemma run_sound: "list_all clean is \<Longrightarrow> sound s \<Longrightarrow> sound (run is s)"
  by (induction "is" arbitrary: s) (simp_all add: run_def step_sound)

lemma run_log:
  "list_all clean is \<Longrightarrow> sound s \<Longrightarrow>
     \<exists>ls. log (run is s) = log s @ ls \<and> state (run is s) = fold apply_line ls (state s)"
proof (induction "is" arbitrary: s)
  case Nil
  then show ?case by (simp add: run_def)
next
  case (Cons i "is")
  then obtain ls where ls: "log (step i s) = log s @ ls"
      "state (step i s) = fold apply_line ls (state s)"
    using step_log [of i s] by auto
  obtain ls' where "log (run is (step i s)) = log (step i s) @ ls'"
      "state (run is (step i s)) = fold apply_line ls' (state (step i s))"
    using Cons.IH [of "step i s"] Cons.prems by (auto simp: step_sound)
  then show ?case using ls by (intro exI [of _ "ls @ ls'"]) (simp add: run_def)
qed

end

section \<open>The ledger's operations\<close>

datatype ledger_op =
    OpOpen event | OpResolve string gotime | OpFeedback string string string gotime
  | OpSilence string duration string gotime | OpConfirm string string string gotime
  | OpVerify verification | OpLink string string gotime | OpCap duration

fun exec :: "append_outcome \<Rightarrow> ledger_op \<Rightarrow> store \<Rightarrow> unit outcome" where
  "exec io (OpOpen e) s = Open io e s"
| "exec io (OpResolve fp t) s = (case Resolve io fp t s of
     (Inl err, s1) \<Rightarrow> (Inl err, s1) | (Inr _, s1) \<Rightarrow> (Inr (), s1))"
| "exec io (OpFeedback tk r u t) s = Feedback io tk r u t s"
| "exec io (OpSilence tk w u t) s = Silence io tk w u t s"
| "exec io (OpConfirm x tk d t) s = Confirm io x tk d t s"
| "exec io (OpVerify v) s = Verify io v s"
| "exec io (OpLink tk url t) s = Link io tk url t s"
| "exec io (OpCap d) s = (Inr (), SetMaxSilenceWindow d s)"

definition ledger_step :: "append_outcome \<times> ledger_op \<Rightarrow> store \<Rightarrow> store" where
  "ledger_step i s = snd (exec (fst i) (snd i) s)"

definition clean_io :: "append_outcome \<times> ledger_op \<Rightarrow> bool" where
  "clean_io i \<longleftrightarrow> fst i = AppendOk \<or> fst i = OpenFails"

definition store_log :: "store \<Rightarrow> line list" where
  "store_log s = good_lines (file_lines s)"

text \<open>What a durable write does, by outcome.\<close>

lemma durably_cases:
  "durably AppendOk e f s = (let s1 = file_append (Some (plain_line e)) s
     in (Inr (), s1\<lparr>st_state := f (st_state s)\<rparr>))"
  "durably OpenFails e f s = (Inl AppendError, s)"
  "durably ShortWrite e f s = (Inl AppendError, (file_append None s)\<lparr>st_torn := True\<rparr>)"
  "durably SyncFails e f s = (Inl AppendError, file_append (Some (plain_line e)) s)"
  by (simp_all add: durably_def appendLocked_def Let_def file_append_def)

text \<open>
  Every operation refuses or is a no-op and leaves file and state alone, or is a durable write
  of one line whose in-memory effect is the fold of that line.
\<close>

definition idle_result :: "store \<Rightarrow> unit outcome \<Rightarrow> bool" where
  "idle_result s r \<longleftrightarrow> st_file (snd r) = st_file s \<and> st_torn (snd r) = st_torn s
     \<and> st_state (snd r) = st_state s \<and> (\<forall>err. fst r = Inl err \<longrightarrow> snd r = s)"

definition written_result :: "append_outcome \<Rightarrow> store \<Rightarrow> unit outcome \<Rightarrow> bool" where
  "written_result io s r \<longleftrightarrow> enabled s \<and> (\<exists>e. r = durably io e (fold_line (plain_line e)) s)"

lemma idle_resultI [intro]:
  "idle_result s (x, s)"
  by (simp add: idle_result_def)

lemma written_resultI:
  "enabled s \<Longrightarrow> f = fold_line (plain_line e) \<Longrightarrow> written_result io s (durably io e f s)"
  by (auto simp: written_result_def)

text \<open>The fold of a written line is the fold the operation applies.\<close>

lemma fold_plain:
  "ev_event e = ''open'' \<Longrightarrow> open_fold e = fold_line (plain_line e)"
  "ev_event e = ''feedback'' \<Longrightarrow> applyFeedback e = fold_line (plain_line e)"
  "ev_event e = ''silence'' \<Longrightarrow> applySilence e = fold_line (plain_line e)"
  "ev_event e = ''confirm'' \<Longrightarrow> applyConfirm e = fold_line (plain_line e)"
  "ev_event e = ''verify'' \<Longrightarrow> applyVerify e = fold_line (plain_line e)"
  "ev_event e = ''link'' \<Longrightarrow> applyLink e = fold_line (plain_line e)"
  by (rule ext, simp add: open_fold_line fold_line_cases)+

lemma resolve_written:
  assumes "enabled s"
  shows "exec io (OpResolve fp t) s = durably io (mk_event ''resolve'' fp t)
    (fold_line (plain_line (mk_event ''resolve'' fp t))) s"
proof -
  have "l_open (applyResolve fp t L) fp = None \<Longrightarrow>
      (applyResolve fp t L)\<lparr>l_open := (l_open L)(fp := None)\<rparr> = applyResolve fp t L" for L
    by (simp add: fun_upd_idem)
  then show ?thesis using assms
    by (cases io) (auto simp: Resolve_def appendLocked_def durably_def fold_line_cases mk_event_def
        zero_event_def file_append_def Let_def split: option.split)
qed

lemma exec_result: "idle_result s (exec io op s) \<or> written_result io s (exec io op s)"
proof (cases op)
  case (OpResolve fp t)
  then show ?thesis
    by (cases "enabled s")
      (auto simp: resolve_written Resolve_def simp del: exec.simps(2) intro: written_resultI,
        auto simp: Resolve_def)
next
  case (OpCap d)
  then show ?thesis by (simp add: idle_result_def SetMaxSilenceWindow_def)
qed (auto simp: Open_def Feedback_def Silence_def Confirm_def Verify_def Link_def Let_def
    zero_event_def intro!: written_resultI fold_plain)

lemma durably_clean:
  assumes "io = AppendOk \<or> io = OpenFails" and "\<not> st_torn s"
  shows "\<not> st_torn (snd (durably io e (fold_line (plain_line e)) s))
    \<and> (\<exists>ls. store_log (snd (durably io e (fold_line (plain_line e)) s)) = store_log s @ ls
        \<and> st_state (snd (durably io e (fold_line (plain_line e)) s)) = fold fold_line ls (st_state s))"
  using assms
  by (auto simp: durably_cases Let_def file_append_def store_log_def file_lines_def
      intro: exI [of _ "[]"] exI [of _ "[plain_line e]"])

text \<open>The ledger is a write-ahead journal.\<close>

interpretation ledger_journal: journal ledger_step clean_io "\<lambda>s :: store. \<not> st_torn s" store_log st_state fold_line
proof unfold_locales
  fix i :: "append_outcome \<times> ledger_op" and s :: store
  assume i: "clean_io i" and s: "\<not> st_torn s"
  have io: "fst i = AppendOk \<or> fst i = OpenFails" using i by (simp add: clean_io_def)
  from exec_result [of s "fst i" "snd i"]
  have "\<not> st_torn (ledger_step i s) \<and> (\<exists>ls. store_log (ledger_step i s) = store_log s @ ls
      \<and> st_state (ledger_step i s) = fold fold_line ls (st_state s))"
  proof
    assume "idle_result s (exec (fst i) (snd i) s)"
    then show ?thesis using s
      by (auto simp: idle_result_def ledger_step_def store_log_def file_lines_def intro!: exI [of _ "[]"])
  next
    assume "written_result (fst i) s (exec (fst i) (snd i) s)"
    then show ?thesis using durably_clean [OF io s]
      by (auto simp: written_result_def ledger_step_def)
  qed
  then show "\<not> st_torn (ledger_step i s)"
    and "\<exists>ls. store_log (ledger_step i s) = store_log s @ ls
      \<and> st_state (ledger_step i s) = fold fold_line ls (st_state s)" by auto
qed

definition run_ledger :: "(append_outcome \<times> ledger_op) list \<Rightarrow> store \<Rightarrow> store" where
  "run_ledger ops s = fold ledger_step ops s"

lemma run_ledger_journal: "run_ledger = ledger_journal.run"
  by (rule ext)+ (simp add: run_ledger_def ledger_journal.run_def)

lemma ledger_step_frame [simp]:
  "st_path (ledger_step i s) = st_path s" "st_maxEvents (ledger_step i s) = st_maxEvents s"
proof -
  have "st_path (snd (durably io e f s)) = st_path s \<and> st_maxEvents (snd (durably io e f s)) = st_maxEvents s"
    for io e f by (cases io) (simp_all add: durably_cases Let_def file_append_def)
  moreover have "idle_result s r \<Longrightarrow> st_path (snd r) = st_path s \<and> st_maxEvents (snd r) = st_maxEvents s
     \<or> r = (Inr (), snd r)" for r
    by (cases r; cases "fst r") (auto simp: idle_result_def)
  ultimately show "st_path (ledger_step i s) = st_path s" "st_maxEvents (ledger_step i s) = st_maxEvents s"
    unfolding ledger_step_def
    by (cases "snd i"; auto simp: Open_def Feedback_def Silence_def Confirm_def Verify_def Link_def
        Let_def SetMaxSilenceWindow_def resolve_written Resolve_def appendLocked_def file_append_def
        split: append_outcome.split option.split prod.split)+
qed

lemma run_ledger_enabled [simp]: "enabled (run_ledger ops s) = enabled s"
  by (induction ops arbitrary: s) (simp_all add: run_ledger_def enabled_def)

section \<open>Loads\<close>

lemma takeWhile_all: "list_all P xs \<Longrightarrow> takeWhile P xs = xs"
  by (simp add: takeWhile_eq_all_conv list_all_iff)

lemma readEvents_ok:
  assumes "enabled s" and "readEvents fits s = (events, corrupt, False)"
  shows "events = store_log s"
  using assms
  by (auto simp: readEvents_def store_log_def file_lines_def Let_def takeWhile_all split: option.splits)

lemma loadLocked_ok:
  assumes "enabled s" and "loadLocked fits rw now now_c s = (Inr (), s1)"
  shows "st_state s1 = pruneLapsedSilences now (replay (store_log s) reset_state)"
    and "store_log s1 = store_log s \<or> store_log s1 = compact_lines now_c (st_maxEvents s) (store_log s)"
    and "st_torn s1 \<Longrightarrow> st_torn s" and "enabled s1"
proof -
  obtain events corrupt failed where r: "readEvents fits s = (events, corrupt, failed)"
    by (cases "readEvents fits s")
  then have nf: "\<not> failed" using assms(2) by (auto simp: loadLocked_def)
  then have ev: "events = store_log s" using readEvents_ok [OF assms(1)] r by simp
  show "st_state s1 = pruneLapsedSilences now (replay (store_log s) reset_state)"
    and "store_log s1 = store_log s \<or> store_log s1 = compact_lines now_c (st_maxEvents s) (store_log s)"
    and "st_torn s1 \<Longrightarrow> st_torn s" and "enabled s1"
    using assms r nf ev
    by (auto simp: loadLocked_def Let_def store_log_def file_lines_def enabled_def split: if_splits)
qed

lemma lapsed_eq_compact_tail:
  "lapsed_eq now_c (replay (es @ ls) reset_state) (replay (compact_lines now_c n es @ ls) reset_state)"
  by (simp add: lapsed_eq_replay lapsed_eq_compact)

section \<open>Properties\<close>

text \<open>
  C11: A restart is transparent while writes are clean. The ledger is enabled and its file not torn;
  after a load, a run of ledger operations each of whose appends succeeds or fails before it writes
  anything, and a later reload (compaction of the file at either load included), the reloaded state
  is the live state without the silences that have lapsed by then: nothing acknowledged is lost and
  nothing is counted twice. The clock readings of the first load and its compaction are not after
  that of the reload. Short writes and failed syncs are outside: what they lose is stated below.
\<close>

theorem restart_transparent:
  assumes "enabled s0" and "\<not> st_torn s0"
    and "loadLocked fits rw now now_c s0 = (Inr (), s1)"
    and "list_all clean_io ops"
    and "loadLocked fits rw' now' now_c' (run_ledger ops s1) = (Inr (), s2)"
    and "now \<le> now'" and "now_c \<le> now'"
  shows "st_state s2 = pruneLapsedSilences now' (st_state (run_ledger ops s1))"
proof -
  let ?es = "store_log s0"
  note s1 = loadLocked_ok [OF assms(1,3)]
  have torn: "\<not> st_torn s1" using s1(3) assms(2) by blast
  obtain ls where ls: "store_log (run_ledger ops s1) = store_log s1 @ ls"
      "st_state (run_ledger ops s1) = replay ls (st_state s1)"
    using ledger_journal.run_log [OF assms(4) torn] by (auto simp: run_ledger_journal replay_def)
  have "enabled (run_ledger ops s1)" using s1(4) by simp
  from loadLocked_ok(1) [OF this assms(5)]
  have s2: "st_state s2 = pruneLapsedSilences now' (replay (store_log s1 @ ls) reset_state)"
    by (simp only: ls)
  have "lapsed_eq now (replay (?es @ ls) reset_state) (st_state (run_ledger ops s1))"
    by (simp add: ls s1(1) lapsed_eq_replay lapsed_eq_prune)
  then have live: "pruneLapsedSilences now' (st_state (run_ledger ops s1))
      = pruneLapsedSilences now' (replay (?es @ ls) reset_state)"
    by (rule prune_lapsed_eq [OF _ assms(6)])
  have "pruneLapsedSilences now' (replay (store_log s1 @ ls) reset_state)
      = pruneLapsedSilences now' (replay (?es @ ls) reset_state)"
    using s1(2) prune_lapsed_eq [OF lapsed_eq_compact_tail assms(7)] by auto
  then show ?thesis by (simp only: s2 live)
qed

definition demo_recall :: "string \<Rightarrow> string \<Rightarrow> gotime \<Rightarrow> event" where
  "demo_recall fp entry t = zero_event\<lparr>ev_event := ''open'', ev_fingerprint := fp, ev_kind := ''recall'',
     ev_entry := entry, ev_at := t, ev_startedAt := t, ev_triggerKey := ''tk'', ev_verdict := ''no_action''\<rparr>"

definition demo_store :: store where
  "demo_store = \<lparr>st_path = ''ledger.jsonl'', st_file = Some (map (Some \<circ> plain_line)
       [demo_recall ''fp'' ''e.md'' 10, mk_event ''resolve'' ''fp'' 20, demo_recall ''fp'' ''e.md'' 30]),
     st_torn = False, st_state = reset_state, st_maxSilenceWindow = 0, st_maxEvents = 2,
     st_corruptLines = 0\<rparr>"

lemma demo_loads:
  "enabled demo_store" "\<not> st_torn demo_store"
  "fst (loadLocked (\<lambda>_. True) True 40 41 demo_store) = Inr ()"
  by (simp_all add: demo_store_def enabled_def loadLocked_def readEvents_def Let_def)

lemma loads_always: "fst (loadLocked (\<lambda>_. True) rw now now_c s) = Inr ()"
  by (cases "st_file s") (simp_all add: loadLocked_def readEvents_def Let_def list_all_iff)

lemma restart_transparent_witness:
  "st_state (snd (loadLocked (\<lambda>_. True) True 60 61 (run_ledger [(AppendOk, OpResolve ''fp'' 50)]
       (snd (loadLocked (\<lambda>_. True) True 40 41 demo_store)))))
   = pruneLapsedSilences 60 (st_state (run_ledger [(AppendOk, OpResolve ''fp'' 50)]
       (snd (loadLocked (\<lambda>_. True) True 40 41 demo_store))))"
  by (rule restart_transparent [of demo_store "\<lambda>_. True" True 40 41 _ _ True 60 61])
    (simp_all add: demo_loads loads_always prod_eq_iff clean_io_def)

text \<open>
  Durable first: an operation that returns an error leaves the in-memory state as it
  was, whatever the error; and one that is refused, or whose append failed before writing,
  leaves the file as it was too.
\<close>

theorem failed_write_keeps_state:
  assumes "exec io op s = (Inl err, s1)"
  shows "st_state s1 = st_state s \<and> (err \<noteq> AppendError \<or> io = OpenFails \<longrightarrow> s1 = s)"
  using exec_result [of s io op] assms
  by (cases io) (auto simp: idle_result_def written_result_def durably_cases Let_def file_append_def)

lemma failed_write_keeps_state_witness:
  "st_state (snd (exec SyncFails (OpLink ''tk'' ''url'' 5) demo_store)) = st_state demo_store"
  using failed_write_keeps_state [of SyncFails "OpLink ''tk'' ''url'' 5" demo_store AppendError
      "snd (exec SyncFails (OpLink ''tk'' ''url'' 5) demo_store)"]
  by (simp add: Link_def Let_def durably_cases demo_loads)

lemma loadLocked_compacts:
  assumes "enabled s0" and "loadLocked fits True now now_c s0 = (Inr (), s1)"
    and "st_maxEvents s0 > 0" and "int (length (store_log s0)) > st_maxEvents s0"
  shows "st_file s1 = Some (map Some (compact_lines now_c (st_maxEvents s0) (store_log s0)))"
    and "\<not> st_torn s1"
proof -
  obtain events corrupt failed where r: "readEvents fits s0 = (events, corrupt, failed)"
    by (cases "readEvents fits s0")
  then have nf: "\<not> failed" using assms(2) by (auto simp: loadLocked_def)
  then have ev: "events = store_log s0" using readEvents_ok [OF assms(1)] r by simp
  show "st_file s1 = Some (map Some (compact_lines now_c (st_maxEvents s0) (store_log s0)))" "\<not> st_torn s1"
    using assms r nf ev by (auto simp: loadLocked_def Let_def)
qed

lemma length_compact:
  "n > 0 \<Longrightarrow> int (length es) > n \<Longrightarrow> int (length (compact_lines now n es)) = n"
  by (simp add: compact_lines_def Let_def)

lemma compact_head:
  "n > 0 \<Longrightarrow> int (length es) > n \<Longrightarrow> \<exists>rest. compact_lines now n es =
     checkpoint_line now (pruneLapsedSilences now
       (replay (take (nat (int (length es) - (n - 1))) es) reset_state)) # rest"
  by (simp add: compact_lines_def Let_def)

text \<open>
  With compaction on, a load leaves a file of at most \<open>maxEvents\<close> parsed lines, and
  a second load of it does not compact again.
\<close>

theorem compaction_bounds_file:
  assumes "enabled s0" and "st_maxEvents s0 > 0"
    and "loadLocked fits True now now_c s0 = (Inr (), s1)"
  shows "int (length (store_log s1)) \<le> st_maxEvents s0
    \<and> (loadLocked fits True now' now_c' s1 = (Inr (), s2) \<longrightarrow> st_file s2 = st_file s1)"
proof -
  have "st_maxEvents s1 = st_maxEvents s0"
    using assms(3) by (auto simp: loadLocked_def Let_def split: prod.splits if_splits)
  then have pe: "st_maxEvents s1 = st_maxEvents s0 \<and> enabled s1"
    using loadLocked_ok(4) [OF assms(1,3)] by simp
  have len: "int (length (store_log s1)) \<le> st_maxEvents s0"
  proof (cases "int (length (store_log s0)) > st_maxEvents s0")
    case True
    from loadLocked_compacts(1) [OF assms(1,3,2) this] length_compact [OF assms(2) True]
    show ?thesis by (simp add: store_log_def file_lines_def)
  next
    case False
    moreover have "store_log s1 = store_log s0 \<or> int (length (store_log s0)) > st_maxEvents s0"
      using assms(3) readEvents_ok [OF assms(1), of fits]
      by (auto simp: loadLocked_def Let_def store_log_def file_lines_def split: prod.splits if_splits)
    ultimately show ?thesis by simp
  qed
  moreover have "st_file s2 = st_file s1" if l2: "loadLocked fits True now' now_c' s1 = (Inr (), s2)"
  proof -
    obtain events corrupt failed where r: "readEvents fits s1 = (events, corrupt, failed)"
      by (cases "readEvents fits s1")
    then have nf: "\<not> failed" using l2 by (auto simp: loadLocked_def)
    then have "events = store_log s1" using readEvents_ok pe r by simp
    then show ?thesis using l2 r nf len pe by (auto simp: loadLocked_def Let_def split: if_splits)
  qed
  ultimately show ?thesis by blast
qed

lemma compaction_bounds_file_witness:
  "int (length (store_log (snd (loadLocked (\<lambda>_. True) True 40 41 demo_store)))) \<le> 2"
  using compaction_bounds_file [of demo_store "\<lambda>_. True" 40 41
      "snd (loadLocked (\<lambda>_. True) True 40 41 demo_store)" 50 51]
  by (simp add: demo_loads loads_always prod_eq_iff demo_store_def enabled_def)

text \<open>
  The checkpoint line is written without a check against the one-megabyte line limit
  that the reader has. When the checkpoint exceeds it, the load that compacted succeeds, and
  every later load of that file fails, whatever is appended in between: the process can no
  longer start on this ledger.
\<close>

theorem oversize_checkpoint_blocks_loads:
  assumes "enabled s0" and "st_maxEvents s0 > 0" and "int (length (store_log s0)) > st_maxEvents s0"
    and "loadLocked fits True now now_c s0 = (Inr (), s1)"
    and "\<not> fits (Some (checkpoint_line now_c (pruneLapsedSilences now_c
       (replay (take (nat (int (length (store_log s0)) - (st_maxEvents s0 - 1))) (store_log s0)) reset_state))))"
    and "list_all clean_io ops"
  shows "fst (loadLocked fits rw now' now_c' (run_ledger ops s1)) = Inl ReadError"
proof -
  let ?cp = "checkpoint_line now_c (pruneLapsedSilences now_c
       (replay (take (nat (int (length (store_log s0)) - (st_maxEvents s0 - 1))) (store_log s0)) reset_state))"
  let ?s = "run_ledger ops s1"
  note c = loadLocked_compacts [OF assms(1,4,2,3)]
  obtain rest where "store_log s1 = ?cp # rest"
    using compact_head [OF assms(2,3)] c(1) by (fastforce simp: store_log_def file_lines_def)
  moreover obtain ls where "store_log ?s = store_log s1 @ ls"
    using ledger_journal.run_log [OF assms(6)] c(2) by (auto simp: run_ledger_journal)
  ultimately have "?cp \<in> set (good_lines (file_lines ?s))" by (simp add: store_log_def)
  then have cp: "Some ?cp \<in> set (file_lines ?s)" by (auto simp: good_lines_def)
  then obtain xs where "st_file ?s = Some xs" "Some ?cp \<in> set xs"
    by (cases "st_file ?s") (auto simp: file_lines_def)
  moreover have "enabled ?s" using loadLocked_ok(4) [OF assms(1,4)] by simp
  ultimately show ?thesis using assms(5)
    by (auto simp: loadLocked_def readEvents_def Let_def list_all_iff)
qed

definition demo_fits :: "line option \<Rightarrow> bool" where
  "demo_fits x = (case x of None \<Rightarrow> True | Some e \<Rightarrow> ln_checkpoint e = None)"

lemma oversize_checkpoint_blocks_loads_witness:
  "fst (loadLocked demo_fits True 60 61 (run_ledger [(AppendOk, OpResolve ''fp'' 50)]
     (snd (loadLocked demo_fits True 40 41 demo_store)))) = Inl ReadError"
proof (rule oversize_checkpoint_blocks_loads [of demo_store demo_fits 40 41])
  show "loadLocked demo_fits True 40 41 demo_store = (Inr (), snd (loadLocked demo_fits True 40 41 demo_store))"
    by (simp add: prod_eq_iff demo_store_def loadLocked_def readEvents_def Let_def enabled_def demo_fits_def)
qed (simp_all add: demo_store_def enabled_def store_log_def file_lines_def demo_fits_def
    checkpoint_line_def event.defs clean_io_def)

text \<open>
  A short write leaves a line without its newline. The next append then succeeds and is
  acknowledged, and the in-memory state has it, but it is glued to the torn line and never parses:
  the file holds no more events than before both writes.
\<close>

theorem append_after_short_write_is_lost:
  assumes "enabled s" and "\<not> st_torn s"
  shows "let s1 = snd (Open ShortWrite e1 s); r = Open AppendOk e2 s1
    in fst r = Inr () \<and> store_log (snd r) = store_log s
       \<and> st_state (snd r) = fold_line (plain_line (e2\<lparr>ev_event := ''open''\<rparr>)) (st_state s)"
  using assms
  by (simp add: Let_def Open_def durably_cases file_append_def store_log_def file_lines_def
      enabled_def open_fold_line)

lemma append_after_short_write_is_lost_witness:
  "store_log (snd (Open AppendOk (demo_recall ''b'' ''e.md'' 6)
     (snd (Open ShortWrite (demo_recall ''a'' ''e.md'' 5) demo_store)))) = store_log demo_store"
  using append_after_short_write_is_lost [OF demo_loads(1,2), of "demo_recall ''a'' ''e.md'' 5"
      "demo_recall ''b'' ''e.md'' 6"]
  by (simp add: Let_def)

end
