(* ===== verification/LedgerTrust.thy ===== *)
theory LedgerTrust
  imports LedgerRun
begin

text \<open>
  What the aggregates of \<open>internal/outcome/ledger.go\<close> mean for trust. Recalls split into
  resolved and pending ones, the counters are those of the live votes and verifications, so the
  decay factor (\<open>Aggregate.Factor\<close>) lies strictly between zero and one, and the recovery rule
  is exact: the factor reaches one half when two confirmations stand against every failure
  beyond the successes.
\<close>

section \<open>Recalls are resolved or pending\<close>

definition pending_weight :: "string \<Rightarrow> pending_open list \<Rightarrow> int" where
  "pending_weight x st = int (length (filter (\<lambda>p. po_counted p \<and> po_entry p = x) st))"

lemma pending_weight_simps [simp]:
  "pending_weight x [] = 0"
  "pending_weight x (st @ [p]) = pending_weight x st + (if po_counted p \<and> po_entry p = x then 1 else 0)"
  by (simp_all add: pending_weight_def)

lemma pending_weight_nonneg: "0 \<le> pending_weight x st"
  by (simp add: pending_weight_def)

lemma pending_weight_butlast:
  "st \<noteq> [] \<Longrightarrow> pending_weight x (butlast st)
     = pending_weight x st - (if po_counted (last st) \<and> po_entry (last st) = x then 1 else 0)"
  by (induction st rule: rev_induct) auto

definition pending_total :: "ledger \<Rightarrow> string \<Rightarrow> int" where
  "pending_total L x = (\<Sum>fp \<in> dom (l_pendingOpens L). pending_weight x (mget [] (l_pendingOpens L) fp))"

lemma sum_mget_upd:
  fixes w :: "'v list \<Rightarrow> int"
  assumes "finite (dom m)" and "w [] = 0"
  shows "(\<Sum>k \<in> dom (m(a \<mapsto> v)). w (mget [] (m(a \<mapsto> v)) k))
    = (\<Sum>k \<in> dom m. w (mget [] m k)) - w (mget [] m a) + w v"
proof -
  have rest: "(\<Sum>k \<in> dom m - {a}. w (mget [] (m(a \<mapsto> v)) k)) = (\<Sum>k \<in> dom m - {a}. w (mget [] m k))"
    by (rule sum.cong) auto
  have "(\<Sum>k \<in> dom (m(a \<mapsto> v)). w (mget [] (m(a \<mapsto> v)) k))
      = w v + (\<Sum>k \<in> dom m - {a}. w (mget [] m k))"
    using assms(1) rest by (simp add: sum.insert_remove)
  moreover have "(\<Sum>k \<in> dom m. w (mget [] m k)) = w (mget [] m a) + (\<Sum>k \<in> dom m - {a}. w (mget [] m k))"
  proof (cases "a \<in> dom m")
    case True
    then show ?thesis using assms(1) by (simp add: sum.remove)
  next
    case False
    then have "m a = None" by auto
    then have "mget [] m a = []" by (simp add: mget_def)
    then show ?thesis using False assms(2) by simp
  qed
  ultimately show ?thesis by simp
qed

definition recalls_split :: "ledger \<Rightarrow> bool" where
  "recalls_split L \<longleftrightarrow> finite (dom (l_pendingOpens L))
     \<and> (\<forall>x. ag_recalls (agg_of L x) = ag_resolved (agg_of L x) + pending_total L x
            \<and> 0 \<le> ag_resolved (agg_of L x))"

lemma pending_total_nonneg: "0 \<le> pending_total L x"
  by (simp add: pending_total_def sum_nonneg pending_weight_nonneg)

lemma recalls_split_resolved_le: "recalls_split L \<Longrightarrow> ag_resolved (agg_of L x) \<le> ag_recalls (agg_of L x)"
  using pending_total_nonneg [of L x] by (simp add: recalls_split_def)

lemma pending_total_cong: "l_pendingOpens L' = l_pendingOpens L \<Longrightarrow> pending_total L' = pending_total L"
  by (rule ext) (simp add: pending_total_def)

lemma pending_total_push:
  "finite (dom (l_pendingOpens L)) \<Longrightarrow> pending_total (push_open e L) x
     = pending_total L x + (if counted_open e \<and> ev_entry e = x then 1 else 0)"
  using sum_mget_upd [of "l_pendingOpens L" "pending_weight x" "ev_fingerprint e"
      "mget [] (l_pendingOpens L) (ev_fingerprint e)
        @ [\<lparr>po_entry = ev_entry e, po_counted = counted_open e\<rparr>]"]
  by (simp add: pending_total_def push_open_def)

lemma finite_push_open [simp]:
  "finite (dom (l_pendingOpens (push_open e L))) = finite (dom (l_pendingOpens L))"
  by (simp add: push_open_def)

lemma push_after_count:
  assumes "recalls_split L" and "l_pendingOpens K = l_pendingOpens L" and "l_agg K = l_agg (count_recall e L)"
  shows "recalls_split (push_open e K)"
proof -
  have agg: "agg_of K = agg_of (count_recall e L)" using assms(3) by simp
  have fin: "finite (dom (l_pendingOpens K))" using assms by (simp add: recalls_split_def)
  have "pending_total K = pending_total L" using assms(2) by (rule pending_total_cong)
  then show ?thesis using assms(1) fin
    by (auto simp: recalls_split_def agg pending_total_push count_recall_def)
qed

lemma resolved_creditResolve:
  "ag_resolved (agg_of (creditResolve y t L) x) = ag_resolved (agg_of L x) + (if x = y then 1 else 0)"
  by (simp add: creditResolve_def)

lemma recalls_count_recall:
  "ag_recalls (agg_of (count_recall e L) x)
     = ag_recalls (agg_of L x) + (if counted_open e \<and> ev_entry e = x then 1 else 0)"
  by (simp add: count_recall_def)

lemma pair_after_count:
  assumes "recalls_split L" and "l_pendingOpens K = l_pendingOpens L" and "l_agg K = l_agg (count_recall e L)"
  shows "recalls_split (if counted_open e then creditResolve (ev_entry e) t K else K)"
proof -
  have agg: "agg_of K = agg_of (count_recall e L)" by (simp add: assms(3))
  have "pending_total (creditResolve (ev_entry e) t K) = pending_total L" "pending_total K = pending_total L"
    by (rule pending_total_cong, simp add: assms(2))+
  then show ?thesis using assms(1,2)
    by (auto simp: recalls_split_def agg resolved_creditResolve recalls_count_recall)
qed

text \<open>An open joins the stack, or is paired at once with a buffered resolve.\<close>

lemma applyOpen_shape:
  obtains (push) K where "applyOpen e L = push_open e K" "l_pendingOpens K = l_pendingOpens L"
      "l_agg K = l_agg (count_recall e L)"
  | (pair) K t where "applyOpen e L = (if counted_open e then creditResolve (ev_entry e) t K else K)"
      "l_pendingOpens K = l_pendingOpens L" "l_agg K = l_agg (count_recall e L)"
proof -
  let ?rs = "mget [] (l_pendingResolves L) (ev_fingerprint e)"
  obtain kept stale where r: "resolvesSince ?rs e = (kept, stale)" by (cases "resolvesSince ?rs e")
  let ?N = "note_stale stale (count_recall e L)"
  consider "?rs = []" | "?rs \<noteq> []" "kept = []" | "?rs \<noteq> []" "kept \<noteq> []" by blast
  then show ?thesis
  proof cases
    case 1
    then show ?thesis by (intro push [of "count_recall e L"]) (simp_all add: applyOpen_def)
  next
    case 2
    then show ?thesis
      by (intro push [of "?N\<lparr>l_pendingResolves := (l_pendingResolves ?N)(ev_fingerprint e := None)\<rparr>"])
        (simp_all add: applyOpen_def Let_def r)
  next
    case 3
    then show ?thesis
      by (intro pair [of "hd kept" "?N\<lparr>l_pendingResolves := (l_pendingResolves ?N)(ev_fingerprint e \<mapsto> tl kept)\<rparr>"])
        (simp_all add: applyOpen_def Let_def r)
  qed
qed

lemma applyOpen_split: "recalls_split L \<Longrightarrow> recalls_split (applyOpen e L)"
  by (cases rule: applyOpen_shape [of e L]) (simp_all only: push_after_count pair_after_count)

lemma pair_resolve_split: "recalls_split L \<Longrightarrow> recalls_split (pair_resolve fp t L)"
proof -
  assume a: "recalls_split L"
  let ?st = "mget [] (l_pendingOpens L) fp"
  let ?K = "L\<lparr>l_pendingOpens := (l_pendingOpens L)(fp \<mapsto> butlast ?st)\<rparr>"
  have fin: "finite (dom (l_pendingOpens L))" using a by (simp add: recalls_split_def)
  have b: "recalls_split (buffer_resolve fp t L)"
    using a pending_total_cong [of "buffer_resolve fp t L" L] by (simp add: recalls_split_def)
  have p: "pending_total ?K x = pending_total L x
      - (if po_counted (last ?st) \<and> po_entry (last ?st) = x then 1 else 0)" if "?st \<noteq> []" for x
    unfolding pending_total_def using sum_mget_upd [OF fin, of "pending_weight x" fp "butlast ?st"]
    by (simp add: pending_weight_butlast [OF that])
  have c: "pending_total (creditResolve y t ?K) = pending_total ?K" for y
    by (rule pending_total_cong) simp
  show ?thesis
  proof (cases "?st = []")
    case True
    then show ?thesis using b by (simp add: pair_resolve_def)
  next
    case False
    then show ?thesis using a fin
      by (auto simp: pair_resolve_def Let_def recalls_split_def p [OF False] c resolved_creditResolve)
  qed
qed

lemma recalls_split_frame:
  assumes "recalls_split L" and "l_pendingOpens K = l_pendingOpens L"
    and "\<And>x. ag_recalls (agg_of K x) = ag_recalls (agg_of L x)"
    and "\<And>x. ag_resolved (agg_of K x) = ag_resolved (agg_of L x)"
  shows "recalls_split K"
  using assms pending_total_cong [OF assms(2)] by (simp add: recalls_split_def)

lemma fold_line_split:
  assumes "recalls_split L" and "ev_event e \<noteq> ''checkpoint''"
  shows "recalls_split (fold_line e L)"
proof (cases e rule: fold_line_kinds)
  case opened
  have "recalls_split (L\<lparr>l_open := (l_open L)(ev_fingerprint e \<mapsto> event.truncate e)\<rparr>)"
    by (rule recalls_split_frame [OF assms(1)]) simp_all
  from applyOpen_split [OF this] show ?thesis unfolding fold_line_cases(1) [OF opened]
    by (rule recalls_split_frame) simp_all
next
  case resolve
  let ?K = "clearSilencesForFingerprint (ev_fingerprint e) (clearSilenceOfOpen (ev_fingerprint e) L)"
  have "recalls_split (?K\<lparr>l_resolvesSeen := l_resolvesSeen ?K + 1\<rparr>)"
    by (rule recalls_split_frame [OF assms(1)]) simp_all
  from pair_resolve_split [OF this]
  have r: "recalls_split (applyResolve (ev_fingerprint e) (ev_at e) L)"
    by (simp add: applyResolve_def Let_def)
  show ?thesis unfolding fold_line_cases(2) [OF resolve]
    by (rule recalls_split_frame [OF r]) simp_all
next
  case checkpoint
  then show ?thesis using assms(2) by simp
next
  case unknown
  then show ?thesis using assms(1) by (simp add: fold_line_unknown)
qed (rule recalls_split_frame [OF assms(1)]; simp add: fold_line_cases)+

lemma replay_split: "no_checkpoint es \<Longrightarrow> recalls_split (replay es reset_state)"
  by (rule replay_invariant)
    (auto simp: no_checkpoint_def recalls_split_def [of reset_state] pending_total_def intro: fold_line_split)

section \<open>Confirmations count up\<close>

lemma fold_line_confirms:
  assumes "ev_event e \<noteq> ''checkpoint''"
  shows "ag_confirms (agg_of L x) \<le> ag_confirms (agg_of (fold_line e L) x)"
  using assms
  by (cases e rule: fold_line_kinds) (simp_all add: fold_line_cases fold_line_unknown applyConfirm_def Let_def)

lemma replay_confirms: "no_checkpoint es \<Longrightarrow> 0 \<le> ag_confirms (agg_of (replay es reset_state) x)"
  by (rule replay_invariant [where P = "\<lambda>L. 0 \<le> ag_confirms (agg_of L x)"])
    (auto simp: no_checkpoint_def intro: order_trans fold_line_confirms)

section \<open>Sound counters\<close>

definition counts_ok :: "aggregate \<Rightarrow> bool" where
  "counts_ok a \<longleftrightarrow> 0 \<le> ag_resolved a \<and> ag_resolved a \<le> ag_recalls a \<and> 0 \<le> ag_feedbackUp a
     \<and> 0 \<le> ag_feedbackDown a \<and> 0 \<le> ag_confirms a \<and> 0 \<le> ag_verified a \<and> 0 \<le> ag_failed a"

lemma replay_tallies_nonneg:
  assumes "no_checkpoint es"
  shows "0 \<le> ag_feedbackUp (agg_of (replay es reset_state) x)"
    "0 \<le> ag_feedbackDown (agg_of (replay es reset_state) x)"
    "0 \<le> ag_verified (agg_of (replay es reset_state) x)"
    "0 \<le> ag_failed (agg_of (replay es reset_state) x)"
proof -
  let ?L = "replay es reset_state"
  have v: "votes.balanced ?L" and w: "verifies.balanced ?L"
    using assms by (simp_all add: replay_votes_balanced replay_verifies_balanced)
  from votes.balanced_nonneg [OF v, of "(x, True)"] votes.balanced_nonneg [OF v, of "(x, False)"]
    verifies.balanced_nonneg [OF w, of "(x, True)"] verifies.balanced_nonneg [OF w, of "(x, False)"]
  show "0 \<le> ag_feedbackUp (agg_of ?L x)" "0 \<le> ag_feedbackDown (agg_of ?L x)"
    "0 \<le> ag_verified (agg_of ?L x)" "0 \<le> ag_failed (agg_of ?L x)"
    by (simp_all add: vote_tally_def verify_tally_def)
qed

lemma replay_counts_ok: "no_checkpoint es \<Longrightarrow> counts_ok (agg_of (replay es reset_state) x)"
  using replay_split [of es] recalls_split_resolved_le [of "replay es reset_state" x]
    replay_confirms [of es x] replay_tallies_nonneg [of es x]
  by (simp add: counts_ok_def recalls_split_def)

section \<open>The decay factor\<close>

lemma factor_between:
  fixes n c k d :: rat
  assumes "0 \<le> n" "n \<le> d" "0 \<le> c" "0 < k"
  shows "0 < (n + c + k / 2) / (d + c + k)" and "(n + c + k / 2) / (d + c + k) < 1"
proof -
  have pos: "0 < d + c + k" using assms by linarith
  show "0 < (n + c + k / 2) / (d + c + k)" using assms pos by (intro divide_pos_pos) linarith+
  show "(n + c + k / 2) / (d + c + k) < 1" using assms pos by (simp add: divide_less_eq)
qed

lemma Factor_between: "counts_ok a \<Longrightarrow> 0 < k \<Longrightarrow> 0 < Factor a k \<and> Factor a k < 1"
  unfolding Factor_def Let_def confirmWeight_def
  by (intro conjI factor_between) (simp_all add: counts_ok_def)

lemma half_le_iff:
  fixes n c k d :: rat
  assumes "0 < d + c + k"
  shows "1 / 2 \<le> (n + c + k / 2) / (d + c + k) \<longleftrightarrow> d - 2 * n \<le> c"
  using assms by (simp add: le_divide_eq) linarith

lemma Factor_half_iff:
  assumes "counts_ok a" and "0 < k"
  shows "1 / 2 \<le> Factor a k \<longleftrightarrow>
    2 * ((ag_recalls a - ag_resolved a) + ag_feedbackDown a + ag_failed a
         - (ag_resolved a + ag_feedbackUp a + ag_verified a)) \<le> ag_confirms a"
proof -
  let ?d = "of_int (ag_recalls a + ag_feedbackUp a + ag_feedbackDown a + ag_verified a + ag_failed a) :: rat"
  let ?n = "of_int (ag_resolved a + ag_feedbackUp a + ag_verified a) :: rat"
  let ?c = "1 / 2 * of_int (ag_confirms a) :: rat"
  have "0 \<le> ?d" "0 \<le> ?c" using assms(1) by (simp_all add: counts_ok_def)
  then have "1 / 2 \<le> Factor a k \<longleftrightarrow> ?d - 2 * ?n \<le> ?c"
    using half_le_iff [of ?d ?c k ?n] assms(2) by (simp add: Factor_def Let_def confirmWeight_def)
  also have "\<dots> \<longleftrightarrow> of_int (2 * ((ag_recalls a - ag_resolved a) + ag_feedbackDown a + ag_failed a
         - (ag_resolved a + ag_feedbackUp a + ag_verified a))) \<le> (of_int (ag_confirms a) :: rat)"
    by (auto simp: field_simps)
  finally show ?thesis by (simp only: of_int_le_iff)
qed

section \<open>Bounds of the pairing buffers\<close>

definition buffers_ok :: "ledger \<Rightarrow> bool" where
  "buffers_ok L \<longleftrightarrow> (\<forall>fp. length (mget [] (l_pendingResolves L) fp) \<le> maxPendingResolvesPerFingerprint
     \<and> (mget [] (l_pendingOpens L) fp = [] \<or> mget [] (l_pendingResolves L) fp = []))"

lemma buffers_ok_frame:
  "buffers_ok L \<Longrightarrow> l_pendingOpens K = l_pendingOpens L \<Longrightarrow> l_pendingResolves K = l_pendingResolves L
     \<Longrightarrow> buffers_ok K"
  by (simp add: buffers_ok_def)

lemma mget_delete [simp]: "mget z (m(k := None)) k' = (if k' = k then z else mget z m k')"
  by (simp add: mget_def)

lemma applyOpen_buffers:
  assumes "buffers_ok L"
  shows "buffers_ok (applyOpen e L)"
proof -
  let ?fp = "ev_fingerprint e"
  let ?rs = "mget [] (l_pendingResolves L) ?fp"
  obtain kept stale where r: "resolvesSince ?rs e = (kept, stale)" by (cases "resolvesSince ?rs e")
  have len: "length kept \<le> length ?rs" using r by (auto simp: resolvesSince_def Let_def)
  have b: "length ?rs \<le> maxPendingResolvesPerFingerprint" and
    ex: "?rs \<noteq> [] \<Longrightarrow> mget [] (l_pendingOpens L) ?fp = []" using assms by (auto simp: buffers_ok_def)
  have "length (tl kept) \<le> maxPendingResolvesPerFingerprint" using len b by simp
  then show ?thesis
    using assms ex by (simp add: applyOpen_def Let_def r buffers_ok_def push_open_def)
qed

lemma pair_resolve_buffers:
  assumes "buffers_ok L"
  shows "buffers_ok (pair_resolve fp t L)"
proof -
  have "length (mget [] (l_pendingResolves L) fp) \<le> 64"
    using assms by (simp add: buffers_ok_def maxPendingResolvesPerFingerprint_def)
  then have "length (mget [] (l_pendingResolves L) fp) - Suc 0 \<le> 63" by arith
  then show ?thesis
    using assms by (auto simp: pair_resolve_def buffer_resolve_def Let_def buffers_ok_def
        maxPendingResolvesPerFingerprint_def)
qed

lemma fold_line_buffers:
  assumes "buffers_ok L" and "ev_event e \<noteq> ''checkpoint''"
  shows "buffers_ok (fold_line e L)"
proof (cases e rule: fold_line_kinds)
  case opened
  have "buffers_ok (L\<lparr>l_open := (l_open L)(ev_fingerprint e \<mapsto> event.truncate e)\<rparr>)"
    by (rule buffers_ok_frame [OF assms(1)]) simp_all
  from applyOpen_buffers [OF this] show ?thesis unfolding fold_line_cases(1) [OF opened]
    by (rule buffers_ok_frame) simp_all
next
  case resolve
  let ?K = "clearSilencesForFingerprint (ev_fingerprint e) (clearSilenceOfOpen (ev_fingerprint e) L)"
  have "buffers_ok (?K\<lparr>l_resolvesSeen := l_resolvesSeen ?K + 1\<rparr>)"
    by (rule buffers_ok_frame [OF assms(1)]) simp_all
  from pair_resolve_buffers [OF this]
  have r: "buffers_ok (applyResolve (ev_fingerprint e) (ev_at e) L)"
    by (simp add: applyResolve_def Let_def)
  show ?thesis unfolding fold_line_cases(2) [OF resolve]
    by (rule buffers_ok_frame [OF r]) simp_all
next
  case checkpoint
  then show ?thesis using assms(2) by simp
next
  case unknown
  then show ?thesis using assms(1) by (simp add: fold_line_unknown)
qed (rule buffers_ok_frame [OF assms(1)]; simp add: fold_line_cases)+

lemma replay_buffers: "no_checkpoint es \<Longrightarrow> buffers_ok (replay es reset_state)"
  by (rule replay_invariant)
    (auto simp: no_checkpoint_def buffers_ok_def [of reset_state] intro: fold_line_buffers)

section \<open>Files that were compacted on the way\<close>

text \<open>
  How a ledger file comes about: lines are appended, and a load now and then replaces a prefix by
  a checkpoint (\<open>compactLocked\<close>). \<open>lines_of\<close> are all the lines ever appended, \<open>file_after\<close> what
  the file holds.
\<close>

datatype file_step = Appended line | Compacted gotime int

primrec file_step_lines :: "file_step \<Rightarrow> line list \<Rightarrow> line list" where
  "file_step_lines (Appended e) f = f @ [e]"
| "file_step_lines (Compacted now maxEvents) f = compact_lines now maxEvents f"

definition file_after :: "file_step list \<Rightarrow> line list" where
  "file_after steps = fold file_step_lines steps []"

definition lines_of :: "file_step list \<Rightarrow> line list" where
  "lines_of steps = concat (map (\<lambda>s. case s of Appended e \<Rightarrow> [e] | Compacted _ _ \<Rightarrow> []) steps)"

lemma file_after_snoc [simp]:
  "file_after [] = []" "file_after (steps @ [s]) = file_step_lines s (file_after steps)"
  "lines_of [] = []" "lines_of (steps @ [Appended e]) = lines_of steps @ [e]"
  "lines_of (steps @ [Compacted now n]) = lines_of steps"
  by (simp_all add: file_after_def lines_of_def)

lemma lapsed_eq_trans:
  assumes "lapsed_eq a L L'" and "lapsed_eq b L' L''"
  shows "lapsed_eq (max a b) L L''"
proof -
  obtain m where m: "L' = L\<lparr>l_silences := m\<rparr>" "\<And>tk. m tk = l_silences L tk
      \<or> (m tk = None \<and> (\<exists>s. l_silences L tk = Some s \<and> si_until s \<le> a))"
    by (rule lapsed_eqE [OF assms(1)]) blast
  obtain n where n: "L'' = L'\<lparr>l_silences := n\<rparr>" "\<And>tk. n tk = l_silences L' tk
      \<or> (n tk = None \<and> (\<exists>s. l_silences L' tk = Some s \<and> si_until s \<le> b))"
    by (rule lapsed_eqE [OF assms(2)]) blast
  show ?thesis
  proof (rule lapsed_eqI)
    fix tk
    show "l_silences L'' tk = l_silences L tk \<or> (l_silences L'' tk = None
        \<and> (\<exists>s. l_silences L tk = Some s \<and> si_until s \<le> max a b))"
      using m(2) [of tk] n(2) [of tk] by (cases "l_silences L tk") (auto simp: m(1) n(1) le_max_iff_disj)
  qed (simp add: m(1) n(1))
qed

lemma file_after_lapsed:
  "\<exists>now. lapsed_eq now (replay (lines_of steps) reset_state) (replay (file_after steps) reset_state)"
proof (induction steps rule: rev_induct)
  case (snoc s steps)
  then obtain now where l: "lapsed_eq now (replay (lines_of steps) reset_state)
      (replay (file_after steps) reset_state)" by blast
  then show ?case
    by (cases s) (auto intro: lapsed_eq_fold_line lapsed_eq_trans [OF l lapsed_eq_compact])
qed (auto intro: lapsed_eq_refl)

text \<open>Apart from lapsed silences, a load of the file restores what all its lines ever said.\<close>

lemma file_after_replay:
  "l_agg (replay (file_after steps) reset_state) = l_agg (replay (lines_of steps) reset_state)"
  "l_votes (replay (file_after steps) reset_state) = l_votes (replay (lines_of steps) reset_state)"
  "l_verifies (replay (file_after steps) reset_state) = l_verifies (replay (lines_of steps) reset_state)"
  using file_after_lapsed [of steps] by (auto simp: lapsed_eq_def)

section \<open>The observation that stands\<close>

text \<open>
  Which lines of a file observe a fix room, and which one counts: the newest by its time, the
  later line on a tie.
\<close>

definition observes_room :: "string \<Rightarrow> line \<Rightarrow> bool" where
  "observes_room k e \<longleftrightarrow> ev_event e = ''verify'' \<and> ev_room e = k \<and> ev_room e \<noteq> [] \<and> ev_entry e \<noteq> []
     \<and> (ev_kind e = ''held'' \<or> ev_kind e = ''failed'')"

definition newest_of :: "line list \<Rightarrow> line list" where
  "newest_of es = filter (\<lambda>e. list_all (\<lambda>e'. ev_at e' \<le> ev_at e) es) es"

definition observation_of :: "line \<Rightarrow> verify_state" where
  "observation_of e = \<lparr>vs_entry = ev_entry e, vs_dupFP = ev_dupFingerprint e,
     vs_held = (ev_kind e = ''held''), vs_at = ev_at e\<rparr>"

definition newest_observation :: "string \<Rightarrow> line list \<Rightarrow> verify_state option" where
  "newest_observation k es = (let obs = filter (observes_room k) es
     in if obs = [] then None else Some (observation_of (last (newest_of obs))))"

lemma newest_of_nonempty: "es \<noteq> [] \<Longrightarrow> newest_of es \<noteq> []"
proof -
  assume "es \<noteq> []"
  then have "finite (ev_at ` set es)" "ev_at ` set es \<noteq> {}" by simp_all
  from Max_in [OF this] Max_ge [OF this(1)]
  obtain e where "e \<in> set es" "list_all (\<lambda>e'. ev_at e' \<le> ev_at e) es"
    by (force simp: list_all_iff)
  then show ?thesis by (auto simp: newest_of_def filter_empty_conv)
qed

lemma newest_of_last:
  assumes "es \<noteq> []"
  shows "last (newest_of es) \<in> set es" and "e \<in> set es \<Longrightarrow> ev_at e \<le> ev_at (last (newest_of es))"
  using last_in_set [OF newest_of_nonempty [OF assms]] by (auto simp: newest_of_def list_all_iff)

lemma newest_of_snoc:
  assumes "es \<noteq> []"
  shows "last (newest_of (es @ [e]))
    = (if ev_at e < ev_at (last (newest_of es)) then last (newest_of es) else e)"
proof (cases "ev_at e < ev_at (last (newest_of es))")
  case True
  note m = newest_of_last [OF assms]
  have "newest_of (es @ [e]) = newest_of es"
    unfolding newest_of_def using True m
    by (auto simp: newest_of_def list_all_iff intro!: filter_cong)
  then show ?thesis using True by simp
next
  case False
  have "list_all (\<lambda>e'. ev_at e' \<le> ev_at e) es"
    unfolding list_all_iff using newest_of_last(2) [OF assms] False by (meson linorder_not_less order_trans)
  then show ?thesis using False by (simp add: newest_of_def [of "es @ [e]"])
qed

lemma newest_observation_snoc:
  "newest_observation k [] = None"
  "newest_observation k (es @ [e]) = (if observes_room k e
     then (case newest_observation k es of
             None \<Rightarrow> Some (observation_of e)
           | Some v \<Rightarrow> if ev_at e < vs_at v then Some v else Some (observation_of e))
     else newest_observation k es)"
  by (simp_all add: newest_observation_def Let_def newest_of_snoc newest_of_def [of "[e]"] observation_of_def)

text \<open>
  Which lines vote under a key, and what the last of them chose: its rating, for the entry its
  trigger stood for when the vote was cast.
\<close>

definition votes_under :: "string \<Rightarrow> line \<Rightarrow> bool" where
  "votes_under k e \<longleftrightarrow> ev_event e = ''feedback'' \<and> ev_triggerKey e \<noteq> []
     \<and> (ev_kind e = ''up'' \<or> ev_kind e = ''down'') \<and> vote_key (ev_triggerKey e) (ev_user e) = k"

definition vote_positions :: "string \<Rightarrow> line list \<Rightarrow> nat list" where
  "vote_positions k es = filter (\<lambda>i. votes_under k (es ! i)) [0..<length es]"

definition last_choice :: "string \<Rightarrow> line list \<Rightarrow> (string \<times> string) option" where
  "last_choice k es =
     (if vote_positions k es = [] then None
      else Some (let i = last (vote_positions k es); e = es ! i in
        (ev_kind e, ta_entry (trigger_of (replay (take i es) reset_state) (ev_triggerKey e)))))"

lemma vote_positions_snoc:
  "vote_positions k (es @ [e]) = vote_positions k es @ (if votes_under k e then [length es] else [])"
proof -
  have "filter (\<lambda>i. votes_under k ((es @ [e]) ! i)) [0..<length es] = vote_positions k es"
    unfolding vote_positions_def by (rule filter_cong) (simp_all add: nth_append)
  then show ?thesis by (simp add: vote_positions_def [of k "es @ [e]"])
qed

lemma vote_positions_last: "vote_positions k es \<noteq> [] \<Longrightarrow> last (vote_positions k es) < length es"
  using last_in_set [of "vote_positions k es"] by (auto simp: vote_positions_def)

lemma last_choice_Nil: "last_choice k [] = None"
  by (simp add: last_choice_def vote_positions_def)

lemma last_choice_snoc:
  "last_choice k (es @ [e]) = (if votes_under k e
     then Some (ev_kind e, ta_entry (trigger_of (replay es reset_state) (ev_triggerKey e)))
     else last_choice k es)"
  using vote_positions_last [of k es]
  by (cases "vote_positions k es = []")
    (simp_all add: last_choice_def vote_positions_snoc Let_def nth_append)

text \<open>The two tables hold exactly these.\<close>

lemma applyVerify_table:
  assumes "ev_event e = ''verify''"
  shows "map_of (l_verifies (applyVerify e L)) k = (if observes_room k e
     then (case map_of (l_verifies L) k of
             None \<Rightarrow> Some (observation_of e)
           | Some v \<Rightarrow> if ev_at e < vs_at v then Some v else Some (observation_of e))
     else map_of (l_verifies L) k)"
  using assms
  by (auto simp: applyVerify_def Let_def update_conv observes_room_def observation_of_def split: option.splits)

lemma replay_newest_observation:
  "no_checkpoint es \<Longrightarrow> map_of (l_verifies (replay es reset_state)) k = newest_observation k es"
proof (induction es rule: rev_induct)
  case (snoc e es)
  then show ?case
    by (cases "ev_event e = ''verify''")
      (simp_all add: newest_observation_snoc fold_line_cases fold_line_verify_tally applyVerify_table,
        simp add: observes_room_def)
qed (simp add: newest_observation_snoc)

lemma applyFeedback_table:
  assumes "ev_event e = ''feedback''"
  shows "map_option (\<lambda>v. (fv_rating v, fv_entry v)) (map_of (l_votes (applyFeedback e L)) k) =
     (if votes_under k e then Some (ev_kind e, ta_entry (trigger_of L (ev_triggerKey e)))
      else map_option (\<lambda>v. (fv_rating v, fv_entry v)) (map_of (l_votes L) k))"
  using assms by (auto simp: applyFeedback_def Let_def update_conv votes_under_def split: option.splits)

lemma replay_last_choice:
  "no_checkpoint es \<Longrightarrow>
     map_option (\<lambda>v. (fv_rating v, fv_entry v)) (map_of (l_votes (replay es reset_state)) k)
       = last_choice k es"
proof (induction es rule: rev_induct)
  case (snoc e es)
  then show ?case
    by (cases "ev_event e = ''feedback''")
      (simp_all add: last_choice_snoc fold_line_cases fold_line_vote_tally applyFeedback_table,
        simp add: votes_under_def)
qed (simp add: last_choice_Nil)

section \<open>Properties\<close>

definition demo_lines :: "line list" where
  "demo_lines = map plain_line
     [demo_recall ''fp'' ''e.md'' 10, mk_event ''resolve'' ''fp'' 20, demo_recall ''fp'' ''e.md'' 30,
      zero_event\<lparr>ev_event := ''feedback'', ev_triggerKey := ''tk'', ev_kind := ''down'', ev_user := ''u'', ev_at := 40\<rparr>]"

lemma demo_lines_plain: "no_checkpoint demo_lines"
  by (simp add: demo_lines_def no_checkpoint_def demo_recall_def mk_event_def)

lemmas demo_line_defs = demo_lines_def plain_line_def demo_recall_def mk_event_def zero_event_def
  event.defs fold_line_cases

text \<open>
  C10: For a file into which lines were appended and whose prefixes loads may have compacted to
  checkpoints: the aggregate that recall reads after a load of the file equals the one that
  pairing all lines ever appended into episodes gives. Per entry that is the counted recalls, the
  resolved ones among them, and the latest time one of them was resolved. The hypotheses: no
  appended line is itself a checkpoint, and over all these lines the bound of sixty-four buffered
  resolves per fingerprint dropped none; where it dropped one the two may differ, as the comment
  on \<open>OpenCounts\<close> says.
\<close>

theorem aggregate_is_episode_replay:
  assumes "no_checkpoint (lines_of steps)"
    and "l_droppedResolves (replay (lines_of steps) reset_state) = 0"
  shows "let a = agg_of (replay (file_after steps) reset_state) x;
             opens = opens_of (lines_of steps);
             episodes = episodesOf (lines_of steps)
    in ag_recalls a = recalls_of opens x
       \<and> ag_resolved a = resolved_of opens episodes x
       \<and> ag_lastConfirmed a = confirmed_of opens episodes x"
  using pairing_simD(5) [OF replay_sim [OF assms]]
  by (simp add: agg_matches_def episodesOf_def Let_def file_after_replay)

definition demo_steps :: "file_step list" where
  "demo_steps = map Appended (take 2 demo_lines) @ [Compacted 35 1] @ map Appended (drop 2 demo_lines)"

lemma demo_steps_lines: "lines_of demo_steps = demo_lines" "file_after demo_steps \<noteq> demo_lines"
  by (simp_all add: demo_steps_def lines_of_def file_after_def demo_lines_def compact_lines_def Let_def
      checkpoint_line_def plain_line_def demo_recall_def mk_event_def zero_event_def event.defs)

lemma demo_steps_plain: "no_checkpoint (lines_of demo_steps)"
  by (simp add: demo_steps_lines demo_lines_plain)

lemma demo_dropped: "l_droppedResolves (replay (lines_of demo_steps) reset_state) = 0"
  by (simp add: demo_steps_lines demo_line_defs applyOpen_def Let_def applyResolve_def pair_resolve_def
      push_open_def count_recall_def counted_open_def resolvable_def)

lemma aggregate_is_episode_replay_witness:
  "ag_recalls (agg_of (replay (file_after demo_steps) reset_state) ''e.md'')
     = recalls_of (opens_of demo_lines) ''e.md''"
  using aggregate_is_episode_replay [OF demo_steps_plain demo_dropped, of "''e.md''"]
  by (simp add: Let_def demo_steps_lines)

text \<open>
  C31: The feedback and verification counters of an entry are exactly the observations that
  stand, for a file of appended lines, none of them a checkpoint, that loads may have compacted.
  The verification that stands for a fix room is the newest by its time (the later line on a tie)
  of the well-formed ones ever appended; the vote that stands under a key (trigger and user) is
  the last one cast, with the entry its trigger then stood for. The counters of an entry, whose
  name is not empty, count these, each once.
\<close>

theorem counters_are_live_observations:
  assumes "no_checkpoint (lines_of steps)" and "x \<noteq> []"
  shows "let L = replay (file_after steps) reset_state; a = agg_of L x in
     (\<forall>k. map_of (l_verifies L) k = newest_observation k (lines_of steps))
     \<and> (\<forall>k. map_option (\<lambda>v. (fv_rating v, fv_entry v)) (map_of (l_votes L) k)
            = last_choice k (lines_of steps))
     \<and> ag_feedbackUp a = acount (\<lambda>k v. fv_entry v = x \<and> fv_rating v = ''up'') (l_votes L)
     \<and> ag_feedbackDown a = acount (\<lambda>k v. fv_entry v = x \<and> fv_rating v \<noteq> ''up'') (l_votes L)
     \<and> ag_verified a = acount (\<lambda>k v. vs_entry v = x \<and> vs_held v) (l_verifies L)
     \<and> ag_failed a = acount (\<lambda>k v. vs_entry v = x \<and> \<not> vs_held v) (l_verifies L)
     \<and> distinct (map fst (l_votes L)) \<and> distinct (map fst (l_verifies L))"
proof -
  let ?L = "replay (lines_of steps) reset_state"
  have v: "votes.balanced ?L" and w: "verifies.balanced ?L"
    using assms(1) by (simp_all add: replay_votes_balanced replay_verifies_balanced)
  have "(vote_class v = Some (x, u)) = (fv_entry v = x \<and> (fv_rating v = ''up'') = u)" for v u
    using assms(2) by (auto simp: vote_class_def)
  moreover have "(verify_class v = Some (x, h)) = (vs_entry v = x \<and> vs_held v = h)" for v h
    by (auto simp: verify_class_def)
  ultimately show ?thesis
    using votes.balanced_tally [OF v, of "(x, True)"] votes.balanced_tally [OF v, of "(x, False)"]
      verifies.balanced_tally [OF w, of "(x, True)"] verifies.balanced_tally [OF w, of "(x, False)"]
      replay_distinct [of "lines_of steps"] replay_newest_observation [OF assms(1)]
      replay_last_choice [OF assms(1)]
    by (simp add: vote_tally_def verify_tally_def Let_def file_after_replay)
qed

lemma counters_are_live_observations_witness:
  "let L = replay (file_after demo_steps) reset_state in
   ag_feedbackDown (agg_of L ''e.md'')
     = acount (\<lambda>k v. fv_entry v = ''e.md'' \<and> fv_rating v \<noteq> ''up'') (l_votes L)"
  using counters_are_live_observations [OF demo_steps_plain, of "''e.md''"] by (simp add: Let_def)

text \<open>
  Whatever was recorded, the decay factor of every entry lies strictly between zero
  and one, for every positive prior weight.
\<close>

theorem factor_strictly_between:
  assumes "no_checkpoint es" and "0 < k"
  shows "0 < Factor (agg_of (replay es reset_state) x) k \<and> Factor (agg_of (replay es reset_state) x) k < 1"
  by (rule Factor_between [OF replay_counts_ok [OF assms(1)] assms(2)])

lemma factor_strictly_between_witness:
  "0 < Factor (agg_of (replay demo_lines reset_state) ''e.md'') 2
   \<and> Factor (agg_of (replay demo_lines reset_state) ''e.md'') 2 < 1"
  by (rule factor_strictly_between [OF demo_lines_plain]) simp

text \<open>
  The factor is at least one half exactly when two machine confirmations stand
  against every failure (unresolved recall, negative vote, failed fix) beyond the successes
  (resolved recall, positive vote, verified fix). One negative vote alone needs two confirmations.
\<close>

theorem factor_recovery:
  assumes "no_checkpoint es" and "0 < k"
  shows "let a = agg_of (replay es reset_state) x in
    1 / 2 \<le> Factor a k \<longleftrightarrow>
      2 * ((ag_recalls a - ag_resolved a) + ag_feedbackDown a + ag_failed a
           - (ag_resolved a + ag_feedbackUp a + ag_verified a)) \<le> ag_confirms a"
  unfolding Let_def by (rule Factor_half_iff [OF replay_counts_ok [OF assms(1)] assms(2)])

lemma factor_recovery_witness:
  "let a = agg_of (replay demo_lines reset_state) ''e.md'' in
    1 / 2 \<le> Factor a 2 \<longleftrightarrow>
      2 * ((ag_recalls a - ag_resolved a) + ag_feedbackDown a + ag_failed a
           - (ag_resolved a + ag_feedbackUp a + ag_verified a)) \<le> ag_confirms a"
  by (rule factor_recovery [OF demo_lines_plain]) simp

text \<open>
  Per fingerprint at most sixty-four early resolves are buffered, and an open never
  waits while a resolve is buffered for it.
\<close>

theorem pairing_buffers_bounded:
  assumes "no_checkpoint es"
  shows "length (mget [] (l_pendingResolves (replay es reset_state)) fp) \<le> maxPendingResolvesPerFingerprint
    \<and> (mget [] (l_pendingOpens (replay es reset_state)) fp = []
       \<or> mget [] (l_pendingResolves (replay es reset_state)) fp = [])"
  using replay_buffers [OF assms] by (simp add: buffers_ok_def)

lemma pairing_buffers_bounded_witness:
  "length (mget [] (l_pendingResolves (replay demo_lines reset_state)) ''fp'') \<le> maxPendingResolvesPerFingerprint"
  using pairing_buffers_bounded [OF demo_lines_plain, of "''fp''"] by simp

end
