(* ===== verification/LedgerReads.thy ===== *)
theory LedgerReads
  imports LedgerRun
begin

text \<open>
  What the reads of \<open>internal/outcome/ledger.go\<close> return after the writes: the silence a human
  sets and the resolve that lifts it, the contested triggers and the per-trigger recurrence
  counting the same votes, the newest verification per fingerprint whatever the iteration order,
  and the ordering of the window measures.
\<close>

section \<open>Silences\<close>

lemma recurrence_silence:
  "tr_silencedUntil (recurrence_of L tk) = (case l_silences L tk of None \<Rightarrow> 0 | Some x \<Rightarrow> si_until x)"
  "tr_silencedAt (recurrence_of L tk) = (case l_silences L tk of None \<Rightarrow> 0 | Some x \<Rightarrow> si_at x)"
  by (simp_all add: recurrence_of_def Let_def)

lemma file_append_frame [simp]:
  "st_state (file_append x s) = st_state s" "st_path (file_append x s) = st_path s"
  "st_maxSilenceWindow (file_append x s) = st_maxSilenceWindow s"
  by (simp_all add: file_append_def)

lemma enabled_frame [simp]:
  "enabled (file_append x s) = enabled s" "enabled (s\<lparr>st_state := L\<rparr>) = enabled s"
  by (simp_all add: enabled_def)

text \<open>
  A silence that is accepted is positive and within the cap, is in force until exactly
  the requested window later (so the duration survives its textual form), replaces whatever stood
  for that trigger, and touches no other trigger.
\<close>

theorem silence_in_force:
  assumes "enabled s" and "window \<le> max_duration"
    and "Silence AppendOk tk window user t s = (Inr (), s1)"
  shows "0 < window \<and> (st_maxSilenceWindow s > 0 \<longrightarrow> window \<le> st_maxSilenceWindow s)
    \<and> tr_silencedUntil (Recurrence s1 tk) = t + window \<and> tr_silencedAt (Recurrence s1 tk) = t
    \<and> (\<forall>tk'. tk' \<noteq> tk \<longrightarrow> Recurrence s1 tk' = Recurrence s tk')"
proof -
  have w: "tk \<noteq> []" "0 < window" "st_maxSilenceWindow s > 0 \<longrightarrow> window \<le> st_maxSilenceWindow s"
    using assms(3) by (auto simp: Silence_def split: if_splits)
  have p: "parse_duration (duration_string window) = Some window"
    by (rule parse_duration_string [OF w(2) assms(2)])
  have s1: "st_state s1 = (st_state s)\<lparr>l_silences := (l_silences (st_state s))(tk \<mapsto>
      \<lparr>si_at = t, si_until = t + window\<rparr>)\<rparr>" and "enabled s1"
    using assms w by (auto simp: Silence_def Let_def durably_cases applySilence_def p)
  then show ?thesis
    using w assms(1) by (simp add: Recurrence_def recurrence_of_def Let_def)
qed

lemma silence_in_force_witness:
  "tr_silencedUntil (Recurrence (snd (Silence AppendOk ''tk'' hour ''u'' 5 demo_store)) ''tk'') = 5 + hour"
  using silence_in_force [of demo_store hour "''tk''" "''u''" 5
      "snd (Silence AppendOk ''tk'' hour ''u'' 5 demo_store)"]
  by (simp add: demo_loads prod_eq_iff Silence_def Let_def durably_cases hour_def max_duration_def
      demo_store_def enabled_def)

text \<open>
  A resolve re-arms investigation: the trigger of the fingerprint's unresolved open, and
  every trigger whose newest investigation carried the fingerprint, has no standing silence
  afterwards, also when the file is replayed; no other silence is touched.
\<close>

theorem resolve_lifts_silence:
  assumes "enabled s" and "Resolve AppendOk fp t s = (Inr r, s1)"
  shows "l_silences (st_state s1) tk = (if resolve_clears fp (st_state s) tk then None
      else l_silences (st_state s) tk)
    \<and> l_silences (fold_line (plain_line (mk_event ''resolve'' fp t)) (st_state s)) tk
      = l_silences (st_state s1) tk"
proof -
  have "l_silences (st_state s1) = l_silences (applyResolve fp t (st_state s))"
    using assms by (auto simp: Resolve_def appendLocked_def Let_def split: option.splits)
  moreover have "l_silences (fold_line (plain_line (mk_event ''resolve'' fp t)) (st_state s))
      = l_silences (applyResolve fp t (st_state s))"
    by (simp add: fold_line_cases mk_event_def zero_event_def)
  ultimately show ?thesis by (simp only: applyResolve_silences simp_thms)
qed

definition demo_silenced :: store where
  "demo_silenced = demo_store\<lparr>st_state := reset_state\<lparr>
     l_byTrigger := [''tk'' \<mapsto> zero_trigger\<lparr>ta_fingerprint := ''fp''\<rparr>],
     l_silences := [''tk'' \<mapsto> \<lparr>si_at = 1, si_until = 100\<rparr>]\<rparr>\<rparr>"

lemma resolve_lifts_silence_witness:
  "l_silences (st_state demo_silenced) ''tk'' \<noteq> None
   \<and> l_silences (st_state (snd (Resolve AppendOk ''fp'' 9 demo_silenced))) ''tk'' = None"
proof -
  have "enabled demo_silenced" by (simp add: demo_silenced_def demo_store_def enabled_def)
  moreover have "Resolve AppendOk ''fp'' 9 demo_silenced
      = (Inr None, snd (Resolve AppendOk ''fp'' 9 demo_silenced))"
    by (simp add: Resolve_def appendLocked_def Let_def demo_silenced_def demo_store_def enabled_def
        prod_eq_iff)
  ultimately have "l_silences (st_state (snd (Resolve AppendOk ''fp'' 9 demo_silenced))) ''tk''
      = (if resolve_clears ''fp'' (st_state demo_silenced) ''tk'' then None
         else l_silences (st_state demo_silenced) ''tk'')"
    using resolve_lifts_silence [of demo_silenced "''fp''" 9 None] by blast
  then show ?thesis by (simp add: resolve_clears_def demo_silenced_def)
qed

section \<open>Contested triggers\<close>

lemma has_prefix_cut:
  assumes "CHR 0x00 \<notin> set tk"
  shows "has_prefix k (tk @ [CHR 0x00]) \<longleftrightarrow> (\<exists>u. cut_byte (CHR 0x00) k = (tk, u, True))"
proof
  assume "has_prefix k (tk @ [CHR 0x00])"
  then obtain r where "k = tk @ CHR 0x00 # r" by (auto simp: has_prefix_iff)
  then show "\<exists>u. cut_byte (CHR 0x00) k = (tk, u, True)" using assms by simp
next
  assume "\<exists>u. cut_byte (CHR 0x00) k = (tk, u, True)"
  then obtain u where "k = tk @ CHR 0x00 # u" using cut_byte_eq by fastforce
  then show "has_prefix k (tk @ [CHR 0x00])" by (auto simp: has_prefix_iff)
qed

definition down_on :: "string \<Rightarrow> string \<times> feedback_vote \<Rightarrow> bool" where
  "down_on tk kv \<longleftrightarrow> fv_rating (snd kv) = ''down'' \<and> (\<exists>u. cut_byte (CHR 0x00) (fst kv) = (tk, u, True))"

lemma count_down_fold:
  assumes "distinct (map fst acc)"
  shows "distinct (map fst (fold count_down vs acc))
    \<and> (\<forall>tk. mget 0 (map_of (fold count_down vs acc)) tk
        = mget 0 (map_of acc) tk + int (length (filter (down_on tk) vs)))
    \<and> (\<forall>tk. map_of (fold count_down vs acc) tk = None \<longleftrightarrow>
        map_of acc tk = None \<and> filter (down_on tk) vs = [])"
  using assms
proof (induction vs arbitrary: acc)
  case Nil
  then show ?case by simp
next
  case (Cons kv vs)
  obtain a b ok where c: "cut_byte (CHR 0x00) (fst kv) = (a, b, ok)" by (cases "cut_byte (CHR 0x00) (fst kv)")
  show ?case
  proof (cases "fv_rating (snd kv) = ''down'' \<and> ok")
    case True
    then have d: "down_on tk kv \<longleftrightarrow> tk = a" for tk by (auto simp: down_on_def c)
    have step: "count_down kv acc = AList.update a (mget 0 (map_of acc) a + 1) acc"
      using True by (simp add: count_down_def c)
    from Cons.IH [of "count_down kv acc"] Cons.prems show ?thesis
      by (auto simp: step d update_conv mget_def)
  next
    case False
    then have "\<not> down_on tk kv" for tk by (auto simp: down_on_def c)
    moreover have "count_down kv acc = acc" using False by (auto simp: count_down_def c)
    ultimately show ?thesis using Cons.IH [OF Cons.prems] by simp
  qed
qed

lemma recurrence_downs:
  assumes "CHR 0x00 \<notin> set tk"
  shows "tr_feedbackDown (recurrence_of L tk) = int (length (filter (down_on tk) (l_votes L)))"
proof -
  have "(\<lambda>(k, v). fv_rating v = ''down'' \<and> has_prefix k (tk @ [CHR 0x00])) = down_on tk"
    by (auto simp: fun_eq_iff down_on_def has_prefix_cut [OF assms])
  then show ?thesis by (simp add: recurrence_of_def Let_def)
qed

definition downs_of :: "ledger \<Rightarrow> (string \<times> int) list" where
  "downs_of L = fold count_down (l_votes L) []"

lemma downs_of_map:
  "distinct (map fst (downs_of L))"
  "(tk, n) \<in> set (downs_of L) \<longleftrightarrow>
     filter (down_on tk) (l_votes L) \<noteq> [] \<and> n = int (length (filter (down_on tk) (l_votes L)))"
proof -
  have c: "distinct (map fst (downs_of L))"
    "mget 0 (map_of (downs_of L)) tk = int (length (filter (down_on tk) (l_votes L)))"
    "map_of (downs_of L) tk = None \<longleftrightarrow> filter (down_on tk) (l_votes L) = []"
    using count_down_fold [of "[]" "l_votes L"] by (simp_all add: downs_of_def)
  show "distinct (map fst (downs_of L))" by (rule c(1))
  have "(tk, n) \<in> set (downs_of L) \<longleftrightarrow> map_of (downs_of L) tk = Some n"
    using c(1) by (simp add: map_of_eq_Some_iff)
  also have "\<dots> \<longleftrightarrow> map_of (downs_of L) tk \<noteq> None \<and> n = mget 0 (map_of (downs_of L)) tk"
    by (auto simp: mget_def)
  finally show "(tk, n) \<in> set (downs_of L) \<longleftrightarrow>
     filter (down_on tk) (l_votes L) \<noteq> [] \<and> n = int (length (filter (down_on tk) (l_votes L)))"
    by (simp only: c(2,3))
qed

lemma contested_of_alt:
  "contested_of L = sort_key ct_triggerKey
     (map (\<lambda>(trigger, n). \<lparr>ct_triggerKey = trigger,
              ct_curatedURL = ta_curatedURL (trigger_of L trigger), ct_downs = n,
              ct_last = ta_last (trigger_of L trigger),
              ct_confirms = mget 0 (l_triggerConfirms L) trigger\<rparr>)
         (filter (\<lambda>(trigger, n). ta_curatedURL (trigger_of L trigger) \<noteq> []) (downs_of L)))"
  by (simp add: contested_of_def downs_of_def)

lemma in_contested_of:
  "c \<in> set (contested_of L) \<longleftrightarrow> (\<exists>tk. filter (down_on tk) (l_votes L) \<noteq> []
     \<and> ta_curatedURL (trigger_of L tk) \<noteq> []
     \<and> c = \<lparr>ct_triggerKey = tk, ct_curatedURL = ta_curatedURL (trigger_of L tk),
            ct_downs = int (length (filter (down_on tk) (l_votes L))),
            ct_last = ta_last (trigger_of L tk), ct_confirms = mget 0 (l_triggerConfirms L) tk\<rparr>)"
    (is "_ \<longleftrightarrow> (\<exists>tk. ?P tk \<and> ?Q tk \<and> c = ?f tk (int (length (filter (down_on tk) (l_votes L)))))")
proof
  assume "c \<in> set (contested_of L)"
  then obtain tk n where "(tk, n) \<in> set (downs_of L)" "?Q tk" "c = ?f tk n"
    by (auto simp: contested_of_alt)
  then have "?P tk \<and> ?Q tk \<and> c = ?f tk (int (length (filter (down_on tk) (l_votes L))))"
    by (simp add: downs_of_map(2))
  then show "\<exists>tk. ?P tk \<and> ?Q tk \<and> c = ?f tk (int (length (filter (down_on tk) (l_votes L))))" ..
next
  assume "\<exists>tk. ?P tk \<and> ?Q tk \<and> c = ?f tk (int (length (filter (down_on tk) (l_votes L))))"
  then obtain tk where tk: "?P tk" "?Q tk" "c = ?f tk (int (length (filter (down_on tk) (l_votes L))))"
    by blast
  let ?n = "int (length (filter (down_on tk) (l_votes L)))"
  have "(tk, ?n) \<in> set (filter (\<lambda>(trigger, n). ?Q trigger) (downs_of L))"
    using tk(1,2) by (simp add: downs_of_map(2))
  then have "(\<lambda>(trigger, n). ?f trigger n) (tk, ?n)
      \<in> (\<lambda>(trigger, n). ?f trigger n) ` set (filter (\<lambda>(trigger, n). ?Q trigger) (downs_of L))"
    by (rule imageI)
  then show "c \<in> set (contested_of L)"
    by (simp only: contested_of_alt set_sort set_map tk(3) prod.case)
qed

lemma contested_keys:
  "sorted (map ct_triggerKey (contested_of L))" "distinct (map ct_triggerKey (contested_of L))"
proof -
  let ?xs = "map (\<lambda>(trigger, n). \<lparr>ct_triggerKey = trigger,
              ct_curatedURL = ta_curatedURL (trigger_of L trigger), ct_downs = n,
              ct_last = ta_last (trigger_of L trigger),
              ct_confirms = mget 0 (l_triggerConfirms L) trigger\<rparr>)
         (filter (\<lambda>(trigger, n). ta_curatedURL (trigger_of L trigger) \<noteq> []) (downs_of L))"
  have m: "map ct_triggerKey ?xs = map fst (filter (\<lambda>(trigger, n). ta_curatedURL (trigger_of L trigger) \<noteq> []) (downs_of L))"
    by (simp add: case_prod_unfold)
  have d: "distinct (map ct_triggerKey ?xs)"
    unfolding m by (rule distinct_map_filter) (rule downs_of_map(1))
  have "mset (map ct_triggerKey (contested_of L)) = mset (map ct_triggerKey ?xs)"
    unfolding contested_of_alt mset_map mset_sort ..
  then show "distinct (map ct_triggerKey (contested_of L))"
    using d mset_eq_imp_distinct_iff by blast
  show "sorted (map ct_triggerKey (contested_of L))" by (simp add: contested_of_alt)
qed

text \<open>
  The two views of the votes agree. A trigger (whose key holds no NUL byte) is listed
  as contested exactly when its recurrence snapshot counts a standing negative vote and its
  newest investigation has a link; it is listed with the count, the link and the time of that
  snapshot; and the list is sorted by key without repetitions.
\<close>

theorem contested_agrees_with_recurrence:
  assumes "CHR 0x00 \<notin> set tk" and "tk \<noteq> []"
  shows "((\<exists>c \<in> set (ContestedTriggers s). ct_triggerKey c = tk) \<longleftrightarrow>
      Contested (Recurrence s tk) \<and> tr_curatedURL (Recurrence s tk) \<noteq> [])
    \<and> (\<forall>c \<in> set (ContestedTriggers s). ct_triggerKey c = tk \<longrightarrow>
      ct_downs c = tr_feedbackDown (Recurrence s tk) \<and> ct_curatedURL c = tr_curatedURL (Recurrence s tk)
      \<and> ct_last c = tr_last (Recurrence s tk))
    \<and> sorted (map ct_triggerKey (ContestedTriggers s))
    \<and> distinct (map ct_triggerKey (ContestedTriggers s))"
proof (cases "enabled s")
  case False
  then show ?thesis by (simp add: ContestedTriggers_def Recurrence_def zero_recurrence_def Contested_def)
next
  case True
  let ?L = "st_state s"
  have r: "tr_feedbackDown (Recurrence s tk) = int (length (filter (down_on tk) (l_votes ?L)))"
    "tr_curatedURL (Recurrence s tk) = ta_curatedURL (trigger_of ?L tk)"
    "tr_last (Recurrence s tk) = ta_last (trigger_of ?L tk)"
    using True assms(2) recurrence_downs [OF assms(1)] by (simp_all add: Recurrence_def)
      (simp_all add: recurrence_of_def Let_def)
  have c: "ContestedTriggers s = contested_of ?L" using True by (simp add: ContestedTriggers_def)
  have "(\<exists>c \<in> set (contested_of ?L). ct_triggerKey c = tk) \<longleftrightarrow>
      filter (down_on tk) (l_votes ?L) \<noteq> [] \<and> ta_curatedURL (trigger_of ?L tk) \<noteq> []"
    by (simp add: Bex_def in_contested_of) (metis contested_trigger.select_convs(1))
  moreover have "\<forall>c \<in> set (contested_of ?L). ct_triggerKey c = tk \<longrightarrow>
      ct_downs c = int (length (filter (down_on tk) (l_votes ?L)))
      \<and> ct_curatedURL c = ta_curatedURL (trigger_of ?L tk) \<and> ct_last c = ta_last (trigger_of ?L tk)"
    by (auto simp: in_contested_of)
  ultimately show ?thesis
    using contested_keys [of ?L] by (auto simp: r c Contested_def)
qed

lemma contested_agrees_with_recurrence_witness:
  "(\<exists>c \<in> set (ContestedTriggers demo_store). ct_triggerKey c = ''tk'') \<longleftrightarrow>
     Contested (Recurrence demo_store ''tk'') \<and> tr_curatedURL (Recurrence demo_store ''tk'') \<noteq> []"
  using contested_agrees_with_recurrence [of "''tk''" demo_store] by simp

section \<open>Verifications\<close>

definition newest_spec :: "(string \<times> verify_state) list \<Rightarrow> (string \<rightharpoonup> gotime \<times> bool) \<Rightarrow> string \<Rightarrow> bool" where
  "newest_spec rvs m f \<longleftrightarrow> (case m f of
     None \<Rightarrow> (\<forall>v \<in> snd ` set rvs. vs_dupFP v = f \<longrightarrow> f = [])
   | Some (t, h) \<Rightarrow> f \<noteq> [] \<and> (\<exists>v \<in> snd ` set rvs. vs_dupFP v = f \<and> vs_at v = t)
       \<and> (\<forall>v \<in> snd ` set rvs. vs_dupFP v = f \<longrightarrow> vs_at v \<le> t)
       \<and> (h \<longleftrightarrow> (\<forall>v \<in> snd ` set rvs. vs_dupFP v = f \<and> vs_at v = t \<longrightarrow> vs_held v)))"

lemma newest_spec_step:
  assumes "newest_spec rvs m f"
  shows "newest_spec (rvs @ [rv]) (newest_verify rv m) f"
proof (cases "vs_dupFP (snd rv) = f \<and> f \<noteq> []")
  case False
  then have "newest_verify rv m f = m f"
    by (auto simp: newest_verify_def Let_def split: option.split)
  then show ?thesis using assms False
    by (auto simp: newest_spec_def split: option.splits)
next
  case True
  then show ?thesis using assms
    by (cases "m f") (fastforce simp: newest_spec_def newest_verify_def Let_def)+
qed

lemma newest_spec_fold: "newest_spec rvs (fold newest_verify rvs Map.empty) f"
proof (induction rvs rule: rev_induct)
  case Nil
  then show ?case by (simp add: newest_spec_def)
next
  case (snoc rv rvs)
  then show ?case by (simp add: newest_spec_step)
qed

text \<open>
  The verification of a dedup fingerprint is that of its newest observation over
  all fix rooms, and held only if every observation at that newest time held: a failure wins a
  tie, and the order in which the rooms are visited does not matter.
\<close>

theorem verifications_newest:
  assumes "enabled s"
  shows "Verifications s f = (let obs = {v \<in> snd ` set (l_verifies (st_state s)). vs_dupFP v = f} in
     if f = [] \<or> obs = {} then None
     else Some (\<forall>v \<in> obs. vs_at v = Max (vs_at ` obs) \<longrightarrow> vs_held v))"
proof -
  let ?rvs = "l_verifies (st_state s)"
  let ?obs = "{v \<in> snd ` set ?rvs. vs_dupFP v = f}"
  let ?m = "fold newest_verify ?rvs Map.empty"
  have V: "Verifications s f = map_option snd (?m f)" using assms by (simp add: Verifications_def)
  show ?thesis
  proof (cases "?m f")
    case None
    then show ?thesis using newest_spec_fold [of ?rvs f] by (auto simp: V newest_spec_def Let_def)
  next
    case (Some th)
    obtain t h where th: "th = (t, h)" by (cases th)
    have sp: "f \<noteq> []" "\<exists>v \<in> ?obs. vs_at v = t" "\<forall>v \<in> ?obs. vs_at v \<le> t"
      "h \<longleftrightarrow> (\<forall>v \<in> ?obs. vs_at v = t \<longrightarrow> vs_held v)"
      using newest_spec_fold [of ?rvs f] Some by (auto simp: newest_spec_def th)
    have "Max (vs_at ` ?obs) = t"
      by (rule Max_eqI) (use sp(2,3) in auto)
    then show ?thesis using sp(1,2,4) by (auto simp: V Some th Let_def)
  qed
qed

lemma verifications_newest_witness:
  "Verifications demo_store ''dup'' = None"
  using verifications_newest [OF demo_loads(1), of "''dup''"]
  by (simp add: demo_store_def)

section \<open>Measures\<close>

definition measure_ok :: "measures \<Rightarrow> bool" where
  "measure_ok m \<longleftrightarrow> 0 \<le> ms_recallsResolved m \<and> ms_recallsResolved m \<le> ms_instantRecalls m
     \<and> ms_instantRecalls m \<le> ms_incidents m"

lemma measure_step_ok: "measure_ok (fst acc) \<Longrightarrow> measure_ok (fst (measure_step since x acc))"
  by (cases x; cases acc) (simp add: measure_step_def measure_ok_def Let_def)

lemma measure_fold_ok: "measure_ok (fst acc) \<Longrightarrow> measure_ok (fst (fold (measure_step since) xs acc))"
  by (induction xs arbitrary: acc) (simp_all add: measure_step_ok)

lemma measures_of_ok: "measure_ok (measures_of since es)"
proof -
  have "measure_ok (fst (fold (measure_step since) (zip (opens_of es) (episodesOf es))
      (\<lparr>ms_incidents = 0, ms_instantRecalls = 0, ms_recallsResolved = 0,
        ms_tokensPerIncident = 0, ms_partial = measures_partial since es\<rparr>, 0)))"
    by (rule measure_fold_ok) (simp add: measure_ok_def)
  then show ?thesis
    by (auto simp: measures_of_def Let_def measure_ok_def split: prod.split)
qed

text \<open>
  The numbers of a window are ordered: no more recalls resolved than instant recalls,
  no more instant recalls than incidents.
\<close>

theorem measures_ordered:
  assumes "Measures fits since s = Inr m"
  shows "0 \<le> ms_recallsResolved m \<and> ms_recallsResolved m \<le> ms_instantRecalls m
    \<and> ms_instantRecalls m \<le> ms_incidents m"
  using assms measures_of_ok [of since]
  by (auto simp: Measures_def measure_ok_def split: if_splits prod.splits)

lemma measures_ordered_witness:
  "\<exists>m. Measures (\<lambda>_. True) 0 demo_store = Inr m \<and> ms_recallsResolved m \<le> ms_instantRecalls m"
proof -
  obtain m where m: "Measures (\<lambda>_. True) 0 demo_store = Inr m"
    by (simp add: Measures_def readEvents_def demo_store_def Let_def enabled_def)
  then show ?thesis using measures_ordered [OF m] by blast
qed

end
