(* ===== verification/Requests.thy ===== *)
theory Requests
  imports Workload LedgerTypes
begin

text \<open>
  The normalized trigger of \<open>internal/investigate/investigate.go\<close>: \<open>Request\<close>, the critical
  predicate shared by both waits, and the request built from a GitOps failure. The truncated
  SHA-256 behind a derived fingerprint is the parameter \<open>sum8\<close>.
\<close>

record request =
  rq_source :: string
  rq_title :: string
  rq_workload :: workload
  rq_reason :: string
  rq_severity :: string
  rq_environment :: string
  rq_message :: string
  rq_labels :: "string \<rightharpoonup> string"
  rq_annotations :: "string \<rightharpoonup> string"
  rq_groupKey :: string
  rq_at :: gotime
  rq_fingerprint :: string
  rq_fingerprints :: "string list"
  rq_triggerKey :: string
  rq_coalescedWorkloads :: "string list"

definition zero_workload :: workload where
  "zero_workload = \<lparr>wl_kind = [], wl_name = [], wl_namespace = [], wl_region = [], wl_account = [],
     wl_scope = ScopeUnknown\<rparr>"

definition zero_request :: request where
  "zero_request = \<lparr>rq_source = [], rq_title = [], rq_workload = zero_workload, rq_reason = [],
     rq_severity = [], rq_environment = [], rq_message = [], rq_labels = Map.empty,
     rq_annotations = Map.empty, rq_groupKey = [], rq_at = 0, rq_fingerprint = [],
     rq_fingerprints = [], rq_triggerKey = [], rq_coalescedWorkloads = []\<rparr>"

definition SeverityCritical :: string where
  "SeverityCritical = ''critical''"

definition IsCritical :: "request \<Rightarrow> bool" where
  "IsCritical r \<longleftrightarrow> to_lower (rq_severity r) = to_lower SeverityCritical"

record failure_event =
  fe_workload :: workload
  fe_engine :: string
  fe_reason :: string
  fe_message :: string
  fe_when :: gotime

definition FromFailureEvent :: "(string \<Rightarrow> string) \<Rightarrow> failure_event \<Rightarrow> request" where
  "FromFailureEvent sum8 fe =
     (let w = fe_workload fe;
          r = zero_request\<lparr>rq_source := ''gitops-failure'',
                rq_title := wl_kind w @ ''/'' @ wl_name w @ '' '' @ fe_reason fe,
                rq_workload := w, rq_reason := fe_reason fe, rq_message := fe_message fe,
                rq_at := fe_when fe\<rparr>;
          r1 = (if Ref w \<noteq> [] then r\<lparr>rq_triggerKey := Ref w @ '':'' @ fe_reason fe\<rparr> else r);
          key = (if rq_triggerKey r1 = [] then rq_title r1 else rq_triggerKey r1);
          fp = DeriveFingerprint sum8 GitOpsFingerprintPrefix key
      in r1\<lparr>rq_fingerprint := fp, rq_fingerprints := [fp]\<rparr>)"

text \<open>A GitOps failure always carries a fingerprint, and one no alert source can resolve.\<close>

lemma FromFailureEvent_derived:
  "Derived (rq_fingerprint (FromFailureEvent sum8 fe))
   \<and> rq_fingerprints (FromFailureEvent sum8 fe) = [rq_fingerprint (FromFailureEvent sum8 fe)]"
  by (simp add: FromFailureEvent_def Let_def Derived_DeriveFingerprint)

end
