(* ===== verification/RecurrenceGate.thy ===== *)
theory RecurrenceGate
  imports Requests LedgerReads
begin

text \<open>
  \<open>internal/investigate/recurrence.go\<close>: the gate that skips re-investigating a trigger, either
  for the machine's cooldown or for a human's standing silence. It reads the ledger through the
  interface \<open>RecurrenceStats\<close>, stated here as the locale \<open>recurrence_stats\<close> with what a silence
  and a negative vote do to the snapshot; the client lemmas are proved once in the locale and hold
  for the ledger by interpretation.
\<close>

section \<open>The decision\<close>

datatype recurrence_decision =
    recurrenceOff | recurrenceFirstLook | recurrenceCooldownLapsed | recurrenceNoAnswer
  | recurrenceContested | recurrenceSilenced | recurrenceSuppressed

definition suppressed :: "recurrence_decision \<Rightarrow> bool" where
  "suppressed d \<longleftrightarrow> d = recurrenceSuppressed \<or> d = recurrenceSilenced"

text \<open>The gate is its cooldown; \<open>None\<close> is the nil gate. \<open>None\<close> for the ledger is no history.\<close>

definition priorForTrigger :: "(string \<Rightarrow> trigger_recurrence) option \<Rightarrow> string \<Rightarrow> trigger_recurrence" where
  "priorForTrigger history tk = (case history of
     None \<Rightarrow> zero_recurrence | Some rec \<Rightarrow> if tk = [] then zero_recurrence else rec tk)"

definition decide :: "duration option \<Rightarrow> request \<Rightarrow> trigger_recurrence \<Rightarrow> gotime \<Rightarrow> recurrence_decision" where
  "decide g req prior now = (case g of
     None \<Rightarrow> recurrenceOff
   | Some cooldown \<Rightarrow>
       if rq_triggerKey req = [] then recurrenceOff
       else if now < tr_silencedUntil prior \<and> \<not> IsCritical req \<and> SilenceOutranksFeedback prior
       then recurrenceSilenced
       else if cooldown \<le> 0 then recurrenceOff
       else if tr_count prior = 0 then recurrenceFirstLook
       else if time_sub now (tr_last prior) \<ge> cooldown then recurrenceCooldownLapsed
       else if \<not> Concluded prior then recurrenceNoAnswer
       else if Contested prior then recurrenceContested
       else recurrenceSuppressed)"

section \<open>The ledger behind the gate\<close>

locale recurrence_stats =
  fixes recurrence :: "'s \<Rightarrow> string \<Rightarrow> trigger_recurrence"
    and silence :: "string \<Rightarrow> duration \<Rightarrow> gotime \<Rightarrow> 's \<Rightarrow> 's"
    and accepts :: "string \<Rightarrow> duration \<Rightarrow> 's \<Rightarrow> bool"
    and downvote :: "string \<Rightarrow> string \<Rightarrow> gotime \<Rightarrow> 's \<Rightarrow> 's"
    and live :: "'s \<Rightarrow> bool"
  assumes silence_recorded: "live s \<Longrightarrow> accepts tk w s \<Longrightarrow>
      tr_silencedUntil (recurrence (silence tk w t s) tk) = t + w
      \<and> tr_silencedAt (recurrence (silence tk w t s) tk) = t"
    and silence_keeps_votes: "live s \<Longrightarrow> accepts tk w s \<Longrightarrow>
      tr_feedbackDown (recurrence (silence tk w t s) tk) = tr_feedbackDown (recurrence s tk)
      \<and> tr_feedbackDownLatest (recurrence (silence tk w t s) tk) = tr_feedbackDownLatest (recurrence s tk)"
    and downvote_recorded: "live s \<Longrightarrow> tk \<noteq> [] \<Longrightarrow> 0 < t \<Longrightarrow>
      0 < tr_feedbackDown (recurrence (downvote tk u t s) tk)
      \<and> t \<le> tr_feedbackDownLatest (recurrence (downvote tk u t s) tk)"
    and downvote_keeps_silence: "live s \<Longrightarrow>
      tr_silencedAt (recurrence (downvote tk u t s) tk) = tr_silencedAt (recurrence s tk)"
begin

text \<open>
  A silence recorded after every standing negative vote mutes each firing of the trigger below
  critical until its window closes, whatever the cooldown.
\<close>

lemma silence_mutes:
  assumes "live s" and "accepts tk w s" and "rq_triggerKey req = tk" and "tk \<noteq> []" and "\<not> IsCritical req"
    and "now < t + w" and "0 < t"
    and "0 < tr_feedbackDown (recurrence s tk) \<Longrightarrow>
      0 < tr_feedbackDownLatest (recurrence s tk) \<and> tr_feedbackDownLatest (recurrence s tk) < t"
  shows "decide (Some cooldown) req (recurrence (silence tk w t s) tk) now = recurrenceSilenced"
  using assms silence_recorded [OF assms(1,2), of t] silence_keeps_votes [OF assms(1,2), of t]
  by (auto simp: decide_def SilenceOutranksFeedback_def Contested_def)

text \<open>A negative vote cast after the silence re-arms the very next firing, of any severity.\<close>

lemma downvote_rearms:
  assumes "live s" and "rq_triggerKey req = tk" and "tk \<noteq> []" and "0 < t"
    and "tr_silencedAt (recurrence s tk) \<le> t"
  shows "\<not> suppressed (decide (Some cooldown) req (recurrence (downvote tk u t s) tk) now)"
  using assms downvote_recorded [OF assms(1,3,4), of u] downvote_keeps_silence [OF assms(1), of tk u t]
  by (auto simp: decide_def suppressed_def SilenceOutranksFeedback_def Contested_def)

end

section \<open>The outcome ledger provides it\<close>

definition ledger_silence :: "string \<Rightarrow> string \<Rightarrow> duration \<Rightarrow> gotime \<Rightarrow> store \<Rightarrow> store" where
  "ledger_silence user tk w t s = snd (Silence AppendOk tk w user t s)"

definition ledger_accepts :: "string \<Rightarrow> duration \<Rightarrow> store \<Rightarrow> bool" where
  "ledger_accepts tk w s \<longleftrightarrow> tk \<noteq> [] \<and> 0 < w \<and> w \<le> max_duration
     \<and> (st_maxSilenceWindow s > 0 \<longrightarrow> w \<le> st_maxSilenceWindow s)"

definition ledger_downvote :: "string \<Rightarrow> string \<Rightarrow> gotime \<Rightarrow> store \<Rightarrow> store" where
  "ledger_downvote tk user t s = snd (Feedback AppendOk tk ''down'' user t s)"

lemma ledger_silence_state:
  assumes "enabled s" and "ledger_accepts tk w s"
  shows "enabled (ledger_silence u tk w t s)"
    and "st_state (ledger_silence u tk w t s) = (st_state s)\<lparr>l_silences := (l_silences (st_state s))(tk \<mapsto>
      \<lparr>si_at = t, si_until = t + w\<rparr>)\<rparr>"
proof -
  have p: "parse_duration (duration_string w) = Some w"
    using assms(2) by (intro parse_duration_string) (simp_all add: ledger_accepts_def)
  show "enabled (ledger_silence u tk w t s)"
    and "st_state (ledger_silence u tk w t s) = (st_state s)\<lparr>l_silences := (l_silences (st_state s))(tk \<mapsto>
      \<lparr>si_at = t, si_until = t + w\<rparr>)\<rparr>"
    using assms by (auto simp: ledger_silence_def ledger_accepts_def Silence_def Let_def durably_cases
        applySilence_def p)
qed

lemma ledger_downvote_state:
  assumes "enabled s"
  shows "enabled (ledger_downvote tk u t s)"
    and "st_state (ledger_downvote tk u t s) = applyFeedback
      (zero_event\<lparr>ev_event := ''feedback'', ev_triggerKey := tk, ev_kind := ''down'', ev_user := u, ev_at := t\<rparr>)
      (st_state s)"
  using assms by (simp_all add: ledger_downvote_def Feedback_def Let_def durably_cases)

text \<open>After a negative vote the table holds one by this user that is at least as recent.\<close>

lemma applyFeedback_down_vote:
  assumes "tk \<noteq> []"
  shows "\<exists>v. map_of (l_votes (applyFeedback (zero_event\<lparr>ev_event := ''feedback'', ev_triggerKey := tk,
      ev_kind := ''down'', ev_user := u, ev_at := t\<rparr>) L)) (vote_key tk u) = Some v
    \<and> fv_rating v = ''down'' \<and> t \<le> fv_at v"
  using assms
  by (auto simp: applyFeedback_def Let_def zero_event_def update_conv' split: option.split)

lemma latest_fold:
  "fold (\<lambda>(k, v) m. if fv_at v > m then fv_at v else m) vs a \<ge> a
   \<and> (\<forall>(k, v) \<in> set vs. fv_at v \<le> fold (\<lambda>(k, v) m. if fv_at v > m then fv_at v else m) vs a)"
proof (induction vs arbitrary: a)
  case (Cons kv vs)
  obtain k v where "kv = (k, v)" by (cases kv)
  then show ?case using Cons [of "if fv_at v > a then fv_at v else a"] by (auto split: if_splits)
qed simp

lemma recurrence_counts_vote:
  assumes "map_of (l_votes L) (vote_key tk u) = Some v" and "fv_rating v = ''down''"
  shows "0 < tr_feedbackDown (recurrence_of L tk)" and "fv_at v \<le> tr_feedbackDownLatest (recurrence_of L tk)"
proof -
  let ?downs = "filter (\<lambda>(k, v). fv_rating v = ''down'' \<and> has_prefix k (tk @ [CHR 0x00])) (l_votes L)"
  have "has_prefix (vote_key tk u) (tk @ [CHR 0x00])" by (auto simp: vote_key_def has_prefix_iff)
  then have "(vote_key tk u, v) \<in> set ?downs" using map_of_SomeD [OF assms(1)] assms(2) by simp
  then have "?downs \<noteq> []" and "fv_at v \<le> fold (\<lambda>(k, v) m. if fv_at v > m then fv_at v else m) ?downs 0"
    using latest_fold [where vs = ?downs and a = 0] by (auto simp del: set_filter)
  then show "0 < tr_feedbackDown (recurrence_of L tk)" and "fv_at v \<le> tr_feedbackDownLatest (recurrence_of L tk)"
    by (simp_all add: recurrence_of_def Let_def)
qed

interpretation ledger_stats: recurrence_stats Recurrence "ledger_silence u" ledger_accepts ledger_downvote enabled
  for u
proof unfold_locales
  fix s :: store and tk u :: string and t w :: int
  assume s: "enabled s"
  { assume a: "ledger_accepts tk w s"
    note st = ledger_silence_state [OF s a, of u t]
    have "tk \<noteq> []" using a by (simp add: ledger_accepts_def)
    then show "tr_silencedUntil (Recurrence (ledger_silence u tk w t s) tk) = t + w
        \<and> tr_silencedAt (Recurrence (ledger_silence u tk w t s) tk) = t"
      and "tr_feedbackDown (Recurrence (ledger_silence u tk w t s) tk) = tr_feedbackDown (Recurrence s tk)
        \<and> tr_feedbackDownLatest (Recurrence (ledger_silence u tk w t s) tk) = tr_feedbackDownLatest (Recurrence s tk)"
      using s st by (simp_all add: Recurrence_def recurrence_of_def Let_def) }
  { assume tk: "tk \<noteq> []" and "0 < t"
    obtain v where "map_of (l_votes (st_state (ledger_downvote tk u t s))) (vote_key tk u) = Some v"
      "fv_rating v = ''down''" "t \<le> fv_at v"
      using applyFeedback_down_vote [OF tk, where u = u and t = t and L = "st_state s"] by (auto simp: ledger_downvote_state [OF s])
    with recurrence_counts_vote [where L = "st_state (ledger_downvote tk u t s)" and tk = tk and u = u and v = v]
    show "0 < tr_feedbackDown (Recurrence (ledger_downvote tk u t s) tk)
        \<and> t \<le> tr_feedbackDownLatest (Recurrence (ledger_downvote tk u t s) tk)"
      using tk by (auto simp: Recurrence_def ledger_downvote_state(1) [OF s]) }
  show "tr_silencedAt (Recurrence (ledger_downvote tk u t s) tk) = tr_silencedAt (Recurrence s tk)"
    using s by (simp add: Recurrence_def ledger_downvote_state recurrence_silence)
qed

section \<open>Newest human wins\<close>

text \<open>
  A silence the ledger accepts, cast after every standing negative vote on the trigger, mutes
  each later firing of the trigger below critical until exactly its window closes, whatever the
  cooldown is and whatever the trigger's history says; a critical firing is not silenced by it.
\<close>

theorem silence_mutes_trigger:
  assumes "enabled s" and "ledger_accepts tk w s" and "rq_triggerKey req = tk" and "0 < t"
    and "0 < tr_feedbackDown (Recurrence s tk) \<Longrightarrow>
      0 < tr_feedbackDownLatest (Recurrence s tk) \<and> tr_feedbackDownLatest (Recurrence s tk) < t"
  shows "decide (Some cooldown) req (Recurrence (ledger_silence user tk w t s) tk) now = recurrenceSilenced
    \<longleftrightarrow> now < t + w \<and> \<not> IsCritical req"
proof (cases "now < t + w \<and> \<not> IsCritical req")
  case True
  then show ?thesis
    using ledger_stats.silence_mutes [OF assms(1,2,3) _ _ _ assms(4,5)] assms(2)
    by (simp add: ledger_accepts_def)
next
  case False
  then show ?thesis
    using ledger_stats.silence_recorded [OF assms(1,2)] by (auto simp: decide_def)
qed

definition demo_request :: request where
  "demo_request = zero_request\<lparr>rq_title := ''PodCrash'', rq_severity := ''warning'', rq_triggerKey := ''tk''\<rparr>"

lemma demo_request_simps [simp]:
  "rq_triggerKey demo_request = ''tk''" "rq_title demo_request = ''PodCrash''" "\<not> IsCritical demo_request"
  by (simp_all add: demo_request_def IsCritical_def SeverityCritical_def to_lower_def ascii_lower_def)

definition demo_ledger :: store where
  "demo_ledger = snd (Feedback AppendOk ''tk'' ''down'' ''bob'' 7 demo_store)"

lemma demo_ledger_facts:
  "enabled demo_ledger" "ledger_accepts ''tk'' hour demo_ledger"
  "tr_feedbackDown (Recurrence demo_ledger ''tk'') = 1" "tr_feedbackDownLatest (Recurrence demo_ledger ''tk'') = 7"
  by (simp_all add: demo_ledger_def demo_store_def ledger_accepts_def Feedback_def Let_def durably_cases enabled_def
      applyFeedback_def creditFeedback_def reset_state_def zero_event_def Recurrence_def recurrence_of_def vote_key_def
      hour_def max_duration_def)

lemma demo_ledger_silence: "l_silences (st_state demo_ledger) = Map.empty"
  by (simp add: demo_ledger_def demo_store_def Feedback_def Let_def durably_cases enabled_def
      applyFeedback_def creditFeedback_def reset_state_def zero_event_def vote_key_def)

lemma silence_mutes_trigger_witness:
  "decide (Some 0) demo_request (Recurrence (ledger_silence ''ann'' ''tk'' hour 8 demo_ledger) ''tk'') 9
     = recurrenceSilenced"
  using silence_mutes_trigger [where s = demo_ledger and tk = "''tk''" and w = hour and req = demo_request
      and t = 8 and cooldown = 0 and user = "''ann''" and now = 9]
  by (simp add: demo_ledger_facts) (simp add: hour_def)

text \<open>
  A negative vote cast no earlier than the trigger's standing silence re-arms the next firing:
  the gate lets it through at any time, for any cooldown and severity.
\<close>

theorem downvote_rearms_trigger:
  assumes "enabled s" and "rq_triggerKey req = tk" and "tk \<noteq> []" and "0 < t"
    and "tr_silencedAt (Recurrence s tk) \<le> t"
  shows "\<not> suppressed (decide (Some cooldown) req (Recurrence (ledger_downvote tk user t s) tk) now)"
  by (rule ledger_stats.downvote_rearms [OF assms])

lemma downvote_rearms_trigger_witness:
  "\<not> suppressed (decide (Some hour) demo_request
     (Recurrence (ledger_downvote ''tk'' ''cat'' 9 (ledger_silence ''ann'' ''tk'' hour 8 demo_ledger)) ''tk'') 10)"
  using downvote_rearms_trigger [where s = "ledger_silence ''ann'' ''tk'' hour 8 demo_ledger" and tk = "''tk''"
      and req = demo_request and t = 9 and cooldown = hour and user = "''cat''" and now = 10]
    ledger_silence_state [OF demo_ledger_facts(1,2)] ledger_stats.silence_recorded [OF demo_ledger_facts(1,2)]
  by simp

end
