(* ===== verification/Coalescer.thy ===== *)
theory Coalescer
  imports RecurrenceGate
begin

text \<open>
  \<open>internal/coalesce/coalescer.go\<close>: correlated incidents are folded into one investigation per
  correlation key. \<open>Add\<close> suppresses, flushes or buffers one incident, \<open>sweep\<close> flushes the batches
  that are quiet or old. A batch handed to the sink, the suppression log line and the counters are
  effects in the order of the code; the clock reading is an argument, and the pending map is an
  association list because the sweep iterates over it. \<open>reaches\<close> is the relation of all runs.
\<close>

section \<open>State\<close>

record coalesce_config =
  cc_debounce :: duration
  cc_maxWait :: duration
  cc_maxBatch :: int
  cc_cooldown :: duration
  cc_correlationLabels :: "string list"

record batch =
  ba_incidents :: "request list"
  ba_firstSeen :: gotime
  ba_lastSeen :: gotime

record cooldown =
  cd_last :: gotime
  cd_seen :: "string set"

record coalescer =
  co_cfg :: coalesce_config
  co_pending :: "(string \<times> batch) list"
  co_recent :: "string \<rightharpoonup> cooldown"

text \<open>What a call does besides the state: log and counters, and the sink \<open>out\<close>.\<close>

datatype effect =
    AlertsSuppressed request
  | AlertsCoalesced nat
  | CoalesceBatchSize nat
  | Out "request list"

type_synonym recurrence_stats = "(string \<Rightarrow> trigger_recurrence) option"

definition New_coalescer :: "coalesce_config \<Rightarrow> coalescer" where
  "New_coalescer cfg = \<lparr>co_cfg = cfg, co_pending = [], co_recent = Map.empty\<rparr>"

section \<open>Keys and digests\<close>

definition coalesce_key :: "coalesce_config \<Rightarrow> request \<Rightarrow> string" where
  "coalesce_key cfg r =
     (let ns = wl_namespace (rq_workload r);
          parts = map (mget [] (rq_labels r)) (cc_correlationLabels cfg)
      in if cc_correlationLabels cfg \<noteq> [] \<and> (\<exists>v \<in> set parts. v \<noteq> []) then ns @ ''/'' @ str_join ''/'' parts
         else if rq_groupKey r \<noteq> [] then rq_groupKey r
         else ns @ ''/'' @ rq_title r)"

definition times_sign :: string where
  "times_sign = [CHR 0xC3, CHR 0x97]"

definition Summarize :: "request list \<Rightarrow> string" where
  "Summarize reqs =
     (let titles = map rq_title reqs;
          names = sort (remdups titles);
          parts = map (\<lambda>n. n @ times_sign @ fmt_int (count (mset titles) n)) names
      in fmt_int (length reqs) @ '' correlated alerts: '' @ str_join '', '' parts)"

definition maxConstituents :: nat where
  "maxConstituents = 20"

definition constituentID :: "request \<Rightarrow> string" where
  "constituentID r = (if Ref (rq_workload r) \<noteq> [] then Ref (rq_workload r) else rq_title r)"

fun constituents_loop :: "request list \<Rightarrow> string set \<Rightarrow> string list \<Rightarrow> string list" where
  "constituents_loop [] seen out = out"
| "constituents_loop (r # rs) seen out =
     (let i = constituentID r in
      if i = [] then constituents_loop rs seen out
      else if i \<in> seen then constituents_loop rs seen out
      else let out' = out @ [i] in
        if length out' \<ge> maxConstituents then out' else constituents_loop rs (insert i seen) out')"

definition Constituents :: "request list \<Rightarrow> string list" where
  "Constituents batch =
     (if length batch < 2 then []
      else let rep = constituentID (hd batch) in
        constituents_loop (tl batch) (if rep \<noteq> [] then {rep} else {}) [])"

section \<open>The handlers\<close>

definition emit :: "request list \<Rightarrow> effect list" where
  "emit batch = (if length batch > 1 then [AlertsCoalesced (length batch - 1)] else [])
     @ [CoalesceBatchSize (length batch), Out batch]"

definition withinCooldown :: "string \<Rightarrow> gotime \<Rightarrow> coalescer \<Rightarrow> bool" where
  "withinCooldown k now c = (case co_recent c k of None \<Rightarrow> False
     | Some cd \<Rightarrow> cc_cooldown (co_cfg c) > 0 \<and> time_sub now (cd_last cd) < cc_cooldown (co_cfg c))"

definition contested_request :: "recurrence_stats \<Rightarrow> request \<Rightarrow> bool" where
  "contested_request outcome r = (case outcome of None \<Rightarrow> False
     | Some rec \<Rightarrow> rq_triggerKey r \<noteq> [] \<and> Contested (rec (rq_triggerKey r)))"

definition newCriticalDuringCooldown :: "string \<Rightarrow> request \<Rightarrow> coalescer \<Rightarrow> bool" where
  "newCriticalDuringCooldown k r c = (if \<not> IsCritical r then False
     else case co_recent c k of None \<Rightarrow> True | Some cd \<Rightarrow> rq_title r \<notin> cd_seen cd)"

definition markFlushed :: "string \<Rightarrow> gotime \<Rightarrow> request list \<Rightarrow> coalescer \<Rightarrow> coalescer" where
  "markFlushed k now batch c =
     (let seen = (case co_recent c k of None \<Rightarrow> {} | Some cd \<Rightarrow> cd_seen cd)
      in c\<lparr>co_recent := (co_recent c)(k \<mapsto> \<lparr>cd_last = now, cd_seen = seen \<union> rq_title ` set batch\<rparr>)\<rparr>)"

definition drain :: "string \<Rightarrow> coalescer \<Rightarrow> coalescer" where
  "drain k c = c\<lparr>co_pending := AList.delete k (co_pending c)\<rparr>"

definition Add :: "recurrence_stats \<Rightarrow> gotime \<Rightarrow> request \<Rightarrow> coalescer \<Rightarrow> coalescer \<times> effect list" where
  "Add outcome now r c =
     (let k = coalesce_key (co_cfg c) r;
          suppress = (withinCooldown k now c \<and> \<not> newCriticalDuringCooldown k r c);
          bypass = (suppress \<and> contested_request outcome r)
      in if suppress \<and> \<not> bypass then (c, [AlertsSuppressed r])
         else if IsCritical r \<and> \<not> bypass
         then (let flush = (case map_of (co_pending c) k of None \<Rightarrow> [r] | Some b \<Rightarrow> ba_incidents b @ [r])
               in (markFlushed k now flush (drain k c), emit flush))
         else (let b = (case map_of (co_pending c) k of
                    None \<Rightarrow> \<lparr>ba_incidents = [], ba_firstSeen = now, ba_lastSeen = 0\<rparr> | Some b \<Rightarrow> b);
                   b' = b\<lparr>ba_incidents := ba_incidents b @ [r], ba_lastSeen := now\<rparr>
               in if cc_maxBatch (co_cfg c) > 0 \<and> int (length (ba_incidents b')) \<ge> cc_maxBatch (co_cfg c)
                  then (markFlushed k now (ba_incidents b') (drain k c), emit (ba_incidents b'))
                  else (c\<lparr>co_pending := AList.update k b' (co_pending c)\<rparr>, [])))"

definition evictExpiredCooldowns :: "gotime \<Rightarrow> coalescer \<Rightarrow> coalescer" where
  "evictExpiredCooldowns now c = c\<lparr>co_recent := (\<lambda>k. case co_recent c k of None \<Rightarrow> None
     | Some cd \<Rightarrow> if cc_cooldown (co_cfg c) \<le> 0 \<or> time_sub now (cd_last cd) \<ge> cc_cooldown (co_cfg c)
         then None else Some cd)\<rparr>"

definition batch_due :: "coalesce_config \<Rightarrow> gotime \<Rightarrow> batch \<Rightarrow> bool" where
  "batch_due cfg now b \<longleftrightarrow> time_sub now (ba_lastSeen b) \<ge> cc_debounce cfg
     \<or> (cc_maxWait cfg > 0 \<and> time_sub now (ba_firstSeen b) \<ge> cc_maxWait cfg)"

fun sweep_loop :: "gotime \<Rightarrow> (string \<times> batch) list \<Rightarrow> coalescer \<Rightarrow> coalescer \<times> request list list" where
  "sweep_loop now [] c = (c, [])"
| "sweep_loop now ((k, b) # bs) c =
     (if batch_due (co_cfg c) now b
      then (case sweep_loop now bs (markFlushed k now (ba_incidents b) (drain k c)) of
              (c', flushes) \<Rightarrow> (c', ba_incidents b # flushes))
      else sweep_loop now bs c)"

definition sweep :: "gotime \<Rightarrow> coalescer \<Rightarrow> coalescer \<times> effect list" where
  "sweep now c = (case sweep_loop now (co_pending c) c of
     (c', flushes) \<Rightarrow> (evictExpiredCooldowns now c', concat (map emit flushes)))"

section \<open>One call\<close>

text \<open>The incidents already waiting under a key; every flush in \<open>Add\<close> is these and the new one.\<close>

definition waiting :: "string \<Rightarrow> coalescer \<Rightarrow> request list" where
  "waiting k c = (case map_of (co_pending c) k of None \<Rightarrow> [] | Some b \<Rightarrow> ba_incidents b)"

definition covered :: "string \<Rightarrow> gotime \<Rightarrow> request \<Rightarrow> coalescer \<Rightarrow> bool" where
  "covered k now r c \<longleftrightarrow> withinCooldown k now c \<and> \<not> newCriticalDuringCooldown k r c"

definition first_seen :: "string \<Rightarrow> gotime \<Rightarrow> coalescer \<Rightarrow> gotime" where
  "first_seen k now c = (case map_of (co_pending c) k of None \<Rightarrow> now | Some b \<Rightarrow> ba_firstSeen b)"

lemma Add_alt:
  fixes c :: coalescer and r :: request
  defines "k \<equiv> coalesce_key (co_cfg c) r"
  shows "Add outcome now r c =
    (if covered k now r c \<and> \<not> contested_request outcome r then (c, [AlertsSuppressed r])
     else if IsCritical r \<and> \<not> covered k now r c
       \<or> cc_maxBatch (co_cfg c) > 0 \<and> int (length (waiting k c @ [r])) \<ge> cc_maxBatch (co_cfg c)
     then (markFlushed k now (waiting k c @ [r]) (drain k c), emit (waiting k c @ [r]))
     else (c\<lparr>co_pending := AList.update k
            \<lparr>ba_incidents = waiting k c @ [r], ba_firstSeen = first_seen k now c, ba_lastSeen = now\<rparr>
            (co_pending c)\<rparr>, []))"
proof (cases "map_of (co_pending c) k")
  case None
  then show ?thesis
    by (cases "withinCooldown k now c"; cases "newCriticalDuringCooldown k r c"; cases "contested_request outcome r")
      (simp_all add: Add_def Let_def k_def [symmetric] waiting_def first_seen_def covered_def)
next
  case (Some b)
  obtain i f l where b: "b = \<lparr>ba_incidents = i, ba_firstSeen = f, ba_lastSeen = l\<rparr>" by (cases b)
  show ?thesis
    by (cases "withinCooldown k now c"; cases "newCriticalDuringCooldown k r c"; cases "contested_request outcome r")
      (simp_all add: Add_def Let_def k_def [symmetric] waiting_def first_seen_def covered_def Some b)
qed

lemma Add_cases [consumes 1, case_names suppressed flushed buffered]:
  assumes "Add outcome now r c = (c', es)"
  defines "k \<equiv> coalesce_key (co_cfg c) r"
  obtains "covered k now r c" and "\<not> contested_request outcome r" and "c' = c" and "es = [AlertsSuppressed r]"
  | "covered k now r c \<longrightarrow> contested_request outcome r"
    and "c' = markFlushed k now (waiting k c @ [r]) (drain k c)" and "es = emit (waiting k c @ [r])"
  | b where "covered k now r c \<longrightarrow> contested_request outcome r" and "IsCritical r \<longrightarrow> covered k now r c"
    and "cc_maxBatch (co_cfg c) > 0 \<longrightarrow> int (length (waiting k c @ [r])) < cc_maxBatch (co_cfg c)"
    and "b = \<lparr>ba_incidents = waiting k c @ [r], ba_firstSeen = first_seen k now c, ba_lastSeen = now\<rparr>"
    and "c' = c\<lparr>co_pending := AList.update k b (co_pending c)\<rparr>" and "es = []"
proof (cases "covered k now r c \<and> \<not> contested_request outcome r")
  case True
  then have "(c', es) = (c, [AlertsSuppressed r])"
    using assms(1) by (simp only: Add_alt k_def [symmetric] if_True simp_thms)
  with True that(1) show ?thesis by blast
next
  case a: False
  note add = assms(1) [unfolded Add_alt, folded k_def, unfolded if_not_P [OF a]]
  show ?thesis
  proof (cases "IsCritical r \<and> \<not> covered k now r c
       \<or> cc_maxBatch (co_cfg c) > 0 \<and> int (length (waiting k c @ [r])) \<ge> cc_maxBatch (co_cfg c)")
    case True
    with add have "(c', es) = (markFlushed k now (waiting k c @ [r]) (drain k c), emit (waiting k c @ [r]))"
      by (simp only: if_True)
    with a that(2) show ?thesis by blast
  next
    case False
    from add [unfolded if_not_P [OF False]] have "c' = c\<lparr>co_pending := AList.update k
            \<lparr>ba_incidents = waiting k c @ [r], ba_firstSeen = first_seen k now c, ba_lastSeen = now\<rparr>
            (co_pending c)\<rparr>" and "es = []" by blast+
    moreover have "covered k now r c \<longrightarrow> contested_request outcome r" and "IsCritical r \<longrightarrow> covered k now r c"
      and "cc_maxBatch (co_cfg c) > 0 \<longrightarrow> int (length (waiting k c @ [r])) < cc_maxBatch (co_cfg c)"
      using a False by (meson not_le)+
    ultimately show ?thesis using that(3) [OF _ _ _ refl] by blast
  qed
qed

fun outs :: "effect list \<Rightarrow> request list list" where
  "outs [] = []"
| "outs (Out b # es) = b # outs es"
| "outs (_ # es) = outs es"

fun suppressions :: "effect list \<Rightarrow> request list" where
  "suppressions [] = []"
| "suppressions (AlertsSuppressed r # es) = r # suppressions es"
| "suppressions (_ # es) = suppressions es"

lemma outs_append [simp]: "outs (es @ fs) = outs es @ outs fs"
  by (induction es rule: outs.induct) simp_all

lemma suppressions_append [simp]: "suppressions (es @ fs) = suppressions es @ suppressions fs"
  by (induction es rule: suppressions.induct) simp_all

lemma outs_emit [simp]: "outs (emit b) = [b]"
  by (simp add: emit_def)

lemma suppressions_emit [simp]: "suppressions (emit b) = []"
  by (simp add: emit_def)

lemma outs_emits [simp]: "outs (concat (map emit bs)) = bs"
  by (induction bs) simp_all

text \<open>
  \<open>reaches ct cfg t rs ss fs c\<close>: some run from a new coalescer, on a clock that does not go back and
  reads \<open>t\<close> now, took in \<open>rs\<close>, suppressed \<open>ss\<close>, handed the batches \<open>fs\<close> (each with its instant) to
  the sink and is in state \<open>c\<close>. Without \<open>ct\<close> no alert's trigger is contested when it arrives.
\<close>

inductive reaches :: "bool \<Rightarrow> coalesce_config \<Rightarrow> gotime \<Rightarrow> request list \<Rightarrow> request list \<Rightarrow>
    (gotime \<times> request list) list \<Rightarrow> coalescer \<Rightarrow> bool" for ct :: bool and cfg :: coalesce_config where
  reaches_New: "reaches ct cfg t [] [] [] (New_coalescer cfg)"
| reaches_Add: "reaches ct cfg t rs ss fs c \<Longrightarrow> t \<le> now \<Longrightarrow> (contested_request outcome r \<Longrightarrow> ct) \<Longrightarrow>
    Add outcome now r c = (c', es) \<Longrightarrow>
    reaches ct cfg now (rs @ [r]) (ss @ suppressions es) (fs @ map (Pair now) (outs es)) c'"
| reaches_sweep: "reaches ct cfg t rs ss fs c \<Longrightarrow> t \<le> now \<Longrightarrow> sweep now c = (c', es) \<Longrightarrow>
    reaches ct cfg now rs ss (fs @ map (Pair now) (outs es)) c'"

section \<open>Nothing is lost\<close>

definition buffered :: "coalescer \<Rightarrow> request list" where
  "buffered c = concat (map (ba_incidents \<circ> snd) (co_pending c))"

definition batches_ok :: "coalesce_config \<Rightarrow> coalescer \<Rightarrow> bool" where
  "batches_ok cfg c \<longleftrightarrow> co_cfg c = cfg \<and> distinct (map fst (co_pending c))
     \<and> (\<forall>(k, b) \<in> set (co_pending c). ba_incidents b \<noteq> [] \<and> (\<forall>r \<in> set (ba_incidents b). coalesce_key cfg r = k)
         \<and> (cc_maxBatch cfg > 0 \<longrightarrow> int (length (ba_incidents b)) < cc_maxBatch cfg))"

definition batch_ok :: "coalesce_config \<Rightarrow> request list \<Rightarrow> bool" where
  "batch_ok cfg b \<longleftrightarrow> b \<noteq> [] \<and> (\<exists>k. \<forall>r \<in> set b. coalesce_key cfg r = k)
     \<and> (cc_maxBatch cfg > 0 \<longrightarrow> int (length b) \<le> cc_maxBatch cfg)"

definition accounted :: "coalesce_config \<Rightarrow> request list \<Rightarrow> request list \<Rightarrow> (gotime \<times> request list) list \<Rightarrow>
    coalescer \<Rightarrow> bool" where
  "accounted cfg rs ss fs c \<longleftrightarrow> batches_ok cfg c \<and> (\<forall>(t, b) \<in> set fs. batch_ok cfg b)
     \<and> mset rs = mset ss + mset (concat (map snd fs)) + mset (buffered c)"

lemma state_frame [simp]:
  "co_cfg (markFlushed k now b c) = co_cfg c" "co_pending (markFlushed k now b c) = co_pending c"
  "co_cfg (drain k c) = co_cfg c" "co_recent (drain k c) = co_recent c"
  "co_cfg (evictExpiredCooldowns now c) = co_cfg c" "co_pending (evictExpiredCooldowns now c) = co_pending c"
  by (simp_all add: markFlushed_def drain_def evictExpiredCooldowns_def Let_def)

lemma recent_markFlushed: "co_recent (markFlushed k now b c) = (co_recent c)(k \<mapsto> \<lparr>cd_last = now,
    cd_seen = (case co_recent c k of None \<Rightarrow> {} | Some cd \<Rightarrow> cd_seen cd) \<union> rq_title ` set b\<rparr>)"
  by (simp add: markFlushed_def Let_def)

lemma buffered_frame [simp]:
  "buffered (markFlushed k now b c) = buffered c" "buffered (evictExpiredCooldowns now c) = buffered c"
  by (simp_all add: buffered_def)

lemma concat_delete:
  fixes m :: "(string \<times> batch) list"
  assumes "distinct (map fst m)"
  shows "mset (concat (map (ba_incidents \<circ> snd) m))
    = mset (case map_of m k of None \<Rightarrow> [] | Some b \<Rightarrow> ba_incidents b)
      + mset (concat (map (ba_incidents \<circ> snd) (AList.delete k m)))"
  using assms
proof (induction m)
  case (Cons p m)
  obtain a b where p: "p = (a, b)" by (cases p)
  show ?case
  proof (cases "a = k")
    case True
    then have "k \<notin> fst ` set m" using Cons.prems p by simp
    then show ?thesis using True p by (simp add: AList.delete_idem)
  next
    case False
    then show ?thesis using Cons p by simp
  qed
qed simp

lemma buffered_drain:
  "distinct (map fst (co_pending c)) \<Longrightarrow>
     mset (buffered c) = mset (waiting k c) + mset (buffered (drain k c))"
  by (simp add: buffered_def waiting_def drain_def concat_delete)

lemma buffered_update:
  assumes "distinct (map fst (co_pending c))" and "ba_incidents b = waiting k c @ [r]"
  shows "mset (buffered (c\<lparr>co_pending := AList.update k b (co_pending c)\<rparr>)) = mset (buffered c) + {#r#}"
proof -
  have "mset (concat (map (ba_incidents \<circ> snd) (AList.update k b m))) =
      mset (concat (map (ba_incidents \<circ> snd) m)) + {#r#}"
    if "distinct (map fst m)"
      "ba_incidents b = (case map_of m k of None \<Rightarrow> [] | Some b \<Rightarrow> ba_incidents b) @ [r]" for m
    using that
  proof (induction m)
    case (Cons p m)
    obtain a d where p: "p = (a, d)" by (cases p)
    show ?case using Cons p by (cases "a = k") simp_all
  qed simp
  then show ?thesis using assms by (simp add: buffered_def waiting_def)
qed

lemma waiting_ok:
  assumes "batches_ok cfg c"
  shows "\<forall>r \<in> set (waiting k c). coalesce_key cfg r = k"
    and "cc_maxBatch cfg > 0 \<Longrightarrow> int (length (waiting k c)) < cc_maxBatch cfg"
  using assms by (auto simp: batches_ok_def waiting_def split: option.splits dest!: map_of_SomeD)

lemma waiting_of_pending:
  "batches_ok cfg c \<Longrightarrow> (k, b) \<in> set (co_pending c) \<Longrightarrow> waiting k c = ba_incidents b"
  by (simp add: batches_ok_def waiting_def)

lemma set_delete: "set (AList.delete k m) = {p \<in> set m. fst p \<noteq> k}"
  by (auto simp: AList.delete_eq)

lemma batches_ok_flush:
  "batches_ok cfg c \<Longrightarrow> batches_ok cfg (markFlushed k now b (drain k c))"
  by (auto simp: batches_ok_def drain_def AList.distinct_delete set_delete)

lemma accounted_flush:
  assumes "accounted cfg rs ss fs c" and "batch_ok cfg (waiting k c @ new)"
  shows "accounted cfg (rs @ new) ss (fs @ [(now, waiting k c @ new)])
    (markFlushed k now (waiting k c @ new) (drain k c))"
  using assms buffered_drain [of c k] batches_ok_flush [of cfg c k now "waiting k c @ new"]
  by (auto simp: accounted_def batches_ok_def [of _ c] add.assoc add.commute add.left_commute)

lemma set_update_subset: "set (AList.update k v m) \<subseteq> insert (k, v) (set m)"
  by (induction m) auto

lemma batches_ok_update:
  assumes ok: "batches_ok cfg c" and b: "ba_incidents b \<noteq> []" "\<forall>r \<in> set (ba_incidents b). coalesce_key cfg r = k"
    "cc_maxBatch cfg > 0 \<longrightarrow> int (length (ba_incidents b)) < cc_maxBatch cfg"
  shows "batches_ok cfg (c\<lparr>co_pending := AList.update k b (co_pending c)\<rparr>)"
  unfolding batches_ok_def
proof (intro conjI ballI)
  fix x assume "x \<in> set (co_pending (c\<lparr>co_pending := AList.update k b (co_pending c)\<rparr>))"
  then have "x = (k, b) \<or> x \<in> set (co_pending c)"
    using set_update_subset [of k b "co_pending c"] by auto
  then show "case x of (k, b) \<Rightarrow> ba_incidents b \<noteq> [] \<and> (\<forall>r \<in> set (ba_incidents b). coalesce_key cfg r = k)
      \<and> (cc_maxBatch cfg > 0 \<longrightarrow> int (length (ba_incidents b)) < cc_maxBatch cfg)"
    using ok b unfolding batches_ok_def by blast
qed (use ok in \<open>simp_all add: batches_ok_def AList.distinct_update\<close>)

lemma accounted_Add:
  assumes acc: "accounted cfg rs ss fs c" and add: "Add outcome now r c = (c', es)"
  shows "accounted cfg (rs @ [r]) (ss @ suppressions es) (fs @ map (Pair now) (outs es)) c'"
proof -
  let ?k = "coalesce_key (co_cfg c) r"
  have ok: "batches_ok cfg c" and cfg: "co_cfg c = cfg" and dist: "distinct (map fst (co_pending c))"
    using acc by (simp_all add: accounted_def batches_ok_def)
  note w = waiting_ok [OF ok, of ?k]
  have b: "batch_ok cfg (waiting ?k c @ [r])"
    using w cfg by (auto simp: batch_ok_def intro!: exI [of _ ?k])
  from add show ?thesis
  proof (cases rule: Add_cases)
    case suppressed
    then show ?thesis using acc by (simp add: accounted_def)
  next
    case flushed
    then show ?thesis using accounted_flush [OF acc b, of now] by simp
  next
    case (buffered b)
    then have "batches_ok cfg c'"
      unfolding buffered(5) by (intro batches_ok_update [OF ok]) (use w cfg buffered(3,4) in auto)
    then show ?thesis
      using acc buffered buffered_update [OF dist, of b ?k r] by (simp add: accounted_def)
  qed
qed

lemma accounted_sweep_loop:
  assumes "sweep_loop now bs c = (c', flushes)" and "accounted cfg rs ss fs c"
    and "set bs \<subseteq> set (co_pending c)" and "distinct (map fst bs)"
  shows "accounted cfg rs ss (fs @ map (Pair now) flushes) c'"
  using assms
proof (induction now bs c arbitrary: fs c' flushes rule: sweep_loop.induct)
  case (2 now k b bs c)
  have ok: "batches_ok cfg c" using 2(4) by (simp add: accounted_def)
  have w: "waiting k c = ba_incidents b" using waiting_of_pending [OF ok] 2(5) by simp
  show ?case
  proof (cases "batch_due (co_cfg c) now b")
    case True
    have "batch_ok cfg (waiting k c @ [])"
      using ok 2(5) w by (fastforce simp: batch_ok_def batches_ok_def)
    from accounted_flush [OF 2(4) this, of now] w
    have acc: "accounted cfg rs ss (fs @ [(now, ba_incidents b)]) (markFlushed k now (ba_incidents b) (drain k c))"
      by simp
    have "set bs \<subseteq> set (co_pending (markFlushed k now (ba_incidents b) (drain k c)))"
      using 2(5,6) by (auto simp: drain_def set_delete image_iff)
    with 2(1) [OF True _ acc] 2(3,6) True show ?thesis by (auto split: prod.splits)
  next
    case False
    with 2 show ?thesis by auto
  qed
qed simp

lemma accounted_evict: "accounted cfg rs ss fs c \<Longrightarrow> accounted cfg rs ss fs (evictExpiredCooldowns now c)"
  by (simp add: accounted_def batches_ok_def)

lemma sweep_elim:
  assumes "sweep now c = (c', es)"
  obtains c1 where "sweep_loop now (co_pending c) c = (c1, outs es)" and "c' = evictExpiredCooldowns now c1"
    and "suppressions es = []"
proof -
  obtain c1 fl where s: "sweep_loop now (co_pending c) c = (c1, fl)" by (cases "sweep_loop now (co_pending c) c")
  have "suppressions (concat (map emit bs)) = []" for bs by (induction bs) simp_all
  then show ?thesis using that [of c1] assms s by (auto simp: sweep_def)
qed

lemma reaches_accounted: "reaches ct cfg t rs ss fs c \<Longrightarrow> accounted cfg rs ss fs c"
proof (induction rule: reaches.induct)
  case (reaches_New t)
  then show ?case by (simp add: accounted_def batches_ok_def New_coalescer_def buffered_def)
next
  case (reaches_Add t rs ss fs c now outcome r c' es)
  then show ?case by (intro accounted_Add)
next
  case (reaches_sweep t rs ss fs c now c' es)
  from reaches_sweep(3) obtain c1 where c1: "sweep_loop now (co_pending c) c = (c1, outs es)"
    "c' = evictExpiredCooldowns now c1" by (rule sweep_elim)
  show ?case unfolding c1(2)
    by (intro accounted_evict accounted_sweep_loop [OF c1(1) reaches_sweep(4)])
      (use reaches_sweep(4) in \<open>simp_all add: accounted_def batches_ok_def\<close>)
qed

definition demo_config :: coalesce_config where
  "demo_config = \<lparr>cc_debounce = 5, cc_maxWait = 20, cc_maxBatch = 3, cc_cooldown = 10, cc_correlationLabels = []\<rparr>"

definition demo_alert :: "string \<Rightarrow> string \<Rightarrow> request" where
  "demo_alert title severity = zero_request\<lparr>rq_title := title, rq_severity := severity, rq_groupKey := ''g''\<rparr>"

lemma demo_simps [simp]:
  "cc_debounce demo_config = 5" "cc_maxWait demo_config = 20" "cc_maxBatch demo_config = 3"
  "cc_cooldown demo_config = 10" "coalesce_key demo_config (demo_alert a s) = ''g''"
  "rq_title (demo_alert a s) = a" "IsCritical (demo_alert a ''critical'')" "\<not> IsCritical (demo_alert a ''info'')"
  "contested_request None r = False" "co_cfg (New_coalescer demo_config) = demo_config"
  by (simp_all add: demo_config_def coalesce_key_def demo_alert_def IsCritical_def SeverityCritical_def
      to_lower_def ascii_lower_def contested_request_def New_coalescer_def Let_def)

text \<open>Two critical alerts of one key with different names, three instants apart.\<close>

definition demo_first :: coalescer where
  "demo_first = fst (Add None 1 (demo_alert ''Down'' ''critical'') (New_coalescer demo_config))"

definition demo_second :: coalescer where
  "demo_second = fst (Add None 4 (demo_alert ''Slow'' ''critical'') demo_first)"

lemma demo_first_facts:
  "Add None 1 (demo_alert ''Down'' ''critical'') (New_coalescer demo_config)
     = (demo_first, emit [demo_alert ''Down'' ''critical''])"
  "co_recent demo_first = [''g'' \<mapsto> \<lparr>cd_last = 1, cd_seen = {''Down''}\<rparr>]" "co_pending demo_first = []"
  "co_cfg demo_first = demo_config"
  by (simp_all add: demo_first_def Add_alt covered_def withinCooldown_def waiting_def recent_markFlushed)
    (simp_all add: New_coalescer_def drain_def)

lemma demo_second_facts:
  "Add None 4 (demo_alert ''Slow'' ''critical'') demo_first
     = (demo_second, emit [demo_alert ''Slow'' ''critical''])"
  "co_recent demo_second = [''g'' \<mapsto> \<lparr>cd_last = 4, cd_seen = {''Down'', ''Slow''}\<rparr>]"
  "co_pending demo_second = []" "co_cfg demo_second = demo_config"
  by (simp_all add: demo_second_def Add_alt covered_def withinCooldown_def newCriticalDuringCooldown_def
      waiting_def recent_markFlushed demo_first_facts drain_def insert_commute)

lemma demo_run:
  "reaches False demo_config 1 [demo_alert ''Down'' ''critical''] [] [(1, [demo_alert ''Down'' ''critical''])] demo_first"
  "reaches False demo_config 4 [demo_alert ''Down'' ''critical'', demo_alert ''Slow'' ''critical''] []
     [(1, [demo_alert ''Down'' ''critical'']), (4, [demo_alert ''Slow'' ''critical''])] demo_second"
proof -
  show a: "reaches False demo_config 1 [demo_alert ''Down'' ''critical''] []
      [(1, [demo_alert ''Down'' ''critical''])] demo_first"
    using reaches_Add [OF reaches_New [of False demo_config 0] _ _ demo_first_facts(1)] by simp
  show "reaches False demo_config 4 [demo_alert ''Down'' ''critical'', demo_alert ''Slow'' ''critical''] []
     [(1, [demo_alert ''Down'' ''critical'']), (4, [demo_alert ''Slow'' ''critical''])] demo_second"
    using reaches_Add [OF a _ _ demo_second_facts(1)] by simp
qed

text \<open>
  C19: no incident is lost or delivered twice. In every run, contested triggers or not, the
  incidents taken in are exactly those suppressed, those handed to the sink and those still waiting;
  every batch handed over is non-empty, of a single correlation key and at most \<open>MaxBatch\<close> long.
\<close>

theorem every_alert_accounted_for:
  assumes "reaches ct cfg t rs ss fs c"
  shows "mset rs = mset ss + mset (concat (map snd fs)) + mset (buffered c)
    \<and> (\<forall>(t, b) \<in> set fs. b \<noteq> [] \<and> (\<exists>k. \<forall>r \<in> set b. coalesce_key cfg r = k)
        \<and> (cc_maxBatch cfg > 0 \<longrightarrow> int (length b) \<le> cc_maxBatch cfg))"
  using reaches_accounted [OF assms] by (simp add: accounted_def batch_ok_def)

lemma every_alert_accounted_for_witness:
  "mset [demo_alert ''Down'' ''critical''] = mset [] + mset [demo_alert ''Down'' ''critical''] + mset (buffered demo_first)"
  using every_alert_accounted_for [OF demo_run(1)] by simp

section \<open>One investigation per cooldown\<close>

text \<open>Two flushes of a key closer than the cooldown: the later one brings a critical alertname the earlier one had not.\<close>

definition fired_apart :: "coalesce_config \<Rightarrow> (gotime \<times> request list) list \<Rightarrow> bool" where
  "fired_apart cfg = sorted_wrt (\<lambda>(t, b) (t', b').
     coalesce_key cfg (hd b) = coalesce_key cfg (hd b') \<and> time_sub t' t < cc_cooldown cfg \<longrightarrow>
       (\<exists>r \<in> set b'. IsCritical r \<and> rq_title r \<notin> rq_title ` set b))"

definition remembered :: "coalesce_config \<Rightarrow> gotime \<Rightarrow> gotime \<times> request list \<Rightarrow> coalescer \<Rightarrow> bool" where
  "remembered cfg now f c \<longleftrightarrow> fst f \<le> now \<and> (time_sub now (fst f) < cc_cooldown cfg \<longrightarrow>
     (\<exists>x. co_recent c (coalesce_key cfg (hd (snd f))) = Some x \<and> fst f \<le> cd_last x
        \<and> rq_title ` set (snd f) \<subseteq> cd_seen x))"

definition cooled :: "coalesce_config \<Rightarrow> gotime \<Rightarrow> (gotime \<times> request list) list \<Rightarrow> coalescer \<Rightarrow> bool" where
  "cooled cfg now fs c \<longleftrightarrow> co_cfg c = cfg \<and> fired_apart cfg fs \<and> (\<forall>f \<in> set fs. remembered cfg now f c)
     \<and> (\<forall>k \<in> fst ` set (co_pending c). \<not> withinCooldown k now c)"

lemma time_sub_antimono: "b \<le> b' \<Longrightarrow> time_sub a b' \<le> time_sub a b"
  by (auto simp: time_sub_defs)

lemma withinCooldown_mono:
  assumes "withinCooldown k now c" and "t \<le> now"
  shows "withinCooldown k t c"
proof -
  from assms(1) obtain x where "co_recent c k = Some x" "cc_cooldown (co_cfg c) > 0"
    "time_sub now (cd_last x) < cc_cooldown (co_cfg c)" by (auto simp: withinCooldown_def split: option.splits)
  with time_sub_mono [OF assms(2), of "cd_last x"] show ?thesis by (simp add: withinCooldown_def)
qed

lemma pending_frame [simp]:
  "withinCooldown k now (c\<lparr>co_pending := p\<rparr>) = withinCooldown k now c"
  "remembered cfg now f (c\<lparr>co_pending := p\<rparr>) = remembered cfg now f c"
  by (simp_all add: withinCooldown_def remembered_def split: option.split)

lemma remembered_tick: "remembered cfg t f c \<Longrightarrow> t \<le> now \<Longrightarrow> remembered cfg now f c"
  using order_le_less_trans [OF time_sub_mono [of t now "fst f"], of "cc_cooldown cfg"]
  unfolding remembered_def by (meson order_trans)

lemma cooled_tick: "cooled cfg t fs c \<Longrightarrow> t \<le> now \<Longrightarrow> cooled cfg now fs c"
  unfolding cooled_def by (meson remembered_tick withinCooldown_mono)

lemma remembered_within:
  assumes "remembered cfg now f c" and "time_sub now (fst f) < cc_cooldown (co_cfg c)" and "co_cfg c = cfg"
    and "coalesce_key cfg (hd (snd f)) = k"
  obtains x where "co_recent c k = Some x" and "rq_title ` set (snd f) \<subseteq> cd_seen x" and "withinCooldown k now c"
proof -
  from assms obtain x where x: "co_recent c k = Some x" "fst f \<le> cd_last x" "rq_title ` set (snd f) \<subseteq> cd_seen x"
    by (auto simp: remembered_def)
  have "0 \<le> time_sub now (fst f)" using assms(1) by (simp add: remembered_def time_sub_nonneg)
  moreover have "time_sub now (cd_last x) \<le> time_sub now (fst f)" using x(2) by (rule time_sub_antimono)
  ultimately have "withinCooldown k now c" using x(1) assms(2) by (simp add: withinCooldown_def)
  with x that show ?thesis by blast
qed

lemma remembered_flush:
  assumes "remembered cfg now f c"
  shows "remembered cfg now f (markFlushed k now b (drain k c))"
  using assms by (auto simp: remembered_def markFlushed_def Let_def)

lemma cooled_flush:
  assumes cool: "cooled cfg now fs c" and B: "B \<noteq> []" "coalesce_key cfg (hd B) = k"
    and free: "\<not> withinCooldown k now c \<or> (\<exists>r \<in> set B. newCriticalDuringCooldown k r c)"
  shows "cooled cfg now (fs @ [(now, B)]) (markFlushed k now B (drain k c))"
proof -
  have cfg: "co_cfg c = cfg" and rem: "\<And>f. f \<in> set fs \<Longrightarrow> remembered cfg now f c"
    and apart: "fired_apart cfg fs" using cool by (simp_all add: cooled_def)
  have new: "\<exists>r \<in> set B. IsCritical r \<and> rq_title r \<notin> rq_title ` set (snd f)"
    if f: "f \<in> set fs" "coalesce_key cfg (hd (snd f)) = k" "time_sub now (fst f) < cc_cooldown cfg" for f
  proof -
    obtain x where x: "co_recent c k = Some x" "rq_title ` set (snd f) \<subseteq> cd_seen x" "withinCooldown k now c"
      using remembered_within [OF rem [OF f(1)] _ cfg f(2)] f(3) cfg by auto
    with free obtain r where "r \<in> set B" "newCriticalDuringCooldown k r c" by auto
    with x show ?thesis by (auto simp: newCriticalDuringCooldown_def split: if_splits)
  qed
  have "fired_apart cfg (fs @ [(now, B)])"
    using apart new B(2) by (auto simp: fired_apart_def sorted_wrt_append split: prod.splits)
  moreover have "remembered cfg now f (markFlushed k now B (drain k c))" if "f \<in> set (fs @ [(now, B)])" for f
  proof (cases "f \<in> set fs")
    case True
    then show ?thesis by (intro remembered_flush rem)
  next
    case False
    then have "f = (now, B)" using that by simp
    then show ?thesis using B(2) by (auto simp: remembered_def markFlushed_def Let_def)
  qed
  moreover have "\<not> withinCooldown k' now (markFlushed k now B (drain k c))"
    if "k' \<in> fst ` set (co_pending (drain k c))" for k'
  proof -
    have "k' \<noteq> k" and "k' \<in> fst ` set (co_pending c)" using that by (auto simp: drain_def set_delete)
    then have "\<not> withinCooldown k' now c" using cool unfolding cooled_def by blast
    with \<open>k' \<noteq> k\<close> show ?thesis by (simp add: withinCooldown_def recent_markFlushed split: option.splits)
  qed
  ultimately show ?thesis using cfg by (simp add: cooled_def)
qed

lemma remembered_evict:
  assumes "remembered cfg now f c" and "co_cfg c = cfg"
  shows "remembered cfg now f (evictExpiredCooldowns now c)"
proof (cases "time_sub now (fst f) < cc_cooldown cfg")
  case True
  then have "time_sub now (fst f) < cc_cooldown (co_cfg c)" using assms(2) by simp
  then obtain x where "co_recent c (coalesce_key cfg (hd (snd f))) = Some x"
    and "withinCooldown (coalesce_key cfg (hd (snd f))) now c"
    by (rule remembered_within [OF assms(1) _ assms(2) refl])
  with assms True show ?thesis by (auto simp: remembered_def evictExpiredCooldowns_def withinCooldown_def)
next
  case False
  then show ?thesis using assms(1) by (simp add: remembered_def)
qed

lemma cooled_evict: "cooled cfg now fs c \<Longrightarrow> cooled cfg now fs (evictExpiredCooldowns now c)"
  using remembered_evict
  by (fastforce simp: cooled_def withinCooldown_def evictExpiredCooldowns_def split: option.splits if_splits)

lemma cooled_Add:
  assumes cool: "cooled cfg now fs c" and ok: "batches_ok cfg c" and add: "Add outcome now r c = (c', es)"
    and "\<not> contested_request outcome r"
  shows "cooled cfg now (fs @ map (Pair now) (outs es)) c'"
proof -
  let ?k = "coalesce_key (co_cfg c) r"
  have cfg: "co_cfg c = cfg" using ok by (simp add: batches_ok_def)
  from add show ?thesis
  proof (cases rule: Add_cases)
    case suppressed
    then show ?thesis using cool by simp
  next
    case flushed
    let ?B = "waiting ?k c @ [r]"
    have "\<not> withinCooldown ?k now c \<or> (\<exists>r \<in> set ?B. newCriticalDuringCooldown ?k r c)"
      using flushed(1) assms(4) by (auto simp: covered_def)
    moreover have "coalesce_key cfg (hd ?B) = ?k"
      using waiting_ok(1) [OF ok, of ?k] cfg by (cases "waiting ?k c") auto
    ultimately show ?thesis using cooled_flush [OF cool, of ?B ?k] flushed by simp
  next
    case (buffered b)
    have "newCriticalDuringCooldown ?k r c \<Longrightarrow> IsCritical r"
      by (simp add: newCriticalDuringCooldown_def split: if_splits)
    with buffered(1,2) assms(4) have "\<not> withinCooldown ?k now c" unfolding covered_def by blast
    then have "\<not> withinCooldown k now c" if "k \<in> fst ` set (co_pending c')" for k
      using cool set_update_subset [of ?k b "co_pending c"] that buffered(5) unfolding cooled_def by force
    then show ?thesis
      using cool buffered(5,6) unfolding cooled_def by auto
  qed
qed

lemma cooled_sweep_loop:
  assumes "sweep_loop now bs c = (c', flushes)" and "batches_ok cfg c" and "cooled cfg now fs c"
    and "set bs \<subseteq> set (co_pending c)" and "distinct (map fst bs)"
  shows "cooled cfg now (fs @ map (Pair now) flushes) c'"
  using assms
proof (induction now bs c arbitrary: fs c' flushes rule: sweep_loop.induct)
  case (2 now k b bs c)
  show ?case
  proof (cases "batch_due (co_cfg c) now b")
    case True
    have kb: "(k, b) \<in> set (co_pending c)" using 2(6) by simp
    have b: "ba_incidents b \<noteq> []" "coalesce_key cfg (hd (ba_incidents b)) = k"
      using 2(4) kb hd_in_set [of "ba_incidents b"] unfolding batches_ok_def by blast+
    have "\<not> withinCooldown k now c" using 2(5) kb unfolding cooled_def by force
    with cooled_flush [OF 2(5) b]
    have cool: "cooled cfg now (fs @ [(now, ba_incidents b)]) (markFlushed k now (ba_incidents b) (drain k c))"
      by simp
    have "set bs \<subseteq> set (co_pending (markFlushed k now (ba_incidents b) (drain k c)))"
      using 2(6,7) by (auto simp: drain_def set_delete image_iff)
    with 2(1) [OF True _ batches_ok_flush [OF 2(4)] cool] 2(3,7) True show ?thesis by (auto split: prod.splits)
  next
    case False
    with 2 show ?thesis by auto
  qed
qed simp

lemma reaches_cooled: "reaches ct cfg t rs ss fs c \<Longrightarrow> \<not> ct \<Longrightarrow> cooled cfg t fs c"
proof (induction rule: reaches.induct)
  case (reaches_New t)
  then show ?case by (simp add: cooled_def fired_apart_def New_coalescer_def)
next
  case (reaches_Add t rs ss fs c now outcome r c' es)
  have "batches_ok cfg c" using reaches_accounted [OF reaches_Add(1)] by (simp add: accounted_def)
  moreover have "cooled cfg now fs c" using reaches_Add(2,5,6) by (blast intro: cooled_tick)
  moreover have "\<not> contested_request outcome r" using reaches_Add(3,6) by blast
  ultimately show ?case using cooled_Add reaches_Add(4) by blast
next
  case (reaches_sweep t rs ss fs c now c' es)
  have ok: "batches_ok cfg c" using reaches_accounted [OF reaches_sweep(1)] by (simp add: accounted_def)
  from reaches_sweep(3) obtain c1 where c1: "sweep_loop now (co_pending c) c = (c1, outs es)"
    "c' = evictExpiredCooldowns now c1" by (rule sweep_elim)
  have cool: "cooled cfg now fs c" using reaches_sweep(2,4,5) by (blast intro: cooled_tick)
  show ?case unfolding c1(2)
    by (rule cooled_evict, rule cooled_sweep_loop [OF c1(1) ok cool])
      (use ok in \<open>simp_all add: batches_ok_def\<close>)
qed

text \<open>
  C16: one investigation per cooldown while nothing is contested. In a run in which no arriving
  alert's trigger is contested, whenever two batches of one correlation key are handed over less than
  the cooldown apart, the later one holds a critical alert whose alertname the earlier batch had not:
  repeats of the storm start no second investigation. An alert whose trigger is contested passes the
  cooldown by design, and such runs are outside this property.
\<close>

theorem one_investigation_per_cooldown:
  assumes "reaches False cfg t rs ss fs c" and "i < j" and "j < length fs"
    and "fs ! i = (ti, bi)" and "fs ! j = (tj, bj)"
    and "coalesce_key cfg (hd bi) = coalesce_key cfg (hd bj)" and "time_sub tj ti < cc_cooldown cfg"
  shows "\<exists>r \<in> set bj. IsCritical r \<and> rq_title r \<notin> rq_title ` set bi"
proof -
  have "fired_apart cfg fs" using reaches_cooled [OF assms(1)] by (simp add: cooled_def)
  from this [unfolded fired_apart_def, THEN sorted_wrt_nth_less, OF assms(2,3)] assms(4-7)
  show ?thesis by simp
qed

lemma one_investigation_per_cooldown_witness:
  "\<exists>r \<in> set [demo_alert ''Slow'' ''critical'']. IsCritical r \<and> rq_title r \<notin> rq_title ` set [demo_alert ''Down'' ''critical'']"
  by (rule one_investigation_per_cooldown [OF demo_run(2), of 0 1 1 _ 4]) (simp_all add: time_sub_defs)

section \<open>The first look at a critical alert\<close>

definition seen_flushed :: "coalesce_config \<Rightarrow> (gotime \<times> request list) list \<Rightarrow> coalescer \<Rightarrow> bool" where
  "seen_flushed cfg fs c \<longleftrightarrow> (\<forall>k x. co_recent c k = Some x \<longrightarrow>
     (\<forall>a \<in> cd_seen x. \<exists>(t, b) \<in> set fs. coalesce_key cfg (hd b) = k \<and> a \<in> rq_title ` set b))"

lemma seen_flushed_flush:
  assumes "seen_flushed cfg fs c" and "coalesce_key cfg (hd B) = k"
  shows "seen_flushed cfg (fs @ [(now, B)]) (markFlushed k now B (drain k c))"
  using assms by (fastforce simp: seen_flushed_def recent_markFlushed split: option.splits if_splits)

lemma seen_flushed_sweep_loop:
  assumes "sweep_loop now bs c = (c', flushes)" and "seen_flushed cfg fs c"
    and "\<forall>(k, b) \<in> set bs. coalesce_key cfg (hd (ba_incidents b)) = k"
  shows "seen_flushed cfg (fs @ map (Pair now) flushes) c'"
  using assms
proof (induction now bs c arbitrary: fs c' flushes rule: sweep_loop.induct)
  case (2 now k b bs c)
  show ?case
  proof (cases "batch_due (co_cfg c) now b")
    case True
    have "seen_flushed cfg (fs @ [(now, ba_incidents b)]) (markFlushed k now (ba_incidents b) (drain k c))"
      using 2(5) by (intro seen_flushed_flush 2(4)) simp
    with 2(1) [OF True] 2(3,5) True show ?thesis by (fastforce split: prod.splits)
  next
    case False
    with 2 show ?thesis by auto
  qed
qed simp

lemma batch_key: "batches_ok cfg c \<Longrightarrow> (k, b) \<in> set (co_pending c) \<Longrightarrow> coalesce_key cfg (hd (ba_incidents b)) = k"
  using hd_in_set unfolding batches_ok_def by blast

lemma reaches_seen_flushed: "reaches ct cfg t rs ss fs c \<Longrightarrow> seen_flushed cfg fs c"
proof (induction rule: reaches.induct)
  case (reaches_New t)
  then show ?case by (simp add: seen_flushed_def New_coalescer_def)
next
  case (reaches_Add t rs ss fs c now outcome r c' es)
  have ok: "batches_ok cfg c" using reaches_accounted [OF reaches_Add(1)] by (simp add: accounted_def)
  then have cfg: "co_cfg c = cfg" by (simp add: batches_ok_def)
  from reaches_Add(4) show ?case
  proof (cases rule: Add_cases)
    case suppressed
    then show ?thesis using reaches_Add by simp
  next
    case flushed
    let ?k = "coalesce_key (co_cfg c) r"
    have "coalesce_key cfg (hd (waiting ?k c @ [r])) = ?k"
      using waiting_ok(1) [OF ok, of ?k] cfg by (cases "waiting ?k c") auto
    from seen_flushed_flush [OF reaches_Add(5) this] show ?thesis using flushed(2,3) by simp
  next
    case (buffered b)
    then show ?thesis using reaches_Add(5) by (simp add: seen_flushed_def)
  qed
next
  case (reaches_sweep t rs ss fs c now c' es)
  have ok: "batches_ok cfg c" using reaches_accounted [OF reaches_sweep(1)] by (simp add: accounted_def)
  from reaches_sweep(3) obtain c1 where c1: "sweep_loop now (co_pending c) c = (c1, outs es)"
    "c' = evictExpiredCooldowns now c1" by (rule sweep_elim)
  have "seen_flushed cfg (fs @ map (Pair now) (outs es)) c1"
    using batch_key [OF ok] by (intro seen_flushed_sweep_loop [OF c1(1) reaches_sweep(4)]) auto
  then show ?case
    unfolding c1(2) by (auto simp: seen_flushed_def evictExpiredCooldowns_def split: option.splits if_splits)
qed

text \<open>
  Batching never delays the first look at a critical alert. In every run, a critical alert
  whose alertname has not yet been handed over under its key is handed over by the very call that takes
  it in, together with everything waiting under the key, which is then no longer waiting.
\<close>

theorem new_critical_is_flushed_at_once:
  assumes run: "reaches ct cfg t rs ss fs c" and "IsCritical r"
    and new: "\<forall>(t, b) \<in> set fs. coalesce_key cfg (hd b) = coalesce_key cfg r \<longrightarrow> rq_title r \<notin> rq_title ` set b"
    and add: "Add outcome now r c = (c', es)"
  shows "outs es = [waiting (coalesce_key cfg r) c @ [r]] \<and> waiting (coalesce_key cfg r) c' = []"
proof -
  let ?k = "coalesce_key cfg r"
  have ok: "batches_ok cfg c" using reaches_accounted [OF run] by (simp add: accounted_def)
  then have cfg: "co_cfg c = cfg" by (simp add: batches_ok_def)
  have "newCriticalDuringCooldown ?k r c"
    using reaches_seen_flushed [OF run] new assms(2)
    by (fastforce simp: newCriticalDuringCooldown_def seen_flushed_def split: option.splits)
  then have "\<not> covered ?k now r c" by (simp add: covered_def)
  with add [unfolded Add_alt] cfg assms(2) show ?thesis
    by (auto simp: waiting_def drain_def AList.delete_conv split: option.splits)
qed

lemma new_critical_is_flushed_at_once_witness:
  "outs (emit [demo_alert ''Slow'' ''critical'']) = [waiting ''g'' demo_first @ [demo_alert ''Slow'' ''critical'']]"
  using new_critical_is_flushed_at_once [OF demo_run(1) _ _ demo_second_facts(1)] by simp

section \<open>What a sweep does\<close>

lemma delete_append: "AList.delete k (xs @ ys) = AList.delete k xs @ AList.delete k ys"
  by (simp add: AList.delete_eq)

lemma sweep_loop_spec:
  assumes "sweep_loop now bs c = (c', flushes)" and "distinct (map fst (done_with @ bs))"
    and "co_pending c = done_with @ bs"
  shows "flushes = map (ba_incidents \<circ> snd) (filter (batch_due (co_cfg c) now \<circ> snd) bs)
    \<and> co_pending c' = done_with @ filter (Not \<circ> batch_due (co_cfg c) now \<circ> snd) bs \<and> co_cfg c' = co_cfg c"
  using assms
proof (induction now bs c arbitrary: done_with c' flushes rule: sweep_loop.induct)
  case (2 now k b bs c)
  show ?case
  proof (cases "batch_due (co_cfg c) now b")
    case True
    have "co_pending (markFlushed k now (ba_incidents b) (drain k c)) = done_with @ bs"
      using 2(4,5) by (simp add: drain_def delete_append AList.delete_idem)
    moreover obtain fl where "sweep_loop now bs (markFlushed k now (ba_incidents b) (drain k c)) = (c', fl)"
      "flushes = ba_incidents b # fl" using 2(3) True by (auto split: prod.splits)
    ultimately show ?thesis using 2(1) [OF True, of c' fl done_with] 2(4) True by simp
  next
    case False
    with 2(2) [of c' flushes "done_with @ [(k, b)]"] 2(3-5) show ?thesis by simp
  qed
qed simp

text \<open>
  A batch never waits past its debounce or its maximum wait once the ticker fires. A sweep
  hands over exactly the batches that have been quiet for \<open>Debounce\<close> or are \<open>MaxWait\<close> old, in the
  iteration order of the map, and leaves exactly the others, unchanged.
\<close>

theorem sweep_flushes_exactly_the_due:
  assumes "reaches ct cfg t rs ss fs c" and "sweep now c = (c', es)"
  shows "outs es = map (ba_incidents \<circ> snd) (filter (batch_due cfg now \<circ> snd) (co_pending c))
    \<and> co_pending c' = filter (Not \<circ> batch_due cfg now \<circ> snd) (co_pending c)"
proof -
  have ok: "distinct (map fst (co_pending c))" "co_cfg c = cfg"
    using reaches_accounted [OF assms(1)] by (simp_all add: accounted_def batches_ok_def)
  from assms(2) obtain c1 where c1: "sweep_loop now (co_pending c) c = (c1, outs es)"
    "c' = evictExpiredCooldowns now c1" by (rule sweep_elim)
  from sweep_loop_spec [OF c1(1), of "[]"] ok c1(2) show ?thesis by simp
qed

lemma sweep_flushes_exactly_the_due_witness:
  "outs (snd (sweep 9 demo_first)) = [] \<and> co_pending (fst (sweep 9 demo_first)) = []"
  using sweep_flushes_exactly_the_due [OF demo_run(1), of 9 "fst (sweep 9 demo_first)" "snd (sweep 9 demo_first)"]
  by (simp add: demo_first_facts)

section \<open>The constituents of a batch\<close>

text \<open>The distinct elements in order of first occurrence.\<close>

fun first_occurrences :: "string set \<Rightarrow> string list \<Rightarrow> string list" where
  "first_occurrences seen [] = []"
| "first_occurrences seen (x # xs) =
     (if x \<in> seen then first_occurrences seen xs else x # first_occurrences (insert x seen) xs)"

lemma first_occurrences_props:
  "distinct (first_occurrences seen xs) \<and> set (first_occurrences seen xs) = set xs - seen"
  by (induction xs arbitrary: seen) auto

lemma constituents_loop_spec:
  "length out < maxConstituents \<Longrightarrow>
     constituents_loop rs seen out = take maxConstituents
       (out @ first_occurrences seen (filter (\<lambda>i. i \<noteq> []) (map constituentID rs)))"
proof (induction rs seen out rule: constituents_loop.induct)
  case (2 r rs seen out)
  moreover have "maxConstituents - length out = Suc 0" if "maxConstituents = Suc (length out)" using that by simp
  ultimately show ?case by (cases "maxConstituents = Suc (length out)") (auto simp: Let_def)
qed (simp add: maxConstituents_def)

text \<open>
  The blast radius shown to the model is complete and bounded. The constituents are the first
  twenty distinct identities of the rest of the batch in order of arrival; none is empty, repeated or
  the representative's own, and with at most twenty of them none is missing.
\<close>

theorem constituents_complete_and_bounded:
  assumes "batch = rep # rest"
  shows "Constituents batch = take 20 (first_occurrences {constituentID rep} (filter (\<lambda>i. i \<noteq> []) (map constituentID rest)))
    \<and> distinct (Constituents batch) \<and> length (Constituents batch) \<le> 20
    \<and> set (Constituents batch) \<subseteq> constituentID ` set rest - {[], constituentID rep}
    \<and> (card (constituentID ` set rest - {[], constituentID rep}) \<le> 20 \<longrightarrow>
        set (Constituents batch) = constituentID ` set rest - {[], constituentID rep})"
proof -
  let ?ids = "filter (\<lambda>i. i \<noteq> []) (map constituentID rest)"
  let ?f = "first_occurrences {constituentID rep} ?ids"
  have empty: "first_occurrences (insert [] s) is = first_occurrences s is" if "[] \<notin> set is" for s "is"
    using that by (induction "is" arbitrary: s) (auto simp: insert_commute [of _ "[]"])
  have C: "Constituents batch = take 20 ?f"
  proof (cases rest)
    case (Cons r rs)
    have "first_occurrences (if constituentID rep \<noteq> [] then {constituentID rep} else {}) ?ids = ?f"
      using empty [of ?ids "{}"] by auto
    then show ?thesis
      using assms Cons constituents_loop_spec [of "[]" rest "if constituentID rep \<noteq> [] then {constituentID rep} else {}"]
      by (simp add: Constituents_def Let_def maxConstituents_def del: constituents_loop.simps)
  qed (simp add: Constituents_def assms)
  have f: "distinct ?f" "set ?f = constituentID ` set rest - {[], constituentID rep}"
    using first_occurrences_props [of "{constituentID rep}" ?ids] by auto
  then have "length ?f = card (constituentID ` set rest - {[], constituentID rep})"
    using distinct_card [OF f(1)] by simp
  with C f show ?thesis by (auto dest: in_set_takeD)
qed

lemma constituents_complete_and_bounded_witness:
  "length (Constituents [demo_alert ''Down'' ''critical'', demo_alert ''Slow'' ''critical'']) \<le> 20"
  using constituents_complete_and_bounded [OF refl, of "demo_alert ''Down'' ''critical''" "[demo_alert ''Slow'' ''critical'']"]
  by blast

section \<open>Cooldowns that lapse between two sweeps\<close>

text \<open>
  A cooldown that has lapsed but has not been swept yet hands its alertnames on to the next
  one. When a critical alert \<open>r1\<close> opens a new cooldown in that gap, a critical alert \<open>r2\<close> of another
  name that the new cooldown's batch does not cover is suppressed, because the lapsed one had seen it.
\<close>

theorem lapsed_cooldown_still_suppresses:
  assumes "coalesce_key (co_cfg c) r1 = k" and "coalesce_key (co_cfg c) r2 = k" and "waiting k c = []"
    and "co_recent c k = Some x" and "time_sub t1 (cd_last x) \<ge> cc_cooldown (co_cfg c)"
    and "IsCritical r1" and "rq_title r2 \<in> cd_seen x" and "rq_title r2 \<noteq> rq_title r1"
    and "time_sub t2 t1 < cc_cooldown (co_cfg c)" and "cc_cooldown (co_cfg c) > 0"
    and "\<not> contested_request outcome r2"
  shows "snd (Add outcome t1 r1 c) = emit [r1]
    \<and> snd (Add outcome t2 r2 (fst (Add outcome t1 r1 c))) = [AlertsSuppressed r2]"
proof -
  have "Add outcome t1 r1 c = (markFlushed k t1 [r1] (drain k c), emit [r1])"
    using assms(1,3-6) by (simp add: Add_alt covered_def withinCooldown_def)
  then show ?thesis
    using assms by (simp add: Add_alt covered_def withinCooldown_def newCriticalDuringCooldown_def recent_markFlushed)
qed

lemma lapsed_cooldown_still_suppresses_witness:
  "snd (Add None 20 (demo_alert ''Down'' ''critical'') (fst (Add None 15 (demo_alert ''Slow'' ''critical'') demo_first)))
     = [AlertsSuppressed (demo_alert ''Down'' ''critical'')]"
  using lapsed_cooldown_still_suppresses [of demo_first "demo_alert ''Slow'' ''critical''" "''g''"
      "demo_alert ''Down'' ''critical''" _ 15 20 None]
  by (simp add: demo_first_facts waiting_def time_sub_defs)

section \<open>A negative vote passes both waits\<close>

context recurrence_stats
begin

lemma downvote_bypasses_cooldown:
  assumes "live s" and "rq_triggerKey r = tk" and "tk \<noteq> []" and "0 < t"
  shows "suppressions (snd (Add (Some (recurrence (downvote tk u t s))) now r c)) = []"
proof -
  have "contested_request (Some (recurrence (downvote tk u t s))) r"
    using assms(2,3) downvote_recorded [OF assms(1,3,4), of u] by (simp add: contested_request_def Contested_def)
  then show ?thesis by (auto simp: Add_alt)
qed

end

text \<open>
  C32: the two layers that may drop a repeat agree on a negative vote. After a vote recorded no
  earlier than the trigger's silence, the next firing is not suppressed by the coalescer's cooldown, in
  any state of the coalescer, and the gate above the model lets it through.
\<close>

theorem downvote_passes_coalescer_and_gate:
  assumes "enabled s" and "rq_triggerKey req = tk" and "tk \<noteq> []" and "0 < t"
    and "tr_silencedAt (Recurrence s tk) \<le> t"
  shows "suppressions (snd (Add (Some (Recurrence (ledger_downvote tk user t s))) now req c)) = []
    \<and> \<not> suppressed (decide (Some cooldown) req
          (priorForTrigger (Some (Recurrence (ledger_downvote tk user t s))) tk) now)"
  using ledger_stats.downvote_bypasses_cooldown [OF assms(1-4)] ledger_stats.downvote_rearms [OF assms(1-5)] assms(3)
  by (simp add: priorForTrigger_def)

lemma downvote_passes_coalescer_and_gate_witness:
  "\<not> suppressed (decide (Some hour) demo_request
     (priorForTrigger (Some (Recurrence (ledger_downvote ''tk'' ''cat'' 9 demo_ledger))) ''tk'') 10)"
  using downvote_passes_coalescer_and_gate [where s = demo_ledger and tk = "''tk''" and req = demo_request
      and t = 9 and cooldown = hour and user = "''cat''" and now = 10 and c = demo_first]
  by (simp add: demo_ledger_facts Recurrence_def recurrence_silence demo_ledger_silence)

end
