(* ===== verification/InvestigationQueue.thy ===== *)
theory InvestigationQueue
  imports Requests RateLimit "HOL-Library.Word"
begin

text \<open>
  \<open>internal/investigate/investigate.go\<close>: the queue of accepted requests. Client-go's workqueue is not
  part of the repository: what the code asks of it are effects in program order, the keys it surfaces
  and its requeue counts are arguments. \<open>process\<close> is split where other goroutines can take the mutex:
  \<open>process_begin\<close> until the payload is copied and shielded, \<open>process_gate\<close> for the start budget,
  \<open>process_finish\<close> for what follows \<open>Investigate\<close>. The step relation \<open>qstep\<close> interleaves these with
  \<open>Enqueue\<close> and \<open>CancelByFingerprint\<close> of any number of callers. The call to the workqueue that \<open>Enqueue\<close>
  makes right after it has released the mutex is part of its step.
\<close>

section \<open>State\<close>

record queue_key =
  qk_source :: string
  qk_namespace :: string
  qk_name :: string
  qk_title :: string

record pending =
  pe_req :: request
  pe_seq :: "64 word"

record queue =
  qu_wq :: bool
  qu_reqs :: "(queue_key \<times> pending) list"
  qu_byFP :: "string \<rightharpoonup> queue_key"
  qu_inflight :: "queue_key set"
  qu_seq :: "64 word"
  qu_starts :: "window option"
  qu_maxRequeues :: int
  qu_throttled :: "window option"

datatype queue_effect =
    WqAdd queue_key
  | WqForget queue_key
  | WqAddRateLimited queue_key
  | WqDone queue_key
  | InvestigationStarted request
  | InvestigationThrottled
  | InvestigationDropped
  | ThrottleWarning

datatype investigate_result = InvOk | InvPermanent | InvTransient

definition NewQueue :: queue where
  "NewQueue = \<lparr>qu_wq = False, qu_reqs = [], qu_byFP = Map.empty, qu_inflight = {}, qu_seq = 0,
     qu_starts = None, qu_maxRequeues = 0, qu_throttled = None\<rparr>"

definition ConfigureRateLimit :: "window option \<Rightarrow> int \<Rightarrow> queue \<Rightarrow> queue" where
  "ConfigureRateLimit starts maxRequeues q = (let q1 = q\<lparr>qu_starts := starts, qu_maxRequeues := maxRequeues\<rparr>
     in case starts of None \<Rightarrow> q1 | Some w \<Rightarrow> q1\<lparr>qu_throttled := Some (New_window 1 (w_window w))\<rparr>)"

definition keyOf :: "request \<Rightarrow> queue_key" where
  "keyOf r = \<lparr>qk_source = rq_source r, qk_namespace = wl_namespace (rq_workload r),
     qk_name = wl_name (rq_workload r), qk_title = rq_title r\<rparr>"

definition payload :: "queue \<Rightarrow> queue_key \<Rightarrow> pending option" where
  "payload q k = map_of (qu_reqs q) k"

section \<open>Operations\<close>

definition cancellableFingerprint :: "request \<Rightarrow> string option" where
  "cancellableFingerprint r = (if rq_fingerprint r = [] \<or> length (rq_fingerprints r) > 1 then None
     else Some (rq_fingerprint r))"

definition unindexLocked :: "request \<Rightarrow> queue_key \<Rightarrow> queue \<Rightarrow> queue" where
  "unindexLocked r k q = (case cancellableFingerprint r of None \<Rightarrow> q
     | Some fp \<Rightarrow> if qu_byFP q fp = Some k then q\<lparr>qu_byFP := (qu_byFP q)(fp := None)\<rparr> else q)"

definition removeLocked :: "queue_key \<Rightarrow> request \<Rightarrow> queue \<Rightarrow> queue" where
  "removeLocked k r q = (let q1 = unindexLocked r k q in q1\<lparr>qu_reqs := AList.delete k (qu_reqs q1)\<rparr>)"

definition Enqueue :: "request \<Rightarrow> queue \<Rightarrow> queue \<times> queue_effect list" where
  "Enqueue r q =
     (let k = keyOf r;
          q1 = q\<lparr>qu_seq := qu_seq q + 1\<rparr>;
          q2 = (case payload q1 k of Some prev \<Rightarrow> unindexLocked (pe_req prev) k q1 | None \<Rightarrow> q1);
          q3 = q2\<lparr>qu_reqs := AList.update k \<lparr>pe_req = r, pe_seq = qu_seq q2\<rparr> (qu_reqs q2)\<rparr>;
          q4 = (case cancellableFingerprint r of Some fp \<Rightarrow> q3\<lparr>qu_byFP := (qu_byFP q3)(fp \<mapsto> k)\<rparr> | None \<Rightarrow> q3)
      in (q4, if qu_wq q4 then [WqAdd k] else []))"

definition CancelByFingerprint :: "string \<Rightarrow> queue \<Rightarrow> bool \<times> queue" where
  "CancelByFingerprint fp q =
     (if fp = [] then (False, q)
      else case qu_byFP q fp of
        None \<Rightarrow> (False, q)
      | Some k \<Rightarrow>
          if k \<in> qu_inflight q then (False, q)
          else case payload q k of
            None \<Rightarrow> (False, q\<lparr>qu_byFP := (qu_byFP q)(fp := None)\<rparr>)
          | Some p \<Rightarrow> (True, removeLocked k (pe_req p) q))"

definition Run_start :: "queue \<Rightarrow> queue \<times> queue_effect list" where
  "Run_start q = (q\<lparr>qu_wq := True\<rparr>, map (WqAdd \<circ> fst) (qu_reqs q))"

definition Run_shutdown :: "queue \<Rightarrow> queue" where
  "Run_shutdown q = q\<lparr>qu_wq := False\<rparr>"

definition process_begin :: "queue_key \<Rightarrow> queue \<Rightarrow> pending option \<times> queue \<times> queue_effect list" where
  "process_begin k q = (case payload q k of
     None \<Rightarrow> (None, q, [WqForget k, WqDone k])
   | Some p \<Rightarrow> (Some p, q\<lparr>qu_inflight := insert k (qu_inflight q)\<rparr>, []))"

definition maybeNotifyThrottle :: "gotime \<Rightarrow> gotime \<Rightarrow> queue \<Rightarrow> queue \<times> queue_effect list" where
  "maybeNotifyThrottle now now' q = (case qu_throttled q of
     None \<Rightarrow> (q, [])
   | Some w \<Rightarrow> (case Allow now now' w of (ok, w') \<Rightarrow>
       (q\<lparr>qu_throttled := Some w'\<rparr>, if ok then [ThrottleWarning] else [])))"

text \<open>Drop whatever payload is stored under the key now.\<close>

definition drop_current :: "queue_key \<Rightarrow> queue \<Rightarrow> queue" where
  "drop_current k q = (case payload q k of Some cur \<Rightarrow> removeLocked k (pe_req cur) q | None \<Rightarrow> q)"

text \<open>The deferred calls of \<open>process\<close>: the shield goes first, \<open>Done\<close> is last.\<close>

definition process_exit :: "queue_key \<Rightarrow> queue \<Rightarrow> queue \<times> queue_effect list" where
  "process_exit k q = (q\<lparr>qu_inflight := qu_inflight q - {k}\<rparr>, [WqDone k])"

definition process_gate :: "gotime \<times> gotime \<Rightarrow> gotime \<times> gotime \<Rightarrow> int \<Rightarrow> queue_key \<Rightarrow> pending \<Rightarrow> queue \<Rightarrow>
    bool \<times> queue \<times> queue_effect list" where
  "process_gate clock warn_clock requeues k p q =
     (let (ok, q1) = (case qu_starts q of None \<Rightarrow> (True, q)
            | Some w \<Rightarrow> (case Allow (fst clock) (snd clock) w of (ok, w') \<Rightarrow> (ok, q\<lparr>qu_starts := Some w'\<rparr>)))
      in if ok then (True, q1, [InvestigationStarted (pe_req p)])
         else let (q2, es) = (if requeues \<ge> qu_maxRequeues q1
                     then (drop_current k q1, [InvestigationDropped, WqForget k])
                     else (q1, [InvestigationThrottled, WqAddRateLimited k]));
                  (q3, ws) = maybeNotifyThrottle (fst warn_clock) (snd warn_clock) q2;
                  (q4, ds) = process_exit k q3
              in (False, q4, es @ ws @ ds))"

text \<open>What \<open>process\<close> does with the answer of \<open>Investigate\<close>, before the deferred calls.\<close>

definition settle :: "investigate_result \<Rightarrow> queue_key \<Rightarrow> pending \<Rightarrow> queue \<Rightarrow> queue \<times> queue_effect list" where
  "settle result k p q = (case result of
       InvPermanent \<Rightarrow> (drop_current k q, [InvestigationDropped, WqForget k])
     | InvTransient \<Rightarrow> (q, [WqAddRateLimited k])
     | InvOk \<Rightarrow> ((case payload q k of
           Some cur \<Rightarrow> if pe_seq cur = pe_seq p then removeLocked k (pe_req cur) q else q
         | None \<Rightarrow> q), [WqForget k]))"

definition process_finish :: "investigate_result \<Rightarrow> queue_key \<Rightarrow> pending \<Rightarrow> queue \<Rightarrow> queue \<times> queue_effect list" where
  "process_finish result k p q =
     (let (q1, es) = settle result k p q;
          (q2, ds) = process_exit k q1
      in (q2, es @ ds))"

section \<open>The operations on the payload map and the cancel index\<close>

named_theorems queue_frame \<open>fields an operation leaves alone\<close>

lemma unindex_frame [queue_frame, simp]:
  "payload (unindexLocked r k q) = payload q" "qu_reqs (unindexLocked r k q) = qu_reqs q"
  "qu_inflight (unindexLocked r k q) = qu_inflight q" "qu_seq (unindexLocked r k q) = qu_seq q"
  "qu_starts (unindexLocked r k q) = qu_starts q" "qu_wq (unindexLocked r k q) = qu_wq q"
  "qu_maxRequeues (unindexLocked r k q) = qu_maxRequeues q"
  by (auto simp: unindexLocked_def payload_def fun_eq_iff split: option.split)

lemma unindex_byFP: "qu_byFP (unindexLocked r k q) fp =
    (if cancellableFingerprint r = Some fp \<and> qu_byFP q fp = Some k then None else qu_byFP q fp)"
  by (auto simp: unindexLocked_def split: option.split)

lemma remove_frame [queue_frame, simp]:
  "qu_inflight (removeLocked k r q) = qu_inflight q" "qu_seq (removeLocked k r q) = qu_seq q"
  "qu_starts (removeLocked k r q) = qu_starts q" "qu_wq (removeLocked k r q) = qu_wq q"
  "qu_byFP (removeLocked k r q) = qu_byFP (unindexLocked r k q)"
  "qu_maxRequeues (removeLocked k r q) = qu_maxRequeues q"
  "payload (removeLocked k r q) k' = (if k' = k then None else payload q k')"
  by (auto simp: removeLocked_def payload_def Let_def AList.delete_conv)

lemma drop_frame [queue_frame, simp]:
  "qu_inflight (drop_current k q) = qu_inflight q" "qu_seq (drop_current k q) = qu_seq q"
  "qu_starts (drop_current k q) = qu_starts q" "qu_wq (drop_current k q) = qu_wq q"
  "qu_maxRequeues (drop_current k q) = qu_maxRequeues q"
  "payload (drop_current k q) k' = (if k' = k then None else payload q k')"
  by (auto simp: drop_current_def split: option.split)

lemma Enqueue_payload: "payload (fst (Enqueue r q)) =
    (payload q)(keyOf r \<mapsto> \<lparr>pe_req = r, pe_seq = qu_seq q + 1\<rparr>)"
  by (auto simp: Enqueue_def payload_def Let_def AList.update_conv' fun_eq_iff unindexLocked_def split: option.split)

lemma Enqueue_frame [queue_frame]:
  "qu_inflight (fst (Enqueue r q)) = qu_inflight q" "qu_seq (fst (Enqueue r q)) = qu_seq q + 1"
  "qu_starts (fst (Enqueue r q)) = qu_starts q" "qu_wq (fst (Enqueue r q)) = qu_wq q"
  "qu_maxRequeues (fst (Enqueue r q)) = qu_maxRequeues q"
  "snd (Enqueue r q) = (if qu_wq q then [WqAdd (keyOf r)] else [])"
  by (auto simp: Enqueue_def Let_def split: option.split)

definition index_ok :: "queue \<Rightarrow> bool" where
  "index_ok q \<longleftrightarrow> (\<forall>fp k. qu_byFP q fp = Some k \<longrightarrow>
     (\<exists>p. payload q k = Some p \<and> cancellableFingerprint (pe_req p) = Some fp))
     \<and> (\<forall>k p. payload q k = Some p \<longrightarrow> keyOf (pe_req p) = k)"

lemma index_ok_remove:
  assumes "index_ok q" and "payload q k = Some p"
  shows "index_ok (removeLocked k (pe_req p) q)"
  using assms by (auto simp: index_ok_def unindex_byFP split: if_splits) fastforce

lemma index_ok_drop: "index_ok q \<Longrightarrow> index_ok (drop_current k q)"
  by (auto simp: drop_current_def index_ok_remove split: option.split)

lemma Enqueue_byFP: "qu_byFP (fst (Enqueue r q)) fp =
   (if cancellableFingerprint r = Some fp then Some (keyOf r)
    else case payload q (keyOf r) of
      Some prev \<Rightarrow> if cancellableFingerprint (pe_req prev) = Some fp \<and> qu_byFP q fp = Some (keyOf r) then None
                 else qu_byFP q fp
    | None \<Rightarrow> qu_byFP q fp)"
  by (auto simp: Enqueue_def Let_def payload_def unindexLocked_def split: option.split)

lemma index_ok_Enqueue: "index_ok q \<Longrightarrow> index_ok (fst (Enqueue r q))"
  unfolding index_ok_def Enqueue_payload Enqueue_byFP
  by (auto split: option.splits if_splits) fastforce+

lemma index_ok_cong:
  "index_ok q \<Longrightarrow> qu_byFP q' = qu_byFP q \<Longrightarrow> payload q' = payload q \<Longrightarrow> index_ok q'"
  by (simp add: index_ok_def)

lemma payload_upd [simp]:
  "payload (q\<lparr>qu_inflight := x\<rparr>) = payload q" "payload (q\<lparr>qu_wq := b\<rparr>) = payload q"
  "payload (q\<lparr>qu_starts := y\<rparr>) = payload q" "payload (q\<lparr>qu_throttled := z\<rparr>) = payload q"
  "payload (q\<lparr>qu_byFP := f\<rparr>) = payload q"
  by (simp_all add: payload_def fun_eq_iff)

lemma cancel_effect:
  assumes "index_ok q" and "CancelByFingerprint fp q = (b, q')"
  shows "if b then \<exists>k p. qu_byFP q fp = Some k \<and> payload q k = Some p \<and> k \<notin> qu_inflight q
           \<and> rq_fingerprint (pe_req p) = fp \<and> length (rq_fingerprints (pe_req p)) \<le> 1
           \<and> payload q' = (payload q)(k := None) \<and> qu_byFP q' = (qu_byFP q)(fp := None)
         else q' = q"
proof -
  { fix k p assume h: "qu_byFP q fp = Some k" "payload q k = Some p"
    then have c: "cancellableFingerprint (pe_req p) = Some fp"
      using assms(1) by (fastforce simp: index_ok_def)
    then have "rq_fingerprint (pe_req p) = fp \<and> length (rq_fingerprints (pe_req p)) \<le> 1"
      by (auto simp: cancellableFingerprint_def split: if_splits)
    moreover have "payload (removeLocked k (pe_req p) q) = (payload q)(k := None)" by auto
    moreover have "qu_byFP (removeLocked k (pe_req p) q) = (qu_byFP q)(fp := None)"
      using h c by (auto simp: unindex_byFP fun_eq_iff)
    ultimately have "rq_fingerprint (pe_req p) = fp \<and> length (rq_fingerprints (pe_req p)) \<le> 1
      \<and> payload (removeLocked k (pe_req p) q) = (payload q)(k := None)
      \<and> qu_byFP (removeLocked k (pe_req p) q) = (qu_byFP q)(fp := None)" by blast }
  note removed = this
  have "\<exists>p. payload q k = Some p" if "qu_byFP q fp = Some k" for k
    using assms(1) that by (fastforce simp: index_ok_def)
  with removed assms(2) show ?thesis
    by (fastforce simp: CancelByFingerprint_def split: if_splits option.splits)
qed

text \<open>
  A resolve cancels precisely one queued investigation or nothing. In a queue whose index is
  in order, \<open>CancelByFingerprint\<close> answers true only for a payload that is not being investigated and
  whose sole fingerprint matches; then that payload and its index entry are gone and no other payload
  changes. Otherwise the queue is left exactly as it was: the dangling-entry branch is dead code.
\<close>

theorem cancel_removes_one_queued:
  assumes "index_ok q" and "CancelByFingerprint fp q = (b, q')"
  shows "if b then \<exists>k p. qu_byFP q fp = Some k \<and> payload q k = Some p \<and> k \<notin> qu_inflight q
           \<and> rq_fingerprint (pe_req p) = fp \<and> length (rq_fingerprints (pe_req p)) \<le> 1
           \<and> payload q' = (payload q)(k := None) \<and> qu_byFP q' = (qu_byFP q)(fp := None)
         else q' = q"
  by (rule cancel_effect [OF assms])

section \<open>All interleavings\<close>

datatype worker = Idle | Gating queue_key pending | Investigating queue_key pending

text \<open>
  The queue with its one worker and what the workqueue owes it: the keys added, or added with a delay,
  and not surfaced since. \<open>ms_open\<close> says that the term's workqueue still accepts keys. The last three
  fields record the history: the clock, how many requests came in, and the instants of the starts.
\<close>

record machine =
  ms_queue :: queue
  ms_worker :: worker
  ms_open :: bool
  ms_scheduled :: "queue_key set"
  ms_clock :: gotime
  ms_enqueued :: nat
  ms_started :: "gotime list"

definition owed :: "queue_effect list \<Rightarrow> queue_key set" where
  "owed es = {k. WqAdd k \<in> set es \<or> WqAddRateLimited k \<in> set es}"

definition schedule :: "machine \<Rightarrow> queue_effect list \<Rightarrow> queue_key set" where
  "schedule m es = (if ms_open m then ms_scheduled m \<union> owed es else ms_scheduled m)"

definition machine_init :: "window option \<Rightarrow> int \<Rightarrow> gotime \<Rightarrow> machine" where
  "machine_init starts maxRequeues t = \<lparr>ms_queue = ConfigureRateLimit starts maxRequeues NewQueue,
     ms_worker = Idle, ms_open = False, ms_scheduled = {}, ms_clock = t, ms_enqueued = 0, ms_started = []\<rparr>"

inductive qstep :: "machine \<Rightarrow> machine \<Rightarrow> bool" where
  step_enqueue: "Enqueue r (ms_queue m) = (q, es) \<Longrightarrow>
    qstep m (m\<lparr>ms_queue := q, ms_scheduled := schedule m es, ms_enqueued := Suc (ms_enqueued m)\<rparr>)"
| step_cancel: "CancelByFingerprint fp (ms_queue m) = (b, q) \<Longrightarrow> qstep m (m\<lparr>ms_queue := q\<rparr>)"
| step_term: "\<not> qu_wq (ms_queue m) \<Longrightarrow> ms_worker m = Idle \<Longrightarrow> Run_start (ms_queue m) = (q, es) \<Longrightarrow>
    qstep m (m\<lparr>ms_queue := q, ms_open := True, ms_scheduled := owed es\<rparr>)"
| step_close: "qstep m (m\<lparr>ms_open := False\<rparr>)"
| step_shutdown: "qu_wq (ms_queue m) \<Longrightarrow> \<not> ms_open m \<Longrightarrow> ms_worker m = Idle \<Longrightarrow>
    qstep m (m\<lparr>ms_queue := Run_shutdown (ms_queue m), ms_scheduled := {}\<rparr>)"
| step_stale: "ms_worker m = Idle \<Longrightarrow> k \<in> ms_scheduled m \<Longrightarrow> process_begin k (ms_queue m) = (None, q, es) \<Longrightarrow>
    qstep m (m\<lparr>ms_queue := q, ms_scheduled := schedule m es - {k}\<rparr>)"
| step_begin: "ms_worker m = Idle \<Longrightarrow> k \<in> ms_scheduled m \<Longrightarrow> process_begin k (ms_queue m) = (Some p, q, es) \<Longrightarrow>
    qstep m (m\<lparr>ms_queue := q, ms_worker := Gating k p, ms_scheduled := ms_scheduled m - {k}\<rparr>)"
| step_start: "ms_worker m = Gating k p \<Longrightarrow> ms_clock m \<le> n \<Longrightarrow> n \<le> n' \<Longrightarrow>
    process_gate (n, n') warn requeues k p (ms_queue m) = (True, q, es) \<Longrightarrow>
    qstep m (m\<lparr>ms_queue := q, ms_worker := Investigating k p, ms_scheduled := schedule m es, ms_clock := n',
      ms_started := ms_started m @ [n']\<rparr>)"
| step_throttle: "ms_worker m = Gating k p \<Longrightarrow> ms_clock m \<le> n \<Longrightarrow> n \<le> n' \<Longrightarrow>
    process_gate (n, n') warn requeues k p (ms_queue m) = (False, q, es) \<Longrightarrow>
    qstep m (m\<lparr>ms_queue := q, ms_worker := Idle, ms_scheduled := schedule m es, ms_clock := n'\<rparr>)"
| step_finish: "ms_worker m = Investigating k p \<Longrightarrow> process_finish result k p (ms_queue m) = (q, es) \<Longrightarrow>
    qstep m (m\<lparr>ms_queue := q, ms_worker := Idle, ms_scheduled := schedule m es\<rparr>)"

inductive qreach :: "window option \<Rightarrow> int \<Rightarrow> machine \<Rightarrow> bool" for starts :: "window option" and maxRequeues :: int where
  qreach_init: "qreach starts maxRequeues (machine_init starts maxRequeues t)"
| qreach_step: "qreach starts maxRequeues m \<Longrightarrow> qstep m m' \<Longrightarrow> qreach starts maxRequeues m'"

definition held :: "machine \<Rightarrow> (queue_key \<times> pending) option" where
  "held m = (case ms_worker m of Idle \<Rightarrow> None | Gating k p \<Rightarrow> Some (k, p) | Investigating k p \<Rightarrow> Some (k, p))"

text \<open>The shape of the three parts of \<open>process\<close>, as rewrite rules.\<close>

lemma begin_shape:
  "process_begin k q = (Some p, q', es) \<longleftrightarrow> payload q k = Some p \<and> q' = q\<lparr>qu_inflight := insert k (qu_inflight q)\<rparr> \<and> es = []"
  "process_begin k q = (None, q', es) \<longleftrightarrow> payload q k = None \<and> q' = q \<and> es = [WqForget k, WqDone k]"
  by (auto simp: process_begin_def split: option.splits)

lemma notify_frame:
  assumes "maybeNotifyThrottle n n' q = (q', es)"
  shows "payload q' = payload q" and "qu_byFP q' = qu_byFP q" and "qu_inflight q' = qu_inflight q"
    and "qu_seq q' = qu_seq q" and "qu_starts q' = qu_starts q" and "qu_wq q' = qu_wq q" and "owed es = {}"
  using assms by (auto simp: maybeNotifyThrottle_def owed_def split: option.splits prod.splits if_splits)

lemma gate_started:
  assumes "process_gate clock warn requeues k p q = (True, q', es)"
  shows "payload q' = payload q" and "qu_byFP q' = qu_byFP q" and "qu_inflight q' = qu_inflight q"
    and "qu_seq q' = qu_seq q" and "qu_wq q' = qu_wq q" and "owed es = {}"
    and "case qu_starts q of None \<Rightarrow> qu_starts q' = None
         | Some w \<Rightarrow> \<exists>w'. Allow (fst clock) (snd clock) w = (True, w') \<and> qu_starts q' = Some w'"
  using assms by (auto simp: process_gate_def owed_def Let_def process_exit_def split: option.splits prod.splits if_splits)

lemma gate_throttled:
  assumes "process_gate clock warn requeues k p q = (False, q', es)"
  obtains (dropped) "payload q' = (payload q)(k := None)" and "qu_byFP q' = qu_byFP (drop_current k q)"
      and "qu_inflight q' = qu_inflight q - {k}" and "qu_seq q' = qu_seq q" and "qu_wq q' = qu_wq q" and "owed es = {}"
      and "\<exists>w w'. qu_starts q = Some w \<and> Allow (fst clock) (snd clock) w = (False, w') \<and> qu_starts q' = Some w'"
  | (requeued) "payload q' = payload q" and "qu_byFP q' = qu_byFP q"
      and "qu_inflight q' = qu_inflight q - {k}" and "qu_seq q' = qu_seq q" and "qu_wq q' = qu_wq q" and "owed es = {k}"
      and "\<exists>w w'. qu_starts q = Some w \<and> Allow (fst clock) (snd clock) w = (False, w') \<and> qu_starts q' = Some w'"
proof -
  obtain w w' where w: "qu_starts q = Some w" "Allow (fst clock) (snd clock) w = (False, w')"
    using assms by (auto simp: process_gate_def split: option.splits prod.splits if_splits)
  let ?q1 = "q\<lparr>qu_starts := Some w'\<rparr>"
  show ?thesis
  proof (cases "requeues \<ge> qu_maxRequeues q")
    case True
    obtain q3 ws where n: "maybeNotifyThrottle (fst warn) (snd warn) (drop_current k ?q1) = (q3, ws)" by fastforce
    have e: "q' = q3\<lparr>qu_inflight := qu_inflight q3 - {k}\<rparr>" "es = [InvestigationDropped, WqForget k] @ ws @ [WqDone k]"
      using assms True w n by (auto simp: process_gate_def process_exit_def)
    have "qu_byFP (drop_current k ?q1) = qu_byFP (drop_current k q)"
      by (auto simp: drop_current_def unindex_byFP fun_eq_iff split: option.split)
    then show ?thesis
      using notify_frame [OF n] e w by (intro dropped) (auto simp: owed_def fun_eq_iff)
  next
    case False
    obtain q3 ws where n: "maybeNotifyThrottle (fst warn) (snd warn) ?q1 = (q3, ws)" by fastforce
    have e: "q' = q3\<lparr>qu_inflight := qu_inflight q3 - {k}\<rparr>" "es = [InvestigationThrottled, WqAddRateLimited k] @ ws @ [WqDone k]"
      using assms False w n by (auto simp: process_gate_def process_exit_def)
    show ?thesis
      using notify_frame [OF n] e w by (intro requeued) (auto simp: owed_def)
  qed
qed

lemma settle_shape:
  "payload (fst (settle result k p q)) =
     (if result = InvPermanent \<or> result = InvOk \<and> (\<exists>cur. payload q k = Some cur \<and> pe_seq cur = pe_seq p)
      then (payload q)(k := None) else payload q)"
  "qu_inflight (fst (settle result k p q)) = qu_inflight q" "qu_seq (fst (settle result k p q)) = qu_seq q"
  "qu_wq (fst (settle result k p q)) = qu_wq q" "qu_starts (fst (settle result k p q)) = qu_starts q"
  "index_ok q \<Longrightarrow> index_ok (fst (settle result k p q))"
  "owed (snd (settle result k p q)) = (if result = InvTransient then {k} else {})"
  by (cases result; cases "payload q k"; auto simp: settle_def fun_eq_iff owed_def index_ok_drop index_ok_remove)+

lemma finish_shape:
  assumes "process_finish result k p q = (q', es)"
  shows "payload q' = (if result = InvPermanent \<or> result = InvOk \<and> (\<exists>cur. payload q k = Some cur \<and> pe_seq cur = pe_seq p)
      then (payload q)(k := None) else payload q)"
    and "qu_inflight q' = qu_inflight q - {k}" and "qu_seq q' = qu_seq q" and "qu_wq q' = qu_wq q"
    and "qu_starts q' = qu_starts q" and "owed es = (if result = InvTransient then {k} else {})"
    and "index_ok q \<Longrightarrow> index_ok q'"
proof -
  obtain q1 es1 where s: "settle result k p q = (q1, es1)" by fastforce
  then have q': "q' = q1\<lparr>qu_inflight := qu_inflight q1 - {k}\<rparr>" and es: "es = es1 @ [WqDone k]"
    using assms by (auto simp: process_finish_def process_exit_def)
  have o: "owed es = owed es1" by (auto simp: es owed_def)
  note shape = settle_shape [where result = result and k = k and p = p and q = q, unfolded s fst_conv snd_conv]
  show "payload q' = (if result = InvPermanent \<or> result = InvOk \<and> (\<exists>cur. payload q k = Some cur \<and> pe_seq cur = pe_seq p)
      then (payload q)(k := None) else payload q)"
    and "qu_inflight q' = qu_inflight q - {k}" and "qu_seq q' = qu_seq q" and "qu_wq q' = qu_wq q"
    and "qu_starts q' = qu_starts q" and "owed es = (if result = InvTransient then {k} else {})"
    unfolding o q' by (simp_all only: shape payload_upd) (simp_all add: shape(2-5))
  show "index_ok q \<Longrightarrow> index_ok q'"
    by (rule index_ok_cong [OF shape(6)]) (simp_all add: q')
qed

lemma cancel_cases:
  assumes "index_ok q" and "CancelByFingerprint fp q = (b, q')"
  obtains "q' = q" | k p where "payload q k = Some p" and "k \<notin> qu_inflight q" and "q' = removeLocked k (pe_req p) q"
proof -
  have "\<exists>p. payload q k = Some p" if "qu_byFP q fp = Some k" for k
    using assms(1) that by (fastforce simp: index_ok_def)
  then show ?thesis
    using assms(2) that by (fastforce simp: CancelByFingerprint_def split: if_splits option.splits)
qed

lemma Run_start_shape:
  assumes "Run_start q = (q', es)"
  shows "q' = q\<lparr>qu_wq := True\<rparr>" and "owed es = {k. payload q k \<noteq> None}"
  using assms by (force simp: Run_start_def owed_def payload_def map_of_eq_None_iff)+

section \<open>No payload is stranded\<close>

definition in_order :: "machine \<Rightarrow> bool" where
  "in_order m \<longleftrightarrow> index_ok (ms_queue m)
     \<and> qu_inflight (ms_queue m) = (case held m of None \<Rightarrow> {} | Some (k, p) \<Rightarrow> {k})
     \<and> (ms_open m \<longrightarrow> qu_wq (ms_queue m)
        \<and> (\<forall>k cur. payload (ms_queue m) k = Some cur \<longrightarrow>
             k \<in> ms_scheduled m \<or> (\<exists>p. held m = Some (k, p) \<and> pe_seq cur = pe_seq p)))"

lemma in_order_init: "in_order (machine_init starts maxRequeues t)"
  by (auto simp: in_order_def machine_init_def held_def index_ok_def ConfigureRateLimit_def NewQueue_def
      payload_def Let_def split: option.split)

lemma in_order_step:
  assumes "qstep m m'" and "in_order m"
  shows "in_order m'"
  using assms
proof (induction rule: qstep.induct)
  case (step_enqueue r m q es)
  have q: "q = fst (Enqueue r (ms_queue m))" and es: "es = snd (Enqueue r (ms_queue m))"
    using step_enqueue(1) by simp_all
  show ?case
    using step_enqueue(2) index_ok_Enqueue [of "ms_queue m" r]
    by (auto simp: in_order_def q es Enqueue_payload Enqueue_frame held_def schedule_def owed_def split: if_splits)
next
  case (step_cancel fp m b q)
  have "index_ok (ms_queue m)" using step_cancel(2) by (simp add: in_order_def)
  from cancel_cases [OF this step_cancel(1)] show ?case
  proof cases
    case (2 k p)
    then show ?thesis
      using step_cancel(2) index_ok_remove [of "ms_queue m" k p]
      by (auto simp: in_order_def held_def split: if_splits)
  qed (use step_cancel(2) in simp)
next
  case (step_term m q es)
  then show ?case
    using Run_start_shape [OF step_term(3)] by (auto simp: in_order_def held_def index_ok_def)
next
  case (step_close m)
  then show ?case by (simp add: in_order_def held_def)
next
  case (step_shutdown m)
  then show ?case by (auto simp: in_order_def held_def Run_shutdown_def index_ok_def)
next
  case (step_stale m k q es)
  then show ?case by (auto simp: in_order_def held_def begin_shape schedule_def owed_def)
next
  case (step_begin m k p q es)
  then show ?case by (auto simp: in_order_def held_def begin_shape index_ok_def)
next
  case (step_start m k p n n' warn requeues q es)
  from step_start(4) have g: "payload q = payload (ms_queue m)" "qu_byFP q = qu_byFP (ms_queue m)"
    "qu_inflight q = qu_inflight (ms_queue m)" "qu_wq q = qu_wq (ms_queue m)" "owed es = {}"
    by (blast dest: gate_started)+
  then show ?case
    using step_start(1,5) by (auto simp: in_order_def held_def index_ok_def schedule_def)
next
  case (step_throttle m k p n n' warn requeues q es)
  from step_throttle(4) show ?case
  proof (cases rule: gate_throttled)
    case dropped
    have "index_ok (drop_current k (ms_queue m))"
      using step_throttle(5) by (simp add: in_order_def index_ok_drop)
    then have "index_ok q" using dropped(1,2) by (rule_tac index_ok_cong) (auto simp: fun_eq_iff)
    then show ?thesis
      using step_throttle(1,5) dropped by (auto simp: in_order_def held_def schedule_def)
  next
    case requeued
    then show ?thesis
      using step_throttle(1,5) by (auto simp: in_order_def held_def schedule_def index_ok_def)
  qed
next
  case (step_finish m k p result q es)
  note f = finish_shape [OF step_finish(2)]
  have held: "held m = Some (k, p)" using step_finish(1) by (simp add: held_def)
  have inv: "index_ok (ms_queue m)" "qu_inflight (ms_queue m) = {k}" "ms_open m \<Longrightarrow> qu_wq (ms_queue m)"
    "\<And>k' cur. ms_open m \<Longrightarrow> payload (ms_queue m) k' = Some cur \<Longrightarrow>
      k' \<in> ms_scheduled m \<or> k' = k \<and> pe_seq cur = pe_seq p"
    using step_finish(3) held by (auto simp: in_order_def)
  have "k' \<in> schedule m es" if "ms_open m" "payload q k' = Some cur" for k' cur
    using inv(4) [OF that(1), of k' cur] that f(1,6)
    by (cases result) (auto simp: schedule_def split: if_splits)
  then show ?case
    using f(2,4,7) inv(1-3) by (auto simp: in_order_def held_def)
qed

lemma reach_in_order: "qreach starts maxRequeues m \<Longrightarrow> in_order m"
  by (induction rule: qreach.induct) (auto intro: in_order_init in_order_step)

text \<open>
  C12: no accepted request is stranded. Under every interleaving of producers, resolves, terms and
  the worker, while a term's workqueue is open each stored payload has its key waiting in the workqueue
  or is the very payload the worker holds; the shield covers exactly the key the worker holds; and the
  cancel index points only at stored payloads under their own fingerprint.
\<close>

theorem no_payload_stranded:
  assumes "qreach starts maxRequeues m" and "ms_open m" and "payload (ms_queue m) k = Some cur"
  shows "(k \<in> ms_scheduled m \<or> (\<exists>p. held m = Some (k, p) \<and> pe_seq cur = pe_seq p))
    \<and> qu_inflight (ms_queue m) = (case held m of None \<Rightarrow> {} | Some (k, p) \<Rightarrow> {k})
    \<and> index_ok (ms_queue m)"
  using reach_in_order [OF assms(1)] assms(2,3) by (auto simp: in_order_def)

section \<open>A re-fired trigger survives\<close>

text \<open>While fewer than \<open>2 ^ 64\<close> requests came in, sequence numbers tell payloads apart.\<close>

definition stamped :: "machine \<Rightarrow> bool" where
  "stamped m \<longleftrightarrow> (ms_enqueued m < 2 ^ 64 \<longrightarrow>
     unat (qu_seq (ms_queue m)) = ms_enqueued m
     \<and> (\<forall>k cur. payload (ms_queue m) k = Some cur \<longrightarrow> unat (pe_seq cur) \<le> ms_enqueued m)
     \<and> (\<forall>k p. held m = Some (k, p) \<longrightarrow> unat (pe_seq p) \<le> ms_enqueued m
          \<and> (\<forall>cur. payload (ms_queue m) k = Some cur \<and> pe_seq cur = pe_seq p \<longrightarrow> cur = p)))"

lemma stamped_mono:
  assumes "stamped m" and "ms_enqueued m' = ms_enqueued m" and "qu_seq (ms_queue m') = qu_seq (ms_queue m)"
    and "payload (ms_queue m') \<subseteq>\<^sub>m payload (ms_queue m)" and "held m' = held m \<or> held m' = None"
  shows "stamped m'"
  using assms unfolding stamped_def map_le_def by (auto simp: dom_def) metis+

lemma stamped_step:
  assumes "qstep m m'" and "stamped m" and "in_order m"
  shows "stamped m'"
  using assms
proof (induction rule: qstep.induct)
  case (step_enqueue r m q es)
  have q: "q = fst (Enqueue r (ms_queue m))" using step_enqueue(1) by simp
  show ?case
  proof (cases "Suc (ms_enqueued m) < 2 ^ 64")
    case True
    with step_enqueue(2) have s: "unat (qu_seq (ms_queue m)) = ms_enqueued m" by (simp add: stamped_def)
    then have "unat (qu_seq (ms_queue m) + 1) = Suc (ms_enqueued m)"
      using True by (simp add: unat_word_ariths)
    then show ?thesis
      using step_enqueue(2) True s
      by (auto simp: stamped_def q Enqueue_payload Enqueue_frame held_def intro: le_SucI)
  qed (simp add: stamped_def)
next
  case (step_cancel fp m b q)
  have "index_ok (ms_queue m)" using step_cancel(3) by (simp add: in_order_def)
  from cancel_cases [OF this step_cancel(1)] show ?case
  proof cases
    case (2 k p)
    then show ?thesis by (intro stamped_mono [OF step_cancel(2)]) (auto simp: map_le_def held_def)
  qed (use step_cancel(2) in simp)
next
  case (step_term m q es)
  then show ?case
    using Run_start_shape [OF step_term(3)] by (intro stamped_mono [OF step_term(4)]) (auto simp: held_def)
next
  case (step_close m)
  then show ?case by (intro stamped_mono [OF step_close(1)]) (auto simp: held_def)
next
  case (step_shutdown m)
  then show ?case by (intro stamped_mono [OF step_shutdown(4)]) (auto simp: held_def Run_shutdown_def)
next
  case (step_stale m k q es)
  then show ?case by (intro stamped_mono [OF step_stale(4)]) (auto simp: held_def begin_shape)
next
  case (step_begin m k p q es)
  then show ?case by (auto simp: stamped_def held_def begin_shape)
next
  case (step_start m k p n n' warn requeues q es)
  from step_start(4) have "payload q = payload (ms_queue m)" "qu_seq q = qu_seq (ms_queue m)"
    by (blast dest: gate_started)+
  then show ?case using step_start(1) by (intro stamped_mono [OF step_start(5)]) (auto simp: held_def)
next
  case (step_throttle m k p n n' warn requeues q es)
  from step_throttle(4) show ?case
    by (cases rule: gate_throttled; intro stamped_mono [OF step_throttle(5)])
      (auto simp: held_def map_le_def)
next
  case (step_finish m k p result q es)
  note f = finish_shape [OF step_finish(2)]
  show ?case
    using f(1,3) by (intro stamped_mono [OF step_finish(3)]) (auto simp: held_def map_le_def)
qed

lemma reach_stamped: "qreach starts maxRequeues m \<Longrightarrow> stamped m"
proof (induction rule: qreach.induct)
  case (qreach_init t)
  then show ?case
    by (auto simp: stamped_def machine_init_def held_def ConfigureRateLimit_def NewQueue_def payload_def Let_def
        split: option.split)
next
  case (qreach_step m m')
  then show ?case using stamped_step reach_in_order by blast
qed

text \<open>
  A trigger that re-fires while its investigation runs is not lost when that investigation
  succeeds. As long as fewer than \<open>2 ^ 64\<close> requests came in, the payload that replaced the investigated
  one is still stored after \<open>process\<close> returns and, with the term open, its key is waiting to be served.
\<close>

theorem refired_trigger_survives:
  assumes "qreach starts maxRequeues m" and "ms_enqueued m < 2 ^ 64" and "ms_worker m = Investigating k p"
    and "payload (ms_queue m) k = Some cur" and "cur \<noteq> p"
    and "process_finish InvOk k p (ms_queue m) = (q, es)"
  shows "payload q k = Some cur \<and> (ms_open m \<longrightarrow> k \<in> ms_scheduled m)"
proof -
  have "pe_seq cur \<noteq> pe_seq p"
    using reach_stamped [OF assms(1)] assms(2-5) by (auto simp: stamped_def held_def)
  then show ?thesis
    using finish_shape(1) [OF assms(6)] reach_in_order [OF assms(1)] assms(3,4)
    by (auto simp: in_order_def held_def)
qed

section \<open>The start budget\<close>

definition budgeted :: "int \<Rightarrow> duration \<Rightarrow> machine \<Rightarrow> bool" where
  "budgeted n w m \<longleftrightarrow> (\<exists>s c. qu_starts (ms_queue m) = Some s
     \<and> window_limiter.tracks w (nat n) s (ms_started m) c (ms_clock m))"

lemma budgeted_cong:
  "budgeted n w m \<Longrightarrow> qu_starts (ms_queue m') = qu_starts (ms_queue m) \<Longrightarrow> ms_started m' = ms_started m \<Longrightarrow>
     ms_clock m' = ms_clock m \<Longrightarrow> budgeted n w m'"
  by (simp add: budgeted_def)

lemma budgeted_step:
  assumes "qstep m m'" and "budgeted n w m"
  shows "budgeted n w m'"
  using assms
proof (induction rule: qstep.induct)
  case (step_enqueue r m q es)
  have "q = fst (Enqueue r (ms_queue m))" using step_enqueue(1) by simp
  then show ?case by (intro budgeted_cong [OF step_enqueue(2)]) (simp_all add: Enqueue_frame)
next
  case (step_cancel fp m b q)
  then have "qu_starts q = qu_starts (ms_queue m)"
    by (auto simp: CancelByFingerprint_def split: if_splits option.splits)
  then show ?case by (intro budgeted_cong [OF step_cancel(2)]) simp_all
next
  case (step_term m q es)
  then show ?case
    using Run_start_shape(1) [OF step_term(3)] by (intro budgeted_cong [OF step_term(4)]) simp_all
next
  case (step_shutdown m)
  then show ?case by (intro budgeted_cong [OF step_shutdown(4)]) (simp_all add: Run_shutdown_def)
next
  case (step_stale m k q es)
  then show ?case by (intro budgeted_cong [OF step_stale(4)]) (simp_all add: begin_shape)
next
  case (step_begin m k p q es)
  then show ?case by (intro budgeted_cong [OF step_begin(4)]) (simp_all add: begin_shape)
next
  case (step_start m k p t t' warn requeues q es)
  obtain s c where s: "qu_starts (ms_queue m) = Some s"
    "window_limiter.tracks w (nat n) s (ms_started m) c (ms_clock m)" using step_start(5) by (auto simp: budgeted_def)
  from gate_started(7) [OF step_start(4)] s(1) obtain s' where s': "Allow t t' s = (True, s')" "qu_starts q = Some s'"
    by auto
  show ?case
    using window_limiter.tracks_granted [OF s(2) step_start(2,3) s'(1)] s'(2) by (auto simp: budgeted_def)
next
  case (step_throttle m k p t t' warn requeues q es)
  obtain s c where s: "qu_starts (ms_queue m) = Some s"
    "window_limiter.tracks w (nat n) s (ms_started m) c (ms_clock m)" using step_throttle(5) by (auto simp: budgeted_def)
  from step_throttle(4) have "\<exists>w w'. qu_starts (ms_queue m) = Some w \<and> Allow t t' w = (False, w') \<and> qu_starts q = Some w'"
    by (cases rule: gate_throttled) auto
  then obtain s' where s': "Allow t t' s = (False, s')" "qu_starts q = Some s'" using s(1) by auto
  show ?case
    using window_limiter.tracks_refused [OF s(2) step_throttle(2,3) s'(1)] s'(2) by (auto simp: budgeted_def)
next
  case (step_finish m k p result q es)
  then show ?case
    using finish_shape(5) [OF step_finish(2)] by (intro budgeted_cong [OF step_finish(3)]) simp_all
qed (auto intro: budgeted_cong)

text \<open>
  The start budget bounds the paid work. With a budget of \<open>n\<close> starts per window \<open>w\<close>, no
  interval of length \<open>w\<close> of any run, across leadership terms, cancellations and requeues, holds more
  than \<open>n\<close> starts of an investigation.
\<close>

theorem starts_within_budget:
  assumes "qreach (Some (New_window n w)) maxRequeues m" and "0 < n" and "0 < w"
  shows "int (in_window w a (ms_started m)) \<le> n"
proof -
  from assms(1) have "budgeted n w m"
  proof (induction rule: qreach.induct)
    case (qreach_init t)
    have "window_limiter.tracks w (nat n) (New_window n w) [] (t - w) t"
      using assms(2,3) by (intro window_limiter.tracks_init) (simp_all add: New_window_def)
    then show ?case
      by (auto simp: budgeted_def machine_init_def ConfigureRateLimit_def Let_def)
  next
    case (qreach_step m m')
    then show ?case using budgeted_step by blast
  qed
  then obtain s c where "window_limiter.tracks w (nat n) s (ms_started m) c (ms_clock m)"
    by (auto simp: budgeted_def)
  from window_limiter.tracks_bound [OF this, of a] assms(2) show ?thesis by simp
qed

section \<open>A run\<close>

text \<open>
  An alert arrives in an open term, its investigation starts, and it re-fires meanwhile.
\<close>

definition demo_alert1 :: request where
  "demo_alert1 = zero_request\<lparr>rq_title := ''Down'', rq_fingerprint := ''f1''\<rparr>"

definition demo_refire :: request where
  "demo_refire = demo_alert1\<lparr>rq_message := ''again''\<rparr>"

definition demo_key :: queue_key where
  "demo_key = \<lparr>qk_source = [], qk_namespace = [], qk_name = [], qk_title = ''Down''\<rparr>"

lemma demo_keys [simp]: "keyOf demo_alert1 = demo_key" "keyOf demo_refire = demo_key"
  "cancellableFingerprint demo_alert1 = Some ''f1''" "cancellableFingerprint demo_refire = Some ''f1''"
  by (simp_all add: keyOf_def demo_alert1_def demo_refire_def demo_key_def zero_request_def zero_workload_def
      cancellableFingerprint_def)

definition demo_queue0 :: queue where
  "demo_queue0 = ConfigureRateLimit (Some (New_window 1 10)) 0 NewQueue"

definition demo_m1 :: machine where
  "demo_m1 = (let m = machine_init (Some (New_window 1 10)) 0 0
     in m\<lparr>ms_queue := fst (Run_start demo_queue0), ms_open := True, ms_scheduled := {}\<rparr>)"

definition demo_m2 :: machine where
  "demo_m2 = demo_m1\<lparr>ms_queue := fst (Enqueue demo_alert1 (ms_queue demo_m1)), ms_scheduled := {demo_key},
     ms_enqueued := 1\<rparr>"

lemma demo_m1_facts: "qu_wq (ms_queue demo_m1)" "qu_seq (ms_queue demo_m1) = 0" "qu_reqs (ms_queue demo_m1) = []"
  "ms_open demo_m1" "ms_scheduled demo_m1 = {}" "ms_enqueued demo_m1 = 0" "ms_worker demo_m1 = Idle"
  "ms_started demo_m1 = []" "qu_inflight (ms_queue demo_m1) = {}"
  by (simp_all add: demo_m1_def demo_queue0_def Run_start_def ConfigureRateLimit_def NewQueue_def machine_init_def Let_def)

lemma demo_reach1: "qreach (Some (New_window 1 10)) 0 demo_m1"
proof -
  have "qstep (machine_init (Some (New_window 1 10)) 0 0) demo_m1"
    unfolding demo_m1_def Let_def
    using step_term [of "machine_init (Some (New_window 1 10)) 0 0" "fst (Run_start demo_queue0)" "snd (Run_start demo_queue0)"]
    by (simp add: machine_init_def demo_queue0_def ConfigureRateLimit_def NewQueue_def Run_start_def owed_def Let_def)
  then show ?thesis using qreach_init qreach_step by blast
qed

lemma demo_reach2: "qreach (Some (New_window 1 10)) 0 demo_m2"
proof -
  have "qstep demo_m1 demo_m2"
    using step_enqueue [of demo_alert1 demo_m1 "fst (Enqueue demo_alert1 (ms_queue demo_m1))" "snd (Enqueue demo_alert1 (ms_queue demo_m1))"]
    by (simp add: demo_m2_def Enqueue_frame demo_m1_facts schedule_def owed_def prod_eq_iff)
  then show ?thesis using demo_reach1 qreach_step by blast
qed

lemma demo_m2_payload: "payload (ms_queue demo_m2) demo_key = Some \<lparr>pe_req = demo_alert1, pe_seq = 1\<rparr>"
  by (simp add: demo_m2_def Enqueue_payload demo_m1_facts)

text \<open>The run goes on: the key surfaces, the investigation starts at instant 1, and the alert re-fires.\<close>

lemma demo_run_refired:
  "\<exists>m. qreach (Some (New_window 1 10)) 0 m \<and> ms_enqueued m = 2 \<and> ms_open m \<and> ms_started m = [1]
     \<and> ms_worker m = Investigating demo_key \<lparr>pe_req = demo_alert1, pe_seq = 1\<rparr>
     \<and> payload (ms_queue m) demo_key = Some \<lparr>pe_req = demo_refire, pe_seq = 2\<rparr>"
proof -
  let ?p = "\<lparr>pe_req = demo_alert1, pe_seq = 1 :: 64 word\<rparr>"
  let ?q3 = "(ms_queue demo_m2)\<lparr>qu_inflight := {demo_key}\<rparr>"
  define m3 where "m3 = demo_m2\<lparr>ms_queue := ?q3, ms_worker := Gating demo_key ?p, ms_scheduled := {}\<rparr>"
  have "process_begin demo_key (ms_queue demo_m2) = (Some ?p, ?q3, [])"
    using demo_m2_payload by (simp add: begin_shape demo_m2_def Enqueue_frame demo_m1_facts)
  then have "qstep demo_m2 m3"
    unfolding m3_def using step_begin [of demo_m2 demo_key ?p ?q3 "[]"] by (simp add: demo_m2_def demo_m1_facts)
  then have r3: "qreach (Some (New_window 1 10)) 0 m3" using demo_reach2 qreach_step by blast
  have s3: "qu_starts (ms_queue m3) = Some (New_window 1 10)"
    by (simp add: m3_def demo_m2_def Enqueue_frame demo_m1_def demo_queue0_def Run_start_def
        ConfigureRateLimit_def NewQueue_def Let_def)
  have m3: "ms_worker m3 = Gating demo_key ?p" "ms_clock m3 = 0" "ms_open m3" "ms_enqueued m3 = 1" "ms_started m3 = []"
    "payload (ms_queue m3) demo_key = Some ?p" "qu_seq (ms_queue m3) = 1"
    using demo_m2_payload demo_m1_facts
    by (simp_all add: m3_def demo_m2_def demo_m1_def machine_init_def Let_def Enqueue_frame)
  obtain q4 es4 where g: "process_gate (1, 1) (1, 1) 0 demo_key ?p (ms_queue m3) = (True, q4, es4)"
    using s3 by (simp add: process_gate_def Allow_def New_window_def slideLocked_def slide_def Let_def)
  define m4 where "m4 = m3\<lparr>ms_queue := q4, ms_worker := Investigating demo_key ?p,
      ms_scheduled := schedule m3 es4, ms_clock := 1, ms_started := [1]\<rparr>"
  have "qstep m3 m4" unfolding m4_def using step_start [OF m3(1) _ _ g] m3 by simp
  then have r4: "qreach (Some (New_window 1 10)) 0 m4" using r3 qreach_step by blast
  obtain q5 es5 where e: "Enqueue demo_refire (ms_queue m4) = (q5, es5)" by fastforce
  have "payload q5 demo_key = Some \<lparr>pe_req = demo_refire, pe_seq = qu_seq q4 + 1\<rparr>"
    using Enqueue_payload [of demo_refire "ms_queue m4"] e by (simp add: m4_def)
  moreover have "qu_seq q4 = 1" using gate_started(4) [OF g] m3(7) by simp
  ultimately have "payload q5 demo_key = Some \<lparr>pe_req = demo_refire, pe_seq = 2\<rparr>" by simp
  moreover have "qreach (Some (New_window 1 10)) 0 (m4\<lparr>ms_queue := q5, ms_scheduled := schedule m4 es5,
      ms_enqueued := Suc (ms_enqueued m4)\<rparr>)"
    using step_enqueue [OF e] r4 qreach_step by blast
  ultimately show ?thesis
    using m3 by (intro exI [where x = "m4\<lparr>ms_queue := q5, ms_scheduled := schedule m4 es5,
      ms_enqueued := Suc (ms_enqueued m4)\<rparr>"]) (simp add: m4_def)
qed

lemma no_payload_stranded_witness:
  "demo_key \<in> ms_scheduled demo_m2 \<and> index_ok (ms_queue demo_m2)"
  using no_payload_stranded [OF demo_reach2 _ demo_m2_payload] by (simp add: demo_m2_def demo_m1_facts held_def)

lemma refired_trigger_survives_witness:
  "\<exists>m q es. qreach (Some (New_window 1 10)) 0 m
     \<and> process_finish InvOk demo_key \<lparr>pe_req = demo_alert1, pe_seq = 1\<rparr> (ms_queue m) = (q, es)
     \<and> payload q demo_key = Some \<lparr>pe_req = demo_refire, pe_seq = 2\<rparr> \<and> demo_key \<in> ms_scheduled m"
proof -
  obtain m where m: "qreach (Some (New_window 1 10)) 0 m" "ms_enqueued m = 2" "ms_open m"
    "ms_worker m = Investigating demo_key \<lparr>pe_req = demo_alert1, pe_seq = 1\<rparr>"
    "payload (ms_queue m) demo_key = Some \<lparr>pe_req = demo_refire, pe_seq = 2\<rparr>"
    using demo_run_refired by blast
  obtain q es where f: "process_finish InvOk demo_key \<lparr>pe_req = demo_alert1, pe_seq = 1\<rparr> (ms_queue m) = (q, es)"
    by fastforce
  from refired_trigger_survives [OF m(1) _ m(4,5) _ f] m(1-3) f show ?thesis by auto
qed

lemma starts_within_budget_witness:
  "\<exists>m. qreach (Some (New_window 1 10)) 0 m \<and> ms_started m = [1] \<and> in_window 10 0 (ms_started m) \<le> 1"
  using demo_run_refired starts_within_budget [of 1 10 0 _ 0] by fastforce

lemma cancel_removes_one_queued_witness:
  "\<exists>k p. qu_byFP (ms_queue demo_m2) ''f1'' = Some k \<and> payload (ms_queue demo_m2) k = Some p"
proof -
  have i: "index_ok (ms_queue demo_m2)" using reach_in_order [OF demo_reach2] by (simp add: in_order_def)
  have b: "qu_byFP (ms_queue demo_m2) ''f1'' = Some demo_key"
    by (simp add: demo_m2_def Enqueue_byFP)
  have "fst (CancelByFingerprint ''f1'' (ms_queue demo_m2))"
    using b demo_m2_payload by (simp add: CancelByFingerprint_def demo_m2_def Enqueue_frame demo_m1_facts)
  then show ?thesis
    using cancel_removes_one_queued [OF i prod.collapse [symmetric], of "''f1''"] by auto
qed

end
