(* ===== verification/Globs.thy ===== *)
theory Globs
  imports Prelude
begin

text \<open>
  Go's \<open>path.Match\<close>, as documented: \<open>*\<close> matches any run of bytes other than \<open>/\<close>, \<open>?\<close> one byte other
  than \<open>/\<close>, \<open>[...]\<close> and \<open>[^...]\<close> a class of single bytes and ranges, a backslash quotes the next byte,
  and the whole string has to match; a malformed pattern is an error and matches nothing. The trigger
  policy and the repository allow list call it. Names are ASCII, so a byte is a character.
\<close>

section \<open>Patterns\<close>

datatype glob_item =
    GStar
  | GAny
  | GClass bool "(char \<times> char) list"
  | GLit char

text \<open>\<open>getEsc\<close>: one possibly quoted character of a class, which may not be the end of the pattern.\<close>

fun get_esc :: "string \<Rightarrow> (char \<times> string) option" where
  "get_esc [] = None"
| "get_esc (c # cs) =
     (if c = CHR ''-'' \<or> c = CHR '']'' then None
      else if c = CHR 0x5C then (case cs of d # e # ds \<Rightarrow> Some (d, e # ds) | _ \<Rightarrow> None)
      else if cs = [] then None
      else Some (c, cs))"

lemma get_esc_shorter: "get_esc s = Some (c, r) \<Longrightarrow> length r < length s"
  by (cases s) (auto split: if_splits list.splits)

text \<open>The ranges of a class up to its closing bracket; a class has at least one.\<close>

function parse_ranges :: "bool \<Rightarrow> string \<Rightarrow> ((char \<times> char) list \<times> string) option" where
  "parse_ranges nonempty s =
     (if nonempty \<and> s \<noteq> [] \<and> hd s = CHR '']'' then Some ([], tl s)
      else case get_esc s of
        None \<Rightarrow> None
      | Some (lo, r) \<Rightarrow>
          (case (if r \<noteq> [] \<and> hd r = CHR ''-'' then get_esc (tl r) else Some (lo, r)) of
             None \<Rightarrow> None
           | Some (hi, r') \<Rightarrow>
               (if length r' < length s
                then (case parse_ranges True r' of None \<Rightarrow> None | Some (rs, r'') \<Rightarrow> Some ((lo, hi) # rs, r''))
                else None)))"
  by pat_completeness auto
termination by (relation "measure (length \<circ> snd)") auto

declare parse_ranges.simps [simp del]

lemma parse_ranges_shorter: "parse_ranges b s = Some (rs, r) \<Longrightarrow> length r < length s"
proof (induction "length s" arbitrary: b s rs rule: less_induct)
  case less
  show ?case
    using less(2)
    by (subst (asm) parse_ranges.simps)
      (auto split: if_splits option.splits prod.splits dest: less(1) intro: order.strict_trans)
qed

text \<open>The length test only bounds the recursion: it never fails.\<close>

lemma parse_ranges_guard:
  assumes "get_esc s = Some (lo, r)"
    and "(if r \<noteq> [] \<and> hd r = CHR ''-'' then get_esc (tl r) else Some (lo, r)) = Some (hi, r')"
  shows "length r' < length s"
  using assms get_esc_shorter [of s lo r] get_esc_shorter [of "tl r" hi r'] by (cases r) (auto split: if_splits)

function parse_glob :: "string \<Rightarrow> glob_item list option" where
  "parse_glob [] = Some []"
| "parse_glob (c # cs) =
     (if c = CHR ''*'' then map_option ((#) GStar) (parse_glob cs)
      else if c = CHR ''?'' then map_option ((#) GAny) (parse_glob cs)
      else if c = CHR ''['' then
        (let neg = (cs \<noteq> [] \<and> hd cs = CHR 0x5E);
             body = (if neg then tl cs else cs)
         in case parse_ranges False body of
              None \<Rightarrow> None
            | Some (rs, r) \<Rightarrow> if length r < Suc (length cs) then map_option ((#) (GClass neg rs)) (parse_glob r) else None)
      else if c = CHR 0x5C then
        (case cs of [] \<Rightarrow> None | d # ds \<Rightarrow> map_option ((#) (GLit d)) (parse_glob ds))
      else map_option ((#) (GLit c)) (parse_glob cs))"
  by pat_completeness auto
termination by (relation "measure length") auto

section \<open>Matching\<close>

definition in_class :: "bool \<Rightarrow> (char \<times> char) list \<Rightarrow> char \<Rightarrow> bool" where
  "in_class neg rs c = ((\<exists>(lo, hi) \<in> set rs. lo \<le> c \<and> c \<le> hi) \<noteq> neg)"

fun match_items :: "glob_item list \<Rightarrow> string \<Rightarrow> bool" where
  "match_items [] s = (s = [])"
| "match_items (GStar # ps) [] = match_items ps []"
| "match_items (GStar # ps) (c # s) = (match_items ps (c # s) \<or> (c \<noteq> CHR ''/'' \<and> match_items (GStar # ps) s))"
| "match_items (GAny # ps) (c # s) = (c \<noteq> CHR ''/'' \<and> match_items ps s)"
| "match_items (GClass neg rs # ps) (c # s) = (in_class neg rs c \<and> match_items ps s)"
| "match_items (GLit d # ps) (c # s) = (c = d \<and> match_items ps s)"
| "match_items (p # ps) [] = False"

definition path_match :: "string \<Rightarrow> string \<Rightarrow> bool option" where
  "path_match pattern s = (case parse_glob pattern of None \<Rightarrow> None | Some ps \<Rightarrow> Some (match_items ps s))"

text \<open>A pattern without metacharacters matches itself only.\<close>

definition literal_pattern :: "string \<Rightarrow> bool" where
  "literal_pattern p \<longleftrightarrow> set p \<inter> {CHR ''*'', CHR ''?'', CHR ''['', CHR 0x5C} = {}"

lemma parse_literal: "literal_pattern p \<Longrightarrow> parse_glob p = Some (map GLit p)"
  by (induction p) (auto simp: literal_pattern_def)

lemma match_literal: "match_items (map GLit p) s \<longleftrightarrow> s = p"
  by (induction p arbitrary: s; case_tac s) auto

lemma path_match_literal: "literal_pattern p \<Longrightarrow> path_match p s = Some (s = p)"
  by (simp add: path_match_def parse_literal match_literal)

text \<open>A literal prefix of a pattern is a literal prefix of what it matches.\<close>

lemma parse_glob_literal_prefix:
  "literal_pattern h \<Longrightarrow> parse_glob (h @ p) = map_option ((@) (map GLit h)) (parse_glob p)"
proof (induction h)
  case Nil
  then show ?case by (simp add: option.map_ident)
next
  case (Cons c h)
  then show ?case by (cases "parse_glob p") (auto simp: literal_pattern_def)
qed

lemma match_literal_prefix: "match_items (map GLit h @ ps) s \<Longrightarrow> \<exists>r. s = h @ r \<and> match_items ps r"
  by (induction h arbitrary: s; case_tac s) auto

lemma path_match_literal_prefix:
  assumes "literal_pattern h" and "path_match (h @ p) s = Some True"
  shows "has_prefix s h"
  using assms match_literal_prefix [of h]
  by (auto simp: path_match_def parse_glob_literal_prefix has_prefix_iff split: option.splits)

text \<open>\<open>*\<close> and \<open>?\<close> never cross a slash: with no class, as many slashes as the pattern has literally.\<close>

fun item_slashes :: "glob_item list \<Rightarrow> nat" where
  "item_slashes [] = 0"
| "item_slashes (GLit c # ps) = (if c = CHR ''/'' then 1 else 0) + item_slashes ps"
| "item_slashes (_ # ps) = item_slashes ps"

lemma match_slashes:
  "match_items ps s \<Longrightarrow> (\<And>neg rs. GClass neg rs \<notin> set ps) \<Longrightarrow>
     length (filter (\<lambda>c. c = CHR ''/'') s) = item_slashes ps"
  by (induction ps s rule: match_items.induct) auto

end
