(* ===== verification/TriggerPolicy.thy ===== *)
theory TriggerPolicy
  imports Globs Requests
begin

text \<open>
  Which alerts start an investigation: the match policy of \<open>internal/config/config.go\<close>
  (\<open>IncidentTrigger.MatchFields\<close>) and the deduplication window of \<open>internal/trigger/dedup.go\<close>.
\<close>

section \<open>The match policy\<close>

record incident_match =
  im_severity :: "string list"
  im_environment :: "string list"
  im_namespaces :: "string list"
  im_alertnames :: "string list"
  im_labels :: "(string \<times> string) list"

record incident_trigger =
  it_match :: incident_match
  it_ignore :: incident_match
  it_dedupWindow :: duration
  it_debounce :: "duration option"
  it_cancelQueuedOnResolve :: "bool option"

definition DebounceWindow :: "incident_trigger \<Rightarrow> duration" where
  "DebounceWindow t = (case it_debounce t of None \<Rightarrow> 0 | Some d \<Rightarrow> d)"

definition CancelQueuedOnResolveEnabled :: "incident_trigger \<Rightarrow> bool" where
  "CancelQueuedOnResolveEnabled t = (case it_cancelQueuedOnResolve t of None \<Rightarrow> False | Some b \<Rightarrow> b)"

definition containsFold :: "string list \<Rightarrow> string \<Rightarrow> bool" where
  "containsFold vals s = list_ex (\<lambda>v. to_lower v = to_lower s) vals"

definition globAny :: "string list \<Rightarrow> string \<Rightarrow> bool" where
  "globAny patterns s = list_ex (\<lambda>p. path_match p s = Some True) patterns"

definition matchFields_of :: "incident_match \<Rightarrow> string \<Rightarrow> string \<Rightarrow> string \<Rightarrow> string \<Rightarrow> (string \<rightharpoonup> string) \<Rightarrow> bool" where
  "matchFields_of m severity environment namespace alertname labels =
     (if im_severity m \<noteq> [] \<and> \<not> containsFold (im_severity m) severity then False
      else if im_environment m \<noteq> [] \<and> environment \<notin> set (im_environment m) then False
      else if im_namespaces m \<noteq> [] \<and> \<not> globAny (im_namespaces m) namespace then False
      else if im_alertnames m \<noteq> [] \<and> \<not> globAny (im_alertnames m) alertname then False
      else list_all (\<lambda>(k, v). mget [] labels k = v) (im_labels m))"

definition match_isEmpty :: "incident_match \<Rightarrow> bool" where
  "match_isEmpty m \<longleftrightarrow> im_severity m = [] \<and> im_environment m = [] \<and> im_namespaces m = []
     \<and> im_alertnames m = [] \<and> im_labels m = []"

definition MatchFields :: "incident_trigger \<Rightarrow> string \<Rightarrow> string \<Rightarrow> string \<Rightarrow> string \<Rightarrow> (string \<rightharpoonup> string) \<Rightarrow> bool" where
  "MatchFields t title severity environment namespace labels =
     (if \<not> matchFields_of (it_match t) severity environment namespace title labels then False
      else if \<not> match_isEmpty (it_ignore t)
        \<and> matchFields_of (it_ignore t) severity environment namespace title labels then False
      else True)"

definition MatchRequest :: "incident_trigger \<Rightarrow> request \<Rightarrow> bool" where
  "MatchRequest t r = MatchFields t (rq_title r) (rq_severity r) (rq_environment r)
     (wl_namespace (rq_workload r)) (rq_labels r)"

text \<open>An empty ignore block excludes nothing, and severity is compared without regard to case.\<close>

lemma MatchFields_case_insensitive:
  assumes "to_lower s = to_lower s'"
  shows "MatchFields t title s e n l = MatchFields t title s' e n l"
  using assms by (simp add: MatchFields_def matchFields_of_def containsFold_def)

section \<open>Deduplication\<close>

record deduper =
  de_window :: duration
  de_seen :: "string \<rightharpoonup> gotime"

definition NewDeduper :: "duration \<Rightarrow> deduper" where
  "NewDeduper w = \<lparr>de_window = w, de_seen = Map.empty\<rparr>"

definition evict_seen :: "gotime \<Rightarrow> deduper \<Rightarrow> deduper" where
  "evict_seen now d = d\<lparr>de_seen := (\<lambda>k. case de_seen d k of None \<Rightarrow> None
     | Some t \<Rightarrow> if time_sub now t \<ge> de_window d then None else Some t)\<rparr>"

definition Seen :: "string \<Rightarrow> gotime \<Rightarrow> deduper \<Rightarrow> bool \<times> deduper" where
  "Seen key now d =
     (if de_window d \<le> 0 then (False, d)
      else let d1 = evict_seen now d in
        if (case de_seen d1 key of None \<Rightarrow> False | Some t \<Rightarrow> time_sub now t < de_window d1)
        then (True, d1)
        else (False, d1\<lparr>de_seen := (de_seen d1)(key \<mapsto> now)\<rparr>))"

text \<open>A run of sightings, with the log of the ones that were let through.\<close>

definition sight :: "string \<times> gotime \<Rightarrow> deduper \<times> (string \<times> gotime) list \<Rightarrow> deduper \<times> (string \<times> gotime) list" where
  "sight kt dl = (case Seen (fst kt) (snd kt) (fst dl) of (b, d) \<Rightarrow> (d, if b then snd dl else snd dl @ [kt]))"

definition remembers :: "duration \<Rightarrow> gotime \<Rightarrow> deduper \<Rightarrow> (string \<times> gotime) list \<Rightarrow> bool" where
  "remembers w now d adm \<longleftrightarrow> de_window d = w \<and> (\<forall>(k, t) \<in> set adm. t \<le> now)
     \<and> (\<forall>k t. de_seen d k = Some t \<longrightarrow> (k, t) \<in> set adm)
     \<and> (0 < w \<longrightarrow> (\<forall>(k, t) \<in> set adm. time_sub now t < w \<longrightarrow> (\<exists>t'. de_seen d k = Some t' \<and> t \<le> t')))"

lemma remembers_entry:
  assumes "remembers w now d adm" and "0 < w" and "(k, t) \<in> set adm" and "time_sub now t < w"
  obtains t' where "de_seen d k = Some t'" and "t \<le> t'"
  using assms unfolding remembers_def by blast

lemma remembers_exact:
  assumes "remembers w now d adm" and "now \<le> now'"
  shows "fst (Seen key now' d) \<longleftrightarrow> (\<exists>t. (key, t) \<in> set adm \<and> time_sub now' t < w)"
proof (cases "0 < w")
  case True
  have w: "de_window d = w" using assms(1) by (simp add: remembers_def)
  have eq: "fst (Seen key now' d) \<longleftrightarrow> (\<exists>t. de_seen d key = Some t \<and> time_sub now' t < w)"
    using True w by (auto simp: Seen_def evict_seen_def Let_def split: option.splits)
  show ?thesis unfolding eq
  proof
    assume "\<exists>t. de_seen d key = Some t \<and> time_sub now' t < w"
    then show "\<exists>t. (key, t) \<in> set adm \<and> time_sub now' t < w" using assms(1) by (auto simp: remembers_def)
  next
    assume "\<exists>t. (key, t) \<in> set adm \<and> time_sub now' t < w"
    then obtain t where t: "(key, t) \<in> set adm" "time_sub now' t < w" by blast
    then have "time_sub now t < w" using time_sub_mono [OF assms(2), of t] by simp
    then obtain t' where t': "de_seen d key = Some t'" "t \<le> t'"
      by (rule remembers_entry [OF assms(1) True t(1)])
    have "time_sub now' t' \<le> time_sub now' t" using t'(2) by (auto simp: time_sub_defs)
    then show "\<exists>t. de_seen d key = Some t \<and> time_sub now' t < w" using t t' by auto
  qed
next
  case False
  have "0 \<le> time_sub now' t" if "(key, t) \<in> set adm" for t
    using assms that by (intro time_sub_nonneg) (auto simp: remembers_def)
  then show ?thesis using False assms(1) by (fastforce simp: Seen_def remembers_def)
qed

lemma remembers_sight:
  assumes "remembers w now d adm" and "now \<le> now'"
  shows "remembers w now' (fst (sight (key, now') (d, adm))) (snd (sight (key, now') (d, adm)))"
proof (cases "0 < w")
  case True
  have w: "de_window d = w" using assms(1) by (simp add: remembers_def)
  have keep: "\<exists>t'. de_seen (evict_seen now' d) k = Some t' \<and> t \<le> t'"
    if kt: "(k, t) \<in> set adm" "time_sub now' t < w" for k t
  proof -
    have "time_sub now t < w" using kt(2) time_sub_mono [OF assms(2), of t] by simp
    then obtain t' where t': "de_seen d k = Some t'" "t \<le> t'" by (rule remembers_entry [OF assms(1) True kt(1)])
    have "time_sub now' t' \<le> time_sub now' t" using t'(2) by (auto simp: time_sub_defs)
    then show ?thesis using t' kt(2) w by (auto simp: evict_seen_def)
  qed
  have sub: "(k, t) \<in> set adm" if "de_seen (evict_seen now' d) k = Some t" for k t
    using that assms(1) by (auto simp: evict_seen_def remembers_def split: option.splits if_splits)
  have le: "t \<le> now'" if "(k, t) \<in> set adm" for k t using that assms by (fastforce simp: remembers_def)
  have [simp]: "de_window (evict_seen now' d) = w" using w by (simp add: evict_seen_def)
  show ?thesis
  proof (cases "fst (Seen key now' d)")
    case True
    then have "Seen key now' d = (True, evict_seen now' d)" using \<open>0 < w\<close> w by (auto simp: Seen_def Let_def split: if_splits)
    then show ?thesis using keep sub le by (auto simp: sight_def remembers_def)
  next
    case False
    then have "Seen key now' d = (False, (evict_seen now' d)\<lparr>de_seen := (de_seen (evict_seen now' d))(key \<mapsto> now')\<rparr>)"
      using \<open>0 < w\<close> w by (auto simp: Seen_def Let_def split: if_splits)
    then show ?thesis using keep sub le by (auto simp: sight_def remembers_def)
  qed
next
  case False
  then show ?thesis using assms by (fastforce simp: sight_def Seen_def remembers_def)
qed

lemma remembers_run:
  assumes "remembers w now d adm" and "sorted (now # map snd kts)"
  shows "\<exists>now'. remembers w now' (fst (fold sight kts (d, adm))) (snd (fold sight kts (d, adm)))
    \<and> (\<forall>m. now \<le> m \<longrightarrow> (\<forall>t \<in> snd ` set kts. t \<le> m) \<longrightarrow> now' \<le> m)"
  using assms
proof (induction kts arbitrary: now d adm)
  case (Cons kt kts)
  obtain k t where kt: "kt = (k, t)" by (cases kt)
  have "now \<le> t" and s: "sorted (t # map snd kts)" using Cons.prems(2) by (auto simp: kt)
  obtain d' adm' where r: "sight kt (d, adm) = (d', adm')" by fastforce
  have "remembers w t d' adm'" using remembers_sight [OF Cons.prems(1) \<open>now \<le> t\<close>, of k] r by (simp add: kt)
  from Cons.IH [OF this s] show ?case using r kt by auto
qed auto

text \<open>
  Deduplication is exact. On a clock that does not go back, a sighting is suppressed if and
  only if the same key was let through less than the window ago; suppressed sightings do not extend the
  window, and a window of zero suppresses nothing.
\<close>

theorem dedup_exact:
  assumes "sorted (map snd kts)" and "\<forall>t \<in> snd ` set kts. t \<le> now"
  shows "fst (Seen key now (fst (fold sight kts (NewDeduper w, [])))) \<longleftrightarrow>
    (\<exists>t. (key, t) \<in> set (snd (fold sight kts (NewDeduper w, []))) \<and> time_sub now t < w)"
proof -
  define m where "m = (case kts of [] \<Rightarrow> now | kt # _ \<Rightarrow> snd kt)"
  have "sorted (m # map snd kts)" "m \<le> now" using assms by (cases kts; auto simp: m_def)+
  moreover have "remembers w m (NewDeduper w) []" by (simp add: remembers_def NewDeduper_def)
  ultimately obtain now' where "remembers w now' (fst (fold sight kts (NewDeduper w, []))) (snd (fold sight kts (NewDeduper w, [])))"
    "now' \<le> now" using remembers_run assms(2) by blast
  then show ?thesis by (rule remembers_exact)
qed

lemma dedup_exact_witness:
  "fst (Seen ''a'' 12 (fst (fold sight [(''a'', 1), (''a'', 8)] (NewDeduper 10, [])))) = False"
proof -
  have "snd (fold sight [(''a'', 1), (''a'', 8)] (NewDeduper 10, [])) = [(''a'', 1)]"
    by (simp add: sight_def Seen_def NewDeduper_def evict_seen_def time_sub_defs)
  then show ?thesis
    using dedup_exact [of "[(''a'', 1), (''a'', 8)]" 12 "''a''" 10] by (simp add: time_sub_defs)
qed

end
