(* ===== verification/Intake.thy ===== *)
theory Intake
  imports TriggerPolicy InvestigationQueue
begin

text \<open>
  From a decoded webhook to the queue: the hold of \<open>internal/source/debounce.go\<close>, the re-check of
  \<open>internal/investigate/debounce.go\<close> and the pipeline of \<open>internal/source/pipeline.go\<close>. What the pipeline
  hands requests to and cancels through are interfaces in the code (\<open>Enqueuer\<close>, \<open>Canceller\<close>,
  \<open>ResolveFunc\<close>); here they are functions on a world, and what the pipeline relies on are locales that
  the investigation queue interprets. A goroutine of the hold is an entry of \<open>db_holds\<close>; its three ways
  to wake up are the events of \<open>wake\<close>, and a \<open>select\<close> with two ready cases may take either.
\<close>

section \<open>Interfaces\<close>

text \<open>\<open>investigate.Enqueuer\<close>: what was handed over is stored.\<close>

locale enqueuer =
  fixes enqueue :: "request \<Rightarrow> 'w \<Rightarrow> 'w" and stored :: "'w \<Rightarrow> request \<Rightarrow> bool" and wf :: "'w \<Rightarrow> bool"
  assumes enqueue_wf: "wf w \<Longrightarrow> wf (enqueue r w)"
    and enqueue_stored: "wf w \<Longrightarrow> stored (enqueue r w) r"
begin

lemma last_enqueued_stored: "wf w \<Longrightarrow> rs \<noteq> [] \<Longrightarrow> stored (fold enqueue rs w) (last rs)"
proof (induction rs arbitrary: w)
  case (Cons r rs)
  then show ?case by (cases "rs = []") (auto intro: enqueue_wf enqueue_stored)
qed simp

end

text \<open>\<open>source.Canceller\<close> on top: a cancel that answers true removed a stored request of that fingerprint.\<close>

locale cancelling_enqueuer = enqueuer enqueue stored wf
  for enqueue :: "request \<Rightarrow> 'w \<Rightarrow> 'w" and stored :: "'w \<Rightarrow> request \<Rightarrow> bool" and wf :: "'w \<Rightarrow> bool" +
  fixes cancel :: "string \<Rightarrow> 'w \<Rightarrow> bool \<times> 'w" and started :: "'w \<Rightarrow> request \<Rightarrow> bool"
  assumes cancel_wf: "wf w \<Longrightarrow> wf (snd (cancel fp w))"
    and cancel_refused: "wf w \<Longrightarrow> \<not> fst (cancel fp w) \<Longrightarrow> snd (cancel fp w) = w"
    and cancel_spares: "wf w \<Longrightarrow> stored w r \<Longrightarrow> rq_fingerprint r \<noteq> fp \<or> started w r \<Longrightarrow> stored (snd (cancel fp w)) r"
    and cancel_removes: "wf w \<Longrightarrow> fp \<noteq> [] \<Longrightarrow> rq_fingerprint r = fp \<Longrightarrow> length (rq_fingerprints r) \<le> 1 \<Longrightarrow>
      \<not> started w r \<Longrightarrow> \<not> stored (snd (cancel fp (enqueue r w))) r"
begin

lemma resolve_before_start: "wf w \<Longrightarrow> rq_fingerprint r \<noteq> [] \<Longrightarrow> length (rq_fingerprints r) \<le> 1 \<Longrightarrow> \<not> started w r \<Longrightarrow>
    \<not> stored (snd (cancel (rq_fingerprint r) (enqueue r w))) r"
  by (rule cancel_removes) simp_all

end

definition queue_stored :: "queue \<Rightarrow> request \<Rightarrow> bool" where
  "queue_stored q r \<longleftrightarrow> (\<exists>p. payload q (keyOf r) = Some p \<and> pe_req p = r)"

definition queue_started :: "queue \<Rightarrow> request \<Rightarrow> bool" where
  "queue_started q r \<longleftrightarrow> keyOf r \<in> qu_inflight q"

lemma index_ok_cancel: "index_ok q \<Longrightarrow> index_ok (snd (CancelByFingerprint fp q))"
proof -
  assume ok: "index_ok q"
  obtain b q' where c: "CancelByFingerprint fp q = (b, q')" by fastforce
  from cancel_cases [OF ok this] show ?thesis using ok index_ok_remove by cases (auto simp: c)
qed

interpretation queue_sink: cancelling_enqueuer "\<lambda>r q. fst (Enqueue r q)" queue_stored index_ok CancelByFingerprint queue_started
proof unfold_locales
  fix q :: queue and r :: request and fp :: string
  assume ok: "index_ok q"
  show "index_ok (fst (Enqueue r q))" by (rule index_ok_Enqueue [OF ok])
  show "queue_stored (fst (Enqueue r q)) r" by (simp add: queue_stored_def Enqueue_payload)
  show "index_ok (snd (CancelByFingerprint fp q))" by (rule index_ok_cancel [OF ok])
  obtain b q' where c: "CancelByFingerprint fp q = (b, q')" by fastforce
  show "\<not> fst (CancelByFingerprint fp q) \<Longrightarrow> snd (CancelByFingerprint fp q) = q"
    using cancel_effect [OF ok c] c by simp
  show "queue_stored (snd (CancelByFingerprint fp q)) r"
    if "queue_stored q r" "rq_fingerprint r \<noteq> fp \<or> queue_started q r"
  proof (cases "snd (CancelByFingerprint fp q) = q")
    case False
    then have b using cancel_effect [OF ok c] c by (cases b) auto
    then obtain k p where k: "payload q k = Some p" "k \<notin> qu_inflight q" "rq_fingerprint (pe_req p) = fp"
      "payload (snd (CancelByFingerprint fp q)) = (payload q)(k := None)"
      using cancel_effect [OF ok c] c by auto
    then have "keyOf r \<noteq> k" using that k by (auto simp: queue_stored_def queue_started_def)
    then show ?thesis using that(1) k(4) by (simp add: queue_stored_def)
  qed (use that(1) in simp)
  show "\<not> queue_stored (snd (CancelByFingerprint fp (fst (Enqueue r q)))) r"
    if "fp \<noteq> []" "rq_fingerprint r = fp" "length (rq_fingerprints r) \<le> 1" "\<not> queue_started q r"
  proof -
    have "cancellableFingerprint r = Some fp" using that by (auto simp: cancellableFingerprint_def)
    then have "CancelByFingerprint fp (fst (Enqueue r q)) = (True, removeLocked (keyOf r) r (fst (Enqueue r q)))"
      using that(1,4) by (simp add: CancelByFingerprint_def Enqueue_byFP Enqueue_payload Enqueue_frame queue_started_def)
    then show ?thesis by (simp add: queue_stored_def)
  qed
qed

section \<open>The hold\<close>

text \<open>A goroutine waiting in \<open>wait\<close>: its request and whether its cancel channel has been closed.\<close>

record hold =
  ho_request :: request
  ho_closed :: bool

record incident_debouncer =
  db_window :: duration
  db_pending :: "string \<rightharpoonup> nat"
  db_holds :: "nat \<rightharpoonup> hold"
  db_next :: nat

datatype hold_effect =
    EnqueueNow request
  | IncidentDebounced request
  | IncidentDroppedOnShutdown request

datatype wake = CtxDone | ChannelClosed | WindowElapsed

definition newIncidentDebouncer :: "duration \<Rightarrow> incident_debouncer" where
  "newIncidentDebouncer w = \<lparr>db_window = w, db_pending = Map.empty, db_holds = Map.empty, db_next = 0\<rparr>"

definition register :: "string \<Rightarrow> nat \<Rightarrow> incident_debouncer \<Rightarrow> incident_debouncer" where
  "register key ch d = d\<lparr>db_pending := (db_pending d)(key \<mapsto> ch)\<rparr>"

definition unregister :: "string \<Rightarrow> nat \<Rightarrow> incident_debouncer \<Rightarrow> incident_debouncer" where
  "unregister key ch d = (if db_pending d key = Some ch then d\<lparr>db_pending := (db_pending d)(key := None)\<rparr> else d)"

definition Hold :: "request \<Rightarrow> incident_debouncer \<Rightarrow> incident_debouncer \<times> hold_effect list" where
  "Hold r d =
     (if db_window d \<le> 0 \<or> IsCritical r then (d, [EnqueueNow r])
      else let ch = db_next d;
               d1 = (if rq_fingerprint r \<noteq> [] then register (rq_fingerprint r) ch d else d)
           in (d1\<lparr>db_holds := (db_holds d1)(ch \<mapsto> \<lparr>ho_request = r, ho_closed = False\<rparr>), db_next := Suc ch\<rparr>, []))"

definition Cancel_hold :: "string \<Rightarrow> incident_debouncer \<Rightarrow> incident_debouncer" where
  "Cancel_hold fingerprint d =
     (if db_window d \<le> 0 \<or> fingerprint = [] then d
      else case db_pending d fingerprint of
        None \<Rightarrow> d
      | Some ch \<Rightarrow> d\<lparr>db_pending := (db_pending d)(fingerprint := None),
                    db_holds := (case db_holds d ch of None \<Rightarrow> db_holds d
                       | Some h \<Rightarrow> (db_holds d)(ch \<mapsto> h\<lparr>ho_closed := True\<rparr>))\<rparr>)"

text \<open>\<open>wait\<close>: the goroutine \<open>ch\<close> wakes up. The closed channel is ready only once it has been closed.\<close>

definition wait_hold :: "nat \<Rightarrow> wake \<Rightarrow> incident_debouncer \<Rightarrow> incident_debouncer \<times> hold_effect list" where
  "wait_hold ch w d = (case db_holds d ch of
     None \<Rightarrow> (d, [])
   | Some h \<Rightarrow>
      (let r = ho_request h;
           gone = d\<lparr>db_holds := (db_holds d)(ch := None)\<rparr>
       in case w of
            CtxDone \<Rightarrow> (unregister (rq_fingerprint r) ch gone, [IncidentDroppedOnShutdown r])
          | ChannelClosed \<Rightarrow> if ho_closed h then (gone, [IncidentDebounced r]) else (d, [])
          | WindowElapsed \<Rightarrow> (unregister (rq_fingerprint r) ch gone, [EnqueueNow r])))"

subsection \<open>No held alert is lost or doubled\<close>

datatype hold_event = HoldOp request | CancelOp string | WakeOp nat wake

fun hold_step :: "hold_event \<Rightarrow> incident_debouncer \<Rightarrow> incident_debouncer \<times> hold_effect list" where
  "hold_step (HoldOp r) d = Hold r d"
| "hold_step (CancelOp fp) d = (Cancel_hold fp d, [])"
| "hold_step (WakeOp ch w) d = wait_hold ch w d"

fun hold_run :: "hold_event list \<Rightarrow> incident_debouncer \<Rightarrow> incident_debouncer \<times> hold_effect list" where
  "hold_run [] d = (d, [])"
| "hold_run (e # es) d = (let (d1, xs) = hold_step e d; (d2, ys) = hold_run es d1 in (d2, xs @ ys))"

fun offered :: "hold_event \<Rightarrow> request list" where
  "offered (HoldOp r) = [r]"
| "offered _ = []"

fun settled :: "hold_effect \<Rightarrow> request" where
  "settled (EnqueueNow r) = r"
| "settled (IncidentDebounced r) = r"
| "settled (IncidentDroppedOnShutdown r) = r"

text \<open>The requests in flight, oldest goroutine first.\<close>

definition in_flight :: "incident_debouncer \<Rightarrow> request list" where
  "in_flight d = List.map_filter (\<lambda>ch. map_option ho_request (db_holds d ch)) [0..<db_next d]"

definition holds_ok :: "incident_debouncer \<Rightarrow> bool" where
  "holds_ok d \<longleftrightarrow> (\<forall>ch h. db_holds d ch = Some h \<longrightarrow> ch < db_next d)
     \<and> (\<forall>fp ch. db_pending d fp = Some ch \<longrightarrow>
          fp \<noteq> [] \<and> (\<exists>h. db_holds d ch = Some h \<and> \<not> ho_closed h \<and> rq_fingerprint (ho_request h) = fp))
     \<and> (\<forall>ch h. db_holds d ch = Some h \<longrightarrow> \<not> IsCritical (ho_request h))"

lemma map_filter_cong_upto:
  "(\<And>ch. ch < n \<Longrightarrow> f ch = g ch) \<Longrightarrow> List.map_filter f [0..<n] = List.map_filter g [0..<n]"
  by (induction n) (auto simp: List.map_filter_def)

lemma map_filter_remove:
  "ch < n \<Longrightarrow> f ch = Some h \<Longrightarrow> mset (List.map_filter (\<lambda>x. map_option g (f x)) [0..<n])
     = add_mset (g h) (mset (List.map_filter (\<lambda>x. map_option g ((f(ch := None)) x)) [0..<n]))"
proof (induction n)
  case (Suc n)
  show ?case
  proof (cases "ch = n")
    case True
    have "List.map_filter (\<lambda>x. map_option g ((f(ch := None)) x)) [0..<n] = List.map_filter (\<lambda>x. map_option g (f x)) [0..<n]"
      using True by (intro map_filter_cong_upto) auto
    then show ?thesis using Suc.prems(2) True by (simp add: List.map_filter_def)
  next
    case False
    with Suc show ?thesis by (auto simp: List.map_filter_def)
  qed
qed simp

lemma in_flight_remove:
  assumes "holds_ok d" and "db_holds d ch = Some h"
  shows "mset (in_flight d) = add_mset (ho_request h) (mset (in_flight (d\<lparr>db_holds := (db_holds d)(ch := None)\<rparr>)))"
  using assms map_filter_remove [of ch "db_next d" "db_holds d" h ho_request]
  by (simp add: in_flight_def holds_ok_def)

lemma in_flight_add:
  assumes "holds_ok d" and "ho_request h = r"
  shows "in_flight (d\<lparr>db_pending := p, db_holds := (db_holds d)(db_next d \<mapsto> h), db_next := Suc (db_next d)\<rparr>) = in_flight d @ [r]"
proof -
  have "List.map_filter (\<lambda>ch. map_option ho_request (((db_holds d)(db_next d \<mapsto> h)) ch)) [0..<db_next d]
      = List.map_filter (\<lambda>ch. map_option ho_request (db_holds d ch)) [0..<db_next d]"
    by (rule map_filter_cong_upto) auto
  then show ?thesis using assms(2) by (simp add: in_flight_def List.map_filter_def)
qed

lemma in_flight_Hold:
  assumes "holds_ok d" and "\<not> (db_window d \<le> 0 \<or> IsCritical r)"
  shows "in_flight (fst (Hold r d)) = in_flight d @ [r]" and "snd (Hold r d) = []"
proof -
  have "fst (Hold r d) = d\<lparr>db_pending := (if rq_fingerprint r \<noteq> [] then (db_pending d)(rq_fingerprint r \<mapsto> db_next d)
      else db_pending d), db_holds := (db_holds d)(db_next d \<mapsto> \<lparr>ho_request = r, ho_closed = False\<rparr>), db_next := Suc (db_next d)\<rparr>"
    using assms(2) by (simp add: Hold_def register_def Let_def)
  then show "in_flight (fst (Hold r d)) = in_flight d @ [r]" using in_flight_add [OF assms(1)] by simp
  show "snd (Hold r d) = []" using assms(2) by (simp add: Hold_def Let_def)
qed

lemma in_flight_unregister [simp]: "in_flight (unregister fp ch d) = in_flight d"
  by (simp add: in_flight_def unregister_def)

lemma holds_okI:
  assumes "\<And>ch h. db_holds d ch = Some h \<Longrightarrow> ch < db_next d \<and> \<not> IsCritical (ho_request h)"
    and "\<And>fp ch. db_pending d fp = Some ch \<Longrightarrow>
      fp \<noteq> [] \<and> (\<exists>h. db_holds d ch = Some h \<and> \<not> ho_closed h \<and> rq_fingerprint (ho_request h) = fp)"
  shows "holds_ok d"
  using assms by (simp add: holds_ok_def)

lemma holds_okD:
  assumes "holds_ok d"
  shows "db_holds d ch = Some h \<Longrightarrow> ch < db_next d \<and> \<not> IsCritical (ho_request h)"
    and "db_pending d fp = Some ch \<Longrightarrow>
      fp \<noteq> [] \<and> (\<exists>h. db_holds d ch = Some h \<and> \<not> ho_closed h \<and> rq_fingerprint (ho_request h) = fp)"
  using assms unfolding holds_ok_def by blast+

lemma holds_ok_Hold:
  assumes ok: "holds_ok d"
  shows "holds_ok (fst (Hold r d))"
proof (cases "db_window d \<le> 0 \<or> IsCritical r")
  case False
  define d' where "d' = fst (Hold r d)"
  have h: "db_holds d' = (db_holds d)(db_next d \<mapsto> \<lparr>ho_request = r, ho_closed = False\<rparr>)" "db_next d' = Suc (db_next d)"
    "db_pending d' = (if rq_fingerprint r \<noteq> [] then (db_pending d)(rq_fingerprint r \<mapsto> db_next d) else db_pending d)"
    using False by (simp_all add: d'_def Hold_def register_def Let_def)
  have "holds_ok d'"
  proof (rule holds_okI)
    fix ch x assume "db_holds d' ch = Some x"
    then show "ch < db_next d' \<and> \<not> IsCritical (ho_request x)"
      using False holds_okD(1) [OF ok, of ch x] by (auto simp: h split: if_splits)
  next
    fix fp ch assume p: "db_pending d' fp = Some ch"
    show "fp \<noteq> [] \<and> (\<exists>x. db_holds d' ch = Some x \<and> \<not> ho_closed x \<and> rq_fingerprint (ho_request x) = fp)"
    proof (cases "rq_fingerprint r \<noteq> [] \<and> fp = rq_fingerprint r")
      case True
      then show ?thesis using p by (simp add: h)
    next
      case False
      then have p: "db_pending d fp = Some ch" using p by (auto simp: h split: if_splits)
      then have "ch \<noteq> db_next d" using holds_okD(2) [OF ok p] holds_okD(1) [OF ok, of ch] by auto
      then show ?thesis using holds_okD(2) [OF ok p] by (simp add: h)
    qed
  qed
  then show ?thesis by (simp add: d'_def)
qed (use ok in \<open>simp add: Hold_def\<close>)

lemma holds_ok_Cancel:
  assumes ok: "holds_ok d"
  shows "holds_ok (Cancel_hold fp d)"
proof (cases "db_window d \<le> 0 \<or> fp = [] \<or> db_pending d fp = None")
  case False
  then obtain ch where p: "db_pending d fp = Some ch" by blast
  then obtain x where x: "db_holds d ch = Some x" "rq_fingerprint (ho_request x) = fp" using holds_okD(2) [OF ok] by blast
  have c: "Cancel_hold fp d = d\<lparr>db_pending := (db_pending d)(fp := None), db_holds := (db_holds d)(ch \<mapsto> x\<lparr>ho_closed := True\<rparr>)\<rparr>"
    using False p x by (simp add: Cancel_hold_def)
  show ?thesis unfolding c
  proof (rule holds_okI)
    fix ch' y assume "db_holds (d\<lparr>db_pending := (db_pending d)(fp := None), db_holds := (db_holds d)(ch \<mapsto> x\<lparr>ho_closed := True\<rparr>)\<rparr>) ch' = Some y"
    then show "ch' < db_next (d\<lparr>db_pending := (db_pending d)(fp := None), db_holds := (db_holds d)(ch \<mapsto> x\<lparr>ho_closed := True\<rparr>)\<rparr>)
        \<and> \<not> IsCritical (ho_request y)"
      using holds_okD(1) [OF ok, of ch'] x(1) by (auto split: if_splits)
  next
    fix fp' ch' assume "db_pending (d\<lparr>db_pending := (db_pending d)(fp := None), db_holds := (db_holds d)(ch \<mapsto> x\<lparr>ho_closed := True\<rparr>)\<rparr>) fp' = Some ch'"
    then have p': "db_pending d fp' = Some ch'" and "fp' \<noteq> fp" by (auto split: if_splits)
    with holds_okD(2) [OF ok p'] x show "fp' \<noteq> [] \<and> (\<exists>h. db_holds (d\<lparr>db_pending := (db_pending d)(fp := None),
        db_holds := (db_holds d)(ch \<mapsto> x\<lparr>ho_closed := True\<rparr>)\<rparr>) ch' = Some h \<and> \<not> ho_closed h \<and> rq_fingerprint (ho_request h) = fp')"
      by auto
  qed
qed (use ok in \<open>auto simp: Cancel_hold_def\<close>)

lemma wait_frame:
  "db_window (fst (wait_hold ch w d)) = db_window d" "db_next (fst (wait_hold ch w d)) = db_next d"
  by (cases w; auto simp: wait_hold_def unregister_def Let_def split: option.split)+

lemma holds_ok_wait:
  assumes ok: "holds_ok d"
  shows "holds_ok (fst (wait_hold ch w d))"
proof (cases "db_holds d ch = None \<or> fst (wait_hold ch w d) = d")
  case False
  then obtain x where x: "db_holds d ch = Some x" by auto
  define d' where "d' = fst (wait_hold ch w d)"
  have h: "db_holds d' = (db_holds d)(ch := None)" "db_next d' = db_next d"
    using False x by (cases w; auto simp: d'_def wait_hold_def unregister_def Let_def)+
  have p: "db_pending d fp = Some ch' \<and> ch' \<noteq> ch" if "db_pending d' fp = Some ch'" for fp ch'
  proof -
    have d: "db_pending d fp = Some ch'"
      using that x by (cases w) (auto simp: d'_def wait_hold_def unregister_def Let_def split: if_splits)
    then have "ch' = ch \<Longrightarrow> rq_fingerprint (ho_request x) = fp \<and> \<not> ho_closed x"
      using holds_okD(2) [OF ok d] x by auto
    with that d False x show ?thesis
      by (cases w) (auto simp: d'_def wait_hold_def unregister_def Let_def split: if_splits)
  qed
  have "holds_ok d'"
  proof (rule holds_okI)
    fix c y assume "db_holds d' c = Some y"
    then show "c < db_next d' \<and> \<not> IsCritical (ho_request y)"
      using holds_okD(1) [OF ok, of c y] by (auto simp: h split: if_splits)
  next
    fix fp c assume "db_pending d' fp = Some c"
    from p [OF this] show "fp \<noteq> [] \<and> (\<exists>h. db_holds d' c = Some h \<and> \<not> ho_closed h \<and> rq_fingerprint (ho_request h) = fp)"
      using holds_okD(2) [OF ok] by (simp add: h)
  qed
  then show ?thesis by (simp add: d'_def)
qed (use ok in \<open>auto simp: wait_hold_def\<close>)

lemma holds_ok_step: "holds_ok d \<Longrightarrow> holds_ok (fst (hold_step e d))"
  by (cases e) (simp_all add: holds_ok_Hold holds_ok_Cancel holds_ok_wait)

lemma step_conserves:
  assumes ok: "holds_ok d"
  shows "mset (offered e) + mset (in_flight d)
    = mset (map settled (snd (hold_step e d))) + mset (in_flight (fst (hold_step e d)))"
proof (cases e)
  case (HoldOp r)
  show ?thesis
  proof (cases "db_window d \<le> 0 \<or> IsCritical r")
    case False
    then show ?thesis using in_flight_Hold [OF ok] by (simp add: HoldOp)
  qed (auto simp: HoldOp Hold_def)
next
  case (CancelOp fp)
  have "in_flight (Cancel_hold fp d) = in_flight d"
    unfolding in_flight_def Cancel_hold_def
    by (auto split: option.split intro!: map_filter_cong_upto)
  then show ?thesis by (simp add: CancelOp)
next
  case (WakeOp ch w)
  show ?thesis
  proof (cases "db_holds d ch")
    case (Some h)
    then show ?thesis
      using in_flight_remove [OF ok Some] by (cases w) (auto simp: WakeOp wait_hold_def Let_def)
  qed (simp add: WakeOp wait_hold_def)
qed

text \<open>Which holds have been cancelled, and what a cancel has to do with what is dropped.\<close>

definition cancels_known :: "hold_event list \<Rightarrow> incident_debouncer \<Rightarrow> bool" where
  "cancels_known es d \<longleftrightarrow> (\<forall>ch h. db_holds d ch = Some h \<and> ho_closed h \<longrightarrow>
     CancelOp (rq_fingerprint (ho_request h)) \<in> set es)"

lemma cancels_known_step:
  assumes "cancels_known es d" and "holds_ok d"
  shows "cancels_known (es @ [e]) (fst (hold_step e d))
    \<and> (\<forall>r. IncidentDebounced r \<in> set (snd (hold_step e d)) \<longrightarrow> CancelOp (rq_fingerprint r) \<in> set es)"
proof (cases e)
  case (HoldOp r)
  then show ?thesis using assms(1)
    by (auto simp: cancels_known_def Hold_def register_def Let_def split: if_splits)
next
  case (CancelOp fp)
  have "rq_fingerprint (ho_request h) = fp" if "db_pending d fp = Some ch" "db_holds d ch = Some h" for ch h
    using holds_okD(2) [OF assms(2) that(1)] that(2) by auto
  then show ?thesis using assms(1)
    by (auto simp: CancelOp cancels_known_def Cancel_hold_def split: if_splits option.splits)
next
  case (WakeOp ch w)
  then show ?thesis using assms(1)
    by (cases w) (auto simp: cancels_known_def wait_hold_def unregister_def Let_def split: if_splits option.splits)
qed

lemma multiset_chain: "a + f = x + f1 \<Longrightarrow> b + f1 = y + f2 \<Longrightarrow> a + b + f = x + y + f2" for a :: "'a multiset"
  by (metis add.assoc add.commute)

lemma hold_run_sound:
  assumes "hold_run es d = (d', effs)" and "holds_ok d" and "cancels_known pre d"
  shows "holds_ok d' \<and> mset (concat (map offered es)) + mset (in_flight d) = mset (map settled effs) + mset (in_flight d')
    \<and> (\<forall>r. IncidentDebounced r \<in> set effs \<longrightarrow> CancelOp (rq_fingerprint r) \<in> set (pre @ es))"
  using assms
proof (induction es arbitrary: d effs pre)
  case (Cons e es)
  obtain d1 xs where s: "hold_step e d = (d1, xs)" by fastforce
  obtain ys where r: "hold_run es d1 = (d', ys)" and effs: "effs = xs @ ys"
    using Cons.prems(1) s by (auto split: prod.splits)
  have ok: "holds_ok d1" using holds_ok_step [OF Cons.prems(2), of e] s by simp
  note known = cancels_known_step [OF Cons.prems(3,2), of e, unfolded s]
  from Cons.IH [OF r ok, of "pre @ [e]"] known
  have IH: "holds_ok d'" "mset (concat (map offered es)) + mset (in_flight d1) = mset (map settled ys) + mset (in_flight d')"
    "\<forall>r. IncidentDebounced r \<in> set ys \<longrightarrow> CancelOp (rq_fingerprint r) \<in> set (pre @ e # es)" by auto
  have "mset (offered e) + mset (in_flight d) = mset (map settled xs) + mset (in_flight d1)"
    using step_conserves [OF Cons.prems(2), of e] s by simp
  from multiset_chain [OF this IH(2)]
  have "mset (concat (map offered (e # es))) + mset (in_flight d) = mset (map settled effs) + mset (in_flight d')"
    by (simp add: effs)
  then show ?case using IH known effs by auto
qed simp

lemma hold_step_shutdown:
  "IncidentDroppedOnShutdown r \<in> set (snd (hold_step e d)) \<Longrightarrow> \<exists>ch. e = WakeOp ch CtxDone"
  by (cases e; cases "case e of WakeOp _ w \<Rightarrow> w")
    (auto simp: Hold_def wait_hold_def Let_def split: if_splits option.splits)

lemma hold_run_shutdown:
  "hold_run es d = (d', effs) \<Longrightarrow> IncidentDroppedOnShutdown r \<in> set effs \<Longrightarrow> \<exists>ch. WakeOp ch CtxDone \<in> set es"
proof (induction es arbitrary: d effs)
  case (Cons e es)
  then show ?case using hold_step_shutdown [of r e d] by (fastforce split: prod.splits)
qed simp

text \<open>
  C34: a held alert has exactly one end. For every interleaving of holds, resolves and wake-ups of the
  waiting goroutines, the alerts offered are exactly those enqueued, dropped as self-resolved,
  dropped on shutdown or still waiting; no critical alert ever waits. An alert is dropped as
  self-resolved only after a resolve of its own fingerprint, and on shutdown only when a waiting
  goroutine found its context done.
\<close>

theorem held_alerts_accounted:
  assumes "hold_run es (newIncidentDebouncer w) = (d, effs)"
  shows "mset (concat (map offered es)) = mset (map settled effs) + mset (in_flight d)
    \<and> (\<forall>ch h. db_holds d ch = Some h \<longrightarrow> \<not> IsCritical (ho_request h))
    \<and> (\<forall>r. IncidentDebounced r \<in> set effs \<longrightarrow> CancelOp (rq_fingerprint r) \<in> set es)
    \<and> (\<forall>r. IncidentDroppedOnShutdown r \<in> set effs \<longrightarrow> (\<exists>ch. WakeOp ch CtxDone \<in> set es))"
proof -
  have "holds_ok (newIncidentDebouncer w)" "cancels_known [] (newIncidentDebouncer w)"
    "in_flight (newIncidentDebouncer w) = []"
    by (simp_all add: holds_ok_def cancels_known_def newIncidentDebouncer_def in_flight_def List.map_filter_def)
  with hold_run_sound [OF assms, of "[]"] hold_run_shutdown [OF assms] show ?thesis by (auto dest: holds_okD(1))
qed

lemma held_alerts_accounted_witness:
  "mset [demo_alert1] = mset (map settled (snd (hold_run [HoldOp demo_alert1, CancelOp ''f1'', WakeOp 0 ChannelClosed] (newIncidentDebouncer 60))))
     + mset (in_flight (fst (hold_run [HoldOp demo_alert1, CancelOp ''f1'', WakeOp 0 ChannelClosed] (newIncidentDebouncer 60))))"
  using held_alerts_accounted [of "[HoldOp demo_alert1, CancelOp ''f1'', WakeOp 0 ChannelClosed]" 60
      "fst (hold_run [HoldOp demo_alert1, CancelOp ''f1'', WakeOp 0 ChannelClosed] (newIncidentDebouncer 60))"
      "snd (hold_run [HoldOp demo_alert1, CancelOp ''f1'', WakeOp 0 ChannelClosed] (newIncidentDebouncer 60))"]
  by (simp del: hold_run.simps)

section \<open>The re-check of a GitOps failure\<close>

datatype recheck = RecheckError | StillFailing bool

text \<open>\<open>None\<close> is the nil check; the flag says that the context ended before the window did.\<close>

definition Debounce_failure :: "duration \<Rightarrow> bool \<Rightarrow> recheck option \<Rightarrow> request \<Rightarrow> hold_effect list" where
  "Debounce_failure window ctx_done check r =
     (if window \<le> 0 then [EnqueueNow r]
      else if ctx_done then []
      else case check of
             None \<Rightarrow> [EnqueueNow r]
           | Some RecheckError \<Rightarrow> [EnqueueNow r]
           | Some (StillFailing still) \<Rightarrow> if \<not> still then [IncidentDebounced r] else [EnqueueNow r])"

lemma failure_dropped_only_if_cleared:
  "EnqueueNow r \<notin> set (Debounce_failure w done_first check r) \<longleftrightarrow>
     0 < w \<and> (done_first \<or> check = Some (StillFailing False))"
  by (auto simp: Debounce_failure_def split: option.splits recheck.splits)

section \<open>The pipeline\<close>

type_synonym admission = int

definition MatchGated :: admission where "MatchGated = 0"
definition EnableGated :: admission where "EnableGated = 1"

record resolution =
  rs_fingerprint :: string
  rs_at :: gotime

text \<open>Each request comes with the clock reading of its deduplication check.\<close>

record decode_result =
  dr_requests :: "(gotime \<times> request) list"
  dr_resolved :: "resolution list"

record pipeline =
  pl_incidents :: incident_trigger
  pl_dedup :: deduper
  pl_debounce :: incident_debouncer
  pl_alertsReceived :: nat
  pl_cancelled :: nat

record 'w sinks =
  sk_enqueue :: "request \<Rightarrow> 'w \<Rightarrow> 'w"
  sk_cancel :: "(string \<Rightarrow> 'w \<Rightarrow> bool \<times> 'w) option"
  sk_resolve :: "(string \<Rightarrow> gotime \<Rightarrow> 'w \<Rightarrow> 'w) option"

definition NewPipeline :: "incident_trigger \<Rightarrow> pipeline" where
  "NewPipeline t = \<lparr>pl_incidents = t, pl_dedup = NewDeduper (it_dedupWindow t),
     pl_debounce = newIncidentDebouncer (DebounceWindow t), pl_alertsReceived = 0, pl_cancelled = 0\<rparr>"

definition dedupKey :: "request \<Rightarrow> string" where
  "dedupKey r = (if rq_fingerprint r \<noteq> [] then rq_fingerprint r
     else rq_source r @ ''/'' @ rq_environment r @ ''/'' @ wl_namespace (rq_workload r) @ ''/''
       @ wl_name (rq_workload r) @ ''/'' @ rq_title r)"

definition admit :: "admission \<Rightarrow> gotime \<Rightarrow> request \<Rightarrow> pipeline \<Rightarrow> bool \<times> string \<times> pipeline" where
  "admit adm now r p =
     (if adm = MatchGated \<and> \<not> MatchRequest (pl_incidents p) r then (False, ''filtered by trigger policy'', p)
      else if adm \<noteq> MatchGated \<and> adm \<noteq> EnableGated then (False, ''unknown admission mode'', p)
      else case Seen (dedupKey r) now (pl_dedup p) of (seen, d) \<Rightarrow>
        if seen then (False, ''deduplicated (still-firing)'', p\<lparr>pl_dedup := d\<rparr>)
        else (True, ''matched trigger policy'', p\<lparr>pl_dedup := d\<rparr>))"

fun deliver :: "'w sinks \<Rightarrow> hold_effect list \<Rightarrow> 'w \<Rightarrow> 'w" where
  "deliver sk [] w = w"
| "deliver sk (EnqueueNow r # es) w = deliver sk es (sk_enqueue sk r w)"
| "deliver sk (_ # es) w = deliver sk es w"

definition ingest_resolved :: "'w sinks \<Rightarrow> resolution \<Rightarrow> pipeline \<times> 'w \<Rightarrow> pipeline \<times> 'w" where
  "ingest_resolved sk x pw =
     (case pw of (p, w) \<Rightarrow>
      let fp = rs_fingerprint x;
          p1 = p\<lparr>pl_debounce := Cancel_hold fp (pl_debounce p)\<rparr>;
          (p2, w2) = (case sk_cancel sk of
              None \<Rightarrow> (p1, w)
            | Some c \<Rightarrow> if CancelQueuedOnResolveEnabled (pl_incidents p1)
                then (case c fp w of (ok, w') \<Rightarrow> (if ok then p1\<lparr>pl_cancelled := Suc (pl_cancelled p1)\<rparr> else p1, w'))
                else (p1, w))
      in (p2, case sk_resolve sk of None \<Rightarrow> w2 | Some f \<Rightarrow> f fp (rs_at x) w2))"

definition ingest_request :: "admission \<Rightarrow> 'w sinks \<Rightarrow> gotime \<times> request \<Rightarrow> pipeline \<times> 'w \<Rightarrow> pipeline \<times> 'w" where
  "ingest_request adm sk nr pw =
     (case pw of (p, w) \<Rightarrow>
      let (ok, reason, p1) = admit adm (fst nr) (snd nr) p
      in if \<not> ok then (p1, w)
         else let p2 = (if adm = MatchGated then p1\<lparr>pl_alertsReceived := Suc (pl_alertsReceived p1)\<rparr> else p1);
                  (d, es) = Hold (snd nr) (pl_debounce p2)
              in (p2\<lparr>pl_debounce := d\<rparr>, deliver sk es w))"

definition Ingest :: "admission \<Rightarrow> decode_result \<Rightarrow> 'w sinks \<Rightarrow> pipeline \<times> 'w \<Rightarrow> pipeline \<times> 'w" where
  "Ingest adm res sk pw =
     fold (ingest_request adm sk) (dr_requests res) (fold (ingest_resolved sk) (dr_resolved res) pw)"

text \<open>The pipeline in front of the queue; the ledger that \<open>resolve\<close> writes is another component.\<close>

definition queue_sinks :: "queue sinks" where
  "queue_sinks = \<lparr>sk_enqueue = (\<lambda>r q. fst (Enqueue r q)), sk_cancel = Some CancelByFingerprint, sk_resolve = None\<rparr>"

abbreviation fire :: "gotime \<Rightarrow> request \<Rightarrow> pipeline \<times> queue \<Rightarrow> pipeline \<times> queue" where
  "fire t r \<equiv> Ingest MatchGated \<lparr>dr_requests = [(t, r)], dr_resolved = []\<rparr> queue_sinks"

abbreviation resolve_alert :: "gotime \<Rightarrow> string \<Rightarrow> pipeline \<times> queue \<Rightarrow> pipeline \<times> queue" where
  "resolve_alert t fp \<equiv> Ingest MatchGated \<lparr>dr_requests = [], dr_resolved = [\<lparr>rs_fingerprint = fp, rs_at = t\<rparr>]\<rparr> queue_sinks"

lemma fire_filtered: "\<not> MatchRequest (pl_incidents p) r \<Longrightarrow> fire t r (p, q) = (p, q)"
  by (simp add: Ingest_def ingest_request_def admit_def)

lemma fire_critical:
  assumes "MatchRequest (pl_incidents p) r" and "IsCritical r" and "Seen (dedupKey r) t (pl_dedup p) = (False, d)"
  shows "fire t r (p, q) = (p\<lparr>pl_dedup := d, pl_alertsReceived := Suc (pl_alertsReceived p)\<rparr>, fst (Enqueue r q))"
  using assms by (simp add: Ingest_def ingest_request_def admit_def Hold_def queue_sinks_def)

lemma fire_deduplicated:
  assumes "fst (Seen (dedupKey r) t (pl_dedup (fst pw)))"
  shows "snd (fire t r pw) = snd pw"
  using assms by (cases pw) (auto simp: Ingest_def ingest_request_def admit_def split: prod.splits)

lemma resolve_queue:
  assumes "CancelQueuedOnResolveEnabled (pl_incidents p)"
  shows "snd (resolve_alert t fp (p, q)) = snd (CancelByFingerprint fp q)"
    and "pl_dedup (fst (resolve_alert t fp (p, q))) = pl_dedup p"
    and "pl_incidents (fst (resolve_alert t fp (p, q))) = pl_incidents p"
  using assms by (simp_all add: Ingest_def ingest_resolved_def queue_sinks_def Let_def split: prod.splits)

text \<open>
  A critical alert reaches the queue in the webhook call that brings it. When it matches the
  policy and is not deduplicated, the queue stores it at once, whatever the debounce; and when its
  resolve arrives before its investigation starts, with cancelling on, the queue no longer stores it.
\<close>

theorem critical_alert_queued_and_cancelled:
  assumes "index_ok q" and "MatchRequest (pl_incidents p) r" and "IsCritical r"
    and "\<not> fst (Seen (dedupKey r) t (pl_dedup p))" and "CancelQueuedOnResolveEnabled (pl_incidents p)"
    and "rq_fingerprint r \<noteq> []" and "length (rq_fingerprints r) \<le> 1" and "keyOf r \<notin> qu_inflight q"
  shows "queue_stored (snd (fire t r (p, q))) r
    \<and> \<not> queue_stored (snd (resolve_alert t' (rq_fingerprint r) (fire t r (p, q)))) r"
proof -
  obtain d where s: "Seen (dedupKey r) t (pl_dedup p) = (False, d)"
    using assms(4) by (cases "Seen (dedupKey r) t (pl_dedup p)") auto
  note f = fire_critical [OF assms(2,3) s, of q]
  have "\<not> queue_started q r" using assms(8) by (simp add: queue_started_def)
  then show ?thesis
    using queue_sink.enqueue_stored [OF assms(1)] queue_sink.resolve_before_start [OF assms(1,6,7)] assms(5)
    by (simp add: f resolve_queue)
qed

text \<open>
  Deduplication outlives the resolve. A critical alert that fires, resolves before its
  investigation starts and fires again within the deduplication window is neither stored nor
  investigated: the cancel removed the first firing and the second counts as still firing.
\<close>

theorem refire_after_resolve_is_dropped:
  assumes "index_ok q" and "MatchRequest (pl_incidents p) r" and "IsCritical r"
    and "\<not> fst (Seen (dedupKey r) t (pl_dedup p))" and "CancelQueuedOnResolveEnabled (pl_incidents p)"
    and "rq_fingerprint r \<noteq> []" and "length (rq_fingerprints r) \<le> 1" and "keyOf r \<notin> qu_inflight q"
    and "time_sub t'' t < de_window (pl_dedup p)" and "0 < de_window (pl_dedup p)"
  shows "\<not> queue_stored (snd (fire t'' r (resolve_alert t' (rq_fingerprint r) (fire t r (p, q))))) r"
proof -
  obtain d where s: "Seen (dedupKey r) t (pl_dedup p) = (False, d)"
    using assms(4) by (cases "Seen (dedupKey r) t (pl_dedup p)") auto
  note f = fire_critical [OF assms(2,3) s, of q]
  have "de_window d = de_window (pl_dedup p) \<and> de_seen d (dedupKey r) = Some t"
    using s assms(10) by (auto simp: Seen_def Let_def evict_seen_def split: if_splits)
  then have "fst (Seen (dedupKey r) t'' d)"
    using assms(9,10) by (simp add: Seen_def evict_seen_def Let_def)
  then have "snd (fire t'' r (resolve_alert t' (rq_fingerprint r) (fire t r (p, q))))
      = snd (resolve_alert t' (rq_fingerprint r) (fire t r (p, q)))"
    using assms(5) by (intro fire_deduplicated) (simp add: f resolve_queue)
  moreover have "\<not> queue_started q r" using assms(8) by (simp add: queue_started_def)
  ultimately show ?thesis
    using queue_sink.resolve_before_start [OF assms(1,6,7)] assms(5) by (simp add: f resolve_queue)
qed

definition demo_trigger :: incident_trigger where
  "demo_trigger = (let any = \<lparr>im_severity = [], im_environment = [], im_namespaces = [], im_alertnames = [], im_labels = []\<rparr>
     in \<lparr>it_match = any\<lparr>im_severity := [''Critical'']\<rparr>, it_ignore = any, it_dedupWindow = 100, it_debounce = Some 60,
         it_cancelQueuedOnResolve = Some True\<rparr>)"

definition demo_page :: request where
  "demo_page = demo_alert1\<lparr>rq_severity := ''critical''\<rparr>"

lemma demo_page_facts:
  "MatchRequest (pl_incidents (NewPipeline demo_trigger)) demo_page" "IsCritical demo_page"
  "\<not> fst (Seen (dedupKey demo_page) 1 (pl_dedup (NewPipeline demo_trigger)))"
  "CancelQueuedOnResolveEnabled (pl_incidents (NewPipeline demo_trigger))"
  "rq_fingerprint demo_page = ''f1''" "rq_fingerprints demo_page = []"
  "index_ok NewQueue" "qu_inflight NewQueue = {}" "de_window (pl_dedup (NewPipeline demo_trigger)) = 100"
proof -
  have "to_lower ''Critical'' = to_lower ''critical''" by code_simp
  then show "MatchRequest (pl_incidents (NewPipeline demo_trigger)) demo_page"
    by (simp add: MatchRequest_def NewPipeline_def demo_trigger_def demo_page_def demo_alert1_def zero_request_def
        MatchFields_def matchFields_of_def containsFold_def match_isEmpty_def Let_def)
qed (simp_all add: demo_page_def demo_alert1_def zero_request_def IsCritical_def SeverityCritical_def Seen_def NewPipeline_def
    NewDeduper_def demo_trigger_def evict_seen_def CancelQueuedOnResolveEnabled_def index_ok_def NewQueue_def payload_def Let_def)

lemma critical_alert_queued_and_cancelled_witness:
  "queue_stored (snd (fire 1 demo_page (NewPipeline demo_trigger, NewQueue))) demo_page"
  using critical_alert_queued_and_cancelled [OF demo_page_facts(7,1-4), of 2] demo_page_facts(5,6,8) by simp

lemma refire_after_resolve_is_dropped_witness:
  "\<not> queue_stored (snd (fire 50 demo_page (resolve_alert 20 ''f1'' (fire 1 demo_page (NewPipeline demo_trigger, NewQueue))))) demo_page"
  using refire_after_resolve_is_dropped [OF demo_page_facts(7,1-4), of 50 20] demo_page_facts(5,6,8,9)
  by (simp add: time_sub_defs)

end
