(* ===== verification/Flush.thy ===== *)
theory Flush
  imports Coalescer Intake
begin

text \<open>
  The flush sink of \<open>internal/app/serve.go\<close>: how a coalesced batch becomes one queued request. It joins the
  coalescer to the queue; its properties are about the two together.
\<close>

definition flush_request :: "request list \<Rightarrow> request" where
  "flush_request batch =
     (let rep = hd batch;
          rep1 = (if length batch > 1
                  then rep\<lparr>rq_message := Summarize batch, rq_coalescedWorkloads := Constituents batch\<rparr> else rep)
      in rep1\<lparr>rq_fingerprints := filter (\<lambda>fp. fp \<noteq> []) (map rq_fingerprint batch)\<rparr>)"

definition flush_sink :: "request list \<Rightarrow> queue \<Rightarrow> queue \<times> queue_effect list" where
  "flush_sink batch q = Enqueue (flush_request batch) q"

lemma flush_request_fields:
  "keyOf (flush_request batch) = keyOf (hd batch)" "rq_fingerprint (flush_request batch) = rq_fingerprint (hd batch)"
  "rq_fingerprints (flush_request batch) = filter (\<lambda>fp. fp \<noteq> []) (map rq_fingerprint batch)"
  "rq_workload (flush_request batch) = rq_workload (hd batch)" "rq_triggerKey (flush_request batch) = rq_triggerKey (hd batch)"
  by (simp_all add: flush_request_def keyOf_def Let_def)

text \<open>
  A storm becomes one investigation that no single resolve takes away. When a flushed batch
  carries two or more alert fingerprints, the queue stores one request, under the first alert's key,
  that lists every fingerprint of the batch; and it is still stored after any number of resolves.
\<close>

theorem storm_survives_single_resolves:
  assumes "index_ok q" and "length (filter (\<lambda>fp. fp \<noteq> []) (map rq_fingerprint batch)) > 1"
  shows "queue_stored (fold (\<lambda>fp q. snd (CancelByFingerprint fp q)) fps (fst (flush_sink batch q))) (flush_request batch)
    \<and> set (rq_fingerprints (flush_request batch)) = rq_fingerprint ` set batch - {[]}"
proof -
  define stored where "stored q \<longleftrightarrow> index_ok q \<and> queue_stored q (flush_request batch)" for q
  have step: "stored (snd (CancelByFingerprint fp q))" if "stored q" for fp q
  proof -
    obtain b q' where c: "CancelByFingerprint fp q = (b, q')" by fastforce
    have ok: "index_ok q" and s: "queue_stored q (flush_request batch)" using that by (simp_all add: stored_def)
    have "queue_stored q' (flush_request batch)"
    proof (cases b)
      case True
      then obtain k p where k: "payload q k = Some p" "length (rq_fingerprints (pe_req p)) \<le> 1" "payload q' = (payload q)(k := None)"
        using cancel_effect [OF ok c] by auto
      then have "k \<noteq> keyOf (flush_request batch)"
        using s assms(2) by (auto simp: queue_stored_def flush_request_fields)
      then show ?thesis using s k(3) by (simp add: queue_stored_def)
    next
      case False
      then show ?thesis using cancel_effect [OF ok c] s by simp
    qed
    then show ?thesis using index_ok_cancel [OF ok, of fp] c by (simp add: stored_def)
  qed
  have "stored (fst (flush_sink batch q))"
    using assms(1) by (simp add: stored_def flush_sink_def index_ok_Enqueue queue_sink.enqueue_stored)
  then have "stored (fold (\<lambda>fp q. snd (CancelByFingerprint fp q)) fps (fst (flush_sink batch q)))"
    by (induction fps rule: rev_induct) (simp_all add: step)
  then show ?thesis by (auto simp: stored_def flush_request_fields)
qed

lemma storm_survives_single_resolves_witness:
  "queue_stored (snd (CancelByFingerprint ''f1'' (fst (flush_sink [demo_alert1, demo_alert1\<lparr>rq_fingerprint := ''f2''\<rparr>] NewQueue))))
     (flush_request [demo_alert1, demo_alert1\<lparr>rq_fingerprint := ''f2''\<rparr>])"
proof -
  have "index_ok NewQueue" by (rule demo_page_facts(7))
  from storm_survives_single_resolves [OF this, of "[demo_alert1, demo_alert1\<lparr>rq_fingerprint := ''f2''\<rparr>]" "[''f1'']"]
  show ?thesis by (simp add: demo_alert1_def)
qed

text \<open>
  The sink loses no incident. Along every run of the coalescer, the fingerprints listed by the
  requests it queued, together with those of the suppressed and the waiting incidents, are exactly the
  fingerprints of the incidents taken in.
\<close>

theorem fingerprints_accounted:
  assumes "reaches ct cfg t rs ss fs c"
  shows "mset (filter (\<lambda>fp. fp \<noteq> []) (map rq_fingerprint rs))
    = mset (concat (map (rq_fingerprints \<circ> flush_request \<circ> snd) fs))
      + mset (filter (\<lambda>fp. fp \<noteq> []) (map rq_fingerprint ss))
      + mset (filter (\<lambda>fp. fp \<noteq> []) (map rq_fingerprint (buffered c)))"
proof -
  have eq: "mset (filter (\<lambda>fp. fp \<noteq> []) (map rq_fingerprint xs))
      = filter_mset (\<lambda>fp. fp \<noteq> []) (image_mset rq_fingerprint (mset xs))" for xs
    by (simp add: mset_map)
  have "mset (concat (map (rq_fingerprints \<circ> flush_request \<circ> snd) fs))
      = mset (filter (\<lambda>fp. fp \<noteq> []) (map rq_fingerprint (concat (map snd fs))))"
    by (induction fs) (simp_all add: flush_request_fields)
  then show ?thesis
    using reaches_accounted [OF assms] by (simp add: accounted_def eq ac_simps)
qed

lemma fingerprints_accounted_witness:
  "mset (filter (\<lambda>fp. fp \<noteq> []) (map rq_fingerprint [demo_alert ''Down'' ''critical'']))
    = mset (concat (map (rq_fingerprints \<circ> flush_request \<circ> snd) [(1 :: gotime, [demo_alert ''Down'' ''critical''])]))
      + mset (filter (\<lambda>fp. fp \<noteq> []) (map rq_fingerprint ([] :: request list)))
      + mset (filter (\<lambda>fp. fp \<noteq> []) (map rq_fingerprint (buffered demo_first)))"
  by (rule fingerprints_accounted [OF demo_run(1)])

end
