(* ===== verification/SourceAllowlist.thy ===== *)
theory SourceAllowlist
  imports Globs Workload
begin

text \<open>
  \<open>internal/sourcerepo/allowlist.go\<close>: which repositories the \<open>source_diff\<close> tool may clone. The model
  names a repository in any spelling; \<open>normalize\<close> reduces it to host/org/repo, \<open>Match\<close> compares that with
  the operator's patterns, and the clone URL is built from the normalized form. Errors are values of a
  sum; the texts of the messages are not modelled.
\<close>

section \<open>Strings\<close>

definition trim_prefix :: "string \<Rightarrow> string \<Rightarrow> string" where
  "trim_prefix s p = (if has_prefix s p then drop (length p) s else s)"

definition has_suffix :: "string \<Rightarrow> string \<Rightarrow> bool" where
  "has_suffix s x = has_prefix (rev s) (rev x)"

definition trim_suffix :: "string \<Rightarrow> string \<Rightarrow> string" where
  "trim_suffix s x = (if has_suffix s x then take (length s - length x) s else s)"

fun contains_str :: "string \<Rightarrow> string \<Rightarrow> bool" where
  "contains_str [] x = (x = [])"
| "contains_str (c # s) x = (has_prefix (c # s) x \<or> contains_str s x)"

lemma has_suffix_iff: "has_suffix s x \<longleftrightarrow> (\<exists>a. s = a @ x)"
  by (auto simp: has_suffix_def has_prefix_iff) (metis rev_append rev_rev_ident)

lemma trim_suffix_append [simp]: "trim_suffix (a @ x) x = a"
  by (auto simp: trim_suffix_def has_suffix_iff)

lemma trim_suffix_none: "\<not> has_suffix s x \<Longrightarrow> trim_suffix s x = s"
  by (simp add: trim_suffix_def)

section \<open>The list\<close>

datatype allow_error =
    EmptyAllowlist | EmptyPattern | SchemeInPattern | DotsInPattern | SpaceInPattern | BadPattern

datatype repo_error = EmptyRepo | DotsInRepo | UserinfoInRepo | DisallowedChar

record allowlist =
  al_patterns :: "string list"

definition lowerHost :: "string \<Rightarrow> string" where
  "lowerHost s = (if has_prefix s ''/'' then s
     else case cut_byte (CHR ''/'') s of (host, rest, found) \<Rightarrow>
       if \<not> found then to_lower s else to_lower host @ ''/'' @ rest)"

fun compile_patterns :: "string list \<Rightarrow> allow_error + string list" where
  "compile_patterns [] = Inr []"
| "compile_patterns (raw # ps) =
     (let p = trim_space raw in
      if p = [] then Inl EmptyPattern
      else if contains_str p ''://'' then Inl SchemeInPattern
      else if contains_str p ''..'' then Inl DotsInPattern
      else if CHR '' '' \<in> set p \<or> CHR 0x09 \<in> set p then Inl SpaceInPattern
      else case path_match p ''probe'' of
        None \<Rightarrow> Inl BadPattern
      | Some _ \<Rightarrow> (case compile_patterns ps of Inl e \<Rightarrow> Inl e | Inr cs \<Rightarrow> Inr (lowerHost p # cs)))"

definition New_allowlist :: "string list \<Rightarrow> allow_error + allowlist" where
  "New_allowlist patterns = (if patterns = [] then Inl EmptyAllowlist
     else case compile_patterns patterns of Inl e \<Rightarrow> Inl e | Inr cs \<Rightarrow> Inr \<lparr>al_patterns = cs\<rparr>)"

definition allowed_char :: "char \<Rightarrow> bool" where
  "allowed_char c \<longleftrightarrow> is_lower c \<or> is_upper c \<or> is_digit c
     \<or> c = CHR ''.'' \<or> c = CHR ''_'' \<or> c = CHR ''-'' \<or> c = CHR ''/''"

text \<open>The index of the first character that is not allowed; the end of the list is Go's \<open>-1\<close>.\<close>

definition firstDisallowedRepoChar :: "string \<Rightarrow> nat option" where
  "firstDisallowedRepoChar s = (let n = length (takeWhile allowed_char s) in if n < length s then Some n else None)"

text \<open>Strip a bare user name, and turn the scp form \<open>host:path\<close> into \<open>host/path\<close>.\<close>

definition strip_userinfo :: "string \<Rightarrow> string" where
  "strip_userinfo s =
     (case cut_byte (CHR ''@'') s of (user, host, found) \<Rightarrow>
        if found \<and> \<not> has_prefix s ''/'' \<and> set user \<inter> {CHR ''/'', CHR '':'', CHR ''@''} = {}
        then (case cut_byte (CHR '':'') host of (before, after, colon) \<Rightarrow>
                if colon \<and> CHR ''/'' \<notin> set before then before @ ''/'' @ after else host)
        else s)"

definition normalize :: "string \<Rightarrow> repo_error + string" where
  "normalize raw =
     (let s = fold (\<lambda>scheme s. trim_prefix s scheme) [''https://'', ''http://'', ''ssh://''] (trim_space raw);
          s = strip_userinfo s;
          s = trim_suffix (trim_suffix (trim_suffix s ''/'') ''.git'') ''/''
      in if s = [] then Inl EmptyRepo
         else if contains_str s ''..'' then Inl DotsInRepo
         else if CHR ''@'' \<in> set s then Inl UserinfoInRepo
         else case firstDisallowedRepoChar s of Some _ \<Rightarrow> Inl DisallowedChar | None \<Rightarrow> Inr (lowerHost s))"

definition clone_url :: "string \<Rightarrow> string" where
  "clone_url cand = (if has_prefix cand ''/'' then cand else ''https://'' @ cand)"

fun match_patterns :: "string list \<Rightarrow> string \<Rightarrow> string option" where
  "match_patterns [] cand = None"
| "match_patterns (p # ps) cand =
     (if path_match p cand = Some True
      then Some (clone_url cand)
      else match_patterns ps cand)"

definition Match_repo :: "allowlist \<Rightarrow> string \<Rightarrow> string option" where
  "Match_repo a raw = (case normalize raw of Inl _ \<Rightarrow> None | Inr cand \<Rightarrow> match_patterns (al_patterns a) cand)"

section \<open>What leaves the gate\<close>

lemma match_patterns_Some:
  "match_patterns ps cand = Some url \<longleftrightarrow>
     (\<exists>p \<in> set ps. path_match p cand = Some True) \<and> url = clone_url cand"
  by (induction ps) auto

lemma firstDisallowed_None: "firstDisallowedRepoChar s = None \<longleftrightarrow> (\<forall>c \<in> set s. allowed_char c)"
proof -
  have "length (takeWhile allowed_char s) < length s \<longleftrightarrow> \<not> (\<forall>c \<in> set s. allowed_char c)"
    by (induction s) auto
  then show ?thesis by (simp add: firstDisallowedRepoChar_def Let_def)
qed

lemma of_ascii_lower: "(of_char (ascii_lower c) :: nat) =
    (if 65 \<le> (of_char c :: nat) \<and> (of_char c :: nat) \<le> 90 then of_char c + 32 else of_char c)"
  by (simp add: ascii_lower_def of_char_of take_bit_eq_mod)

lemma ascii_lower_allowed: "allowed_char c \<Longrightarrow> allowed_char (ascii_lower c)"
  by (auto simp: allowed_char_def is_lower_def is_upper_def is_digit_def of_ascii_lower ascii_lower_def)

lemma ascii_lower_punct:
  "ascii_lower c = CHR ''.'' \<longleftrightarrow> c = CHR ''.''" "ascii_lower c = CHR ''/'' \<longleftrightarrow> c = CHR ''/''"
proof -
  have "ascii_lower c = d \<longleftrightarrow> c = d" if "(of_char d :: nat) < 65" for d
  proof -
    have "ascii_lower c = d \<longleftrightarrow> (of_char (ascii_lower c) :: nat) = of_char d" by simp
    also have "\<dots> \<longleftrightarrow> (of_char c :: nat) = of_char d" using that by (auto simp: of_ascii_lower)
    finally show ?thesis by simp
  qed
  then show "ascii_lower c = CHR ''.'' \<longleftrightarrow> c = CHR ''.''" "ascii_lower c = CHR ''/'' \<longleftrightarrow> c = CHR ''/''"
    by (simp_all add: of_char_def)
qed

lemma lowerHost_alt: "lowerHost s = to_lower (takeWhile (\<lambda>c. c \<noteq> CHR ''/'') s) @ dropWhile (\<lambda>c. c \<noteq> CHR ''/'') s"
proof (cases "CHR ''/'' \<in> set s")
  case True
  then obtain h r where s: "s = h @ CHR ''/'' # r" "CHR ''/'' \<notin> set h" by (meson split_list_first)
  then have "takeWhile (\<lambda>c. c \<noteq> CHR ''/'') s = h" "dropWhile (\<lambda>c. c \<noteq> CHR ''/'') s = CHR ''/'' # r"
    by (auto simp: takeWhile_append dropWhile_append)
  then show ?thesis using s by (cases h) (auto simp: lowerHost_def to_lower_def)
next
  case False
  then have "takeWhile (\<lambda>c. c \<noteq> CHR ''/'') s = s" "dropWhile (\<lambda>c. c \<noteq> CHR ''/'') s = []"
    by (auto simp: takeWhile_eq_all_conv)
  then show ?thesis using False by (cases s) (auto simp: lowerHost_def)
qed

lemma lowerHost_chars: "c \<in> set (lowerHost s) \<Longrightarrow> \<exists>d \<in> set s. c = d \<or> c = ascii_lower d"
  unfolding lowerHost_alt to_lower_def by (auto dest: set_takeWhileD set_dropWhileD)

lemma dots_pointwise:
  "list_all2 (\<lambda>a b. (a = CHR ''.'') = (b = CHR ''.'')) s t \<Longrightarrow> contains_str s ''..'' = contains_str t ''..''"
proof (induction rule: list_all2_induct)
  case (Cons x xs y ys)
  have "has_prefix xs ''.'' = has_prefix ys ''.''" using Cons(2) by (cases xs; cases ys) auto
  then show ?case using Cons by auto
qed simp

lemma lowerHost_dots: "contains_str (lowerHost s) ''..'' = contains_str s ''..''"
proof -
  have "list_all2 (\<lambda>a b. (a = CHR ''.'') = (b = CHR ''.'')) (to_lower x @ y) (x @ y)" for x y
    by (induction x) (simp_all add: to_lower_def ascii_lower_punct list_all2_refl)
  from this [of "takeWhile (\<lambda>c. c \<noteq> CHR ''/'') s" "dropWhile (\<lambda>c. c \<noteq> CHR ''/'') s"]
  show ?thesis unfolding lowerHost_alt by (auto dest: dots_pointwise)
qed

lemma normalize_Inr:
  assumes "normalize raw = Inr cand"
  shows "\<forall>c \<in> set cand. allowed_char c" and "\<not> contains_str cand ''..''"
proof -
  from assms obtain s where s: "cand = lowerHost s" "\<not> contains_str s ''..''" "firstDisallowedRepoChar s = None"
    by (auto simp: normalize_def Let_def split: if_splits option.splits)
  then show "\<forall>c \<in> set cand. allowed_char c"
    using lowerHost_chars ascii_lower_allowed by (fastforce simp: firstDisallowed_None)
  show "\<not> contains_str cand ''..''" using s by (simp add: lowerHost_dots)
qed

text \<open>A pattern whose host segment names one host.\<close>

definition pins_host :: "string \<Rightarrow> string \<Rightarrow> bool" where
  "pins_host h p \<longleftrightarrow> h \<noteq> [] \<and> CHR ''/'' \<notin> set h \<and> literal_pattern h \<and> has_prefix p (h @ ''/'')"

text \<open>
  C18: with patterns that name their host literally, whatever repository name the model writes, a clone
  goes only to the host of a pattern. Patterns with a wildcard in the host and patterns for local
  paths, whose match is cloned as the path it is, are excluded by the hypothesis. A clone URL then is \<open>https://\<close>, the host of a pattern,
  a slash, and a rest that together matches that pattern; the part after the scheme has only letters,
  digits, dot, underscore, dash and slash, so no userinfo, port, escape or query, and no two dots.
\<close>

theorem clone_stays_on_allowed_host:
  assumes "Match_repo a raw = Some url" and "\<forall>p \<in> set (al_patterns a). \<exists>h. pins_host h p"
  shows "\<exists>p \<in> set (al_patterns a). \<exists>h rest. pins_host h p \<and> url = ''https://'' @ h @ ''/'' @ rest
    \<and> path_match p (h @ ''/'' @ rest) = Some True
    \<and> (\<forall>c \<in> set (h @ ''/'' @ rest). allowed_char c) \<and> \<not> contains_str (h @ ''/'' @ rest) ''..''"
proof -
  obtain cand where n: "normalize raw = Inr cand" and m: "match_patterns (al_patterns a) cand = Some url"
    using assms(1) by (auto simp: Match_repo_def split: sum.splits)
  from m obtain p where p: "p \<in> set (al_patterns a)" "path_match p cand = Some True" and url: "url = clone_url cand"
    by (auto simp: match_patterns_Some)
  obtain h where h: "pins_host h p" using p(1) assms(2) by blast
  then obtain q where q: "p = (h @ ''/'') @ q" by (auto simp: pins_host_def has_prefix_iff)
  have "literal_pattern (h @ ''/'')" using h by (auto simp: pins_host_def literal_pattern_def)
  from path_match_literal_prefix [OF this] p(2) obtain rest where c: "cand = h @ ''/'' @ rest"
    by (auto simp: q has_prefix_iff)
  have "\<not> has_prefix cand ''/''" using h c by (cases h) (auto simp: pins_host_def)
  then have "url = ''https://'' @ h @ ''/'' @ rest" by (simp add: url clone_url_def c)
  then show ?thesis using p h c normalize_Inr [OF n] by blast
qed

section \<open>The spellings of a repository\<close>

definition clean_repo :: "string \<Rightarrow> string \<Rightarrow> bool" where
  "clean_repo h q \<longleftrightarrow> h \<noteq> [] \<and> CHR ''/'' \<notin> set h \<and> list_all allowed_char (h @ ''/'' @ q)
     \<and> \<not> contains_str (h @ ''/'' @ q) ''..'' \<and> \<not> has_suffix (h @ ''/'' @ q) ''/'' \<and> \<not> has_suffix (h @ ''/'' @ q) ''.git''"

lemma allowed_not: "allowed_char c \<Longrightarrow> \<not> is_space c \<and> c \<noteq> CHR '':'' \<and> c \<noteq> CHR ''@''"
  by (auto simp: allowed_char_def is_space_def is_lower_def is_upper_def is_digit_def)

lemma trim_space_id: "\<forall>c \<in> set s. \<not> is_space c \<Longrightarrow> trim_space s = s"
proof -
  assume a: "\<forall>c \<in> set s. \<not> is_space c"
  have "dropWhile is_space x = x" if "\<forall>c \<in> set x. \<not> is_space c" for x using that by (cases x) auto
  from this [of s] this [of "rev s"] a show "trim_space s = s" by (simp add: trim_space_def)
qed

lemma has_prefix_char: "has_prefix s p \<Longrightarrow> c \<in> set p \<Longrightarrow> c \<in> set s"
  by (auto simp: has_prefix_iff)

text \<open>What follows the removal of scheme and user name.\<close>

definition finish_repo :: "string \<Rightarrow> repo_error + string" where
  "finish_repo s0 = (let s = trim_suffix (trim_suffix (trim_suffix s0 ''/'') ''.git'') ''/''
      in if s = [] then Inl EmptyRepo
         else if contains_str s ''..'' then Inl DotsInRepo
         else if CHR ''@'' \<in> set s then Inl UserinfoInRepo
         else case firstDisallowedRepoChar s of Some _ \<Rightarrow> Inl DisallowedChar | None \<Rightarrow> Inr (lowerHost s))"

lemma normalize_alt: "normalize raw = finish_repo (strip_userinfo
    (trim_prefix (trim_prefix (trim_prefix (trim_space raw) ''https://'') ''http://'') ''ssh://''))"
  unfolding normalize_def finish_repo_def Let_def fold.simps o_apply id_apply ..

lemma finish_clean:
  assumes "clean_repo h q"
  shows "finish_repo (h @ ''/'' @ q) = Inr (lowerHost (h @ ''/'' @ q))"
    and "finish_repo (h @ ''/'' @ q @ ''.git'') = Inr (lowerHost (h @ ''/'' @ q))"
proof -
  define s where "s = h @ ''/'' @ q"
  have s: "s \<noteq> []" "\<not> contains_str s ''..''" "\<not> has_suffix s ''/''" "\<not> has_suffix s ''.git''"
    and chars: "\<forall>c \<in> set s. allowed_char c"
    using assms by (auto simp: clean_repo_def s_def list_all_iff)
  have "CHR ''@'' \<notin> set s" "firstDisallowedRepoChar s = None"
    using chars allowed_not by (auto simp: firstDisallowed_None)
  note facts = this s
  have "finish_repo s = Inr (lowerHost s)"
    using facts by (simp add: finish_repo_def trim_suffix_none)
  moreover have "finish_repo (s @ ''.git'') = Inr (lowerHost s)"
  proof -
    have "\<not> has_suffix (s @ ''.git'') ''/''" by (simp add: has_suffix_def)
    then have "trim_suffix (s @ ''.git'') ''/'' = s @ ''.git''" by (rule trim_suffix_none)
    then show ?thesis using facts by (simp only: finish_repo_def trim_suffix_append Let_def) (simp add: trim_suffix_none)
  qed
  ultimately show "finish_repo (h @ ''/'' @ q) = Inr (lowerHost (h @ ''/'' @ q))"
    and "finish_repo (h @ ''/'' @ q @ ''.git'') = Inr (lowerHost (h @ ''/'' @ q))"
    by (simp_all add: s_def)
qed

lemma trim_prefix_none: "\<not> has_prefix s p \<Longrightarrow> trim_prefix s p = s"
  by (simp add: trim_prefix_def)

lemma trim_prefix_append: "trim_prefix (p @ s) p = s"
  by (simp add: trim_prefix_def)

text \<open>
  The spellings a model plausibly writes are one repository. For a host and a path of allowed
  characters, the bare form, the https form with \<open>.git\<close>, the scp form and the ssh form normalize to the
  same candidate, the host in lower case.
\<close>

theorem spellings_normalize_alike:
  assumes "clean_repo h q"
  shows "normalize (h @ ''/'' @ q) = Inr (lowerHost (h @ ''/'' @ q))
    \<and> normalize (''https://'' @ h @ ''/'' @ q @ ''.git'') = Inr (lowerHost (h @ ''/'' @ q))
    \<and> normalize (''git@'' @ h @ '':'' @ q @ ''.git'') = Inr (lowerHost (h @ ''/'' @ q))
    \<and> normalize (''ssh://git@'' @ h @ ''/'' @ q) = Inr (lowerHost (h @ ''/'' @ q))"
proof -
  define s where "s = h @ ''/'' @ q"
  have chars: "\<forall>c \<in> set s. \<not> is_space c \<and> c \<noteq> CHR '':'' \<and> c \<noteq> CHR ''@''"
  proof -
    have "list_all allowed_char s" using assms unfolding clean_repo_def s_def by blast
    then show ?thesis using allowed_not by (simp add: list_all_iff)
  qed
  have "CHR ''/'' \<notin> set h" "h \<noteq> []" using assms unfolding clean_repo_def by blast+
  moreover have "CHR '':'' \<notin> set h" "CHR ''@'' \<notin> set h" using chars by (auto simp: s_def)
  ultimately have h: "CHR ''/'' \<notin> set h" "CHR '':'' \<notin> set h" "CHR ''@'' \<notin> set h" "h \<noteq> []" "\<not> has_prefix h ''/''"
    by (auto simp: has_prefix_iff)
  have plain: "\<not> has_prefix (s @ x) p" if "CHR '':'' \<in> set p" "CHR '':'' \<notin> set x" for x p
    using has_prefix_char [of "s @ x" p "CHR '':''"] that chars by auto
  have user: "strip_userinfo (s @ x) = s @ x" if "CHR ''@'' \<notin> set x" for x
  proof -
    have "CHR ''@'' \<notin> set (s @ x)" using that chars by auto
    then show ?thesis by (simp add: strip_userinfo_def)
  qed
  have git: "\<forall>c \<in> set ''.git''. \<not> is_space c \<and> c \<noteq> CHR '':'' \<and> c \<noteq> CHR ''@''"
    by (simp add: is_space_def)
  have "normalize s = Inr (lowerHost s)"
    using plain [of _ "[]"] user [of "[]"] finish_clean(1) [OF assms] chars
    by (simp add: normalize_alt trim_space_id trim_prefix_none s_def)
  moreover have "normalize (''https://'' @ s @ ''.git'') = Inr (lowerHost s)"
  proof -
    have "trim_space (''https://'' @ s @ ''.git'') = ''https://'' @ s @ ''.git''"
      using chars git by (intro trim_space_id) (auto simp: is_space_def)
    then show ?thesis
      using plain [of _ "''.git''"] user [of "''.git''"] finish_clean(2) [OF assms]
      by (simp only: normalize_alt trim_prefix_append) (simp add: trim_prefix_none s_def)
  qed
  moreover have "normalize (''git@'' @ h @ '':'' @ q @ ''.git'') = Inr (lowerHost s)"
  proof -
    have "trim_space (''git@'' @ h @ '':'' @ q @ ''.git'') = ''git@'' @ h @ '':'' @ q @ ''.git''"
      using chars git by (intro trim_space_id) (auto simp: is_space_def s_def)
    moreover have "strip_userinfo (''git@'' @ h @ '':'' @ q @ ''.git'') = h @ ''/'' @ q @ ''.git''"
      using h by (simp add: strip_userinfo_def)
    ultimately show ?thesis
      using finish_clean(2) [OF assms] by (simp add: normalize_alt trim_prefix_def s_def)
  qed
  moreover have "normalize (''ssh://git@'' @ s) = Inr (lowerHost s)"
  proof -
    have "trim_space (''ssh://git@'' @ s) = ''ssh://git@'' @ s"
      using chars by (intro trim_space_id) (auto simp: is_space_def)
    moreover have "CHR '':'' \<notin> set s" using chars by blast
    then have "strip_userinfo (''git@'' @ s) = s" by (simp add: strip_userinfo_def)
    ultimately show ?thesis
      using finish_clean(1) [OF assms] by (simp add: normalize_alt trim_prefix_def s_def)
  qed
  ultimately show ?thesis by (simp add: s_def)
qed

lemma spellings_normalize_alike_witness:
  "normalize ''git@GitHub.com:acme/x.git'' = Inr ''github.com/acme/x''"
proof -
  have "clean_repo ''GitHub.com'' ''acme/x''"
    by (simp add: clean_repo_def allowed_char_def is_lower_def is_upper_def is_digit_def has_suffix_def)
  moreover have "lowerHost (''GitHub.com'' @ ''/'' @ ''acme/x'') = ''github.com/acme/x''" by code_simp
  ultimately show ?thesis using spellings_normalize_alike [of "''GitHub.com''" "''acme/x''"] by simp
qed

lemma clone_stays_on_allowed_host_witness:
  "\<exists>rest. Match_repo \<lparr>al_patterns = [''github.com/acme/*'']\<rparr> ''git@github.com:acme/x.git'' = Some (''https://'' @ ''github.com'' @ ''/'' @ rest)"
proof -
  have c: "clean_repo ''github.com'' ''acme/x''"
    by (simp add: clean_repo_def allowed_char_def is_lower_def is_upper_def is_digit_def has_suffix_def)
  have n: "normalize ''git@github.com:acme/x.git'' = Inr ''github.com/acme/x''"
    using spellings_normalize_alike [OF c] by (simp add: lowerHost_def to_lower_def ascii_lower_def)
  have m: "path_match ''github.com/acme/*'' ''github.com/acme/x'' = Some True"
    by (simp add: path_match_def)
  have p: "pins_host ''github.com'' ''github.com/acme/*''"
    by (simp add: pins_host_def literal_pattern_def)
  obtain url where u: "Match_repo \<lparr>al_patterns = [''github.com/acme/*'']\<rparr> ''git@github.com:acme/x.git'' = Some url"
    by (simp add: Match_repo_def n m)
  have u': "url = ''https://github.com/acme/x''"
    using u by (simp add: Match_repo_def n m clone_url_def)
  from clone_stays_on_allowed_host [OF u] p have "\<exists>h rest. url = ''https://'' @ h @ ''/'' @ rest" by fastforce
  then show ?thesis using u u' by simp
qed

end
