(* ===== verification/Catalog.thy ===== *)
theory Catalog
  imports Workload
begin

text \<open>
  The knowledge entry of \<open>internal/catalog\<close>: the record of \<open>entry.go\<close> with its date grammar,
  and the excerpt of \<open>section.go\<close> (\<open>Section\<close>, \<open>FencedLines\<close>, \<open>headingText\<close>,
  \<open>truncateRunes\<close>). \<open>FencedLines\<close>, which both section parsers of the program share, is
  related to a direct reading: a line is code exactly when it lies between the two markers of a
  pair, markers being paired from the top. Texts are valid UTF-8, of which a rune is a byte that
  is not a continuation byte together with the continuation bytes after it.
\<close>

section \<open>Entries\<close>

record entry =
  en_type :: string
  en_title :: string
  en_description :: string
  en_resource :: string
  en_alertResource :: string
  en_tags :: "string list"
  en_timestamp :: string
  en_fingerprint :: string
  en_status :: string
  en_lastValidated :: string
  en_body :: string
  en_path :: string
  en_commons :: bool

definition zero_entry :: entry where
  "zero_entry = \<lparr>en_type = [], en_title = [], en_description = [], en_resource = [],
     en_alertResource = [], en_tags = [], en_timestamp = [], en_fingerprint = [], en_status = [],
     en_lastValidated = [], en_body = [], en_path = [], en_commons = False\<rparr>"

record scored_entry =
  se_entry :: entry
  se_score :: rat

text \<open>\<open>time.Parse\<close> is the parameter \<open>parse\<close>: a layout and a text to an instant.\<close>

definition RFC3339 :: string where "RFC3339 = ''2006-01-02T15:04:05Z07:00''"

definition ParseEntryDate :: "(string \<Rightarrow> string \<Rightarrow> gotime option) \<Rightarrow> string \<Rightarrow> gotime option" where
  "ParseEntryDate parse s =
     (if s = [] then None
      else case parse RFC3339 s of Some t \<Rightarrow> Some t | None \<Rightarrow> parse ''2006-01-02'' s)"

section \<open>Runes\<close>

definition is_cont :: "char \<Rightarrow> bool" where
  "is_cont c \<longleftrightarrow> 128 \<le> (of_char c :: nat) \<and> (of_char c :: nat) < 192"

definition rune_count :: "string \<Rightarrow> nat" where
  "rune_count s = length (filter (\<lambda>c. \<not> is_cont c) s)"

fun take_runes :: "nat \<Rightarrow> string \<Rightarrow> string" where
  "take_runes n [] = []"
| "take_runes n (c # s) =
     (if is_cont c then c # take_runes n s
      else case n of 0 \<Rightarrow> [] | Suc m \<Rightarrow> c # take_runes m s)"

definition ellipsis :: string where
  "ellipsis = [CHR 0xE2, CHR 0x80, CHR 0xA6]"

definition truncateRunes :: "string \<Rightarrow> nat \<Rightarrow> string" where
  "truncateRunes s n =
     (if rune_count s \<le> n then s else trim_right (CHR '' '') (take_runes n s) @ ellipsis)"

lemma rune_count_append [simp]: "rune_count (a @ b) = rune_count a + rune_count b"
  by (simp add: rune_count_def)

lemma rune_count_Cons: "rune_count (c # s) = (if is_cont c then 0 else 1) + rune_count s"
  by (simp add: rune_count_def)

lemma rune_count_Nil [simp]: "rune_count [] = 0"
  by (simp add: rune_count_def)

lemma rune_count_take: "rune_count (take_runes n s) \<le> n"
  by (induction n s rule: take_runes.induct) (auto simp: rune_count_Cons split: nat.splits)

lemma take_runes_prefix: "\<exists>t. s = take_runes n s @ t"
  by (induction n s rule: take_runes.induct) (auto split: nat.splits)

lemma take_runes_all: "rune_count s \<le> n \<Longrightarrow> take_runes n s = s"
  by (induction n s rule: take_runes.induct) (auto simp: rune_count_Cons split: nat.splits if_splits)

lemma trim_right_prefix: "\<exists>t. s = trim_right c s @ t"
proof
  show "s = trim_right c s @ rev (takeWhile (\<lambda>x. x = c) (rev s))"
    by (metis rev_append rev_rev_ident takeWhile_dropWhile_id trim_right_def)
qed

lemma rune_count_trim: "rune_count (trim_right c s) \<le> rune_count s"
  using trim_right_prefix [of s c] by (metis le_add1 rune_count_append)

lemma rune_count_ellipsis [simp]: "rune_count ellipsis = 1"
  by (simp add: ellipsis_def rune_count_def is_cont_def)

lemma truncateRunes_bound: "rune_count (truncateRunes s n) \<le> Suc n"
  using rune_count_trim [of "CHR '' ''" "take_runes n s"] rune_count_take [of n s]
  by (auto simp: truncateRunes_def)

section \<open>Lines and fences\<close>

fun split_byte :: "char \<Rightarrow> string \<Rightarrow> string list" where
  "split_byte c [] = [[]]"
| "split_byte c (x # s) = (if x = c then [] # split_byte c s
     else case split_byte c s of [] \<Rightarrow> [[x]] | y # ys \<Rightarrow> (x # y) # ys)"

definition newline :: char where "newline = CHR 0x0A"

definition fence_marker :: "string \<Rightarrow> bool" where
  "fence_marker l \<longleftrightarrow> has_prefix (trim_space l) ''```''"

text \<open>The loop that closes a pair sets the flags from the opener to the closer.\<close>

definition mark_range :: "nat \<Rightarrow> nat \<Rightarrow> bool list \<Rightarrow> bool list" where
  "mark_range a b f = map (\<lambda>(j, x). x \<or> (a \<le> j \<and> j \<le> b)) (zip [0..<length f] f)"

fun fence_loop :: "nat \<Rightarrow> nat option \<Rightarrow> bool list \<Rightarrow> string list \<Rightarrow> bool list" where
  "fence_loop i opened f [] = f"
| "fence_loop i opened f (l # ls) =
     (if \<not> fence_marker l then fence_loop (Suc i) opened f ls
      else case opened of
        None \<Rightarrow> fence_loop (Suc i) (Some i) f ls
      | Some a \<Rightarrow> fence_loop (Suc i) None (mark_range a i f) ls)"

definition FencedLines :: "string list \<Rightarrow> bool list" where
  "FencedLines lines = fence_loop 0 None (replicate (length lines) False) lines"

section \<open>Sections\<close>

definition headingText :: "string \<Rightarrow> string" where
  "headingText line =
     (let i = length (takeWhile (\<lambda>c. c = CHR ''#'') line)
      in if i = 0 \<or> i > 6 \<or> i \<ge> length line \<or> line ! i \<noteq> CHR '' '' then []
         else trim_space (drop i line))"

text \<open>\<open>strings.ReplaceAll(s, "**", "")\<close>.\<close>

fun strip_bold :: "string \<Rightarrow> string" where
  "strip_bold (a # b # s) =
     (if a = CHR ''*'' \<and> b = CHR ''*'' then strip_bold s else a # strip_bold (b # s))"
| "strip_bold s = s"

definition sectionMaxRunes :: nat where "sectionMaxRunes = 300"

fun section_loop :: "string \<Rightarrow> bool \<Rightarrow> string list \<Rightarrow> (string \<times> bool) list \<Rightarrow> string list" where
  "section_loop want inside para [] = para"
| "section_loop want inside para ((l, fenced) # rest) =
     (let trimmed = trim_space l; h = headingText trimmed
      in if fenced \<or> has_prefix trimmed ''```'' then section_loop want inside para rest
         else if h \<noteq> [] then
           (if inside then para else section_loop want (to_lower h = to_lower want) para rest)
         else if \<not> inside then section_loop want inside para rest
         else if trimmed = [] then
           (if para \<noteq> [] then para else section_loop want inside para rest)
         else section_loop want inside (para @ [trimmed]) rest)"

definition Section :: "entry \<Rightarrow> string \<Rightarrow> string" where
  "Section e name =
     (let lines = split_byte newline (en_body e);
          para = section_loop (trim_space name) False [] (zip lines (FencedLines lines))
      in truncateRunes (strip_bold (str_join '' '' para)) sectionMaxRunes)"

section \<open>Markers are paired from the top\<close>

fun pairs_up :: "nat list \<Rightarrow> (nat \<times> nat) list" where
  "pairs_up (a # b # ms) = (a, b) # pairs_up ms"
| "pairs_up ms = []"

text \<open>The positions of the markers, counted from \<open>i\<close>.\<close>

fun markers_from :: "nat \<Rightarrow> string list \<Rightarrow> nat list" where
  "markers_from i [] = []"
| "markers_from i (l # ls) =
     (if fence_marker l then i # markers_from (Suc i) ls else markers_from (Suc i) ls)"

definition covered :: "(nat \<times> nat) list \<Rightarrow> nat \<Rightarrow> bool" where
  "covered ps j \<longleftrightarrow> list_ex (\<lambda>(a, b). a \<le> j \<and> j \<le> b) ps"

lemma covered_simps [simp]:
  "covered [] j = False" "covered ((a, b) # ps) j \<longleftrightarrow> (a \<le> j \<and> j \<le> b) \<or> covered ps j"
  by (simp_all add: covered_def)

lemma mark_range_nth [simp]: "j < length f \<Longrightarrow> mark_range a b f ! j \<longleftrightarrow> f ! j \<or> (a \<le> j \<and> j \<le> b)"
  by (simp add: mark_range_def)

lemma length_mark_range [simp]: "length (mark_range a b f) = length f"
  by (simp add: mark_range_def)

lemma fence_loop_spec:
  "length (fence_loop i opened f ls) = length f
   \<and> (\<forall>j < length f. fence_loop i opened f ls ! j \<longleftrightarrow>
        f ! j \<or> covered (pairs_up (case opened of None \<Rightarrow> markers_from i ls
                                    | Some a \<Rightarrow> a # markers_from i ls)) j)"
  by (induction i opened f ls rule: fence_loop.induct) (auto split: option.splits)

text \<open>
  The shared fence scanner marks a line as code exactly when it lies between the two
  markers of a pair, the markers of the text being paired from the top; so an opener that is never
  closed marks nothing, and a section after it stays visible.
\<close>

theorem fenced_between_paired_markers:
  "FencedLines lines = map (covered (pairs_up (markers_from 0 lines))) [0..<length lines]"
  using fence_loop_spec [of 0 None "replicate (length lines) False" lines]
  by (intro nth_equalityI) (simp_all add: FencedLines_def)

lemma FencedLines_length [simp]: "length (FencedLines lines) = length lines"
  using fence_loop_spec [of 0 None "replicate (length lines) False" lines] by (simp add: FencedLines_def)

text \<open>What an excerpt quotes comes from lines that are not code, and it is bounded.\<close>

lemma section_loop_source:
  "set (section_loop want inside para ls) \<subseteq>
     set para \<union> {trim_space l | l. (l, False) \<in> set ls \<and> \<not> fence_marker l}"
proof (induction ls arbitrary: inside para)
  case (Cons p rest)
  obtain l f where p: "p = (l, f)" by (cases p)
  let ?S = "\<lambda>ls. {trim_space l | l. (l, False) \<in> set ls \<and> \<not> fence_marker l}"
  let ?next = "to_lower (headingText (trim_space l)) = to_lower want"
  have sub: "?S rest \<subseteq> ?S (p # rest)" by auto
  note IH = Cons.IH [of inside para] Cons.IH [of ?next para] Cons.IH [of inside "para @ [trim_space l]"]
  show ?case
  proof (cases "f \<or> has_prefix (trim_space l) ''```''")
    case True
    then show ?thesis using IH(1) sub by (simp add: p Let_def) blast
  next
    case False
    then have "trim_space l \<in> ?S (p # rest)" by (auto simp: p fence_marker_def)
    then have q: "set (para @ [trim_space l]) \<union> ?S rest \<subseteq> set para \<union> ?S (p # rest)"
      and r: "set para \<union> ?S rest \<subseteq> set para \<union> ?S (p # rest)" using sub by auto
    note all = subset_trans [OF IH(1) r] subset_trans [OF IH(2) r] subset_trans [OF IH(3) q]
    have "section_loop want inside para (p # rest) \<in>
      {para, section_loop want inside para rest, section_loop want ?next para rest,
        section_loop want inside (para @ [trim_space l]) rest}"
      using False by (simp add: p Let_def)
    then show ?thesis using all by auto
  qed
qed simp

lemma Section_bounded: "rune_count (Section e name) \<le> 301"
  using truncateRunes_bound [where n = sectionMaxRunes] by (simp add: Section_def Let_def sectionMaxRunes_def)

end
