(* ===== verification/Chat.thy ===== *)
theory Chat
  imports Catalog
begin

text \<open>
  The model-facing data of \<open>internal/providers/providers.go\<close> that the spend guard, compaction
  and the recall reranker share: messages, tool calls, tool specifications, a completion with its
  reported usage, the running totals, and \<open>EstimateTokens\<close>. Fields that only a provider client
  reads (\<open>Opaque\<close>) and those no modelled code reads are left out. Token counts are integers.
\<close>

record tool_call =
  tc_id :: string
  tc_name :: string
  tc_args :: string

record message =
  ms_role :: string
  ms_content :: string
  ms_toolCalls :: "tool_call list"
  ms_toolCallID :: string

record tool_spec =
  ts_name :: string
  ts_description :: string
  ts_schema :: string

record usage =
  us_inputTokens :: int
  us_outputTokens :: int
  us_cachedInputTokens :: int
  us_cacheWriteTokens :: int

record usage_totals =
  ut_modelCalls :: int
  ut_inputTokens :: int
  ut_outputTokens :: int
  ut_cachedInputTokens :: int
  ut_costUSD :: rat
  ut_priced :: bool

definition zero_totals :: usage_totals where
  "zero_totals = \<lparr>ut_modelCalls = 0, ut_inputTokens = 0, ut_outputTokens = 0,
     ut_cachedInputTokens = 0, ut_costUSD = 0, ut_priced = False\<rparr>"

record completion =
  cp_text :: string
  cp_toolCalls :: "tool_call list"
  cp_usage :: usage
  cp_truncated :: bool
  cp_stopReason :: string
  cp_err :: bool

definition refusalStopReasons :: "string list" where
  "refusalStopReasons = [''refusal'', ''content_filter'', ''safety'', ''prohibited_content'', ''blocklist'', ''spii'']"

definition Refused :: "completion \<Rightarrow> bool" where
  "Refused r \<longleftrightarrow> to_lower (cp_stopReason r) \<in> set refusalStopReasons"

definition user_message :: "string \<Rightarrow> message" where
  "user_message s = \<lparr>ms_role = ''user'', ms_content = s, ms_toolCalls = [], ms_toolCallID = []\<rparr>"

text \<open>\<open>EstimateTokens\<close>: a quarter of the bytes that go on the wire.\<close>

definition message_bytes :: "message \<Rightarrow> nat" where
  "message_bytes m = length (ms_content m) + sum_list (map (\<lambda>tc. length (tc_args tc)) (ms_toolCalls m))"

definition spec_bytes :: "tool_spec \<Rightarrow> nat" where
  "spec_bytes t = length (ts_name t) + length (ts_description t) + length (ts_schema t)"

definition EstimateTokens :: "string \<Rightarrow> message list \<Rightarrow> tool_spec list \<Rightarrow> nat" where
  "EstimateTokens system msgs tools =
     (length system + sum_list (map spec_bytes tools) + sum_list (map message_bytes msgs)) div 4"

lemma EstimateTokens_mono:
  "sum_list (map message_bytes ms) \<le> sum_list (map message_bytes ms') \<Longrightarrow>
     EstimateTokens s ms ts \<le> EstimateTokens s ms' ts"
  by (simp add: EstimateTokens_def div_le_mono)

text \<open>\<open>addUsage\<close> of \<open>internal/investigate/cost.go\<close>.\<close>

definition addUsage :: "usage_totals \<Rightarrow> usage \<Rightarrow> usage_totals" where
  "addUsage t u = t\<lparr>ut_modelCalls := ut_modelCalls t + 1,
     ut_inputTokens := ut_inputTokens t + us_inputTokens u,
     ut_outputTokens := ut_outputTokens t + us_outputTokens u,
     ut_cachedInputTokens := ut_cachedInputTokens t + us_cachedInputTokens u\<rparr>"

lemma addUsage_simps [simp]:
  "ut_modelCalls (addUsage t u) = ut_modelCalls t + 1"
  "ut_inputTokens (addUsage t u) = ut_inputTokens t + us_inputTokens u"
  "ut_outputTokens (addUsage t u) = ut_outputTokens t + us_outputTokens u"
  "ut_cachedInputTokens (addUsage t u) = ut_cachedInputTokens t + us_cachedInputTokens u"
  "ut_costUSD (addUsage t u) = ut_costUSD t" "ut_priced (addUsage t u) = ut_priced t"
  by (simp_all add: addUsage_def)

end
