(* ===== verification/Spend.thy ===== *)
theory Spend
  imports Chat
begin

text \<open>
  The spend of one investigation: \<open>internal/investigate/cost.go\<close> (\<open>Pricing.cost\<close>,
  \<open>aggregateUsage\<close>), \<open>verify_tier.go\<close> (\<open>pricingOr\<close>), the thresholds and the token
  calibration of \<open>budget.go\<close>, and \<open>budgetTrip\<close> and \<open>projectSpend\<close> of \<open>loop.go\<close>.
  Dollars and the calibration ratio are rationals where the code has \<open>float64\<close>. The two constant
  fractions are not idealised: a quarter is exact in binary, and the product with the constant
  \<open>0.7\<close> is rounded as an IEEE double is, because the rounding shows in the integer part.
\<close>

section \<open>Pricing\<close>

record pricing =
  pr_inputUSDPerMTok :: rat
  pr_outputUSDPerMTok :: rat
  pr_cachedInputUSDPerMTok :: rat

definition cost :: "pricing option \<Rightarrow> usage_totals \<Rightarrow> rat" where
  "cost p u = (case p of None \<Rightarrow> 0 | Some p \<Rightarrow>
     (let d = ut_inputTokens u - ut_cachedInputTokens u; uncached = (if d < 0 then 0 else d)
      in of_int uncached / 1000000 * pr_inputUSDPerMTok p
         + of_int (ut_cachedInputTokens u) / 1000000 * pr_cachedInputUSDPerMTok p
         + of_int (ut_outputTokens u) / 1000000 * pr_outputUSDPerMTok p))"

text \<open>\<open>VerifyTier.pricingOr\<close>: the tier's own card, else the main model's.\<close>

definition pricingOr :: "pricing option \<Rightarrow> pricing option \<Rightarrow> pricing option" where
  "pricingOr tier fallback = (case tier of Some p \<Rightarrow> Some p | None \<Rightarrow> fallback)"

text \<open>The fields of \<open>LoopInvestigator\<close> that the spend guard reads.\<close>

record spend_config =
  sc_maxTokensPerInvestigation :: int
  sc_maxCostPerInvestigation :: rat
  sc_pricing :: "pricing option"
  sc_verifyPricing :: "pricing option"

definition aggregateUsage :: "spend_config \<Rightarrow> usage_totals \<Rightarrow> usage_totals \<Rightarrow> usage_totals \<Rightarrow> usage_totals" where
  "aggregateUsage li main verify embedded =
     (let total = zero_totals\<lparr>
            ut_modelCalls := ut_modelCalls main + ut_modelCalls verify,
            ut_inputTokens := ut_inputTokens main + ut_inputTokens verify + ut_inputTokens embedded,
            ut_outputTokens := ut_outputTokens main + ut_outputTokens verify,
            ut_cachedInputTokens := ut_cachedInputTokens main + ut_cachedInputTokens verify\<rparr>
      in case sc_pricing li of
           None \<Rightarrow> total
         | Some p \<Rightarrow> total\<lparr>ut_priced := True,
             ut_costUSD := cost (Some p) main + cost (pricingOr (sc_verifyPricing li) (Some p)) verify\<rparr>)"

section \<open>Thresholds\<close>

definition overBudget :: "int \<Rightarrow> int \<Rightarrow> bool" where
  "overBudget est budget \<longleftrightarrow> budget > 0 \<and> est > budget"

definition requestBudget :: "int \<Rightarrow> int" where
  "requestBudget cumulative = (if cumulative \<le> 0 then 0 else cumulative div 4)"

text \<open>
  An integer rounded to the 53 significant bits of a double, ties to even. The excess bits are
  the ones above 53; \<open>seventy\<close> is the mantissa of the double nearest to 0.7, whose value is
  \<open>seventy / 2 ^ 53\<close>.
\<close>

fun excess_bits :: "nat \<Rightarrow> nat" where
  "excess_bits n = (if n < 2 ^ 53 then 0 else Suc (excess_bits (n div 2)))"

declare excess_bits.simps [simp del]

definition round53 :: "nat \<Rightarrow> nat" where
  "round53 n =
     (let s = excess_bits n; q = n div 2 ^ s; r = n mod 2 ^ s
      in if 2 * r > 2 ^ s \<or> (2 * r = 2 ^ s \<and> odd q) then Suc q * 2 ^ s else q * 2 ^ s)"

definition seventy :: nat where "seventy = 6305039478318694"

definition compactionTarget :: "int \<Rightarrow> int" where
  "compactionTarget cumulative = int (round53 (nat (requestBudget cumulative) * seventy) div 2 ^ 53)"

definition spentTokens :: "usage_totals \<Rightarrow> int" where
  "spentTokens t = ut_inputTokens t + ut_outputTokens t"

definition overCostBudget :: "usage_totals \<Rightarrow> rat \<Rightarrow> bool" where
  "overCostBudget spent ceil \<longleftrightarrow> ceil > 0 \<and> ut_priced spent \<and> ut_costUSD spent > ceil"

definition projectSpend :: "spend_config \<Rightarrow> usage_totals \<Rightarrow> int \<Rightarrow> usage_totals" where
  "projectSpend li spent est = (case sc_pricing li of
     None \<Rightarrow> spent
   | Some p \<Rightarrow> spent\<lparr>ut_costUSD := ut_costUSD spent + cost (Some p) (zero_totals\<lparr>ut_inputTokens := est\<rparr>)\<rparr>)"

definition budgetReasonRequestTokens :: string where "budgetReasonRequestTokens = ''tokens_request''"
definition budgetReasonTotalTokens :: string where "budgetReasonTotalTokens = ''tokens_total''"
definition budgetReasonCost :: string where "budgetReasonCost = ''cost''"

lemmas budget_reason_defs = budgetReasonRequestTokens_def budgetReasonTotalTokens_def budgetReasonCost_def

definition budgetTrip :: "spend_config \<Rightarrow> int \<Rightarrow> usage_totals \<Rightarrow> string" where
  "budgetTrip li est spent =
     (if overBudget est (requestBudget (sc_maxTokensPerInvestigation li)) then budgetReasonRequestTokens
      else if overBudget (spentTokens spent + est) (sc_maxTokensPerInvestigation li) then budgetReasonTotalTokens
      else if overCostBudget (projectSpend li spent est) (sc_maxCostPerInvestigation li) then budgetReasonCost
      else [])"

lemma budgetTrip_cases:
  "budgetTrip li est spent \<in> {[], budgetReasonRequestTokens, budgetReasonTotalTokens, budgetReasonCost}"
  by (simp add: budgetTrip_def)

section \<open>Calibration\<close>

text \<open>The state is the ratio; \<open>0\<close> is uncalibrated.\<close>

definition observe :: "rat \<Rightarrow> int \<Rightarrow> usage \<Rightarrow> rat" where
  "observe ratio heuristic u =
     (if heuristic \<le> 0 \<or> us_inputTokens u \<le> 0 then ratio
      else (let r = of_int (us_inputTokens u) / of_int heuristic in if r < 1 then 1 else r))"

definition calib_estimate :: "rat \<Rightarrow> string \<Rightarrow> message list \<Rightarrow> tool_spec list \<Rightarrow> int" where
  "calib_estimate ratio system msgs tools =
     (let est = int (EstimateTokens system msgs tools)
      in if ratio > 1 then \<lceil>of_int est * ratio\<rceil> else est)"

definition heuristicTarget :: "rat \<Rightarrow> int \<Rightarrow> int" where
  "heuristicTarget ratio target =
     (if ratio > 1 then (if target \<ge> 0 then \<lfloor>of_int target / ratio\<rfloor> else \<lceil>of_int target / ratio\<rceil>)
      else target)"

lemma observe_range: "ratio = 0 \<or> 1 \<le> ratio \<Longrightarrow> observe ratio h u = 0 \<or> 1 \<le> observe ratio h u"
  by (auto simp: observe_def Let_def)

text \<open>The guard fires no later than uncalibrated: an estimate is never below the heuristic.\<close>

lemma calib_estimate_ge: "int (EstimateTokens s ms ts) \<le> calib_estimate ratio s ms ts"
proof -
  let ?e = "int (EstimateTokens s ms ts)"
  have "of_int ?e * 1 \<le> of_int ?e * ratio" if "ratio > 1"
    using that by (intro mult_left_mono) simp_all
  then show ?thesis
    by (auto simp: calib_estimate_def Let_def intro!: order_trans [OF _ le_of_int_ceiling]
        intro: of_int_le_iff [where 'a = rat, THEN iffD1])
qed

text \<open>
  Right after an observation the estimate of that same request is at least what the provider
  billed for it, and a history compacted to the converted target is estimated within the target.
\<close>

lemma calib_anchored:
  assumes "0 < us_inputTokens u" and "EstimateTokens s ms ts = h" and "0 < h"
  shows "us_inputTokens u \<le> calib_estimate (observe ratio (int h) u) s ms ts"
proof -
  let ?r = "of_int (us_inputTokens u) / of_int (int h) :: rat"
  show ?thesis
  proof (cases "?r \<le> 1")
    case True
    then have "us_inputTokens u \<le> int h" using assms by (simp add: divide_le_eq)
    then show ?thesis using calib_estimate_ge [of s ms ts "observe ratio (int h) u"] assms(2) by simp
  next
    case False
    then have "of_int (int h) * ?r = (of_int (us_inputTokens u) :: rat)" using assms by simp
    then show ?thesis using False assms by (simp add: observe_def Let_def calib_estimate_def)
  qed
qed

lemma heuristicTarget_sound:
  assumes "int (EstimateTokens s ms ts) \<le> heuristicTarget ratio target" and "0 \<le> target"
  shows "calib_estimate ratio s ms ts \<le> target"
proof (cases "ratio > 1")
  case True
  then have "int (EstimateTokens s ms ts) \<le> \<lfloor>of_int target / ratio\<rfloor>"
    using assms by (simp add: heuristicTarget_def)
  then have "(of_int (int (EstimateTokens s ms ts)) :: rat) \<le> of_int target / ratio"
    by (simp only: le_floor_iff)
  then have "of_int (int (EstimateTokens s ms ts)) * ratio \<le> of_int target"
    using True by (simp add: le_divide_eq)
  then show ?thesis using True by (simp add: calib_estimate_def Let_def ceiling_le_iff)
next
  case False
  then show ?thesis using assms by (simp add: calib_estimate_def heuristicTarget_def)
qed

section \<open>The thresholds are ordered\<close>

lemma excess_bits_spec: "excess_bits n = 0 \<or> 2 ^ (52 + excess_bits n) \<le> n"
proof (induction n rule: excess_bits.induct)
  case (1 n)
  show ?case
  proof (cases "n < 2 ^ 53")
    case True
    then show ?thesis by (simp add: excess_bits.simps)
  next
    case False
    then have s: "excess_bits n = Suc (excess_bits (n div 2))" by (subst excess_bits.simps) simp
    from 1 [OF False] show ?thesis
    proof
      assume "excess_bits (n div 2) = 0"
      then show ?thesis using False s by simp
    next
      assume "2 ^ (52 + excess_bits (n div 2)) \<le> n div 2"
      then have "2 * 2 ^ (52 + excess_bits (n div 2)) \<le> 2 * (n div 2)" by simp
      also have "\<dots> \<le> n" by simp
      finally show ?thesis by (simp only: s add_Suc_right power_Suc simp_thms)
    qed
  qed
qed

lemma round53_upper: "2 ^ 53 * round53 n \<le> (2 ^ 53 + 1) * n"
proof -
  let ?s = "excess_bits n"
  let ?q = "n div 2 ^ ?s" and ?r = "n mod 2 ^ ?s"
  have n: "n = ?q * 2 ^ ?s + ?r" by (rule div_mult_mod_eq [symmetric])
  have "2 * round53 n \<le> 2 * n + (if ?s = 0 then 0 else 2 ^ ?s)"
  proof (cases "2 * ?r > 2 ^ ?s \<or> (2 * ?r = 2 ^ ?s \<and> odd ?q)")
    case True
    then have rr: "2 ^ ?s \<le> 2 * ?r" by auto
    have "?s \<noteq> 0" using True by (cases "?s = 0") auto
    have "round53 n = Suc ?q * 2 ^ ?s" using True by (simp add: round53_def Let_def)
    then have "2 * round53 n = 2 * (?q * 2 ^ ?s) + 2 * 2 ^ ?s" by (simp add: algebra_simps)
    also have "\<dots> \<le> 2 * (?q * 2 ^ ?s) + 2 * ?r + 2 ^ ?s" using rr by linarith
    also have "\<dots> = 2 * n + 2 ^ ?s" using n by linarith
    finally show ?thesis using \<open>?s \<noteq> 0\<close> by simp
  next
    case False
    then have "round53 n = ?q * 2 ^ ?s" by (auto simp: round53_def Let_def)
    then have "2 * round53 n \<le> 2 * n" using n by linarith
    then show ?thesis by simp
  qed
  moreover have "2 ^ 52 * (if ?s = 0 then 0 else 2 ^ ?s) \<le> n"
    using excess_bits_spec [of n] by (auto simp: power_add)
  ultimately show ?thesis by auto
qed

lemma compactionTarget_le: "compactionTarget c \<le> requestBudget c"
proof -
  let ?b = "nat (requestBudget c)"
  have "2 ^ 53 * round53 (?b * seventy) \<le> (2 ^ 53 + 1) * (?b * seventy)" by (rule round53_upper)
  also have "\<dots> \<le> 2 ^ 53 * (2 ^ 53 * ?b)" by (simp add: seventy_def)
  finally have "round53 (?b * seventy) \<le> 2 ^ 53 * ?b" by simp
  then have "round53 (?b * seventy) div 2 ^ 53 \<le> ?b"
    by (metis div_le_mono nonzero_mult_div_cancel_left power_not_zero zero_neq_numeral)
  then show ?thesis by (auto simp: compactionTarget_def requestBudget_def)
qed

lemma compactionTarget_less:
  assumes "0 < requestBudget c"
  shows "compactionTarget c < requestBudget c"
proof -
  let ?b = "nat (requestBudget c)"
  have "2 ^ 53 * round53 (?b * seventy) \<le> (2 ^ 53 + 1) * (?b * seventy)" by (rule round53_upper)
  also have "\<dots> < 2 ^ 53 * (2 ^ 53 * ?b)" using assms by (simp add: seventy_def)
  finally have "round53 (?b * seventy) < ?b * 2 ^ 53" by simp
  then have "round53 (?b * seventy) div 2 ^ 53 < ?b" by (rule less_mult_imp_div_less)
  then show ?thesis using assms by (simp add: compactionTarget_def)
qed

end
