(* ===== verification/Compaction.thy ===== *)
theory Compaction
  imports Spend "HOL-Library.Product_Lexorder"
begin

text \<open>
  Mid-loop compaction: \<open>internal/investigate/compact.go\<close> (\<open>compactHistoryDetailed\<close> and its
  helpers) and the digest of \<open>summarize.go\<close>. A candidate is an old tool result that may be
  replaced by a marker; the loop replaces them in order of worth until the request fits. The
  summarizer's completion is a parameter.
\<close>

section \<open>Markers\<close>

definition keepRecentToolOutputs :: nat where "keepRecentToolOutputs = 3"

definition keepListTools :: "string list" where
  "keepListTools = [''what_changed'', ''kb_search'', ''gitops_resource_status'', ''gitops_tree'']"

definition elidedPrefix :: string where "elidedPrefix = ''[earlier ''"
definition elidedSuffix :: string where "elidedSuffix = '' output elided to bound context]''"

definition elidedMarker :: "string \<Rightarrow> string" where
  "elidedMarker tool = elidedPrefix @ (if tool = [] then ''tool'' else tool) @ elidedSuffix"

definition isElidedMarker :: "string \<Rightarrow> bool" where
  "isElidedMarker s \<longleftrightarrow> has_prefix s elidedPrefix \<and> has_prefix (rev s) (rev elidedSuffix)"

lemma isElidedMarker_marker [simp]: "isElidedMarker (elidedMarker tool)"
  by (simp add: isElidedMarker_def elidedMarker_def has_prefix_iff)

section \<open>Candidates\<close>

definition call_index :: "message list \<Rightarrow> string \<rightharpoonup> string \<times> string" where
  "call_index ms = fold (\<lambda>m b. fold (\<lambda>tc b. b(tc_id tc \<mapsto> (tc_name tc, tc_args tc))) (ms_toolCalls m) b)
     ms Map.empty"

definition call_of :: "message list \<Rightarrow> nat \<Rightarrow> string \<times> string" where
  "call_of ms mi = mget ([], []) (call_index ms) (ms_toolCallID (ms ! mi))"

definition tool_positions :: "message list \<Rightarrow> nat list" where
  "tool_positions ms = filter (\<lambda>i. ms_role (ms ! i) = ''tool'') [0..<length ms]"

definition last_positions :: "message list \<Rightarrow> string \<times> string \<rightharpoonup> nat" where
  "last_positions ms = fold (\<lambda>(pos, mi) f. f(call_of ms mi \<mapsto> pos))
     (enumerate 0 (tool_positions ms)) Map.empty"

record candidate =
  cd_mi :: nat
  cd_size :: nat
  cd_superseded :: bool

definition candidate_at :: "message list \<Rightarrow> nat \<times> nat \<Rightarrow> candidate option" where
  "candidate_at ms pm =
     (let pos = fst pm; mi = snd pm; c = call_of ms mi;
          recentCut = int (length (tool_positions ms)) - int keepRecentToolOutputs
      in if int pos \<ge> recentCut then None
         else if fst c \<in> set keepListTools \<or> isElidedMarker (ms_content (ms ! mi)) then None
         else if length (ms_content (ms ! mi)) \<le> length (elidedMarker (fst c)) then None
         else Some \<lparr>cd_mi = mi, cd_size = length (ms_content (ms ! mi)),
                cd_superseded = (mget 0 (last_positions ms) c \<noteq> pos)\<rparr>)"

definition candidates :: "message list \<Rightarrow> candidate list" where
  "candidates ms = List.map_filter (candidate_at ms) (enumerate 0 (tool_positions ms))"

text \<open>\<open>sort.SliceStable\<close>: superseded candidates first, then the larger.\<close>

definition elision_order :: "candidate list \<Rightarrow> candidate list" where
  "elision_order cs = sort_key (\<lambda>c. (\<not> cd_superseded c, - int (cd_size c))) cs"

section \<open>Eliding\<close>

record elided_output =
  eo_tool :: string
  eo_content :: string
  eo_mi :: nat

definition mark_message :: "(string \<rightharpoonup> string \<times> string) \<Rightarrow> message \<Rightarrow> message" where
  "mark_message b m = m\<lparr>ms_content := elidedMarker (fst (mget ([], []) b (ms_toolCallID m)))\<rparr>"

definition elide_at :: "(string \<rightharpoonup> string \<times> string) \<Rightarrow> nat \<Rightarrow> message list \<Rightarrow> message list" where
  "elide_at b mi out = out[mi := mark_message b (out ! mi)]"

fun elide_loop :: "(string \<rightharpoonup> string \<times> string) \<Rightarrow> string \<Rightarrow> tool_spec list \<Rightarrow> int \<Rightarrow> candidate list
    \<Rightarrow> message list \<times> int \<times> elided_output list \<Rightarrow> message list \<times> int \<times> elided_output list" where
  "elide_loop b sys specs target [] (out, elided, removed) = (out, elided, removed)"
| "elide_loop b sys specs target (cd # cds) (out, elided, removed) =
     (if int (EstimateTokens sys out specs) \<le> target then (out, elided, removed)
      else let name = fst (mget ([], []) b (ms_toolCallID (out ! cd_mi cd)));
               before = ms_content (out ! cd_mi cd);
               out' = elide_at b (cd_mi cd) out
           in elide_loop b sys specs target cds
                (out', elided + (int (length before) - int (length (ms_content (out' ! cd_mi cd)))),
                 removed @ [\<lparr>eo_tool = name, eo_content = before, eo_mi = cd_mi cd\<rparr>]))"

definition compactHistoryDetailed ::
    "message list \<Rightarrow> string \<Rightarrow> tool_spec list \<Rightarrow> int \<Rightarrow> message list \<times> int \<times> elided_output list" where
  "compactHistoryDetailed ms sys specs target =
     (if target \<le> 0 \<or> int (EstimateTokens sys ms specs) \<le> target then (ms, 0, [])
      else case elide_loop (call_index ms) sys specs target (elision_order (candidates ms)) (ms, 0, [])
           of (out, elided, removed) \<Rightarrow>
             if elided = 0 then (ms, 0, []) else (out, elided, removed))"

section \<open>The digest\<close>

text \<open>
  \<open>summarizeElided\<close>: the completion \<open>resp\<close> of the summarizer, whose usage is counted before
  the fail-safe, and the digest text of a clean reply, written over the earliest elided position.
\<close>

definition digest_text :: "nat \<Rightarrow> string \<Rightarrow> string" where
  "digest_text n digest = ''[digest of '' @ fmt_int n
     @ '' earlier tool output(s) elided to bound context '' @ [CHR 0xE2, CHR 0x80, CHR 0x94]
     @ '' a model-produced factual summary, not raw tool output]'' @ [newline] @ digest"

definition summarizeElided :: "completion \<Rightarrow> message list \<Rightarrow> elided_output list
    \<Rightarrow> usage_totals \<Rightarrow> bool \<times> message list \<times> usage_totals" where
  "summarizeElided resp out removed totals =
     (if removed = [] then (False, out, totals)
      else let totals' = addUsage totals (cp_usage resp); digest = trim_space (cp_text resp)
           in if cp_err resp \<or> Refused resp \<or> cp_truncated resp \<or> digest = [] then (False, out, totals')
              else let dest = fold (\<lambda>e d. if eo_mi e < d then eo_mi e else d) (tl removed) (eo_mi (hd removed))
                   in (True, out[dest := (out ! dest)\<lparr>ms_content := digest_text (length removed) digest\<rparr>],
                       totals'))"

section \<open>What eliding leaves alone\<close>

lemma mark_message_simps [simp]:
  "ms_role (mark_message b m) = ms_role m" "ms_toolCalls (mark_message b m) = ms_toolCalls m"
  "ms_toolCallID (mark_message b m) = ms_toolCallID m" "mark_message b (mark_message b m) = mark_message b m"
  "ms_content (mark_message b m) = elidedMarker (fst (mget ([], []) b (ms_toolCallID m)))"
  by (simp_all add: mark_message_def)

definition marks :: "(string \<rightharpoonup> string \<times> string) \<Rightarrow> candidate list \<Rightarrow> message list \<Rightarrow> message list" where
  "marks b cs out = fold (\<lambda>c. elide_at b (cd_mi c)) cs out"

lemma marks_simps [simp]:
  "marks b [] out = out" "marks b (c # cs) out = marks b cs (elide_at b (cd_mi c) out)"
  by (simp_all add: marks_def)

lemma length_elide_at [simp]: "length (elide_at b mi out) = length out"
  by (simp add: elide_at_def)

lemma length_marks [simp]: "length (marks b cs out) = length out"
  by (induction cs arbitrary: out) simp_all

lemma elide_at_nth:
  "i < length out \<Longrightarrow> elide_at b mi out ! i = (if i = mi then mark_message b (out ! i) else out ! i)"
  by (simp add: elide_at_def)

lemma marks_nth:
  "i < length out \<Longrightarrow> marks b cs out ! i = (if i \<in> cd_mi ` set cs then mark_message b (out ! i) else out ! i)"
  by (induction cs arbitrary: out) (auto simp: elide_at_nth)

text \<open>
  The loop marks a prefix of its candidates, and stops early only when the request fits. What
  it reports as elided is the number of bytes gone.
\<close>

definition history_bytes :: "message list \<Rightarrow> int" where
  "history_bytes ms = int (sum_list (map message_bytes ms))"

lemma history_bytes_update:
  "i < length ms \<Longrightarrow> history_bytes (ms[i := m]) = history_bytes ms - int (message_bytes (ms ! i)) + int (message_bytes m)"
  using elem_le_sum_list [of i "map message_bytes ms"]
  by (simp add: history_bytes_def map_update sum_list_update)

lemma history_bytes_elide:
  "mi < length out \<Longrightarrow> history_bytes out = history_bytes (elide_at b mi out)
     + (int (length (ms_content (out ! mi))) - int (length (ms_content (elide_at b mi out ! mi))))"
  by (simp add: elide_at_def history_bytes_update message_bytes_def)

lemma elide_loop_bytes:
  "\<forall>c \<in> set cs. cd_mi c < length out \<Longrightarrow> elide_loop b sys specs target cs (out, el, rm) = (out', el', rm') \<Longrightarrow>
     history_bytes out = history_bytes out' + (el' - el)"
proof (induction cs arbitrary: out el rm)
  case (Cons c cs)
  let ?out = "elide_at b (cd_mi c) out"
  show ?case
  proof (cases "int (EstimateTokens sys out specs) \<le> target")
    case True
    then show ?thesis using Cons.prems by simp
  next
    case False
    have "cd_mi c < length out" using Cons.prems(1) by simp
    then have h: "history_bytes out = history_bytes ?out
        + (int (length (ms_content (out ! cd_mi c))) - int (length (ms_content (?out ! cd_mi c))))"
      by (rule history_bytes_elide)
    show ?thesis using False Cons.prems Cons.IH [of ?out] h by (force simp: Let_def)
  qed
qed simp

lemma elide_loop_prefix:
  "\<exists>k \<le> length cs. fst (elide_loop b sys specs target cs (out, el, rm)) = marks b (take k cs) out
     \<and> (k = length cs \<or> int (EstimateTokens sys (marks b (take k cs) out) specs) \<le> target)"
proof (induction cs arbitrary: out el rm)
  case (Cons c cs)
  show ?case
  proof (cases "int (EstimateTokens sys out specs) \<le> target")
    case True
    then show ?thesis by (intro exI [of _ 0]) simp
  next
    case False
    obtain k where "k \<le> length cs"
      "fst (elide_loop b sys specs target (c # cs) (out, el, rm)) = marks b (take k cs) (elide_at b (cd_mi c) out)"
      "k = length cs \<or> int (EstimateTokens sys (marks b (take k cs) (elide_at b (cd_mi c) out)) specs) \<le> target"
      using False Cons.IH by (simp add: Let_def) blast
    then show ?thesis by (intro exI [of _ "Suc k"]) simp
  qed
qed simp

lemma set_elision_order [simp]: "set (elision_order cs) = set cs"
  by (simp add: elision_order_def)

lemma candidate_facts:
  assumes "c \<in> set (candidates ms)"
  obtains pos where "pos + keepRecentToolOutputs < length (tool_positions ms)"
    "cd_mi c = tool_positions ms ! pos" "cd_mi c < length ms" "ms_role (ms ! cd_mi c) = ''tool''"
    "fst (call_of ms (cd_mi c)) \<notin> set keepListTools"
    "length (elidedMarker (fst (call_of ms (cd_mi c)))) < length (ms_content (ms ! cd_mi c))"
proof -
  obtain pos mi where m: "(pos, mi) \<in> set (enumerate 0 (tool_positions ms))"
    and c: "candidate_at ms (pos, mi) = Some c"
    using assms by (auto simp: candidates_def map_filter_def)
  from m have pos: "pos < length (tool_positions ms)" "mi = tool_positions ms ! pos"
    by (auto simp: in_set_enumerate_eq)
  then have "mi \<in> set (tool_positions ms)" by simp
  then have "mi < length ms" "ms_role (ms ! mi) = ''tool''" by (auto simp: tool_positions_def)
  moreover have "cd_mi c = mi" "pos + keepRecentToolOutputs < length (tool_positions ms)"
    "fst (call_of ms mi) \<notin> set keepListTools"
    "length (elidedMarker (fst (call_of ms mi))) < length (ms_content (ms ! mi))"
    using c by (auto simp: candidate_at_def Let_def split: if_splits)
  ultimately show ?thesis using pos that by simp
qed


lemma message_fields_marks [simp]:
  "map ms_toolCalls (marks b cs ms) = map ms_toolCalls ms" "map ms_role (marks b cs ms) = map ms_role ms"
  by (auto intro!: nth_equalityI simp: marks_nth)

lemma fold_toolCalls:
  "fold (\<lambda>m. fold f (ms_toolCalls m)) ms z = fold (fold f) (map ms_toolCalls ms) z"
  by (induction ms arbitrary: z) simp_all

lemma call_index_marks [simp]: "call_index (marks b cs ms) = call_index ms"
  unfolding call_index_def fold_toolCalls by simp

lemma call_of_marks [simp]: "i < length ms \<Longrightarrow> call_of (marks b cs ms) i = call_of ms i"
  by (simp add: call_of_def marks_nth)

lemma tool_positions_marks [simp]: "tool_positions (marks b cs ms) = tool_positions ms"
  by (auto simp: tool_positions_def marks_nth intro!: filter_cong split: if_splits)

lemma distinct_tool_positions [simp]: "distinct (tool_positions ms)"
  by (simp add: tool_positions_def)

text \<open>The last three tool results.\<close>

definition recent_positions :: "message list \<Rightarrow> nat list" where
  "recent_positions ms = drop (length (tool_positions ms) - keepRecentToolOutputs) (tool_positions ms)"

lemma old_not_recent:
  assumes "pos + keepRecentToolOutputs < length (tool_positions ms)"
  shows "tool_positions ms ! pos \<notin> set (recent_positions ms)"
proof
  assume "tool_positions ms ! pos \<in> set (recent_positions ms)"
  then obtain j where "j < keepRecentToolOutputs"
    "tool_positions ms ! pos = tool_positions ms ! (length (tool_positions ms) - keepRecentToolOutputs + j)"
    using assms by (auto simp: recent_positions_def in_set_conv_nth)
  then show False using assms nth_eq_iff_index_eq [OF distinct_tool_positions [of ms]] by fastforce
qed

lemma compact_cases:
  obtains (same) "compactHistoryDetailed ms sys specs target = (ms, 0, [])"
  | (marked) k el rm where
      "compactHistoryDetailed ms sys specs target
         = (marks (call_index ms) (take k (elision_order (candidates ms))) ms, el, rm)"
      "history_bytes ms = history_bytes (marks (call_index ms) (take k (elision_order (candidates ms))) ms) + el"
      "k = length (elision_order (candidates ms))
       \<or> int (EstimateTokens sys (marks (call_index ms) (take k (elision_order (candidates ms))) ms) specs) \<le> target"
      "el \<noteq> 0" "0 < target"
proof -
  let ?b = "call_index ms" and ?cs = "elision_order (candidates ms)"
  obtain out el rm where r: "elide_loop ?b sys specs target ?cs (ms, 0, []) = (out, el, rm)"
    by (cases "elide_loop ?b sys specs target ?cs (ms, 0, [])")
  have "\<forall>c \<in> set ?cs. cd_mi c < length ms" by (auto elim: candidate_facts)
  from elide_loop_bytes [OF this r] have h: "history_bytes ms = history_bytes out + el" by simp
  obtain k where "out = marks ?b (take k ?cs) ms"
    "k = length ?cs \<or> int (EstimateTokens sys (marks ?b (take k ?cs) ms) specs) \<le> target"
    using elide_loop_prefix [of ?cs ?b sys specs target ms 0 "[]"] r by auto
  then show ?thesis
    using that h r by (cases "target \<le> 0 \<or> int (EstimateTokens sys ms specs) \<le> target \<or> el = 0")
      (auto simp: compactHistoryDetailed_def)
qed

text \<open>A marked message was a candidate.\<close>

lemma marked_message:
  assumes "i < length ms" and "i \<in> cd_mi ` set (take k (elision_order (candidates ms)))"
  shows "ms_role (ms ! i) = ''tool''" "i \<notin> set (recent_positions ms)"
    "fst (call_of ms i) \<notin> set keepListTools"
    "length (elidedMarker (fst (call_of ms i))) < length (ms_content (ms ! i))"
    "mark_message (call_index ms) (ms ! i) = (ms ! i)\<lparr>ms_content := elidedMarker (fst (call_of ms i))\<rparr>"
proof -
  obtain c where "c \<in> set (candidates ms)" "i = cd_mi c"
    using assms(2) set_take_subset [of k "elision_order (candidates ms)"] by auto
  then show "ms_role (ms ! i) = ''tool''" "i \<notin> set (recent_positions ms)"
    "fst (call_of ms i) \<notin> set keepListTools"
    "length (elidedMarker (fst (call_of ms i))) < length (ms_content (ms ! i))"
    using old_not_recent [of _ ms] by (auto elim!: candidate_facts)
  show "mark_message (call_index ms) (ms ! i) = (ms ! i)\<lparr>ms_content := elidedMarker (fst (call_of ms i))\<rparr>"
    by (simp add: mark_message_def call_of_def)
qed

lemma history_bytes_mono:
  assumes "length ms = length ms'" and "\<And>i. i < length ms \<Longrightarrow> message_bytes (ms ! i) \<le> message_bytes (ms' ! i)"
  shows "history_bytes ms \<le> history_bytes ms'"
  using assms sum_list_mono2 [of "map message_bytes ms" "map message_bytes ms'"] by (simp add: history_bytes_def)

lemma marks_bytes_le:
  "history_bytes (marks (call_index ms) (take k (elision_order (candidates ms))) ms) \<le> history_bytes ms"
proof (rule history_bytes_mono)
  fix i assume "i < length (marks (call_index ms) (take k (elision_order (candidates ms))) ms)"
  then have i: "i < length ms" by simp
  show "message_bytes (marks (call_index ms) (take k (elision_order (candidates ms))) ms ! i) \<le> message_bytes (ms ! i)"
    using marked_message(4,5) [OF i, of k] by (auto simp: marks_nth [OF i] message_bytes_def)
qed simp

text \<open>When every candidate has been elided none is left.\<close>

lemma candidate_at_marks:
  assumes "(pos, mi) \<in> set (enumerate 0 (tool_positions ms))"
  shows "candidate_at (marks (call_index ms) (elision_order (candidates ms)) ms) (pos, mi) = None"
proof -
  let ?out = "marks (call_index ms) (elision_order (candidates ms)) ms"
  have "mi \<in> set (tool_positions ms)" using assms by (auto simp: in_set_enumerate_eq)
  then have mi: "mi < length ms" by (auto simp: tool_positions_def)
  show ?thesis
  proof (cases "mi \<in> cd_mi ` set (candidates ms)")
    case True
    then show ?thesis using mi by (simp add: candidate_at_def Let_def marks_nth)
  next
    case False
    have "candidate_at ms (pos, mi) = None"
    proof (rule ccontr)
      assume "candidate_at ms (pos, mi) \<noteq> None"
      then obtain c where c: "candidate_at ms (pos, mi) = Some c" by blast
      then have "c \<in> set (candidates ms)" using assms by (force simp: candidates_def map_filter_def)
      moreover have "cd_mi c = mi" using c by (auto simp: candidate_at_def Let_def split: if_splits)
      ultimately show False using False by blast
    qed
    then show ?thesis using mi False
      by (auto simp: candidate_at_def Let_def marks_nth split: if_splits)
  qed
qed

lemma candidates_exhausted: "candidates (marks (call_index ms) (elision_order (candidates ms)) ms) = []"
  using candidate_at_marks [of _ _ ms] by (auto simp: candidates_def map_filter_def filter_empty_conv)

section \<open>Properties\<close>

text \<open>
  C37: Compaction keeps the conversation well-formed: the history keeps its length, and a
  message changes only in being a tool result, not one of the three most recent and not of a kept
  tool, whose body becomes the marker of its tool; the bytes reported as elided are exactly those
  that left the history, and it never grows.
\<close>

theorem compaction_preserves_history:
  assumes "compactHistoryDetailed ms sys specs target = (out, elided, removed)"
  shows "length out = length ms \<and> history_bytes out + elided = history_bytes ms \<and> 0 \<le> elided
    \<and> (\<forall>i < length ms. out ! i = ms ! i
        \<or> ms_role (ms ! i) = ''tool'' \<and> i \<notin> set (recent_positions ms)
          \<and> fst (call_of ms i) \<notin> set keepListTools
          \<and> out ! i = (ms ! i)\<lparr>ms_content := elidedMarker (fst (call_of ms i))\<rparr>)"
proof (cases rule: compact_cases [of ms sys specs target])
  case same
  then show ?thesis using assms by simp
next
  case (marked k el rm)
  have "out ! i = ms ! i \<or> ms_role (ms ! i) = ''tool'' \<and> i \<notin> set (recent_positions ms)
        \<and> fst (call_of ms i) \<notin> set keepListTools
        \<and> out ! i = (ms ! i)\<lparr>ms_content := elidedMarker (fst (call_of ms i))\<rparr>" if i: "i < length ms" for i
    using marked_message [OF i, of k] marked(1) assms by (auto simp: marks_nth [OF i])
  then show ?thesis using marked(1,2) assms marks_bytes_le [where ms = ms and k = k] by auto
qed

text \<open>
  Compaction reaches its target or has nothing left to elide, so a second pass at the
  same target changes nothing and calls the summarizer for nothing.
\<close>

theorem compaction_settles:
  "(let out = fst (compactHistoryDetailed ms sys specs target)
    in compactHistoryDetailed out sys specs target = (out, 0, []))"
proof (cases rule: compact_cases [of ms sys specs target])
  case same
  then show ?thesis by simp
next
  case (marked k el rm)
  let ?out = "marks (call_index ms) (take k (elision_order (candidates ms))) ms"
  from marked(3) have "compactHistoryDetailed ?out sys specs target = (?out, 0, [])"
  proof
    assume "k = length (elision_order (candidates ms))"
    then have "candidates ?out = []" by (simp add: candidates_exhausted)
    then have "elision_order (candidates ?out) = []" by (simp add: elision_order_def)
    then show ?thesis by (simp add: compactHistoryDetailed_def)
  next
    assume "int (EstimateTokens sys ?out specs) \<le> target"
    then show ?thesis by (simp add: compactHistoryDetailed_def)
  qed
  then show ?thesis using marked(1) by (simp add: Let_def)
qed

definition demo_history :: "message list" where
  "demo_history = user_message ''seed'' # concat (map (\<lambda>i.
     [\<lparr>ms_role = ''assistant'', ms_content = [], ms_toolCalls =
         [\<lparr>tc_id = [i], tc_name = ''pod_logs'', tc_args = [i]\<rparr>], ms_toolCallID = []\<rparr>,
      \<lparr>ms_role = ''tool'', ms_content = replicate 100 (CHR ''x''), ms_toolCalls = [], ms_toolCallID = [i]\<rparr>])
     ''abcd'')"

lemma compaction_preserves_history_witness:
  "length (fst (compactHistoryDetailed demo_history [] [] 50)) = length demo_history"
  using compaction_preserves_history [of demo_history "[]" "[]" 50]
  by (cases "compactHistoryDetailed demo_history [] [] 50") simp

end
