(* ===== verification/Findings.thy ===== *)
theory Findings
  imports Chat Requests Action
begin

text \<open>
  The result of an investigation and how it is formed: the \<open>Investigation\<close> and \<open>Hypothesis\<close>
  of \<open>internal/providers/providers.go\<close> with their predicates, the mapping of a parsed
  \<open>submit_findings\<close> payload onto it (\<open>internal/investigate/tools.go\<close>), the trigger-time
  stamps and the resource reconciliation of \<open>loop.go\<close>, and the synthetic results of the paths
  that end without findings (\<open>budget.go\<close>, \<open>loop.go\<close>). Confidences are rationals; a JSON
  number is never NaN. Decoding the JSON is a parameter of the loop. Fields stamped after delivery
  (\<open>Changes\<close>, \<open>CuratedURL\<close>, recurrence facts) are not part of the record.
\<close>

section \<open>Results\<close>

record hypothesis =
  hy_summary :: string
  hy_confidence :: rat
  hy_changeRef :: string
  hy_evidence :: "string list"
  hy_suggestedAction :: string
  hy_reversible :: bool

record matched_entry =
  me_path :: string
  me_title :: string
  me_url :: string
  me_score :: rat

record prior_knowledge =
  pk_cause :: string
  pk_resolution :: string
  pk_entryPath :: string
  pk_recalls :: int
  pk_resolved :: int

record investigation =
  iv_title :: string
  iv_rootCauses :: "hypothesis list"
  iv_unresolved :: "string list"
  iv_verdict :: verdict
  iv_ruledOut :: "string list"
  iv_dataGaps :: "string list"
  iv_confidence :: rat
  iv_recalled :: bool
  iv_resource :: workload
  iv_alertResource :: workload
  iv_severity :: string
  iv_environment :: string
  iv_cluster :: string
  iv_tenant :: string
  iv_alertName :: string
  iv_startedAt :: gotime
  iv_investigationStartedAt :: gotime
  iv_actions :: "action list"
  iv_fingerprint :: string
  iv_fingerprints :: "string list"
  iv_triggerKey :: string
  iv_recalledEntry :: string
  iv_verified :: bool
  iv_usage :: usage_totals
  iv_prior :: "prior_knowledge option"
  iv_matchedKnowledge :: "matched_entry option"
  iv_curatedURL :: string

definition zero_investigation :: investigation where
  "zero_investigation = \<lparr>iv_title = [], iv_rootCauses = [], iv_unresolved = [], iv_verdict = [],
     iv_ruledOut = [], iv_dataGaps = [], iv_confidence = 0, iv_recalled = False,
     iv_resource = zero_workload, iv_alertResource = zero_workload, iv_severity = [],
     iv_environment = [], iv_cluster = [], iv_tenant = [], iv_alertName = [], iv_startedAt = 0,
     iv_investigationStartedAt = 0, iv_actions = [], iv_fingerprint = [], iv_fingerprints = [],
     iv_triggerKey = [], iv_recalledEntry = [], iv_verified = False, iv_usage = zero_totals,
     iv_prior = None, iv_matchedKnowledge = None, iv_curatedURL = []\<rparr>"

definition UnaccountedInconclusive :: "investigation \<Rightarrow> bool" where
  "UnaccountedInconclusive iv \<longleftrightarrow> iv_verdict iv = ''inconclusive'' \<and> iv_rootCauses iv = []
     \<and> iv_unresolved iv = [] \<and> iv_dataGaps iv = []"

definition ActionWithoutRemedy :: "investigation \<Rightarrow> bool" where
  "ActionWithoutRemedy iv \<longleftrightarrow> verdict_claims_action (iv_verdict iv)
     \<and> list_all (\<lambda>rc. trim_space (hy_suggestedAction rc) = []) (iv_rootCauses iv)
     \<and> list_all (\<lambda>a. trim_space (ac_description a) = []) (iv_actions iv)"

definition unevidencedConclusion :: "investigation \<Rightarrow> bool" where
  "unevidencedConclusion iv \<longleftrightarrow> verdict_conclusive (iv_verdict iv) \<and> iv_rootCauses iv \<noteq> []
     \<and> list_all (\<lambda>e. trim_space e = []) (hy_evidence (hd (iv_rootCauses iv)))"

section \<open>Submitted findings\<close>

record raw_cause =
  rw_summary :: string
  rw_confidence :: rat
  rw_changeRef :: string
  rw_evidence :: "string list"
  rw_suggestedAction :: string
  rw_category :: string
  rw_reversible :: bool

record raw_target =
  rt_kind :: string
  rt_name :: string
  rt_namespace :: string

record raw_action =
  ra_description :: string
  ra_op :: string
  ra_reversible :: bool
  ra_blastRadius :: int
  ra_target :: raw_target

record findings =
  fd_title :: string
  fd_confidence :: rat
  fd_affectedResource :: raw_target
  fd_rootCauses :: "raw_cause list"
  fd_unresolved :: "string list"
  fd_verdict :: string
  fd_ruledOut :: "string list"
  fd_dataGaps :: "string list"
  fd_actions :: "raw_action list"

definition clamp01 :: "rat \<Rightarrow> rat" where
  "clamp01 x = (if x < 0 then 0 else if x > 1 then 1 else x)"

lemma clamp01_range [simp]: "0 \<le> clamp01 x" "clamp01 x \<le> 1"
  by (simp_all add: clamp01_def)

lemma clamp01_id [simp]: "0 \<le> x \<Longrightarrow> x \<le> 1 \<Longrightarrow> clamp01 x = x"
  by (simp add: clamp01_def)

definition defectCategory :: "string \<Rightarrow> bool" where
  "defectCategory c \<longleftrightarrow> to_lower (trim_space c) \<in> {''rule_defect'', ''config_defect''}"

definition defect_fix :: "string \<Rightarrow> string" where
  "defect_fix summary =
     ''Fix the defect in the rule/config source in Git (PR to the file named in the cause): '' @ summary"

definition enforceDefectActionable :: "findings \<Rightarrow> investigation \<Rightarrow> investigation" where
  "enforceDefectActionable f iv =
     (if iv_verdict iv \<noteq> ''no_action'' \<or> fd_rootCauses f = []
         \<or> \<not> defectCategory (rw_category (hd (fd_rootCauses f))) then iv
      else let iv' = iv\<lparr>iv_verdict := ''action_suggested''\<rparr>; rc = hd (iv_rootCauses iv')
           in if trim_space (hy_suggestedAction rc) = [] \<and> fd_actions f = []
              then iv'\<lparr>iv_rootCauses := rc\<lparr>hy_suggestedAction := defect_fix (hy_summary rc)\<rparr> # tl (iv_rootCauses iv')\<rparr>
              else iv')"

definition build_hypothesis :: "raw_cause \<Rightarrow> hypothesis" where
  "build_hypothesis rc = \<lparr>hy_summary = rw_summary rc, hy_confidence = clamp01 (rw_confidence rc),
     hy_changeRef = rw_changeRef rc, hy_evidence = rw_evidence rc,
     hy_suggestedAction = rw_suggestedAction rc, hy_reversible = rw_reversible rc\<rparr>"

definition target_workload :: "raw_target \<Rightarrow> workload" where
  "target_workload t = zero_workload\<lparr>wl_kind := rt_kind t, wl_name := rt_name t, wl_namespace := rt_namespace t\<rparr>"

definition build_action :: "raw_action \<Rightarrow> action" where
  "build_action a = \<lparr>ac_name = ra_description a, ac_description = ra_description a, ac_op = ra_op a,
     ac_target = target_workload (ra_target a), ac_mutating = True, ac_reversible = ra_reversible a,
     ac_blastRadius = ra_blastRadius a, ac_approvalID = []\<rparr>"

definition buildInvestigation :: "findings \<Rightarrow> investigation" where
  "buildInvestigation f =
     (let iv0 = zero_investigation\<lparr>iv_title := fd_title f, iv_confidence := clamp01 (fd_confidence f),
            iv_unresolved := fd_unresolved f, iv_ruledOut := fd_ruledOut f, iv_dataGaps := fd_dataGaps f\<rparr>;
          iv1 = (if verdict_valid (fd_verdict f) then iv0\<lparr>iv_verdict := fd_verdict f\<rparr> else iv0);
          iv2 = iv1\<lparr>iv_rootCauses := map build_hypothesis (fd_rootCauses f)\<rparr>;
          iv3 = enforceDefectActionable f iv2;
          iv4 = iv3\<lparr>iv_actions := map build_action (fd_actions f),
                      iv_resource := target_workload (fd_affectedResource f)\<rparr>
      in if iv_confidence iv4 = 0
         then iv4\<lparr>iv_confidence := fold (\<lambda>rc c. max c (hy_confidence rc)) (iv_rootCauses iv4) (iv_confidence iv4)\<rparr>
         else iv4)"

section \<open>Trigger-time facts and the affected resource\<close>

definition stampRequestFacts :: "request \<Rightarrow> investigation \<Rightarrow> investigation" where
  "stampRequestFacts req iv = iv\<lparr>iv_fingerprint := rq_fingerprint req,
     iv_fingerprints := rq_fingerprints req, iv_triggerKey := rq_triggerKey req,
     iv_severity := rq_severity req, iv_environment := rq_environment req,
     iv_cluster := mget [] (rq_labels req) ''cluster'', iv_tenant := mget [] (rq_labels req) ''tenant'',
     iv_alertName := mget [] (rq_labels req) ''alertname'', iv_alertResource := rq_workload req,
     iv_startedAt := rq_at req\<rparr>"

definition stampMatchedKnowledge :: "matched_entry option \<Rightarrow> investigation \<Rightarrow> investigation" where
  "stampMatchedKnowledge best iv = (case best of
     None \<Rightarrow> iv
   | Some m \<Rightarrow> if me_path m \<noteq> [] \<and> me_path m = iv_recalledEntry iv then iv
               else iv\<lparr>iv_matchedKnowledge := Some m\<rparr>)"

text \<open>\<open>KindScope\<close> is the cluster's discovery, a parameter: \<open>None\<close> is an error.\<close>

definition scopeResource :: "(string \<Rightarrow> resource_scope option) option \<Rightarrow> workload \<Rightarrow> workload" where
  "scopeResource kindScope w = (case kindScope of
     None \<Rightarrow> w
   | Some f \<Rightarrow>
       if trim_space (wl_kind w) = [] then w
       else (case f (trim_space (wl_kind w)) of None \<Rightarrow> w | Some s \<Rightarrow> w\<lparr>wl_scope := s\<rparr>))"

definition preferDiscoveredResource :: "workload \<Rightarrow> workload \<Rightarrow> workload" where
  "preferDiscoveredResource discovered origin =
     (let d = (if wl_name discovered \<noteq> [] \<and> wl_namespace discovered = []
               then discovered\<lparr>wl_namespace := wl_namespace origin\<rparr> else discovered)
      in if Ref d = [] then origin else ReconcileWorkloadIdentity d origin)"

section \<open>Results without findings\<close>

definition VerdictInconclusive :: verdict where "VerdictInconclusive = ''inconclusive''"

definition stopped_result :: "request \<Rightarrow> string \<Rightarrow> investigation" where
  "stopped_result req why = zero_investigation\<lparr>iv_title := rq_title req, iv_resource := rq_workload req,
     iv_fingerprint := rq_fingerprint req, iv_verdict := VerdictInconclusive, iv_unresolved := [why]\<rparr>"

definition budget_limit_name :: "string \<Rightarrow> string" where
  "budget_limit_name reason =
     (if reason = ''tokens_total'' then ''cumulative token budget (investigation.max_tokens_per_investigation)''
      else if reason = ''cost'' then ''estimated cost ceiling (investigation.max_cost_per_investigation)''
      else ''per-request token budget (a quarter of investigation.max_tokens_per_investigation)'')"

definition budgetKillResult :: "request \<Rightarrow> string \<Rightarrow> investigation" where
  "budgetKillResult req reason = stopped_result req (''investigation stopped: '' @ budget_limit_name reason
     @ '' exceeded after nudge (model did not submit findings in time)'')"

definition timeoutResult :: "request \<Rightarrow> investigation" where
  "timeoutResult req = stopped_result req (''investigation stopped: per-investigation deadline exceeded ''
     @ ''before findings were submitted (e.g. a hung git clone/diff or a slow model)'')"

definition refusalResult :: "request \<Rightarrow> investigation" where
  "refusalResult req = stopped_result req (''investigation stopped: the model declined to respond ''
     @ ''(safety-filtered or refused); no root cause was produced'')"

definition nonConvergenceResult :: "request \<Rightarrow> string \<Rightarrow> investigation" where
  "nonConvergenceResult req reason = stampRequestFacts req (zero_investigation\<lparr>iv_title := rq_title req,
     iv_resource := rq_workload req, iv_verdict := VerdictInconclusive, iv_dataGaps := [reason]\<rparr>)"

lemmas result_defs = budgetKillResult_def timeoutResult_def refusalResult_def nonConvergenceResult_def
  stopped_result_def stampRequestFacts_def VerdictInconclusive_def zero_investigation_def

text \<open>Every synthetic result accounts for itself.\<close>

lemma synthetic_accounted:
  "\<not> UnaccountedInconclusive (budgetKillResult req why)" "\<not> UnaccountedInconclusive (timeoutResult req)"
  "\<not> UnaccountedInconclusive (refusalResult req)" "\<not> UnaccountedInconclusive (nonConvergenceResult req why)"
  by (simp_all add: UnaccountedInconclusive_def result_defs)

section \<open>Well-formed results\<close>

definition confidences_ok :: "investigation \<Rightarrow> bool" where
  "confidences_ok iv \<longleftrightarrow> 0 \<le> iv_confidence iv \<and> iv_confidence iv \<le> 1
     \<and> list_all (\<lambda>rc. 0 \<le> hy_confidence rc \<and> hy_confidence rc \<le> 1) (iv_rootCauses iv)"

lemma fold_max_range:
  fixes c :: rat
  assumes "list_all (\<lambda>rc. 0 \<le> g rc \<and> g rc \<le> 1) xs" and "0 \<le> c" "c \<le> 1"
  shows "0 \<le> fold (\<lambda>rc c. max c (g rc)) xs c \<and> fold (\<lambda>rc c. max c (g rc)) xs c \<le> 1"
  using assms by (induction xs arbitrary: c) (auto simp: max_def)

lemma enforceDefect_frame [simp]:
  "iv_confidence (enforceDefectActionable f iv) = iv_confidence iv"
  "iv_actions (enforceDefectActionable f iv) = iv_actions iv"
  "iv_title (enforceDefectActionable f iv) = iv_title iv"
  by (simp_all add: enforceDefectActionable_def Let_def)

lemma enforceDefect_causes:
  "iv_rootCauses iv = map build_hypothesis (fd_rootCauses f) \<Longrightarrow>
     map hy_confidence (iv_rootCauses (enforceDefectActionable f iv)) = map hy_confidence (iv_rootCauses iv)
     \<and> map hy_summary (iv_rootCauses (enforceDefectActionable f iv)) = map hy_summary (iv_rootCauses iv)
     \<and> map hy_evidence (iv_rootCauses (enforceDefectActionable f iv)) = map hy_evidence (iv_rootCauses iv)"
  by (cases "fd_rootCauses f") (simp_all add: enforceDefectActionable_def Let_def)

lemma list_all_map_eq: "map g xs = map g ys \<Longrightarrow> list_all (\<lambda>x. P (g x)) xs = list_all (\<lambda>x. P (g x)) ys"
  by (metis (mono_tags, lifting) list.pred_map comp_apply list.pred_cong)


lemma trim_space_empty: "trim_space s = [] \<longleftrightarrow> list_all is_space s"
proof -
  have d: "dropWhile is_space x = [] \<longleftrightarrow> list_all is_space x" for x by (induction x) auto
  have "list_all is_space (dropWhile is_space s) \<longleftrightarrow> list_all is_space s" by (induction s) auto
  then show ?thesis by (simp add: trim_space_def d) (simp add: list_all_iff)
qed

lemma defect_fix_text: "trim_space (defect_fix s) \<noteq> []"
  by (simp add: trim_space_empty defect_fix_def is_space_def)

section \<open>Properties\<close>

text \<open>
  C38: A payload of the model becomes a well-formed result whatever it holds: every
  confidence is a probability, the verdict is one of the four or absent, the causes are those
  submitted, in order, with their evidence, and nothing RunLore itself establishes (verified,
  recalled, the alert's identity, an approval, a cloud account) can come from the payload.
\<close>

theorem findings_wellformed:
  "let iv = buildInvestigation f in
     confidences_ok iv \<and> (iv_verdict iv = [] \<or> verdict_valid (iv_verdict iv))
     \<and> map hy_summary (iv_rootCauses iv) = map rw_summary (fd_rootCauses f)
     \<and> map hy_evidence (iv_rootCauses iv) = map rw_evidence (fd_rootCauses f)
     \<and> \<not> iv_verified iv \<and> \<not> iv_recalled iv \<and> iv_fingerprint iv = [] \<and> iv_triggerKey iv = []
     \<and> iv_prior iv = None \<and> wl_account (iv_resource iv) = [] \<and> wl_scope (iv_resource iv) = ScopeUnknown
     \<and> list_all (\<lambda>a. ac_mutating a \<and> ac_approvalID a = []) (iv_actions iv)"
proof -
  define iv1 where "iv1 = (if verdict_valid (fd_verdict f)
      then zero_investigation\<lparr>iv_title := fd_title f, iv_confidence := clamp01 (fd_confidence f),
        iv_unresolved := fd_unresolved f, iv_ruledOut := fd_ruledOut f, iv_dataGaps := fd_dataGaps f,
        iv_verdict := fd_verdict f\<rparr>
      else zero_investigation\<lparr>iv_title := fd_title f, iv_confidence := clamp01 (fd_confidence f),
        iv_unresolved := fd_unresolved f, iv_ruledOut := fd_ruledOut f, iv_dataGaps := fd_dataGaps f\<rparr>)"
  define iv2 where "iv2 = iv1\<lparr>iv_rootCauses := map build_hypothesis (fd_rootCauses f)\<rparr>"
  define iv3 where "iv3 = enforceDefectActionable f iv2"
  have c2: "iv_rootCauses iv2 = map build_hypothesis (fd_rootCauses f)" by (simp add: iv2_def)
  have base: "iv_verdict iv2 = [] \<or> verdict_valid (iv_verdict iv2)" "\<not> iv_verified iv2" "\<not> iv_recalled iv2"
    "iv_fingerprint iv2 = []" "iv_triggerKey iv2 = []" "iv_prior iv2 = None"
    "0 \<le> iv_confidence iv2" "iv_confidence iv2 \<le> 1"
    by (simp_all add: iv2_def iv1_def zero_investigation_def)
  have "verdict_valid ''action_suggested''" by (simp add: verdict_valid_def verdict_conclusive_def)
  then have e: "iv_verdict iv3 = [] \<or> verdict_valid (iv_verdict iv3)" "\<not> iv_verified iv3" "\<not> iv_recalled iv3"
    "iv_fingerprint iv3 = []" "iv_triggerKey iv3 = []" "iv_prior iv3 = None" "iv_confidence iv3 = iv_confidence iv2"
    using base by (auto simp: iv3_def enforceDefectActionable_def Let_def)
  have m: "map hy_confidence (iv_rootCauses iv3) = map hy_confidence (iv_rootCauses iv2)"
    "map hy_summary (iv_rootCauses iv3) = map rw_summary (fd_rootCauses f)"
    "map hy_evidence (iv_rootCauses iv3) = map rw_evidence (fd_rootCauses f)"
    using enforceDefect_causes [OF c2] by (simp_all add: iv3_def c2 build_hypothesis_def)
  have r: "list_all (\<lambda>rc. 0 \<le> hy_confidence rc \<and> hy_confidence rc \<le> 1) (iv_rootCauses iv3)"
    unfolding list_all_map_eq [OF m(1), of "\<lambda>c. 0 \<le> c \<and> c \<le> 1"]
    by (simp add: c2 list.pred_map comp_def build_hypothesis_def list_all_iff)
  have b: "buildInvestigation f =
     (let iv4 = iv3\<lparr>iv_actions := map build_action (fd_actions f),
                   iv_resource := target_workload (fd_affectedResource f)\<rparr>
      in if iv_confidence iv4 = 0
         then iv4\<lparr>iv_confidence := fold (\<lambda>rc c. max c (hy_confidence rc)) (iv_rootCauses iv4) (iv_confidence iv4)\<rparr>
         else iv4)"
    by (simp add: buildInvestigation_def Let_def iv3_def iv2_def iv1_def)
  have fm: "0 \<le> fold (\<lambda>rc c. max c (hy_confidence rc)) (iv_rootCauses iv3) 0
      \<and> fold (\<lambda>rc c. max c (hy_confidence rc)) (iv_rootCauses iv3) 0 \<le> 1"
    by (rule fold_max_range [OF r]) simp_all
  show ?thesis
    using base e m r fm
    by (simp add: b Let_def confidences_ok_def target_workload_def zero_workload_def list_all_iff build_action_def)
qed

text \<open>
  A leading cause that is a defect of a rule or configuration in Git is never delivered
  as nothing to do; and when the verdict is raised for it, the card names a remedy, unless every
  action the model proposed is blank.
\<close>

theorem defect_is_actionable:
  assumes "fd_rootCauses f \<noteq> []" and "defectCategory (rw_category (hd (fd_rootCauses f)))"
    and "\<forall>a \<in> set (fd_actions f). trim_space (ra_description a) \<noteq> []"
    and "fd_verdict f = ''no_action''"
  shows "iv_verdict (buildInvestigation f) = ''action_suggested'' \<and> \<not> ActionWithoutRemedy (buildInvestigation f)"
proof -
  obtain rc rcs where f: "fd_rootCauses f = rc # rcs" using assms(1) by (cases "fd_rootCauses f") auto
  have v: "verdict_valid ''no_action''" by (simp add: verdict_valid_def verdict_conclusive_def)
  have "list_all (\<lambda>a. trim_space (ac_description a) = []) (map build_action (fd_actions f)) \<Longrightarrow> fd_actions f = []"
    using assms(3) by (cases "fd_actions f") (auto simp: build_action_def)
  then show ?thesis
    using assms(2,4) f v defect_fix_text
    by (auto simp: buildInvestigation_def enforceDefectActionable_def Let_def ActionWithoutRemedy_def zero_investigation_def)
qed

definition demo_findings :: findings where
  "demo_findings = \<lparr>fd_title = ''t'', fd_confidence = 0, fd_affectedResource = \<lparr>rt_kind = [], rt_name = [], rt_namespace = []\<rparr>,
     fd_rootCauses = [\<lparr>rw_summary = ''typo'', rw_confidence = 2, rw_changeRef = [], rw_evidence = [''e''],
       rw_suggestedAction = [], rw_category = '' Rule_Defect'', rw_reversible = False\<rparr>],
     fd_unresolved = [], fd_verdict = ''no_action'', fd_ruledOut = [], fd_dataGaps = [], fd_actions = []\<rparr>"

lemma defect_is_actionable_witness:
  "iv_verdict (buildInvestigation demo_findings) = ''action_suggested''"
proof -
  have d: "defectCategory '' Rule_Defect''" by code_simp
  have "fd_rootCauses demo_findings \<noteq> []" "rw_category (hd (fd_rootCauses demo_findings)) = '' Rule_Defect''"
    "fd_actions demo_findings = []" "fd_verdict demo_findings = ''no_action''"
    by (simp_all add: demo_findings_def)
  then show ?thesis using defect_is_actionable [of demo_findings] d by simp
qed

end
