(* ===== verification/ToolOutput.thy ===== *)
theory ToolOutput
  imports Findings
begin

text \<open>
  One turn's tool calls: \<open>internal/investigate/truncate.go\<close> and \<open>runTool\<close> and
  \<open>dispatchTools\<close> of \<open>loop.go\<close>. The workers of a turn write disjoint slots of the result
  slice, in call order, so the turn is a map over its calls. The tools are a parameter, a name to a
  function of the arguments; so are redaction (\<open>redact.Secrets\<close>) and the decoding of
  \<open>submit_findings\<close> arguments.
\<close>

section \<open>Cutting at rune boundaries\<close>

fun runeAlignedCut_loop :: "string \<Rightarrow> nat \<Rightarrow> nat" where
  "runeAlignedCut_loop s 0 = 0"
| "runeAlignedCut_loop s (Suc c) = (if is_cont (s ! Suc c) then runeAlignedCut_loop s c else Suc c)"

definition runeAlignedCut :: "string \<Rightarrow> nat \<Rightarrow> nat" where
  "runeAlignedCut s c = (if c \<ge> length s then length s else runeAlignedCut_loop s c)"

text \<open>The tail start moves forward past continuation bytes; the text is what follows it.\<close>

fun tail_start :: "string \<Rightarrow> nat \<Rightarrow> nat" where
  "tail_start [] i = i"
| "tail_start (c # s) i = (if is_cont c then tail_start s (Suc i) else i)"

definition truncation_marker :: "nat \<Rightarrow> string" where
  "truncation_marker n = [newline] @ ellipsis @ ''[truncated '' @ fmt_int n @ '' bytes]'' @ ellipsis @ [newline]"

definition cut_middle :: "string \<Rightarrow> nat \<Rightarrow> string \<times> nat" where
  "cut_middle s keep =
     (let head0 = keep div 2; tail = keep - head0;
          head = runeAlignedCut s head0;
          start = tail_start (drop (length s - tail) s) (length s - tail);
          trimmed = length s - head - (length s - start)
      in (take head s @ truncation_marker trimmed @ drop start s, trimmed))"

definition truncateOutput :: "string \<Rightarrow> int \<Rightarrow> string \<times> nat" where
  "truncateOutput s maxBytes =
     (if maxBytes \<le> 0 \<or> int (length s) \<le> maxBytes then (s, 0)
      else cut_middle s (if maxBytes - 40 < 2 then 2 else nat (maxBytes - 40)))"

lemma runeAlignedCut_loop_le: "runeAlignedCut_loop s c \<le> c"
  by (induction c) auto

lemma runeAlignedCut_bound: "runeAlignedCut s c \<le> length s" "c < length s \<Longrightarrow> runeAlignedCut s c \<le> c"
  using runeAlignedCut_loop_le [of s c] by (auto simp: runeAlignedCut_def)

lemma runeAlignedCut_boundary:
  "c < length s \<Longrightarrow> runeAlignedCut s c = 0 \<or> \<not> is_cont (s ! runeAlignedCut s c)"
proof -
  have "runeAlignedCut_loop s c = 0 \<or> \<not> is_cont (s ! runeAlignedCut_loop s c)" by (induction c) auto
  then show "c < length s \<Longrightarrow> ?thesis" by (simp add: runeAlignedCut_def)
qed

lemma tail_start_bounds: "i \<le> tail_start s i \<and> tail_start s i \<le> i + length s"
  by (induction s i rule: tail_start.induct) auto

lemma tail_start_boundary:
  "tail_start s i = i + length s \<or> \<not> is_cont (s ! (tail_start s i - i))"
proof (induction s i rule: tail_start.induct)
  case (2 c s i)
  then show ?case using tail_start_bounds [of "Suc i" s] by (auto simp: nth_Cons' Suc_diff_le)
qed simp

text \<open>
  A truncated output is the untouched head and tail of the original around the marker, cut at
  rune boundaries, and the marker states the bytes between them.
\<close>

lemma cut_middle_shape:
  assumes "cut_middle s keep = (t, n)" and "2 \<le> keep" and "keep \<le> length s"
  obtains head start where "head \<le> start" "start \<le> length s" "n = start - head"
    "t = take head s @ truncation_marker n @ drop start s"
    "head = 0 \<or> \<not> is_cont (s ! head)" "start = length s \<or> \<not> is_cont (s ! start)"
    "head + (length s - start) \<le> keep"
proof -
  define head0 where "head0 = keep div 2"
  define start0 where "start0 = length s - (keep - head0)"
  define head where "head = runeAlignedCut s head0"
  define start where "start = tail_start (drop start0 s) start0"
  have h0: "head0 < length s" "head0 \<le> start0" "start0 \<le> length s" "head0 \<le> keep"
    using assms(2,3) by (auto simp: head0_def start0_def)
  have s: "start0 \<le> start" "start \<le> length s"
    using tail_start_bounds [of start0 "drop start0 s"] h0 by (auto simp: start_def)
  have h: "head \<le> head0" using runeAlignedCut_bound(2) [OF h0(1)] by (simp add: head_def)
  have d: "length s - head - (length s - start) = start - head" using s h h0 by linarith
  have eq: "cut_middle s keep = (take head s @ truncation_marker (length s - head - (length s - start)) @ drop start s,
      length s - head - (length s - start))"
    by (simp only: cut_middle_def Let_def head_def start_def head0_def start0_def)
  show ?thesis
  proof (rule that [of head start])
    show "head = 0 \<or> \<not> is_cont (s ! head)" using runeAlignedCut_boundary [OF h0(1)] by (simp add: head_def)
    show "start = length s \<or> \<not> is_cont (s ! start)"
      using tail_start_boundary [of "drop start0 s" start0] h0 s by (auto simp: start_def)
    show "head + (length s - start) \<le> keep" using h s h0 assms(3) by (simp add: start0_def)
    show "head \<le> start" "start \<le> length s" using h h0 s by linarith+
    show "n = start - head" "t = take head s @ truncation_marker n @ drop start s"
      using eq assms(1) by (simp_all only: d prod.inject)
  qed
qed

section \<open>Running a turn's calls\<close>

text \<open>
  A call returns its output, an error text, or runs into the per-tool deadline while the
  investigation itself is still within its own.
\<close>

datatype tool_outcome = ToolOk string | ToolErr string | ToolTimedOut

type_synonym tools = "string \<rightharpoonup> (string \<Rightarrow> tool_outcome)"

definition quoted :: "string \<Rightarrow> string" where
  "quoted s = ''\"'' @ s @ ''\"''"

definition runTool :: "tools \<Rightarrow> duration \<Rightarrow> tool_call \<Rightarrow> string" where
  "runTool byName toolTimeout tc = (case byName (tc_name tc) of
     None \<Rightarrow> ''unknown tool: '' @ tc_name tc
   | Some f \<Rightarrow>
       (case f (tc_args tc) of
          ToolOk out \<Rightarrow> out
        | ToolErr e \<Rightarrow> ''error: '' @ e
        | ToolTimedOut \<Rightarrow> ''tool '' @ quoted (tc_name tc) @ '' timed out after '' @ duration_string toolTimeout))"

definition submitFindingsName :: string where "submitFindingsName = ''submit_findings''"

record tool_config =
  tg_byName :: tools
  tg_toolTimeout :: duration
  tg_maxToolOutputBytes :: int
  tg_redact :: "string \<Rightarrow> string"
  tg_parseFindings :: "string \<Rightarrow> string + investigation"

definition dispatch_one :: "tool_config \<Rightarrow> tool_call \<Rightarrow> string" where
  "dispatch_one cfg tc =
     (if tc_name tc = submitFindingsName
      then ''error: '' @ (case tg_parseFindings cfg (tc_args tc) of
             Inl e \<Rightarrow> e | Inr _ \<Rightarrow> ''submit_findings already handled for this turn'')
      else fst (truncateOutput (tg_redact cfg (runTool (tg_byName cfg) (tg_toolTimeout cfg) tc))
             (tg_maxToolOutputBytes cfg)))"

definition dispatchTools :: "tool_config \<Rightarrow> tool_call list \<Rightarrow> message list" where
  "dispatchTools cfg calls = map (\<lambda>tc. \<lparr>ms_role = ''tool'', ms_content = dispatch_one cfg tc,
     ms_toolCalls = [], ms_toolCallID = tc_id tc\<rparr>) calls"

text \<open>The first \<open>submit_findings\<close> whose arguments parse ends the turn; calls after it never run.\<close>

fun split_terminal :: "tool_config \<Rightarrow> tool_call list \<Rightarrow> tool_call list \<times> investigation option" where
  "split_terminal cfg [] = ([], None)"
| "split_terminal cfg (tc # tcs) =
     (if tc_name tc = submitFindingsName
      then (case tg_parseFindings cfg (tc_args tc) of
              Inr iv \<Rightarrow> ([], Some iv)
            | Inl _ \<Rightarrow> (case split_terminal cfg tcs of (run, t) \<Rightarrow> (tc # run, t)))
      else (case split_terminal cfg tcs of (run, t) \<Rightarrow> (tc # run, t)))"

text \<open>So the branch for a parseable submission inside a dispatched turn is never taken.\<close>

definition unparseable :: "tool_config \<Rightarrow> tool_call \<Rightarrow> bool" where
  "unparseable cfg tc \<longleftrightarrow> tc_name tc = submitFindingsName \<longrightarrow> (\<exists>e. tg_parseFindings cfg (tc_args tc) = Inl e)"

lemma split_terminal_spec:
  "split_terminal cfg tcs = (run, t) \<Longrightarrow>
     (\<forall>tc \<in> set run. unparseable cfg tc)
     \<and> (case t of None \<Rightarrow> run = tcs
        | Some iv \<Rightarrow> \<exists>tc rest. tcs = run @ tc # rest \<and> tc_name tc = submitFindingsName
            \<and> tg_parseFindings cfg (tc_args tc) = Inr iv)"
proof (induction tcs arbitrary: run t)
  case (Cons tc tcs)
  obtain run' t' where r: "split_terminal cfg tcs = (run', t')" by (cases "split_terminal cfg tcs")
  note IH = Cons.IH [OF r]
  show ?case
  proof (cases "tc_name tc = submitFindingsName \<and> (\<exists>iv. tg_parseFindings cfg (tc_args tc) = Inr iv)")
    case True
    then show ?thesis using Cons.prems by (auto simp: r)
  next
    case False
    then have u: "unparseable cfg tc"
      by (cases "tg_parseFindings cfg (tc_args tc)") (auto simp: unparseable_def)
    have "run = tc # run'" "t = t'"
      using False Cons.prems by (auto simp: r split: if_splits sum.splits)
    then show ?thesis using IH u by (auto split: option.splits)
  qed
qed simp

end
