(* ===== verification/Verify.thy ===== *)
theory Verify
  imports ToolOutput
begin

text \<open>
  The adversarial review of \<open>internal/investigate/verify.go\<close> (\<open>applyVerdicts\<close>,
  \<open>verifyFindings\<close>, \<open>transcriptExcerpt\<close>) and the live-state check of a recalled finding in
  \<open>confirm.go\<close>. The reviewer's completion and the decoding of its verdicts are parameters; the
  review prompt is not modelled, since the completion is arbitrary.
\<close>

section \<open>Verdicts of the reviewer\<close>

record review_verdict =
  vd_index :: int
  vd_verdict :: string
  vd_confidence :: rat
  vd_reason :: string

definition em_dash :: string where
  "em_dash = [CHR 0xE2, CHR 0x80, CHR 0x94]"

definition rejection_line :: "string \<Rightarrow> string \<Rightarrow> string" where
  "rejection_line summary reason = summary @ '' '' @ em_dash @ '' '' @ reason"

text \<open>The judgement of one cause: kept, possibly with a lower confidence, or ruled out.\<close>

definition judge :: "review_verdict option \<Rightarrow> hypothesis \<Rightarrow> hypothesis + string" where
  "judge v rc = (case v of
     None \<Rightarrow> Inl rc
   | Some v \<Rightarrow>
       let verd = to_lower (trim_space (vd_verdict v));
           lowered = rc\<lparr>hy_confidence := min (hy_confidence rc) (clamp01 (vd_confidence v))\<rparr>
       in if verd = ''keep'' then Inl (if vd_confidence v > 0 then lowered else rc)
          else if verd = ''downgrade'' then
            Inl (if vd_confidence v > 0 then lowered else rc\<lparr>hy_confidence := hy_confidence rc / 2\<rparr>)
          else if verd = ''reject'' then Inr (rejection_line (hy_summary rc) (vd_reason v))
          else Inl rc)"

definition by_index :: "review_verdict list \<Rightarrow> int \<rightharpoonup> review_verdict" where
  "by_index verds = fold (\<lambda>v m. m(vd_index v \<mapsto> v)) verds Map.empty"

definition judgements :: "review_verdict list \<Rightarrow> hypothesis list \<Rightarrow> (hypothesis + string) list" where
  "judgements verds rcs = map (\<lambda>(i, rc). judge (by_index verds (int i)) rc) (enumerate 0 rcs)"

fun kept_of :: "(hypothesis + string) list \<Rightarrow> hypothesis list" where
  "kept_of [] = []"
| "kept_of (Inl rc # js) = rc # kept_of js"
| "kept_of (Inr _ # js) = kept_of js"

fun ruled_of :: "(hypothesis + string) list \<Rightarrow> string list" where
  "ruled_of [] = []"
| "ruled_of (Inl _ # js) = ruled_of js"
| "ruled_of (Inr s # js) = s # ruled_of js"

definition applyVerdicts :: "investigation \<Rightarrow> review_verdict list \<Rightarrow> investigation" where
  "applyVerdicts iv verds =
     (let js = judgements verds (iv_rootCauses iv); kept = kept_of js;
          maxc = fold (\<lambda>rc m. if hy_confidence rc > m then hy_confidence rc else m) kept 0;
          iv1 = iv\<lparr>iv_ruledOut := iv_ruledOut iv @ ruled_of js, iv_rootCauses := kept,
                  iv_verified := (kept \<noteq> [])\<rparr>;
          iv2 = (if kept = [] \<and> iv_verdict iv \<noteq> [] then iv1\<lparr>iv_verdict := VerdictInconclusive\<rparr> else iv1);
          iv3 = iv2\<lparr>iv_confidence := min (iv_confidence iv) maxc\<rparr>
      in if kept = [] then iv3\<lparr>iv_actions := []\<rparr> else iv3)"

section \<open>The review pass\<close>

definition submitVerdictsName :: string where "submitVerdictsName = ''submit_verdicts''"

text \<open>\<open>parse\<close> decodes the arguments; an error is no verdict, as the call ignores it.\<close>

definition verdicts_of :: "(string \<Rightarrow> review_verdict list) \<Rightarrow> completion \<Rightarrow> review_verdict list" where
  "verdicts_of parse resp = (case find (\<lambda>tc. tc_name tc = submitVerdictsName) (cp_toolCalls resp) of
     None \<Rightarrow> [] | Some tc \<Rightarrow> parse (tc_args tc))"

definition covers :: "investigation \<Rightarrow> review_verdict \<Rightarrow> bool" where
  "covers iv v \<longleftrightarrow> vd_index v \<ge> 0 \<and> vd_index v < int (length (iv_rootCauses iv))"

definition verifyFindings :: "(string \<Rightarrow> review_verdict list) \<Rightarrow> completion \<Rightarrow> investigation \<Rightarrow> usage_totals
    \<Rightarrow> (investigation \<times> bool) \<times> usage_totals" where
  "verifyFindings parse resp iv totals =
     (if iv_rootCauses iv = [] then ((iv, True), totals)
      else let totals' = addUsage totals (cp_usage resp); verds = verdicts_of parse resp
           in if cp_err resp then ((iv, False), totals')
              else if verds = [] then ((iv, False), totals')
              else if filter (covers iv) verds = [] then ((iv, False), totals')
              else ((applyVerdicts iv verds, True), totals'))"

section \<open>The transcript excerpt\<close>

definition maxVerifyTranscriptBytes :: nat where "maxVerifyTranscriptBytes = 4000"

definition call_names :: "message list \<Rightarrow> string \<rightharpoonup> string" where
  "call_names ms = fold (\<lambda>m b. fold (\<lambda>tc b. b(tc_id tc \<mapsto> tc_name tc)) (ms_toolCalls m) b) ms Map.empty"

definition excerpt_blocks :: "message list \<Rightarrow> string list" where
  "excerpt_blocks ms = map (\<lambda>m. let l = mget [] (call_names ms) (ms_toolCallID m)
       in ''['' @ (if l = [] then ''tool'' else l) @ ''] '' @ ms_content m)
     (filter (\<lambda>m. ms_role m = ''tool'' \<and> trim_space (ms_content m) \<noteq> []) ms)"

text \<open>The walk from the newest block back, within the byte budget.\<close>

fun excerpt_walk :: "nat \<Rightarrow> string list \<Rightarrow> string list \<Rightarrow> string list" where
  "excerpt_walk used [] kept = kept"
| "excerpt_walk used (block # older) kept =
     (if used + length block > maxVerifyTranscriptBytes
      then (if maxVerifyTranscriptBytes - used > 0
            then take (maxVerifyTranscriptBytes - used) block # kept else kept)
      else excerpt_walk (used + length block + 1) older (block # kept))"

definition transcriptExcerpt :: "(string \<Rightarrow> string) \<Rightarrow> message list \<Rightarrow> string" where
  "transcriptExcerpt redact ms =
     (let blocks = excerpt_blocks ms
      in if blocks = [] then [] else redact (str_join [newline] (excerpt_walk 0 (rev blocks) [])))"

section \<open>Confronting a recalled finding with current state\<close>

definition recallUnconfirmedCap :: rat where "recallUnconfirmedCap = 70 / 100"

definition recallConfirmTools :: "string list" where
  "recallConfirmTools = [''pod_status'', ''kube_events'']"

text \<open>\<open>json.Marshal\<close> of the one-key map, for a namespace without characters JSON escapes.\<close>

definition confirmArgs :: "workload \<Rightarrow> string" where
  "confirmArgs w = ''{'' @ quoted ''namespace'' @ '':'' @ quoted (wl_namespace w) @ ''}''"

text \<open>A usable result of one confirming tool; any deadline is an error here.\<close>

definition confirm_one :: "tool_config \<Rightarrow> string \<Rightarrow> string \<Rightarrow> string option" where
  "confirm_one cfg args name = (case tg_byName cfg name of
     None \<Rightarrow> None
   | Some f \<Rightarrow>
       (case f args of
          ToolOk out \<Rightarrow> if trim_space out = [] then None
            else Some (fst (truncateOutput (tg_redact cfg (trim_space out)) (tg_maxToolOutputBytes cfg)))
        | ToolErr _ \<Rightarrow> None | ToolTimedOut \<Rightarrow> None))"

definition confirm_id :: "string \<Rightarrow> string" where
  "confirm_id name = ''recall-confirm-'' @ name"

definition current_state_line :: "string \<Rightarrow> string \<Rightarrow> string" where
  "current_state_line name out = ''current state '' @ em_dash @ '' '' @ name @ '':'' @ [newline] @ out"

fun add_evidence :: "string list \<Rightarrow> hypothesis list \<Rightarrow> hypothesis list" where
  "add_evidence es [] = []"
| "add_evidence es (rc # rcs) = rc\<lparr>hy_evidence := hy_evidence rc @ es\<rparr> # rcs"

definition confirmRecall :: "tool_config \<Rightarrow> request \<Rightarrow> investigation \<Rightarrow> investigation \<times> message list" where
  "confirmRecall cfg req iv =
     (if wl_namespace (rq_workload req) = [] \<or> iv_rootCauses iv = [] then (iv, [])
      else let args = confirmArgs (rq_workload req);
               got = List.map_filter (\<lambda>name. map_option (Pair name) (confirm_one cfg args name)) recallConfirmTools;
               iv' = iv\<lparr>iv_rootCauses := add_evidence (map (\<lambda>(name, out). current_state_line name out) got) (iv_rootCauses iv)\<rparr>
           in if got = [] then (iv, [])
              else (iv', \<lparr>ms_role = ''assistant'', ms_content = [], ms_toolCalls =
                      map (\<lambda>(name, out). \<lparr>tc_id = confirm_id name, tc_name = name, tc_args = args\<rparr>) got,
                      ms_toolCallID = []\<rparr>
                    # map (\<lambda>(name, out). \<lparr>ms_role = ''tool'', ms_content = out, ms_toolCalls = [],
                            ms_toolCallID = confirm_id name\<rparr>) got))"

definition capRecallConfidence :: "investigation \<Rightarrow> rat \<Rightarrow> investigation" where
  "capRecallConfidence iv ceil =
     (let cap = (\<lambda>c. if c > ceil then ceil else c)
      in iv\<lparr>iv_confidence := cap (iv_confidence iv),
            iv_rootCauses := map (\<lambda>rc. rc\<lparr>hy_confidence := cap (hy_confidence rc)\<rparr>) (iv_rootCauses iv)\<rparr>)"

section \<open>Facts\<close>

lemma judge_keeps:
  assumes "judge v rc = Inl rc'" and "0 \<le> hy_confidence rc"
  shows "0 \<le> hy_confidence rc' \<and> hy_confidence rc' \<le> hy_confidence rc
    \<and> rc' = rc\<lparr>hy_confidence := hy_confidence rc'\<rparr>"
  using assms by (auto simp: judge_def Let_def split: option.splits if_splits)

lemma kept_of_set: "rc \<in> set (kept_of js) \<longleftrightarrow> Inl rc \<in> set js"
  by (induction js rule: kept_of.induct) auto

lemma ruled_of_set: "s \<in> set (ruled_of js) \<longleftrightarrow> Inr s \<in> set js"
  by (induction js rule: ruled_of.induct) auto

lemma judged: "length (kept_of js) + length (ruled_of js) = length js"
  by (induction js rule: kept_of.induct) auto

lemma length_judgements [simp]: "length (judgements verds rcs) = length rcs"
  by (simp add: judgements_def)

lemma judgements_nth:
  "i < length rcs \<Longrightarrow> judgements verds rcs ! i = judge (by_index verds (int i)) (rcs ! i)"
  by (simp add: judgements_def nth_enumerate_eq)

lemma in_judgements:
  "j \<in> set (judgements verds rcs) \<longleftrightarrow>
     (\<exists>i < length rcs. j = judge (by_index verds (int i)) (rcs ! i))"
  by (auto simp: in_set_conv_nth judgements_nth)

lemma applyVerdicts_simps [simp]:
  "iv_rootCauses (applyVerdicts iv vs) = kept_of (judgements vs (iv_rootCauses iv))"
  "iv_ruledOut (applyVerdicts iv vs) = iv_ruledOut iv @ ruled_of (judgements vs (iv_rootCauses iv))"
  "iv_verified (applyVerdicts iv vs) \<longleftrightarrow> kept_of (judgements vs (iv_rootCauses iv)) \<noteq> []"
  "iv_resource (applyVerdicts iv vs) = iv_resource iv" "iv_title (applyVerdicts iv vs) = iv_title iv"
  by (simp_all add: applyVerdicts_def Let_def)

lemma fold_max_nonneg:
  "0 \<le> fold (\<lambda>rc m. if hy_confidence rc > m then hy_confidence rc else m) rcs (a :: rat) \<longleftrightarrow> True" if "0 \<le> a"
  using that by (induction rcs arbitrary: a) auto

lemma verifyFindings_usage:
  "iv_rootCauses iv \<noteq> [] \<Longrightarrow> snd (verifyFindings parse resp iv t) = addUsage t (cp_usage resp)"
  by (simp add: verifyFindings_def Let_def)

text \<open>The excerpt is within its budget, join newlines included, before redaction.\<close>

definition joined :: "string list \<Rightarrow> nat" where
  "joined xs = sum_list (map length xs) + length xs"

lemma joined_simps [simp]: "joined [] = 0" "joined (x # xs) = Suc (length x + joined xs)"
  by (simp_all add: joined_def)

lemma excerpt_walk_bound:
  "joined kept \<le> used \<Longrightarrow> used \<le> Suc maxVerifyTranscriptBytes \<Longrightarrow>
     joined (excerpt_walk used bs kept) \<le> Suc maxVerifyTranscriptBytes"
  by (induction used bs kept rule: excerpt_walk.induct) (auto simp: min_def)

lemma length_str_join: "xs \<noteq> [] \<Longrightarrow> Suc (length (str_join [c] xs)) = joined xs"
proof (cases xs)
  case (Cons x ys)
  have "length (concat (map ((@) [c]) ys)) = joined ys" by (induction ys) auto
  then show ?thesis by (simp add: str_join_def Cons)
qed simp

lemma transcript_bound: "length (str_join [newline] (excerpt_walk 0 bs [])) \<le> maxVerifyTranscriptBytes"
proof (cases "excerpt_walk 0 bs [] = []")
  case True
  then show ?thesis by (simp add: str_join_def)
next
  case False
  from length_str_join [OF this, of newline] excerpt_walk_bound [of "[]" 0 bs] show ?thesis by simp
qed


lemma applyVerdicts_confidence:
  "iv_confidence (applyVerdicts iv vs) = min (iv_confidence iv)
     (fold (\<lambda>rc m. if hy_confidence rc > m then hy_confidence rc else m) (iv_rootCauses (applyVerdicts iv vs)) 0)"
  by (simp add: applyVerdicts_def Let_def)

lemma kept_from_original:
  assumes "rc' \<in> set (iv_rootCauses (applyVerdicts iv vs))" and "confidences_ok iv"
  shows "\<exists>rc \<in> set (iv_rootCauses iv). rc' = rc\<lparr>hy_confidence := hy_confidence rc'\<rparr>
    \<and> 0 \<le> hy_confidence rc' \<and> hy_confidence rc' \<le> hy_confidence rc"
proof -
  obtain i where i: "i < length (iv_rootCauses iv)"
    "Inl rc' = judge (by_index vs (int i)) (iv_rootCauses iv ! i)"
    using assms(1) by (auto simp: kept_of_set in_judgements)
  have "0 \<le> hy_confidence (iv_rootCauses iv ! i)"
    using assms(2) i(1) by (simp add: confidences_ok_def list_all_length)
  from judge_keeps [OF i(2) [symmetric] this] show ?thesis using i(1) nth_mem by blast
qed

section \<open>Properties\<close>

text \<open>
  C9: The review can only lower confidence. For a result whose confidences lie between 0 and 1, as
  every parsed result has them, each cause it keeps is a submitted cause with at most its confidence
  lowered, the overall confidence never rises, and each cause is either kept or listed among the
  ruled-out ones. The actions stay exactly as they were while a cause survives; when none does, they
  are all dropped and the verdict claims no conclusion.
\<close>

theorem review_only_lowers:
  assumes "confidences_ok iv"
  shows "let r = applyVerdicts iv vs in
     confidences_ok r \<and> iv_confidence r \<le> iv_confidence iv
     \<and> (\<forall>rc' \<in> set (iv_rootCauses r). \<exists>rc \<in> set (iv_rootCauses iv).
          rc' = rc\<lparr>hy_confidence := hy_confidence rc'\<rparr> \<and> hy_confidence rc' \<le> hy_confidence rc)
     \<and> length (iv_rootCauses r) + length (iv_ruledOut r) = length (iv_rootCauses iv) + length (iv_ruledOut iv)
     \<and> iv_actions r = (if iv_rootCauses r = [] then [] else iv_actions iv)
     \<and> (iv_rootCauses r = [] \<longrightarrow> \<not> verdict_conclusive (iv_verdict r) \<and> \<not> iv_verified r)"
proof -
  let ?r = "applyVerdicts iv vs"
  have kept: "\<exists>rc \<in> set (iv_rootCauses iv). rc' = rc\<lparr>hy_confidence := hy_confidence rc'\<rparr>
      \<and> 0 \<le> hy_confidence rc' \<and> hy_confidence rc' \<le> hy_confidence rc"
    if "rc' \<in> set (iv_rootCauses ?r)" for rc'
    using that assms by (rule kept_from_original)
  have one: "hy_confidence rc \<le> 1" if "rc \<in> set (iv_rootCauses iv)" for rc
    using assms that by (simp add: confidences_ok_def list_all_iff)
  have "0 \<le> hy_confidence rc' \<and> hy_confidence rc' \<le> 1" if "rc' \<in> set (iv_rootCauses ?r)" for rc'
    using kept [OF that] one by force
  moreover have "0 \<le> iv_confidence ?r" "iv_confidence ?r \<le> iv_confidence iv" "iv_confidence iv \<le> 1"
    unfolding applyVerdicts_confidence using assms fold_max_nonneg by (auto simp: confidences_ok_def)
  ultimately have ok: "confidences_ok ?r" by (simp only: confidences_ok_def list_all_iff) force
  have empty: "iv_actions ?r = [] \<and> \<not> verdict_conclusive (iv_verdict ?r)" if "iv_rootCauses ?r = []"
    using that by (auto simp: applyVerdicts_def Let_def VerdictInconclusive_def verdict_conclusive_def)
  have acts: "iv_actions ?r = (if iv_rootCauses ?r = [] then [] else iv_actions iv)"
    by (simp add: applyVerdicts_def Let_def)
  have len: "length (iv_rootCauses ?r) + length (iv_ruledOut ?r) = length (iv_rootCauses iv) + length (iv_ruledOut iv)"
    using judged [of "judgements vs (iv_rootCauses iv)"] by simp
  have le: "iv_confidence ?r \<le> iv_confidence iv" by (simp only: applyVerdicts_confidence min.cobounded1)
  have nv: "iv_rootCauses ?r = [] \<longrightarrow> \<not> iv_verified ?r" by simp
  show ?thesis unfolding Let_def using ok le kept len empty nv acts by blast
qed

definition demo_cause :: hypothesis where
  "demo_cause = \<lparr>hy_summary = ''oom'', hy_confidence = 9 / 10, hy_changeRef = [], hy_evidence = [''pod_status''],
     hy_suggestedAction = [], hy_reversible = False\<rparr>"

definition demo_result :: investigation where
  "demo_result = zero_investigation\<lparr>iv_title := ''t'', iv_rootCauses := [demo_cause], iv_confidence := 9 / 10,
     iv_verdict := ''action_required''\<rparr>"

definition demo_reject :: review_verdict where
  "demo_reject = \<lparr>vd_index = 0, vd_verdict = ''Reject '', vd_confidence = 0, vd_reason = ''no link''\<rparr>"

lemma demo_result_ok: "confidences_ok demo_result"
  by (simp add: demo_result_def confidences_ok_def demo_cause_def)

lemma review_only_lowers_witness:
  "iv_confidence (applyVerdicts demo_result [demo_reject]) \<le> 9 / 10"
  using review_only_lowers [OF demo_result_ok, of "[demo_reject]"] by (simp add: Let_def demo_result_def)

text \<open>
  A result counts as reviewed only when the reviewer answered and at least one of
  its verdicts names an actual cause (or there was no cause to review); otherwise the findings
  come back unchanged and unreviewed. The completion is charged either way, failed or not.
\<close>

theorem reviewed_means_covered:
  assumes "verifyFindings parse resp iv totals = ((r, verified), totals')"
  shows "(verified \<longrightarrow> iv_rootCauses iv = []
        \<or> \<not> cp_err resp \<and> (\<exists>v \<in> set (verdicts_of parse resp). covers iv v)
          \<and> r = applyVerdicts iv (verdicts_of parse resp))
    \<and> (\<not> verified \<longrightarrow> r = iv)
    \<and> totals' = (if iv_rootCauses iv = [] then totals else addUsage totals (cp_usage resp))"
  using assms
  by (auto simp: verifyFindings_def Let_def filter_empty_conv split: if_splits)

definition demo_usage :: usage where
  "demo_usage = \<lparr>us_inputTokens = 10, us_outputTokens = 1, us_cachedInputTokens = 0, us_cacheWriteTokens = 0\<rparr>"

definition demo_off_target :: completion where
  "demo_off_target = \<lparr>cp_text = [], cp_toolCalls = [\<lparr>tc_id = ''1'', tc_name = submitVerdictsName, tc_args = ''{}''\<rparr>],
     cp_usage = demo_usage, cp_truncated = False, cp_stopReason = [], cp_err = False\<rparr>"

lemma reviewed_means_covered_witness:
  "verifyFindings (\<lambda>_. [demo_reject\<lparr>vd_index := 7\<rparr>]) demo_off_target demo_result zero_totals
     = ((demo_result, False), addUsage zero_totals demo_usage)"
proof -
  have n: "\<not> covers demo_result (demo_reject\<lparr>vd_index := 7\<rparr>)" by (simp add: covers_def demo_result_def)
  have v: "verdicts_of (\<lambda>_. [demo_reject\<lparr>vd_index := 7\<rparr>]) demo_off_target = [demo_reject\<lparr>vd_index := 7\<rparr>]"
    by (simp add: verdicts_of_def demo_off_target_def)
  have c: "iv_rootCauses demo_result \<noteq> []" "cp_usage demo_off_target = demo_usage"
    by (simp_all add: demo_result_def demo_off_target_def)
  obtain r b t where e: "verifyFindings (\<lambda>_. [demo_reject\<lparr>vd_index := 7\<rparr>]) demo_off_target demo_result zero_totals = ((r, b), t)"
    by (metis prod.exhaust)
  from reviewed_means_covered [OF e] show ?thesis using n v c by (cases b) (simp_all add: e)
qed

end
