(* ===== verification/Ladder.thy ===== *)
theory Ladder
  imports Verify Compaction
begin

text \<open>
  The per-step spend guard: \<open>enforceBudget\<close> of \<open>internal/investigate/loop.go\<close>. A crossed
  ceiling first nudges the model, forcing \<open>submit_findings\<close> from then on, and latches its
  reason; a ceiling still crossed at a later step ends the investigation with that reason. The
  state is the part of the loop's locals the guard reads and writes; logging and metrics are left
  out. \<open>spend_run\<close> is any sequence of guarded requests: whatever the model answers, the
  tokens spent stay within the ceiling, one nudged request and the slack of three completions.
\<close>

section \<open>The guard\<close>

definition budgetNudge :: string where
  "budgetNudge = [CHR 0xE2, CHR 0x9A, CHR 0xA0, CHR 0xEF, CHR 0xB8, CHR 0x8F] @ '' token budget reached ''
     @ em_dash @ '' call submit_findings now with your best current hypotheses and the evidence gathered so far.''"

record guard_env =
  ge_request :: request
  ge_config :: spend_config
  ge_system :: string
  ge_specs :: "tool_spec list"
  ge_compaction :: string
  ge_embedded :: usage_totals

record guard_state =
  gs_messages :: "message list"
  gs_ratio :: rat
  gs_loopTotals :: usage_totals
  gs_verifyTotals :: usage_totals
  gs_budgetStop :: string
  gs_toolChoice :: string
  gs_result :: string

definition request_estimate :: "guard_env \<Rightarrow> guard_state \<Rightarrow> int" where
  "request_estimate env st = calib_estimate (gs_ratio st) (ge_system env) (gs_messages st) (ge_specs env)"

definition spent_totals :: "guard_env \<Rightarrow> guard_state \<Rightarrow> usage_totals" where
  "spent_totals env st = aggregateUsage (ge_config env) (gs_loopTotals st) (gs_verifyTotals st) (ge_embedded env)"

text \<open>Mid-loop compaction; \<open>summ\<close> is the summarizer's completion should it be called.\<close>

definition compact_step :: "guard_env \<Rightarrow> completion \<Rightarrow> guard_state \<Rightarrow> guard_state" where
  "compact_step env summ st =
     (let target = compactionTarget (sc_maxTokensPerInvestigation (ge_config env))
      in if target > 0 \<and> request_estimate env st > target
         then (case compactHistoryDetailed (gs_messages st) (ge_system env) (ge_specs env)
                      (heuristicTarget (gs_ratio st) target)
               of (compacted, elided, removed) \<Rightarrow>
                 if elided > 0
                 then (if ge_compaction env = ''summarize''
                       then (case summarizeElided summ compacted removed (gs_verifyTotals st)
                             of (_, out, vt) \<Rightarrow> st\<lparr>gs_messages := out, gs_verifyTotals := vt\<rparr>)
                       else st\<lparr>gs_messages := compacted\<rparr>)
                 else st)
         else st)"

text \<open>\<open>Some\<close> is the investigation delivered by a hard kill, after which the loop returns.\<close>

definition enforceBudget :: "guard_env \<Rightarrow> completion \<Rightarrow> guard_state \<Rightarrow> investigation option \<times> guard_state" where
  "enforceBudget env summ st =
     (let st1 = compact_step env summ st;
          crossed = budgetTrip (ge_config env) (request_estimate env st1) (spent_totals env st1)
      in if crossed = [] then (None, st1)
         else if gs_budgetStop st1 = [] then
           (None, st1\<lparr>gs_budgetStop := crossed,
              gs_messages := gs_messages st1 @ [user_message budgetNudge], gs_toolChoice := submitFindingsName\<rparr>)
         else (Some (budgetKillResult (ge_request env) (gs_budgetStop st1)),
               st1\<lparr>gs_result := ''budget_exceeded''\<rparr>))"

section \<open>What one step spends\<close>

definition bill :: "usage \<Rightarrow> int" where
  "bill u = us_inputTokens u + us_outputTokens u"

definition spent :: "guard_env \<Rightarrow> guard_state \<Rightarrow> int" where
  "spent env st = spentTokens (spent_totals env st)"

lemma spent_sum:
  "spent env st = ut_inputTokens (gs_loopTotals st) + ut_outputTokens (gs_loopTotals st)
     + (ut_inputTokens (gs_verifyTotals st) + ut_outputTokens (gs_verifyTotals st))
     + ut_inputTokens (ge_embedded env)"
  by (simp add: spent_def spent_totals_def spentTokens_def aggregateUsage_def Let_def zero_totals_def
      split: option.split)

lemma compact_step_frame [simp]:
  "gs_budgetStop (compact_step env summ st) = gs_budgetStop st"
  "gs_toolChoice (compact_step env summ st) = gs_toolChoice st"
  "gs_ratio (compact_step env summ st) = gs_ratio st"
  "gs_loopTotals (compact_step env summ st) = gs_loopTotals st"
  by (simp_all add: compact_step_def Let_def split: prod.splits)

lemma compact_step_verify:
  "gs_verifyTotals (compact_step env summ st) = gs_verifyTotals st
   \<or> gs_verifyTotals (compact_step env summ st) = addUsage (gs_verifyTotals st) (cp_usage summ)"
  by (auto simp: compact_step_def summarizeElided_def Let_def split: prod.splits if_splits)

lemma compact_step_spent:
  "0 \<le> bill (cp_usage summ) \<Longrightarrow> spent env (compact_step env summ st) \<le> spent env st + bill (cp_usage summ)"
  using compact_step_verify [of env summ st] by (auto simp: spent_sum bill_def)

lemma not_crossed:
  assumes "budgetTrip cfg est t = []"
  shows "0 < sc_maxTokensPerInvestigation cfg \<Longrightarrow> spentTokens t + est \<le> sc_maxTokensPerInvestigation cfg"
    and "0 < requestBudget (sc_maxTokensPerInvestigation cfg) \<Longrightarrow> est \<le> requestBudget (sc_maxTokensPerInvestigation cfg)"
    and "\<not> overCostBudget (projectSpend cfg t est) (sc_maxCostPerInvestigation cfg)"
  using assms by (auto simp: budgetTrip_def overBudget_def budget_reason_defs split: if_splits)

text \<open>The three ways the guard ends.\<close>

lemma enforceBudget_cases:
  obtains (pass) "budgetTrip (ge_config env) (request_estimate env (compact_step env summ st))
        (spent_totals env (compact_step env summ st)) = []"
      "enforceBudget env summ st = (None, compact_step env summ st)"
  | (nudge) why where "gs_budgetStop st = []" "why \<noteq> []"
      "enforceBudget env summ st = (None, (compact_step env summ st)\<lparr>gs_budgetStop := why,
         gs_messages := gs_messages (compact_step env summ st) @ [user_message budgetNudge],
         gs_toolChoice := submitFindingsName\<rparr>)"
  | (kill) "gs_budgetStop st \<noteq> []"
      "enforceBudget env summ st = (Some (budgetKillResult (ge_request env) (gs_budgetStop st)),
         (compact_step env summ st)\<lparr>gs_result := ''budget_exceeded''\<rparr>)"
proof -
  let ?t = "budgetTrip (ge_config env) (request_estimate env (compact_step env summ st))
        (spent_totals env (compact_step env summ st))"
  consider "?t = []" | "?t \<noteq> []" "gs_budgetStop st = []" | "?t \<noteq> []" "gs_budgetStop st \<noteq> []" by blast
  then show ?thesis
    by cases (use that in \<open>simp_all add: enforceBudget_def Let_def\<close>)
qed

section \<open>Runs of guarded requests\<close>

text \<open>
  After the guard lets a request through, the last step forces a submission (\<open>fin\<close>), the completion
  is charged, calibrates the estimate if it succeeded (\<open>ok\<close>) and extends the history in any way.
  \<open>over\<close> is the estimate of the nudged request, \<open>slack\<close> bounds what a completion costs beyond its
  estimate and what a digest costs.
\<close>

definition finalStepNudge :: string where
  "finalStepNudge = ''This is your FINAL step '' @ em_dash @ '' you have no tool calls remaining. Record your conclusion ''
     @ ''NOW by calling submit_findings: give your best current hypothesis with an honest (low, if unverified) ''
     @ ''confidence, or explicitly mark the incident unresolved. Do not answer in prose.''"

definition force_final :: "bool \<Rightarrow> guard_state \<Rightarrow> guard_state" where
  "force_final fin st = (if fin then st\<lparr>gs_messages := gs_messages st @ [user_message finalStepNudge],
     gs_toolChoice := submitFindingsName\<rparr> else st)"

definition after_request :: "bool \<Rightarrow> bool \<Rightarrow> usage \<Rightarrow> int \<Rightarrow> message list \<Rightarrow> guard_state \<Rightarrow> guard_state" where
  "after_request fin ok u h ms st = (force_final fin st)\<lparr>gs_loopTotals := addUsage (gs_loopTotals st) u,
     gs_ratio := (if ok then observe (gs_ratio st) h u else gs_ratio st),
     gs_messages := gs_messages (force_final fin st) @ ms\<rparr>"

abbreviation after_completion :: "usage \<Rightarrow> int \<Rightarrow> message list \<Rightarrow> guard_state \<Rightarrow> guard_state" where
  "after_completion \<equiv> after_request False True"

inductive spend_run :: "guard_env \<Rightarrow> int \<Rightarrow> guard_state \<Rightarrow> int \<Rightarrow> guard_state \<Rightarrow> bool"
  for env :: guard_env and slack :: int and st0 :: guard_state where
  begin_run: "spend_run env slack st0 0 st0"
| request: "spend_run env slack st0 over st \<Longrightarrow> enforceBudget env summ st = (None, st1) \<Longrightarrow>
     0 \<le> bill (cp_usage summ) \<Longrightarrow> bill (cp_usage summ) \<le> slack \<Longrightarrow>
     bill u \<le> request_estimate env st1 + slack \<Longrightarrow>
     spend_run env slack st0 (if gs_budgetStop st1 = gs_budgetStop st then over else request_estimate env st1)
       (after_request fin ok u h ms st1)"

lemma force_final_frame [simp]:
  "gs_budgetStop (force_final fin st) = gs_budgetStop st" "gs_ratio (force_final fin st) = gs_ratio st"
  "gs_loopTotals (force_final fin st) = gs_loopTotals st" "gs_verifyTotals (force_final fin st) = gs_verifyTotals st"
  "gs_toolChoice (force_final fin st) = (if fin then submitFindingsName else gs_toolChoice st)"
  by (simp_all add: force_final_def)

lemma after_request_simps [simp]:
  "gs_budgetStop (after_request fin ok u h ms st) = gs_budgetStop st"
  "gs_toolChoice (after_request fin ok u h ms st) = (if fin then submitFindingsName else gs_toolChoice st)"
  "spent env (after_request fin ok u h ms st) = spent env st + bill u"
  by (simp_all add: after_request_def spent_sum bill_def)

lemma request_estimate_nonneg: "0 \<le> request_estimate env st"
  using calib_estimate_ge [of "ge_system env" "gs_messages st" "ge_specs env" "gs_ratio st"]
  by (simp add: request_estimate_def)

lemma spend_run_bound:
  assumes "spend_run env slack st0 over st" and "0 < sc_maxTokensPerInvestigation (ge_config env)" and "0 \<le> slack"
  shows "0 \<le> over \<and> spent env st \<le> max (spent env st0) (sc_maxTokensPerInvestigation (ge_config env) + slack)
     + (if gs_budgetStop st = [] then 0 else over + 2 * slack)"
  using assms(1)
proof induction
  case begin_run
  then show ?case using assms(3) by auto
next
  case (request over st summ st1 u fin ok h ms)
  let ?c = "compact_step env summ st"
  have c: "spent env ?c \<le> spent env st + slack"
    using compact_step_spent [OF request.hyps(3), of env st] request.hyps(4) by linarith
  show ?case
  proof (cases rule: enforceBudget_cases [of env summ st])
    case pass
    then have "st1 = ?c" using request.hyps(2) by simp
    moreover have "spent env ?c + request_estimate env ?c \<le> sc_maxTokensPerInvestigation (ge_config env)"
      using not_crossed(1) [OF pass(1) assms(2)] by (simp add: spent_def)
    ultimately show ?thesis using request.hyps(5) request.IH assms(3) by auto
  next
    case (nudge why)
    then have st1: "gs_budgetStop st1 \<noteq> []" "spent env st1 = spent env ?c"
      using request.hyps(2) by (auto simp: spent_sum)
    then show ?thesis using request.hyps(5) request.IH c nudge(1) request_estimate_nonneg [of env st1] by auto
  next
    case kill
    then show ?thesis using request.hyps(2) by simp
  qed
qed

lemma spend_run_latched:
  assumes "spend_run env slack st0 over st" and "gs_budgetStop st0 \<noteq> []"
  shows "gs_budgetStop st = gs_budgetStop st0"
  using assms(1)
proof induction
  case (request over st summ st1 u fin ok h ms)
  then show ?case using assms(2) by (cases rule: enforceBudget_cases [of env summ st]) auto
qed simp

lemma spend_run_forced:
  assumes "spend_run env slack st0 over st" and "gs_budgetStop st0 = []"
  shows "gs_budgetStop st \<noteq> [] \<longrightarrow> gs_toolChoice st = submitFindingsName"
  using assms(1)
proof induction
  case (request over st summ st1 u fin ok h ms)
  then show ?case by (cases rule: enforceBudget_cases [of env summ st]) auto
qed (simp add: assms(2))

section \<open>Properties\<close>

text \<open>
  The token ceiling bounds what an investigation spends: along any run of guarded
  requests, whatever the model answers and however the history grows, the tokens spent exceed the
  ceiling (or what was already spent before the run) by at most the one request that follows the
  nudge and the slack of three completions; before the nudge by the slack of one.
\<close>

theorem ceiling_overshoot_bounded:
  assumes "spend_run env slack st0 over st" and "0 < sc_maxTokensPerInvestigation (ge_config env)" and "0 \<le> slack"
  shows "spent env st \<le> max (spent env st0) (sc_maxTokensPerInvestigation (ge_config env) + slack)
     + (if gs_budgetStop st = [] then 0 else over + 2 * slack)"
  using spend_run_bound [OF assms] by simp

definition demo_env :: guard_env where
  "demo_env = \<lparr>ge_request = zero_request, ge_config = \<lparr>sc_maxTokensPerInvestigation = 400,
     sc_maxCostPerInvestigation = 0, sc_pricing = None, sc_verifyPricing = None\<rparr>, ge_system = [],
     ge_specs = [], ge_compaction = [], ge_embedded = zero_totals\<rparr>"

definition demo_guard :: guard_state where
  "demo_guard = \<lparr>gs_messages = [user_message (replicate 40 (CHR ''x''))], gs_ratio = 0, gs_loopTotals = zero_totals,
     gs_verifyTotals = zero_totals, gs_budgetStop = [], gs_toolChoice = [], gs_result = ''unresolved''\<rparr>"

definition demo_no_digest :: completion where
  "demo_no_digest = \<lparr>cp_text = [], cp_toolCalls = [], cp_usage = \<lparr>us_inputTokens = 0, us_outputTokens = 0,
     us_cachedInputTokens = 0, us_cacheWriteTokens = 0\<rparr>, cp_truncated = False, cp_stopReason = [], cp_err = True\<rparr>"

lemma no_tool_results:
  assumes "\<forall>m \<in> set (gs_messages st). ms_role m \<noteq> ''tool''"
  shows "compact_step env summ st = st"
proof -
  have "tool_positions (gs_messages st) = []" using assms by (auto simp: tool_positions_def filter_empty_conv)
  then have "candidates (gs_messages st) = []" by (simp add: candidates_def map_filter_def)
  then have "compactHistoryDetailed (gs_messages st) sys specs target = (gs_messages st, 0, [])" for sys specs target
    by (simp add: compactHistoryDetailed_def elision_order_def)
  then show ?thesis by (simp add: compact_step_def Let_def)
qed

lemma demo_estimate: "request_estimate demo_env demo_guard = 10"
  by (simp add: request_estimate_def demo_env_def demo_guard_def calib_estimate_def EstimateTokens_def
      message_bytes_def user_message_def)

lemma demo_compact: "compact_step env summ demo_guard = demo_guard"
  by (rule no_tool_results) (simp add: demo_guard_def user_message_def)

lemma demo_spent_totals: "spent_totals demo_env demo_guard = zero_totals"
  by (simp add: spent_totals_def demo_env_def demo_guard_def aggregateUsage_def zero_totals_def)

lemma demo_pass: "enforceBudget demo_env demo_no_digest demo_guard = (None, demo_guard)"
proof -
  have "budgetTrip (ge_config demo_env) 10 zero_totals = []"
    by (simp add: budgetTrip_def overBudget_def requestBudget_def demo_env_def spentTokens_def zero_totals_def
        overCostBudget_def)
  then show ?thesis by (simp add: enforceBudget_def demo_compact demo_estimate demo_spent_totals)
qed

lemma demo_spend_run: "spend_run demo_env 20 demo_guard 0 (after_completion demo_usage 10 [] demo_guard)"
  using request [OF begin_run demo_pass, of 20 demo_usage False True 10 "[]"]
  by (simp add: demo_no_digest_def bill_def demo_usage_def demo_estimate)

lemma ceiling_overshoot_bounded_witness:
  "spent demo_env (after_completion demo_usage 10 [] demo_guard) \<le> 420"
proof -
  have m: "sc_maxTokensPerInvestigation (ge_config demo_env) = 400" by (simp add: demo_env_def)
  have s: "spent demo_env demo_guard = 0"
    by (simp add: spent_sum demo_guard_def demo_env_def zero_totals_def)
  have b: "gs_budgetStop (after_completion demo_usage 10 [] demo_guard) = []" by (simp add: demo_guard_def)
  show ?thesis using ceiling_overshoot_bounded [OF demo_spend_run] unfolding m s b by simp
qed

text \<open>
  The ladder has two rungs, taken once and in order. From the nudge on every request
  forces the model to submit; the investigation is stopped only at a later step, and the reason
  delivered is the one of the ceiling that engaged the ladder, whatever the ceilings say then.
\<close>

theorem kill_follows_nudge:
  assumes "spend_run env slack st0 over st" and "gs_budgetStop st0 = []"
    and "spend_run env slack st over' st'" and "enforceBudget env summ st' = (Some r, st'')"
    and "gs_budgetStop st \<noteq> []"
  shows "gs_toolChoice st = submitFindingsName \<and> r = budgetKillResult (ge_request env) (gs_budgetStop st)
    \<and> gs_result st'' = ''budget_exceeded''"
proof -
  have "gs_budgetStop st' = gs_budgetStop st" using spend_run_latched [OF assms(3,5)] .
  then show ?thesis
    using spend_run_forced [OF assms(1,2)] assms(4,5)
    by (cases rule: enforceBudget_cases [of env summ st']) auto
qed

definition tight_env :: guard_env where
  "tight_env = demo_env\<lparr>ge_config := \<lparr>sc_maxTokensPerInvestigation = 20, sc_maxCostPerInvestigation = 0,
     sc_pricing = None, sc_verifyPricing = None\<rparr>\<rparr>"

definition nudged_guard :: guard_state where
  "nudged_guard = demo_guard\<lparr>gs_budgetStop := budgetReasonRequestTokens,
     gs_messages := gs_messages demo_guard @ [user_message budgetNudge], gs_toolChoice := submitFindingsName\<rparr>"

lemma tight_trip: "5 < est \<Longrightarrow> budgetTrip (ge_config tight_env) est t = budgetReasonRequestTokens"
  by (simp add: budgetTrip_def overBudget_def requestBudget_def tight_env_def demo_env_def)

lemma reason_nonempty: "budgetReasonRequestTokens \<noteq> []"
  by (simp add: budget_reason_defs)

lemma tight_estimate: "10 \<le> request_estimate tight_env (demo_guard\<lparr>gs_messages := gs_messages demo_guard @ ms\<rparr>)"
  by (simp add: request_estimate_def tight_env_def demo_env_def demo_guard_def calib_estimate_def EstimateTokens_def
      message_bytes_def user_message_def)

lemma tight_nudge: "enforceBudget tight_env demo_no_digest demo_guard = (None, nudged_guard)"
  using tight_trip [of "request_estimate tight_env demo_guard"] tight_estimate [of "[]"] reason_nonempty
  by (simp add: enforceBudget_def Let_def demo_compact nudged_guard_def) (simp add: demo_guard_def)

lemma nudged_estimate: "10 \<le> request_estimate tight_env nudged_guard"
  by (simp add: request_estimate_def tight_env_def demo_env_def nudged_guard_def demo_guard_def calib_estimate_def
      EstimateTokens_def message_bytes_def user_message_def)

lemma tight_run: "spend_run tight_env 20 demo_guard (request_estimate tight_env nudged_guard)
   (after_completion demo_usage 0 [] nudged_guard)"
proof -
  have "gs_budgetStop nudged_guard \<noteq> gs_budgetStop demo_guard"
    using reason_nonempty by (simp add: nudged_guard_def demo_guard_def)
  then show ?thesis
    using request [OF begin_run tight_nudge, of 20 demo_usage False True 0 "[]"] nudged_estimate
    by (simp add: demo_no_digest_def bill_def demo_usage_def)
qed

lemma tight_kill:
  "fst (enforceBudget tight_env demo_no_digest (after_completion demo_usage 0 [] nudged_guard)) \<noteq> None"
proof -
  let ?st = "after_completion demo_usage 0 [] nudged_guard"
  have c: "compact_step tight_env demo_no_digest ?st = ?st"
    by (rule no_tool_results) (simp add: after_request_def force_final_def nudged_guard_def demo_guard_def user_message_def)
  have "request_estimate tight_env ?st = request_estimate tight_env nudged_guard"
    by (simp add: request_estimate_def after_request_def force_final_def observe_def nudged_guard_def)
  then have "budgetTrip (ge_config tight_env) (request_estimate tight_env ?st) (spent_totals tight_env ?st) = budgetReasonRequestTokens"
    using nudged_estimate by (intro tight_trip) simp
  moreover have "gs_budgetStop ?st \<noteq> []" using reason_nonempty by (simp add: nudged_guard_def)
  ultimately show ?thesis using reason_nonempty by (simp add: enforceBudget_def Let_def c)
qed

lemma kill_follows_nudge_witness:
  "gs_toolChoice (after_completion demo_usage 0 [] nudged_guard) = submitFindingsName
   \<and> (\<exists>st''. enforceBudget tight_env demo_no_digest (after_completion demo_usage 0 [] nudged_guard)
        = (Some (budgetKillResult (ge_request tight_env) budgetReasonRequestTokens), st''))"
proof -
  let ?st = "after_completion demo_usage 0 [] nudged_guard"
  obtain r st'' where e: "enforceBudget tight_env demo_no_digest ?st = (Some r, st'')"
    using tight_kill by (metis fst_conv not_None_eq prod.exhaust)
  have b: "gs_budgetStop demo_guard = []" "gs_budgetStop ?st = budgetReasonRequestTokens"
    by (simp_all add: demo_guard_def nudged_guard_def)
  show ?thesis
    using kill_follows_nudge [OF tight_run b(1) begin_run [of _ 20] e] reason_nonempty e b(2) by simp
qed

end
