(* ===== verification/Recall.thy ===== *)
theory Recall
  imports Rerank LedgerTrust
begin

text \<open>
  Instant recall: \<open>internal/investigate/recall.go\<close>. A catalog search gives candidates; those that
  are the operator's own, active, and agree structurally with the incident's workload pass the
  fire gate (the reranker's calibrated confidence, or the magnitude of the retrieval score), then
  the outcome gate, which reads the ledger's track record. A rejected winner has a bounded
  fallback. The near miss is a looser lookup for a lead. The search functions, the parse of dates
  and the clock are parameters; scores and confidences are rationals.
\<close>

section \<open>Structural agreement\<close>

datatype match_strength = matchNone | matchScopeless | matchNamespace | matchExact

text \<open>The Go constants are an iota, so the tiers are ordered.\<close>

instantiation match_strength :: linorder
begin

primrec strength_rank :: "match_strength \<Rightarrow> nat" where
  "strength_rank matchNone = 0"
| "strength_rank matchScopeless = 1"
| "strength_rank matchNamespace = 2"
| "strength_rank matchExact = 3"

definition less_eq_match_strength :: "match_strength \<Rightarrow> match_strength \<Rightarrow> bool" where
  "less_eq_match_strength a b \<longleftrightarrow> strength_rank a \<le> strength_rank b"

definition less_match_strength :: "match_strength \<Rightarrow> match_strength \<Rightarrow> bool" where
  "less_match_strength a b \<longleftrightarrow> strength_rank a < strength_rank b"

instance
proof
  have inj: "strength_rank a = strength_rank b \<Longrightarrow> a = b" for a b by (cases a; cases b) simp_all
  fix x y z :: match_strength
  show "x \<le> y \<Longrightarrow> y \<le> x \<Longrightarrow> x = y" using inj by (simp add: less_eq_match_strength_def)
qed (auto simp: less_eq_match_strength_def less_match_strength_def)

end

lemma matchNone_least [simp]: "matchNone \<le> s" "s \<le> matchNone \<longleftrightarrow> s = matchNone"
  by (cases s; simp add: less_eq_match_strength_def)+

definition refsAgree :: "workload \<Rightarrow> string \<Rightarrow> bool" where
  "refsAgree reqW b =
     (case cut_byte (CHR ''/'') (Ref reqW) of (ans, _, aScoped) \<Rightarrow>
      case cut_byte (CHR ''/'') b of (bns, bname, bScoped) \<Rightarrow>
        if ans \<noteq> bns \<or> aScoped \<noteq> bScoped then False
        else if \<not> aScoped then True
        else AgreesWithEntryName reqW bname)"

definition resourceAgrees :: "workload \<Rightarrow> string \<Rightarrow> bool \<Rightarrow> match_strength" where
  "resourceAgrees reqW entryResource requireWorkload =
     (if wl_namespace reqW = [] \<and> wl_name reqW = [] then
        (if entryResource = [] \<and> \<not> requireWorkload then matchScopeless else matchNone)
      else if entryResource = [] \<or> wl_namespace reqW = [] then matchNone
      else if refsAgree reqW entryResource then matchExact
      else if requireWorkload then matchNone
      else if entryResource = wl_namespace reqW then matchNamespace
      else if wl_name reqW = [] \<and> has_prefix entryResource (wl_namespace reqW @ ''/'') then matchNamespace
      else matchNone)"

definition entryAgrees :: "workload \<Rightarrow> entry \<Rightarrow> bool \<Rightarrow> match_strength" where
  "entryAgrees reqW e requireWorkload =
     (let best = resourceAgrees reqW (en_resource e) requireWorkload
      in if en_alertResource e \<noteq> []
         then let s = resourceAgrees reqW (en_alertResource e) requireWorkload in if s > best then s else best
         else best)"

definition nearMissAgrees :: "workload \<Rightarrow> string \<Rightarrow> bool \<Rightarrow> match_strength" where
  "nearMissAgrees reqW entryResource requireWorkload =
     (let s = resourceAgrees reqW entryResource requireWorkload
      in if s \<noteq> matchNone then s
         else if requireWorkload then matchNone
         else if wl_namespace reqW = [] \<or> entryResource = [] then matchNone
         else if has_prefix entryResource (wl_namespace reqW @ ''/'') then matchNamespace
         else matchNone)"

definition nearMissEntryAgrees :: "workload \<Rightarrow> entry \<Rightarrow> bool \<Rightarrow> match_strength" where
  "nearMissEntryAgrees reqW e requireWorkload =
     (let best = nearMissAgrees reqW (en_resource e) requireWorkload
      in if en_alertResource e \<noteq> []
         then let s = nearMissAgrees reqW (en_alertResource e) requireWorkload in if s > best then s else best
         else best)"

definition entryActive :: "entry \<Rightarrow> bool" where
  "entryActive e = (let s = trim_space (to_lower (en_status e)) in s \<noteq> ''retired'' \<and> s \<noteq> ''draft'')"

section \<open>The recall configuration\<close>

text \<open>What \<open>OutcomeStats\<close> answers during one lookup: the counts (\<open>None\<close> is an error) and the liveness.\<close>

record outcome_answers =
  oa_counts :: "(string \<rightharpoonup> aggregate) option"
  oa_live :: bool

record recall =
  rc_catalog :: "(string \<Rightarrow> nat \<Rightarrow> scored_entry list option) option"
  rc_minScore :: rat
  rc_marginGap :: rat
  rc_soloFloor :: rat
  rc_requireWorkloadMatch :: bool
  rc_hybrid :: "(bool \<times> (string \<Rightarrow> nat \<Rightarrow> scored_entry list option)) option"
  rc_hybridMinScore :: rat
  rc_hybridMarginGap :: rat
  rc_rerank :: "reranker option"
  rc_outcome :: "outcome_answers option"
  rc_outcomePrior :: rat
  rc_outcomeFloor :: rat
  rc_staleAfter :: duration
  rc_now :: gotime
  rc_parse :: "string \<Rightarrow> string \<Rightarrow> gotime option"

definition recallCandidateK :: nat where "recallCandidateK = 20"
definition maxOutcomeFallback :: nat where "maxOutcomeFallback = 2"
definition staleFactor :: rat where "staleFactor = 75 / 100"

definition buildRecallQuery :: "request \<Rightarrow> string" where
  "buildRecallQuery req =
     (let an = mget [] (rq_labels req) ''alertname'';
          parts = [rq_title req, rq_message req, wl_namespace (rq_workload req),
                   NormalizeResourceName (wl_name (rq_workload req))]
                  @ (if an \<noteq> rq_title req then [an] else [])
      in str_join '' '' (filter (\<lambda>s. s \<noteq> []) (map trim_space parts)))"

definition hybrid_live :: "recall \<Rightarrow> bool" where
  "hybrid_live r = (case rc_hybrid r of None \<Rightarrow> False | Some (vectors, _) \<Rightarrow> vectors)"

text \<open>The hits of a lookup; an error and an absent catalog are no hits.\<close>

definition recall_hits :: "recall \<Rightarrow> request \<Rightarrow> scored_entry list" where
  "recall_hits r req = (case rc_catalog r of
     None \<Rightarrow> []
   | Some search \<Rightarrow>
       (case (case rc_hybrid r of
                Some (True, hsearch) \<Rightarrow> hsearch (buildRecallQuery req) recallCandidateK
              | _ \<Rightarrow> search (buildRecallQuery req) recallCandidateK)
        of None \<Rightarrow> [] | Some hits \<Rightarrow> hits))"

definition min_score :: "recall \<Rightarrow> rat" where
  "min_score r = (if hybrid_live r then rc_hybridMinScore r else rc_minScore r)"

definition margin_gap :: "recall \<Rightarrow> rat" where
  "margin_gap r = (if hybrid_live r then rc_hybridMarginGap r else rc_marginGap r)"

definition solo_floor :: "recall \<Rightarrow> rat" where
  "solo_floor r = (if hybrid_live r then rc_hybridMinScore r else rc_soloFloor r)"

text \<open>The structural pre-filter.\<close>

definition eligible :: "recall \<Rightarrow> request \<Rightarrow> entry \<Rightarrow> bool" where
  "eligible r req e \<longleftrightarrow> \<not> en_commons e \<and> entryActive e
     \<and> entryAgrees (rq_workload req) e (rc_requireWorkloadMatch r) \<noteq> matchNone"

definition agreeing :: "recall \<Rightarrow> request \<Rightarrow> scored_entry list" where
  "agreeing r req = filter (\<lambda>h. eligible r req (se_entry h)) (recall_hits r req)"

section \<open>The gates\<close>

definition deriveRecallConfidence :: "rat \<Rightarrow> rat \<Rightarrow> match_strength \<Rightarrow> rat" where
  "deriveRecallConfidence score margin strength =
     (let base = (if score > 0 then 55 / 100 + 30 / 100 * clampF (margin / score) 0 1 else 55 / 100)
      in if strength = matchScopeless then clampF (base - 10 / 100) (45 / 100) (70 / 100)
         else clampF (if strength = matchExact then base + 5 / 100 else base) (50 / 100) (90 / 100))"

definition outcomeGate :: "recall \<Rightarrow> bool \<Rightarrow> (string \<rightharpoonup> aggregate) \<Rightarrow> string \<Rightarrow> rat \<times> bool" where
  "outcomeGate r live counts path = (case counts path of
     None \<Rightarrow> (1, True)
   | Some agg \<Rightarrow>
       if \<not> HasEvidence agg \<and> \<not> live then (1, True)
       else (let f = Factor agg (rc_outcomePrior r) in (f, f \<ge> rc_outcomeFloor r)))"

definition affordRerank :: "request \<Rightarrow> scored_entry list \<Rightarrow> recall_spend option \<Rightarrow> bool" where
  "affordRerank req cands spend \<longleftrightarrow> refuses spend (requestEstimate req cands) = []"

text \<open>
  The reranker gate over a non-empty candidate list; both calls of a lookup have this shape. The
  first component is the match that fires.
\<close>

definition rerank_gate :: "reranker \<Rightarrow> nat \<Rightarrow> request \<Rightarrow> scored_entry list \<Rightarrow> recall_spend option
    \<Rightarrow> (entry \<times> rat) option \<times> recall_spend option" where
  "rerank_gate rr n req cands spend =
     (if se_score (hd cands) < rr_minScore rr then (None, spend)
      else let k = (if rr_k rr \<le> 0 \<or> rr_k rr > int (length cands) then length cands else nat (rr_k rr))
           in if \<not> affordRerank req (take k cands) spend then (None, spend)
              else (case rank rr n req (take k cands) spend of
                      (None, spend') \<Rightarrow> (None, spend')
                    | (Some (e, conf), spend') \<Rightarrow>
                        (if conf < fireThreshold rr then None else Some (e, clampF conf 0 (90 / 100)), spend')))"

text \<open>The magnitude gate: the first agreeing candidate, if it is a clear winner.\<close>

definition magnitude_gate :: "recall \<Rightarrow> request \<Rightarrow> scored_entry list \<Rightarrow> (entry \<times> rat) option" where
  "magnitude_gate r req cands =
     (let winner = hd cands; score = se_score winner;
          strength = entryAgrees (rq_workload req) (se_entry winner) (rc_requireWorkloadMatch r);
          solo = (score \<ge> solo_floor r \<and> score \<ge> min_score r);
          margin = (if length cands > 1 then score - se_score (cands ! 1) else score);
          confident0 = (if length cands > 1 then score \<ge> min_score r \<and> margin \<ge> margin_gap r else solo);
          confident = (if strength = matchScopeless then confident0 \<and> solo else confident0)
      in if confident then Some (se_entry winner, deriveRecallConfidence score margin strength) else None)"

text \<open>The walk over further candidates after an outcome rejection, magnitude mode.\<close>

fun fallback_walk :: "recall \<Rightarrow> request \<Rightarrow> bool \<Rightarrow> (string \<rightharpoonup> aggregate) \<Rightarrow> scored_entry list
    \<Rightarrow> string list \<Rightarrow> (entry \<times> rat) option \<times> string list" where
  "fallback_walk r req live counts [] rejected = (None, rejected)"
| "fallback_walk r req live counts (cand # cands) rejected =
     (if se_score cand < solo_floor r \<or> se_score cand < min_score r then (None, rejected)
      else case outcomeGate r live counts (en_path (se_entry cand)) of (f, ok) \<Rightarrow>
        if \<not> ok then fallback_walk r req live counts cands (rejected @ [en_path (se_entry cand)])
        else (Some (se_entry cand, clampF (deriveRecallConfidence (se_score cand) 0
                 (entryAgrees (rq_workload req) (se_entry cand) (rc_requireWorkloadMatch r)) * f) 0 (90 / 100)),
              rejected))"

definition outcomeFallback :: "recall \<Rightarrow> request \<Rightarrow> bool \<Rightarrow> (string \<rightharpoonup> aggregate) \<Rightarrow> scored_entry list
    \<Rightarrow> recall_spend option \<Rightarrow> string list \<Rightarrow> (entry \<times> rat) option \<times> string list \<times> recall_spend option" where
  "outcomeFallback r req live counts cands spend rejected = (case rc_rerank r of
     Some rr \<Rightarrow>
       (let remaining = filter (\<lambda>c. en_path (se_entry c) \<notin> set rejected) cands
        in if remaining = [] then (None, rejected, spend)
           else (case rerank_gate rr (Suc 0) req remaining spend of
                   (None, spend') \<Rightarrow> (None, rejected, spend')
                 | (Some (e, conf), spend') \<Rightarrow>
                     (case outcomeGate r live counts (en_path e) of (f, ok) \<Rightarrow>
                        if \<not> ok then (None, rejected @ [en_path e], spend')
                        else (Some (e, clampF (conf * f) 0 (90 / 100)), rejected, spend'))))
   | None \<Rightarrow>
       (case fallback_walk r req live counts (take maxOutcomeFallback (tl cands)) rejected of
          (res, rejected') \<Rightarrow> (res, rejected', spend)))"

definition age_downweight :: "recall \<Rightarrow> entry \<Rightarrow> rat \<Rightarrow> rat" where
  "age_downweight r e conf =
     (if rc_staleAfter r > 0
      then (let fresh = (if en_lastValidated e = [] then en_timestamp e else en_lastValidated e)
            in case ParseEntryDate (rc_parse r) fresh of
                 None \<Rightarrow> conf
               | Some t \<Rightarrow> if time_sub (rc_now r) t > rc_staleAfter r
                           then clampF (conf * staleFactor) 0 (90 / 100) else conf)
      else conf)"

definition fire_gate :: "recall \<Rightarrow> request \<Rightarrow> scored_entry list \<Rightarrow> recall_spend option
    \<Rightarrow> (entry \<times> rat) option \<times> recall_spend option" where
  "fire_gate r req cands spend = (case rc_rerank r of
     Some rr \<Rightarrow> rerank_gate rr 0 req cands spend
   | None \<Rightarrow> (magnitude_gate r req cands, spend))"

text \<open>\<open>lookupWithUsage\<close>: the fired entry with its confidence, the rejected paths, the channel.\<close>

definition lookupWithUsage :: "recall \<Rightarrow> request \<Rightarrow> recall_spend option
    \<Rightarrow> (entry \<times> rat) option \<times> string list \<times> recall_spend option" where
  "lookupWithUsage r req spend =
     (let cands = agreeing r req
      in if cands = [] then (None, [], spend)
         else (case fire_gate r req cands spend of
                 (None, spend') \<Rightarrow> (None, [], spend')
               | (Some (e, conf), spend') \<Rightarrow>
                   (case rc_outcome r of
                      None \<Rightarrow> (Some (e, age_downweight r e conf), [], spend')
                    | Some oa \<Rightarrow>
                        (case oa_counts oa of
                           None \<Rightarrow> (Some (e, age_downweight r e conf), [], spend')
                         | Some counts \<Rightarrow>
                             (case outcomeGate r (oa_live oa) counts (en_path e) of (f, ok) \<Rightarrow>
                                if \<not> ok then outcomeFallback r req (oa_live oa) counts cands spend' [en_path e]
                                else (Some (e, age_downweight r e (clampF (conf * f) 0 (90 / 100))), [], spend'))))))"

definition nearMissExcluding :: "recall \<Rightarrow> request \<Rightarrow> string list \<Rightarrow> entry option" where
  "nearMissExcluding r req exclude = map_option se_entry (find (\<lambda>h.
     \<not> (en_path (se_entry h) \<noteq> [] \<and> en_path (se_entry h) \<in> set exclude) \<and> entryActive (se_entry h)
     \<and> nearMissEntryAgrees (rq_workload req) (se_entry h) (rc_requireWorkloadMatch r) \<noteq> matchNone)
     (recall_hits r req))"


section \<open>Facts about agreement\<close>

lemma strength_max: "(if s > best then s else best) \<noteq> matchNone \<longleftrightarrow> s \<noteq> matchNone \<or> best \<noteq> matchNone"
  for s best :: match_strength
  by (cases s; cases best) (simp_all add: less_match_strength_def)

lemma cut_Ref:
  "wl_namespace w \<noteq> [] \<Longrightarrow> CHR ''/'' \<notin> set (wl_namespace w) \<Longrightarrow>
     fst (cut_byte (CHR ''/'') (Ref w)) = wl_namespace w"
  by (simp add: Ref_def)

lemma cut_prefix:
  "CHR ''/'' \<notin> set ns \<Longrightarrow> has_prefix s (ns @ ''/'') \<Longrightarrow> fst (cut_byte (CHR ''/'') s) = ns"
  by (auto simp: has_prefix_iff)

text \<open>An agreeing resource lies in the namespace of the incident.\<close>

lemma resourceAgrees_namespace:
  assumes "CHR ''/'' \<notin> set (wl_namespace w)" and "resourceAgrees w res strict \<noteq> matchNone"
  shows "wl_namespace w = [] \<and> wl_name w = [] \<and> res = [] \<and> \<not> strict
    \<or> wl_namespace w \<noteq> [] \<and> res \<noteq> [] \<and> fst (cut_byte (CHR ''/'') res) = wl_namespace w"
proof (cases "wl_namespace w = [] \<and> wl_name w = []")
  case True
  then show ?thesis using assms(2) by (auto simp: resourceAgrees_def split: if_splits)
next
  case False
  then have n: "wl_namespace w \<noteq> []" "res \<noteq> []"
    using assms(2) by (auto simp: resourceAgrees_def split: if_splits)
  then consider "refsAgree w res" | "res = wl_namespace w" | "has_prefix res (wl_namespace w @ ''/'')"
    using assms(2) False by (auto simp: resourceAgrees_def split: if_splits)
  then have "fst (cut_byte (CHR ''/'') res) = wl_namespace w"
  proof cases
    case 1
    then show ?thesis using cut_Ref [OF n(1) assms(1)]
      by (cases "cut_byte (CHR ''/'') res") (auto simp: refsAgree_def split: if_splits prod.splits)
  next
    case 2
    then show ?thesis using assms(1) by simp
  next
    case 3
    then show ?thesis by (rule cut_prefix [OF assms(1)])
  qed
  then show ?thesis using n by simp
qed

lemma entryAgrees_iff:
  "entryAgrees w e strict \<noteq> matchNone \<longleftrightarrow> resourceAgrees w (en_resource e) strict \<noteq> matchNone
     \<or> en_alertResource e \<noteq> [] \<and> resourceAgrees w (en_alertResource e) strict \<noteq> matchNone"
  using strength_max by (auto simp: entryAgrees_def Let_def split: if_splits)

lemma nearMissEntryAgrees_iff:
  "nearMissEntryAgrees w e strict \<noteq> matchNone \<longleftrightarrow> nearMissAgrees w (en_resource e) strict \<noteq> matchNone
     \<or> en_alertResource e \<noteq> [] \<and> nearMissAgrees w (en_alertResource e) strict \<noteq> matchNone"
  using strength_max by (auto simp: nearMissEntryAgrees_def Let_def split: if_splits)

lemma nearMissAgrees_namespace:
  assumes "CHR ''/'' \<notin> set (wl_namespace w)" and "nearMissAgrees w res strict \<noteq> matchNone"
  shows "wl_namespace w = [] \<and> wl_name w = [] \<and> res = [] \<and> \<not> strict
    \<or> wl_namespace w \<noteq> [] \<and> res \<noteq> [] \<and> fst (cut_byte (CHR ''/'') res) = wl_namespace w"
proof (cases "resourceAgrees w res strict = matchNone")
  case True
  then show ?thesis using assms(2) cut_prefix [OF assms(1), of res]
    by (auto simp: nearMissAgrees_def Let_def split: if_splits)
next
  case False
  then show ?thesis by (rule resourceAgrees_namespace [OF assms(1)])
qed

section \<open>Facts about the gates\<close>

lemma deriveRecallConfidence_range: "45 / 100 \<le> deriveRecallConfidence s m t \<and> deriveRecallConfidence s m t \<le> 90 / 100"
  by (auto simp: deriveRecallConfidence_def Let_def clampF_def)

lemma rerank_gate_Some:
  assumes "fst (rerank_gate rr n req cands spend) = Some (e, c)"
  shows "(\<exists>s \<in> set cands. se_entry s = e) \<and> 0 \<le> c \<and> c \<le> 90 / 100"
proof -
  define k where "k = (if rr_k rr \<le> 0 \<or> rr_k rr > int (length cands) then length cands else nat (rr_k rr))"
  obtain c' where "fst (rank rr n req (take k cands) spend) = Some (e, c')" "c = clampF c' 0 (90 / 100)"
    using assms unfolding rerank_gate_def k_def [symmetric] Let_def
    by (auto split: if_splits prod.splits option.splits)
  then show ?thesis using rank_Some [of rr n req "take k cands" spend e c'] clampF_range [of 0 "90 / 100" c']
      set_take_subset [of k cands] by auto
qed

lemma magnitude_gate_Some:
  assumes "magnitude_gate r req cands = Some (e, c)" and "cands \<noteq> []"
  shows "(\<exists>s \<in> set cands. se_entry s = e) \<and> 0 \<le> c \<and> c \<le> 90 / 100"
proof -
  have "e = se_entry (hd cands)" and c: "\<exists>s m t. c = deriveRecallConfidence s m t"
    using assms(1) by (auto simp: magnitude_gate_def Let_def split: if_splits)
  then have "\<exists>s \<in> set cands. se_entry s = e" using hd_in_set [OF assms(2)] by blast
  moreover obtain s m t where "c = deriveRecallConfidence s m t" using c by blast
  moreover have "0 \<le> deriveRecallConfidence s m t" using deriveRecallConfidence_range [of s m t] by linarith
  ultimately show ?thesis using deriveRecallConfidence_range [of s m t] by simp
qed

lemma fire_gate_Some:
  assumes "fst (fire_gate r req cands spend) = Some (e, c)" and "cands \<noteq> []"
  shows "(\<exists>s \<in> set cands. se_entry s = e) \<and> 0 \<le> c \<and> c \<le> 90 / 100"
  using assms rerank_gate_Some magnitude_gate_Some by (cases "rc_rerank r") (auto simp: fire_gate_def)

text \<open>What a fallback returns passed the outcome gate, and each rejected path failed it.\<close>

definition rejected_ok :: "recall \<Rightarrow> bool \<Rightarrow> (string \<rightharpoonup> aggregate) \<Rightarrow> string list \<Rightarrow> bool" where
  "rejected_ok r live counts rej \<longleftrightarrow> (\<forall>p \<in> set rej. \<not> snd (outcomeGate r live counts p))"

definition gated_answer :: "recall \<Rightarrow> bool \<Rightarrow> (string \<rightharpoonup> aggregate) \<Rightarrow> scored_entry list
    \<Rightarrow> (entry \<times> rat) option \<Rightarrow> bool" where
  "gated_answer r live counts cands res \<longleftrightarrow> (\<forall>e c. res = Some (e, c) \<longrightarrow>
     (\<exists>s \<in> set cands. se_entry s = e) \<and> 0 \<le> c \<and> c \<le> 90 / 100 \<and> snd (outcomeGate r live counts (en_path e)))"

lemma gated_answer_None [simp]: "gated_answer r live counts cands None"
  by (simp add: gated_answer_def)

lemma gated_answer_mono:
  "gated_answer r live counts cands res \<Longrightarrow> set cands \<subseteq> set cands' \<Longrightarrow> gated_answer r live counts cands' res"
  unfolding gated_answer_def by blast

lemma rejected_ok_snoc [simp]:
  "rejected_ok r live counts (rej @ [p]) \<longleftrightarrow> rejected_ok r live counts rej \<and> \<not> snd (outcomeGate r live counts p)"
  by (auto simp: rejected_ok_def)

lemma fallback_walk_spec:
  assumes "fallback_walk r req live counts cands rej = (res, rej')" and "rejected_ok r live counts rej"
  shows "rejected_ok r live counts rej' \<and> gated_answer r live counts cands res"
  using assms
proof (induction cands arbitrary: rej)
  case (Cons cand cands)
  obtain f ok where g: "outcomeGate r live counts (en_path (se_entry cand)) = (f, ok)"
    by (cases "outcomeGate r live counts (en_path (se_entry cand))")
  consider "se_score cand < solo_floor r \<or> se_score cand < min_score r"
    | "\<not> (se_score cand < solo_floor r \<or> se_score cand < min_score r)" "ok"
    | "\<not> (se_score cand < solo_floor r \<or> se_score cand < min_score r)" "\<not> ok" by blast
  then show ?case
  proof cases
    case 1
    then show ?thesis using Cons.prems by auto
  next
    case 2
    then show ?thesis using Cons.prems g clampF_range [of 0 "90 / 100"] by (auto simp: gated_answer_def)
  next
    case 3
    have "rejected_ok r live counts rej' \<and> gated_answer r live counts cands res"
      using 3 Cons.prems g by (intro Cons.IH [of "rej @ [en_path (se_entry cand)]"]) simp_all
    then show ?thesis using gated_answer_mono [of r live counts cands res "cand # cands"] by auto
  qed
qed simp

lemma outcomeFallback_spec:
  assumes "outcomeFallback r req live counts cands spend rej = (res, rej', spend')"
    and "rejected_ok r live counts rej"
  shows "rejected_ok r live counts rej' \<and> gated_answer r live counts cands res"
proof (cases "rc_rerank r")
  case None
  obtain x y where w: "fallback_walk r req live counts (take maxOutcomeFallback (tl cands)) rej = (x, y)"
    by (cases "fallback_walk r req live counts (take maxOutcomeFallback (tl cands)) rej")
  have sub: "set (take maxOutcomeFallback (tl cands)) \<subseteq> set cands"
    using set_take_subset [of maxOutcomeFallback "tl cands"] by (cases cands) auto
  have "x = res" "y = rej'" using assms(1) None w by (simp_all add: outcomeFallback_def)
  with fallback_walk_spec [OF w assms(2)] show ?thesis using gated_answer_mono [OF _ sub] by blast
next
  case (Some rr)
  let ?rem = "filter (\<lambda>c. en_path (se_entry c) \<notin> set rej) cands"
  obtain x s where g: "rerank_gate rr (Suc 0) req ?rem spend = (x, s)" by (cases "rerank_gate rr (Suc 0) req ?rem spend")
  show ?thesis
  proof (cases "?rem = []")
    case True
    then have "res = None" "rej' = rej" using assms(1) Some by (simp_all add: outcomeFallback_def Let_def)
    then show ?thesis using assms(2) by simp
  next
    case rem: False
    show ?thesis
    proof (cases x)
      case None
      then have "res = None" "rej' = rej" using rem assms(1) Some g by (simp_all add: outcomeFallback_def Let_def)
      then show ?thesis using assms(2) by simp
    next
      case x: (Some ec)
      obtain e c where ec: "ec = (e, c)" by (cases ec)
      obtain f ok where o: "outcomeGate r live counts (en_path e) = (f, ok)"
        by (cases "outcomeGate r live counts (en_path e)")
      have m: "\<exists>s \<in> set cands. se_entry s = e" using rerank_gate_Some [of rr "Suc 0" req ?rem spend e c] g x ec by auto
      show ?thesis
      proof (cases ok)
        case True
        then have "res = Some (e, clampF (c * f) 0 (90 / 100))" "rej' = rej"
          using rem assms(1) Some g x ec o by (simp_all add: outcomeFallback_def Let_def)
        then show ?thesis using assms(2) m o True clampF_range [of 0 "90 / 100" "c * f"]
          by (simp add: gated_answer_def)
      next
        case False
        then have "res = None" "rej' = rej @ [en_path e]"
          using rem assms(1) Some g x ec o by (simp_all add: outcomeFallback_def Let_def)
        then show ?thesis using assms(2) o False by simp
      qed
    qed
  qed
qed

lemma age_downweight_range: "0 \<le> c \<Longrightarrow> c \<le> 90 / 100 \<Longrightarrow> 0 \<le> age_downweight r e c \<and> age_downweight r e c \<le> 90 / 100"
  by (auto simp: age_downweight_def Let_def clampF_def split: option.splits)


text \<open>The outcome gate of the configured ledger, when it answers.\<close>

definition outcome_ok :: "recall \<Rightarrow> string \<Rightarrow> bool" where
  "outcome_ok r path \<longleftrightarrow> (case rc_outcome r of None \<Rightarrow> True
     | Some oa \<Rightarrow> (case oa_counts oa of None \<Rightarrow> True
         | Some counts \<Rightarrow> snd (outcomeGate r (oa_live oa) counts path)))"

lemma agreeing_set: "h \<in> set (agreeing r req) \<longleftrightarrow> h \<in> set (recall_hits r req) \<and> eligible r req (se_entry h)"
  by (auto simp: agreeing_def)

text \<open>How a lookup that passes the fire gate ends.\<close>

lemma lookup_cases:
  assumes "lookupWithUsage r req spend = (res, rej, spend')"
  obtains (none) "res = None" "rej = []"
  | (fired) e c where "res = Some (e, c)" "rej = []" "outcome_ok r (en_path e)"
      "\<exists>h \<in> set (agreeing r req). se_entry h = e" "0 \<le> c" "c \<le> 90 / 100"
  | (fell) oa counts e c spend1 where "rc_outcome r = Some oa" "oa_counts oa = Some counts"
      "\<not> snd (outcomeGate r (oa_live oa) counts (en_path e))"
      "fire_gate r req (agreeing r req) spend = (Some (e, c), spend1)"
      "outcomeFallback r req (oa_live oa) counts (agreeing r req) spend1 [en_path e] = (res, rej, spend')"
proof -
  let ?c = "agreeing r req"
  obtain x s where g: "fire_gate r req ?c spend = (x, s)" by (cases "fire_gate r req ?c spend")
  consider "?c = []" | "?c \<noteq> []" "x = None" | e c where "?c \<noteq> []" "x = Some (e, c)" by (cases x) auto
  then show thesis
  proof cases
    case 1
    then show ?thesis using assms none by (simp add: lookupWithUsage_def)
  next
    case 2
    then show ?thesis using assms none g by (simp add: lookupWithUsage_def)
  next
    case (3 e c)
    have m: "(\<exists>h \<in> set ?c. se_entry h = e) \<and> 0 \<le> c \<and> c \<le> 90 / 100"
      using fire_gate_Some [of r req ?c spend e c] 3 g by simp
    have a: "0 \<le> age_downweight r e d \<and> age_downweight r e d \<le> 90 / 100" if "0 \<le> d" "d \<le> 90 / 100" for d
      using age_downweight_range that .
    consider "rc_outcome r = None" | oa where "rc_outcome r = Some oa" "oa_counts oa = None"
      | oa counts where "rc_outcome r = Some oa" "oa_counts oa = Some counts"
      by (cases "rc_outcome r") auto
    then show ?thesis
    proof cases
      case 1
      then show ?thesis using assms 3 g m a [of c] fired [of e "age_downweight r e c"]
        by (simp add: lookupWithUsage_def outcome_ok_def)
    next
      case (2 oa)
      then show ?thesis using assms 3 g m a [of c] fired [of e "age_downweight r e c"]
        by (simp add: lookupWithUsage_def outcome_ok_def)
    next
      case oa: (3 oa counts)
      obtain f ok where o: "outcomeGate r (oa_live oa) counts (en_path e) = (f, ok)"
        by (cases "outcomeGate r (oa_live oa) counts (en_path e)")
      show ?thesis
      proof (cases ok)
        case True
        let ?d = "clampF (c * f) 0 (90 / 100)"
        have "0 \<le> ?d" "?d \<le> 90 / 100" using clampF_range [of 0 "90 / 100" "c * f"] by simp_all
        then show ?thesis using assms 3 g m o True oa a [of ?d] fired [of e "age_downweight r e ?d"]
          by (simp add: lookupWithUsage_def outcome_ok_def)
      next
        case False
        then show ?thesis using assms 3 g o oa fell [of oa counts e c s]
          by (simp add: lookupWithUsage_def)
      qed
    qed
  qed
qed

lemma lookup_spec:
  assumes "lookupWithUsage r req spend = (res, rej, spend')"
  shows "(\<forall>e c. res = Some (e, c) \<longrightarrow> (\<exists>h \<in> set (agreeing r req). se_entry h = e)
      \<and> 0 \<le> c \<and> c \<le> 90 / 100 \<and> outcome_ok r (en_path e))
    \<and> (\<forall>p \<in> set rej. \<not> outcome_ok r p)"
  using assms
proof (cases rule: lookup_cases)
  case (fell oa counts e c spend1)
  have "rejected_ok r (oa_live oa) counts [en_path e]" using fell(3) by (simp add: rejected_ok_def)
  from outcomeFallback_spec [OF fell(5) this] show ?thesis
    using fell(1,2) by (auto simp: rejected_ok_def gated_answer_def outcome_ok_def)
qed auto

section \<open>The ledger behind the outcome gate\<close>

text \<open>
  \<open>OutcomeStats\<close>: what recall asks of its ledger. The law is what the gate's arithmetic relies
  on: the counters of an entry are those of a track record.
\<close>

locale outcome_stats =
  fixes counts :: "'s \<Rightarrow> string \<rightharpoonup> aggregate" and live :: "'s \<Rightarrow> bool" and sound :: "'s \<Rightarrow> bool"
  assumes counts_sound: "sound s \<Longrightarrow> counts s path = Some a \<Longrightarrow> counts_ok a"
begin

definition answers :: "'s \<Rightarrow> outcome_answers" where
  "answers s = \<lparr>oa_counts = Some (counts s), oa_live = live s\<rparr>"

text \<open>With a floor of one half the gate compares failures with successes and confirmations.\<close>

lemma gate_half:
  assumes "sound s" and "0 < rc_outcomePrior r" and "rc_outcomeFloor r = 1 / 2"
    and "counts s path = Some a" and "HasEvidence a \<or> live s"
  shows "snd (outcomeGate r (live s) (counts s) path) \<longleftrightarrow>
    2 * ((ag_recalls a - ag_resolved a) + ag_feedbackDown a + ag_failed a
         - (ag_resolved a + ag_feedbackUp a + ag_verified a)) \<le> ag_confirms a"
  using assms Factor_half_iff [OF counts_sound [OF assms(1,4)] assms(2)]
  by (auto simp: outcomeGate_def Let_def)

text \<open>An entry whose record is worse than that is not recalled, on any path of the lookup.\<close>

lemma decayed_never_fires:
  assumes "sound s" and "0 < rc_outcomePrior r" and "rc_outcomeFloor r = 1 / 2"
    and "counts s path = Some a" and "HasEvidence a \<or> live s"
    and "ag_confirms a < 2 * ((ag_recalls a - ag_resolved a) + ag_feedbackDown a + ag_failed a
         - (ag_resolved a + ag_feedbackUp a + ag_verified a))"
    and "lookupWithUsage (r\<lparr>rc_outcome := Some \<lparr>oa_counts = Some (counts s), oa_live = live s\<rparr>\<rparr>) req spend
      = (Some (e, c), rej, spend')"
  shows "en_path e \<noteq> path"
proof
  let ?r = "r\<lparr>rc_outcome := Some \<lparr>oa_counts = Some (counts s), oa_live = live s\<rparr>\<rparr>"
  assume p: "en_path e = path"
  from lookup_spec [OF assms(7)] have "outcome_ok ?r (en_path e)" by blast
  then have "snd (outcomeGate ?r (live s) (counts s) path)" by (simp add: p outcome_ok_def)
  then show False using gate_half [OF assms(1), of ?r path a] assms(2-6) by simp
qed

end

text \<open>A ledger whose state is the replay of a file; checkpoints carry a snapshot of the same state.\<close>

definition replayed :: "store \<Rightarrow> bool" where
  "replayed s \<longleftrightarrow> (\<exists>es. no_checkpoint es \<and> st_state s = replay es reset_state)"

lemma replayed_counts_ok: "replayed s \<Longrightarrow> OpenCounts s path = Some a \<Longrightarrow> counts_ok a"
proof -
  assume "replayed s" and a: "OpenCounts s path = Some a"
  then obtain es where es: "no_checkpoint es" "st_state s = replay es reset_state" by (auto simp: replayed_def)
  from a es(2) have "agg_of (replay es reset_state) path = a" by (simp add: OpenCounts_def)
  then show "counts_ok a" using replay_counts_ok [OF es(1), of path] by simp
qed

interpretation ledger_outcomes: outcome_stats OpenCounts ResolveChannelLive replayed
  by unfold_locales (rule replayed_counts_ok)

end
