(* ===== verification/RecallGuards.thy ===== *)
theory RecallGuards
  imports Recall
begin

text \<open>
  What instant recall guarantees: an entry that fires is the operator's own, active, in the
  incident's scope, trusted by the ledger and never asserted as certain; a lookup stays in the
  namespace of the incident; an entry the ledger
  holds in low regard is not recalled. The last theorem records a gap: the age of an entry is not
  considered on the fallback path.
\<close>

text \<open>
  C3: An entry fires only if the search returned it, it is not shared commons, it is
  active, it agrees with the incident's workload and its track record passes the outcome gate; its
  confidence is at most 0.90. This holds for the winner and for the fallback after a rejected
  winner, in magnitude and in reranker mode, whatever the model answers.
\<close>

theorem recall_fires_only_trusted:
  assumes "lookupWithUsage r req spend = (Some (e, c), rej, spend')"
  shows "(\<exists>h \<in> set (recall_hits r req). se_entry h = e) \<and> \<not> en_commons e \<and> entryActive e
    \<and> entryAgrees (rq_workload req) e (rc_requireWorkloadMatch r) \<noteq> matchNone
    \<and> 0 \<le> c \<and> c \<le> 90 / 100 \<and> outcome_ok r (en_path e) \<and> en_path e \<notin> set rej"
  using lookup_spec [OF assms] by (auto simp: agreeing_set eligible_def)

definition demo_entry :: "string \<Rightarrow> entry" where
  "demo_entry path = zero_entry\<lparr>en_path := path, en_resource := ''apps''\<rparr>"

definition demo_incident :: request where
  "demo_incident = zero_request\<lparr>rq_title := ''down'', rq_workload := zero_workload\<lparr>wl_namespace := ''apps''\<rparr>\<rparr>"

definition demo_recaller :: recall where
  "demo_recaller = \<lparr>rc_catalog = Some (\<lambda>_ _. Some [\<lparr>se_entry = demo_entry ''a.md'', se_score = 5\<rparr>,
       \<lparr>se_entry = demo_entry ''b.md'', se_score = 2\<rparr>]), rc_minScore = 1, rc_marginGap = 1, rc_soloFloor = 1,
     rc_requireWorkloadMatch = False, rc_hybrid = None, rc_hybridMinScore = 0, rc_hybridMarginGap = 0,
     rc_rerank = None, rc_outcome = None, rc_outcomePrior = 2, rc_outcomeFloor = 1 / 2, rc_staleAfter = 0,
     rc_now = 0, rc_parse = (\<lambda>_ _. None)\<rparr>"

lemma demo_exact: "entryAgrees (rq_workload demo_incident) (demo_entry p) False = matchExact"
  by (simp add: entryAgrees_def demo_entry_def zero_entry_def resourceAgrees_def refsAgree_def demo_incident_def
      zero_workload_def Ref_def zero_request_def)

lemma demo_entry_eligible:
  "eligible (demo_recaller\<lparr>rc_outcome := oa, rc_staleAfter := d\<rparr>) demo_incident (demo_entry p)"
proof -
  have "entryActive (demo_entry p)"
    by (simp add: entryActive_def demo_entry_def zero_entry_def to_lower_def trim_space_def)
  then show ?thesis by (simp add: eligible_def demo_recaller_def demo_exact) (simp add: demo_entry_def zero_entry_def)
qed

lemma demo_agreeing: "agreeing (demo_recaller\<lparr>rc_outcome := oa, rc_staleAfter := d\<rparr>) demo_incident
   = [\<lparr>se_entry = demo_entry ''a.md'', se_score = 5\<rparr>, \<lparr>se_entry = demo_entry ''b.md'', se_score = 2\<rparr>]"
proof -
  have "recall_hits (demo_recaller\<lparr>rc_outcome := oa, rc_staleAfter := d\<rparr>) demo_incident
    = [\<lparr>se_entry = demo_entry ''a.md'', se_score = 5\<rparr>, \<lparr>se_entry = demo_entry ''b.md'', se_score = 2\<rparr>]"
    by (simp add: recall_hits_def demo_recaller_def)
  then show ?thesis by (simp add: agreeing_def demo_entry_eligible)
qed

definition demo_confidence :: rat where
  "demo_confidence = deriveRecallConfidence 5 3 matchExact"

lemma demo_fire:
  "fire_gate (demo_recaller\<lparr>rc_outcome := oa, rc_staleAfter := d\<rparr>) demo_incident
      [\<lparr>se_entry = demo_entry ''a.md'', se_score = 5\<rparr>, \<lparr>se_entry = demo_entry ''b.md'', se_score = 2\<rparr>] spend
    = (Some (demo_entry ''a.md'', demo_confidence), spend)"
  by (simp add: fire_gate_def demo_recaller_def magnitude_gate_def Let_def solo_floor_def min_score_def
      margin_gap_def hybrid_live_def demo_exact demo_confidence_def)

lemma demo_no_outcome: "demo_recaller\<lparr>rc_outcome := None, rc_staleAfter := 0\<rparr> = demo_recaller"
  by (simp add: demo_recaller_def)

lemma demo_lookup:
  "lookupWithUsage demo_recaller demo_incident spend = (Some (demo_entry ''a.md'', demo_confidence), [], spend)"
proof -
  let ?r = "demo_recaller\<lparr>rc_outcome := None, rc_staleAfter := 0\<rparr>"
  have "lookupWithUsage ?r demo_incident spend = (Some (demo_entry ''a.md'', demo_confidence), [], spend)"
    by (simp add: lookupWithUsage_def demo_agreeing demo_fire age_downweight_def)
  then show ?thesis by (simp only: demo_no_outcome)
qed

lemma recall_fires_only_trusted_witness:
  "\<not> en_commons (demo_entry ''a.md'') \<and> demo_confidence \<le> 90 / 100"
  using recall_fires_only_trusted [OF demo_lookup] by blast

text \<open>
  Neither an answer nor a lead crosses the incident's scope. An incident in a
  namespace gets only entries one of whose resources lies in that namespace, and an incident
  without any workload only entries without a resource, and none when exact matches are required.
\<close>

theorem recall_stays_in_namespace:
  assumes "CHR ''/'' \<notin> set (wl_namespace w)" and "rq_workload req = w"
    and "fst (lookupWithUsage r req spend) = Some (e, c) \<or> nearMissExcluding r req excl = Some e"
  shows "if wl_namespace w = [] then wl_name w = [] \<and> en_resource e = [] \<and> \<not> rc_requireWorkloadMatch r
    else \<exists>res \<in> {en_resource e, en_alertResource e}. res \<noteq> [] \<and> fst (cut_byte (CHR ''/'') res) = wl_namespace w"
proof -
  have "entryAgrees w e (rc_requireWorkloadMatch r) \<noteq> matchNone \<or> nearMissEntryAgrees w e (rc_requireWorkloadMatch r) \<noteq> matchNone"
    using assms(3)
  proof
    assume "fst (lookupWithUsage r req spend) = Some (e, c)"
    then obtain rej spend' where "lookupWithUsage r req spend = (Some (e, c), rej, spend')"
      by (metis fst_conv prod.exhaust)
    from lookup_spec [OF this] show ?thesis using assms(2) by (auto simp: agreeing_set eligible_def)
  next
    assume "nearMissExcluding r req excl = Some e"
    then show ?thesis using assms(2) by (auto simp: nearMissExcluding_def find_Some_iff)
  qed
  then obtain res where res: "res = en_resource e \<or> res = en_alertResource e \<and> res \<noteq> []"
    "resourceAgrees w res (rc_requireWorkloadMatch r) \<noteq> matchNone \<or> nearMissAgrees w res (rc_requireWorkloadMatch r) \<noteq> matchNone"
    unfolding entryAgrees_iff nearMissEntryAgrees_iff by blast
  have "wl_namespace w = [] \<and> wl_name w = [] \<and> res = [] \<and> \<not> rc_requireWorkloadMatch r
    \<or> wl_namespace w \<noteq> [] \<and> res \<noteq> [] \<and> fst (cut_byte (CHR ''/'') res) = wl_namespace w"
    using resourceAgrees_namespace [OF assms(1)] nearMissAgrees_namespace [OF assms(1)] res(2) by blast
  then show ?thesis
  proof
    assume "wl_namespace w = [] \<and> wl_name w = [] \<and> res = [] \<and> \<not> rc_requireWorkloadMatch r"
    then show ?thesis using res(1) by simp
  next
    assume "wl_namespace w \<noteq> [] \<and> res \<noteq> [] \<and> fst (cut_byte (CHR ''/'') res) = wl_namespace w"
    then show ?thesis using res(1) by (simp only: if_False) blast
  qed
qed

lemma recall_stays_in_namespace_witness:
  "\<exists>res \<in> {en_resource (demo_entry ''a.md''), en_alertResource (demo_entry ''a.md'')}.
     res \<noteq> [] \<and> fst (cut_byte (CHR ''/'') res) = ''apps''"
proof -
  have w: "wl_namespace (rq_workload demo_incident) = ''apps''" by (simp add: demo_incident_def)
  show ?thesis
    using recall_stays_in_namespace [where w = "rq_workload demo_incident" and req = demo_incident and r = demo_recaller
        and spend = None and e = "demo_entry ''a.md''" and c = demo_confidence and excl = "[]"]
    by (simp add: demo_lookup w)
qed

text \<open>
  With the default floor of one half, an entry whose failures (unresolved recalls,
  negative votes, failed fixes) outweigh its successes and half its confirmations in the ledger
  is not recalled, on any path, once anything can be graded (it has evidence of some kind, or the
  ledger has seen a resolve).
\<close>

theorem low_regard_never_recalled:
  assumes "replayed s" and "0 < rc_outcomePrior r" and "rc_outcomeFloor r = 1 / 2"
    and "OpenCounts s path = Some a" and "HasEvidence a \<or> ResolveChannelLive s"
    and "ag_confirms a < 2 * ((ag_recalls a - ag_resolved a) + ag_feedbackDown a + ag_failed a
         - (ag_resolved a + ag_feedbackUp a + ag_verified a))"
  shows "map_option (\<lambda>(e, c). en_path e) (fst (lookupWithUsage
     (r\<lparr>rc_outcome := Some \<lparr>oa_counts = Some (OpenCounts s), oa_live = ResolveChannelLive s\<rparr>\<rparr>) req spend)) \<noteq> Some path"
proof
  let ?l = "lookupWithUsage (r\<lparr>rc_outcome := Some \<lparr>oa_counts = Some (OpenCounts s), oa_live = ResolveChannelLive s\<rparr>\<rparr>) req spend"
  assume "map_option (\<lambda>(e, c). en_path e) (fst ?l) = Some path"
  then obtain e c rej spend' where "?l = (Some (e, c), rej, spend')" "en_path e = path"
    by (cases ?l) auto
  with ledger_outcomes.decayed_never_fires [OF assms] show False by blast
qed

definition unresolved_lines :: "line list" where
  "unresolved_lines = map plain_line
     [demo_recall ''fp1'' ''a.md'' 10, mk_event ''resolve'' ''fp1'' 20, demo_recall ''fp'' ''a.md'' 30,
      demo_recall ''fq'' ''a.md'' 40]"

definition unresolved_ledger :: store where
  "unresolved_ledger = demo_store\<lparr>st_state := replay unresolved_lines reset_state\<rparr>"

lemma unresolved_replayed: "replayed unresolved_ledger"
proof -
  have "no_checkpoint unresolved_lines"
    by (simp add: unresolved_lines_def no_checkpoint_def demo_recall_def mk_event_def)
  then show ?thesis by (auto simp: replayed_def unresolved_ledger_def)
qed

lemma unresolved_agg:
  "let a = agg_of (replay unresolved_lines reset_state) ''a.md'' in
     ag_recalls a = 3 \<and> ag_resolved a = 1 \<and> ag_feedbackUp a = 0 \<and> ag_feedbackDown a = 0 \<and> ag_verified a = 0
     \<and> ag_failed a = 0 \<and> ag_confirms a = 0"
  by (simp add: unresolved_lines_def demo_line_defs applyOpen_def Let_def applyResolve_def pair_resolve_def
      push_open_def count_recall_def counted_open_def resolvable_def creditResolve_def)

lemma known_agg: "ag_recalls (agg_of L x) \<noteq> 0 \<Longrightarrow> l_agg L x = Some (agg_of L x)"
  by (cases "l_agg L x") (simp_all add: mget_def)

lemma unresolved_counts:
  obtains a where "OpenCounts unresolved_ledger ''a.md'' = Some a" "ag_recalls a = 3" "ag_resolved a = 1"
    "ag_feedbackUp a = 0" "ag_feedbackDown a = 0" "ag_verified a = 0" "ag_failed a = 0" "ag_confirms a = 0"
proof -
  let ?L = "replay unresolved_lines reset_state"
  define a where "a = agg_of ?L ''a.md''"
  have a: "ag_recalls a = 3" "ag_resolved a = 1" "ag_feedbackUp a = 0" "ag_feedbackDown a = 0" "ag_verified a = 0"
    "ag_failed a = 0" "ag_confirms a = 0"
    using unresolved_agg unfolding Let_def a_def by blast+
  have "l_agg ?L ''a.md'' = Some a"
    unfolding a_def by (rule known_agg) (use a(1) a_def in simp)
  then have "OpenCounts unresolved_ledger ''a.md'' = Some a" by (simp add: unresolved_ledger_def OpenCounts_def)
  then show ?thesis using a by (rule that)
qed

lemma low_regard_never_recalled_witness:
  "map_option (\<lambda>(e, c). en_path e) (fst (lookupWithUsage (demo_recaller\<lparr>rc_outcome := Some
     \<lparr>oa_counts = Some (OpenCounts unresolved_ledger), oa_live = ResolveChannelLive unresolved_ledger\<rparr>\<rparr>) demo_incident None))
   \<noteq> Some ''a.md''"
proof -
  obtain a where a: "OpenCounts unresolved_ledger ''a.md'' = Some a" "ag_recalls a = 3" "ag_resolved a = 1"
    "ag_feedbackUp a = 0" "ag_feedbackDown a = 0" "ag_verified a = 0" "ag_failed a = 0" "ag_confirms a = 0"
    by (rule unresolved_counts)
  have "HasEvidence a" using a by (simp add: HasEvidence_def)
  then show ?thesis
    using low_regard_never_recalled [OF unresolved_replayed _ _ a(1), of demo_recaller demo_incident None] a
    by (simp add: demo_recaller_def)
qed

section \<open>What a lookup pays\<close>

lemma rerank_gate_charged:
  "charged spend \<le> charged (snd (rerank_gate rr n req cands spend))
   \<and> charged (snd (rerank_gate rr n req cands spend)) \<le> charged spend + 1"
proof -
  have r: "charged spend \<le> charged (snd (rank rr n req cs spend)) \<and> charged (snd (rank rr n req cs spend)) \<le> charged spend + 1" for cs
    by (rule rank_charged)
  obtain x s where x: "rank rr n req (take (if rr_k rr \<le> 0 \<or> rr_k rr > int (length cands) then length cands else nat (rr_k rr)) cands) spend = (x, s)"
    by (metis prod.exhaust)
  show ?thesis
    using r [of "take (if rr_k rr \<le> 0 \<or> rr_k rr > int (length cands) then length cands else nat (rr_k rr)) cands"]
    by (cases x) (auto simp: rerank_gate_def Let_def x split: prod.splits)
qed

lemma fire_gate_charged:
  "charged spend \<le> charged (snd (fire_gate r req cands spend)) \<and> charged (snd (fire_gate r req cands spend)) \<le> charged spend + 1"
  using rerank_gate_charged by (cases "rc_rerank r") (auto simp: fire_gate_def)

lemma outcomeFallback_charged:
  "charged spend \<le> charged (snd (snd (outcomeFallback r req live counts cands spend rej)))
   \<and> charged (snd (snd (outcomeFallback r req live counts cands spend rej))) \<le> charged spend + 1"
proof (cases "rc_rerank r")
  case None
  then show ?thesis by (simp add: outcomeFallback_def split: prod.split)
next
  case (Some rr)
  let ?rem = "filter (\<lambda>c. en_path (se_entry c) \<notin> set rej) cands"
  obtain x s where x: "rerank_gate rr (Suc 0) req ?rem spend = (x, s)" by (metis prod.exhaust)
  have "snd (snd (outcomeFallback r req live counts cands spend rej)) \<in> {spend, s}"
    using Some by (cases x) (auto simp: outcomeFallback_def Let_def x split: prod.splits)
  then show ?thesis using rerank_gate_charged [of spend rr "Suc 0" req ?rem] x by auto
qed

text \<open>
  A lookup makes at most two paid reranker completions, whatever the model answers: one
  for the winner and one after an outcome rejection.
\<close>

theorem lookup_pays_at_most_two_calls:
  "charged spend \<le> charged (snd (snd (lookupWithUsage r req spend)))
   \<and> charged (snd (snd (lookupWithUsage r req spend))) \<le> charged spend + 2"
proof -
  let ?c = "agreeing r req"
  obtain x s where x: "fire_gate r req ?c spend = (x, s)" by (metis prod.exhaust)
  have s: "charged spend \<le> charged s \<and> charged s \<le> charged spend + 1"
    using fire_gate_charged [of spend r req ?c] x by simp
  have "snd (snd (lookupWithUsage r req spend)) \<in> {spend, s}
    \<or> (\<exists>live counts rej. snd (snd (lookupWithUsage r req spend)) = snd (snd (outcomeFallback r req live counts ?c s rej)))"
    by (cases x) (auto simp: lookupWithUsage_def Let_def x split: option.splits prod.splits)
  then show ?thesis using s outcomeFallback_charged [where spend = s and r = r and req = req and cands = ?c]
    by (smt (verit, best) insert_iff empty_iff)
qed

section \<open>The age of a fallback\<close>

lemma hits_age [simp]: "recall_hits (r\<lparr>rc_staleAfter := d\<rparr>) req = recall_hits r req"
  by (simp add: recall_hits_def split: option.split prod.split bool.split)

lemma gates_age [simp]:
  "outcomeGate (r\<lparr>rc_staleAfter := d\<rparr>) = outcomeGate r"
  "solo_floor (r\<lparr>rc_staleAfter := d\<rparr>) = solo_floor r" "min_score (r\<lparr>rc_staleAfter := d\<rparr>) = min_score r"
  "margin_gap (r\<lparr>rc_staleAfter := d\<rparr>) = margin_gap r"
  "eligible (r\<lparr>rc_staleAfter := d\<rparr>) req = eligible r req"
  by (intro ext, simp add: outcomeGate_def Let_def split: option.split)
    (simp_all add: solo_floor_def min_score_def margin_gap_def hybrid_live_def eligible_def [abs_def])

lemma fallback_walk_age [simp]:
  "fallback_walk (r\<lparr>rc_staleAfter := d\<rparr>) req live counts cands rej = fallback_walk r req live counts cands rej"
  by (induction cands arbitrary: rej) (simp_all split: prod.split)

lemma recall_age [simp]:
  "agreeing (r\<lparr>rc_staleAfter := d\<rparr>) req = agreeing r req"
  "fire_gate (r\<lparr>rc_staleAfter := d\<rparr>) req cands spend = fire_gate r req cands spend"
  "outcomeFallback (r\<lparr>rc_staleAfter := d\<rparr>) req live counts cands spend rej = outcomeFallback r req live counts cands spend rej"
proof -
  show "agreeing (r\<lparr>rc_staleAfter := d\<rparr>) req = agreeing r req" by (simp add: agreeing_def)
  have "magnitude_gate (r\<lparr>rc_staleAfter := d\<rparr>) req cands = magnitude_gate r req cands"
    by (simp add: magnitude_gate_def Let_def)
  then show "fire_gate (r\<lparr>rc_staleAfter := d\<rparr>) req cands spend = fire_gate r req cands spend"
    by (simp add: fire_gate_def split: option.split)
  show "outcomeFallback (r\<lparr>rc_staleAfter := d\<rparr>) req live counts cands spend rej = outcomeFallback r req live counts cands spend rej"
    by (simp add: outcomeFallback_def Let_def split: option.split prod.split)
qed

text \<open>
  The age horizon has no effect once the winner was rejected for its track record: the
  fallback's answer and its confidence are the same for every horizon, so a runner-up no human has
  validated for years is delivered at full confidence.
\<close>

theorem fallback_ignores_age:
  assumes "rc_outcome r = Some oa" and "oa_counts oa = Some counts" and "agreeing r req \<noteq> []"
    and "fire_gate r req (agreeing r req) spend = (Some (e, c), spend1)"
    and "\<not> snd (outcomeGate r (oa_live oa) counts (en_path e))"
  shows "lookupWithUsage (r\<lparr>rc_staleAfter := d\<rparr>) req spend = lookupWithUsage r req spend"
proof -
  obtain f where "outcomeGate r (oa_live oa) counts (en_path e) = (f, False)"
    using assms(5) by (metis snd_conv prod.exhaust)
  then show ?thesis using assms by (simp add: lookupWithUsage_def)
qed

definition demo_answers :: outcome_answers where
  "demo_answers = \<lparr>oa_counts = Some [''a.md'' \<mapsto> zero_agg\<lparr>ag_recalls := 1, ag_feedbackDown := 1\<rparr>], oa_live = True\<rparr>"

lemma fallback_ignores_age_witness:
  "lookupWithUsage (demo_recaller\<lparr>rc_outcome := Some demo_answers, rc_staleAfter := 5\<rparr>) demo_incident None
   = lookupWithUsage (demo_recaller\<lparr>rc_outcome := Some demo_answers, rc_staleAfter := 0\<rparr>) demo_incident None"
proof -
  let ?r = "demo_recaller\<lparr>rc_outcome := Some demo_answers, rc_staleAfter := 0\<rparr>"
  have g: "\<not> snd (outcomeGate ?r (oa_live demo_answers) [''a.md'' \<mapsto> zero_agg\<lparr>ag_recalls := 1, ag_feedbackDown := 1\<rparr>] (en_path (demo_entry ''a.md'')))"
    by (simp add: outcomeGate_def demo_entry_def HasEvidence_def Factor_def confirmWeight_def demo_answers_def demo_recaller_def)
  have f: "fire_gate ?r demo_incident (agreeing ?r demo_incident) None = (Some (demo_entry ''a.md'', demo_confidence), None)"
    unfolding demo_agreeing by (rule demo_fire)
  have "lookupWithUsage (?r\<lparr>rc_staleAfter := 5\<rparr>) demo_incident None = lookupWithUsage ?r demo_incident None"
    by (rule fallback_ignores_age [OF _ _ _ f g]) (simp_all add: demo_answers_def demo_agreeing del: recall_age gates_age hits_age)
  then show ?thesis by simp
qed

end
