(* ===== verification/Targets.thy ===== *)
theory Targets
  imports Findings
begin

text \<open>
  The resources an investigation has seen on the server, and what they decide:
  \<open>internal/investigate/observedresources.go\<close> and \<open>reviewActions\<close> of \<open>loop.go\<close>. The set is seeded
  with the trigger's workload and grows with what the read tools confirm. A proposed action on any
  other target loses its operation when no human will look at it, and gets a warning otherwise. The
  theorem joins the guard to the unattended executor of the action gate.
\<close>

section \<open>Observed resources\<close>

record observed_resources =
  ob_byKey :: "(string \<times> string) list"
  ob_names :: "string list"

definition ob_add :: "workload \<Rightarrow> observed_resources \<Rightarrow> observed_resources" where
  "ob_add w o1 = (if wl_name w = [] then o1
     else \<lparr>ob_byKey = List.insert (wl_namespace w, wl_name w) (ob_byKey o1), ob_names = List.insert (wl_name w) (ob_names o1)\<rparr>)"

definition WithObservedResources :: "workload list \<Rightarrow> observed_resources" where
  "WithObservedResources seed = fold ob_add seed \<lparr>ob_byKey = [], ob_names = []\<rparr>"

definition recordObserved :: "workload list \<Rightarrow> observed_resources \<Rightarrow> observed_resources" where
  "recordObserved ws o1 = fold ob_add ws o1"

definition ob_matches :: "observed_resources \<Rightarrow> workload \<Rightarrow> bool" where
  "ob_matches o1 t =
     (if wl_name t = [] then False
      else if wl_namespace t \<noteq> [] \<and> (wl_namespace t, wl_name t) \<in> set (ob_byKey o1) then True
      else wl_name t \<in> set (ob_names o1))"

section \<open>The guard and the review of proposed actions\<close>

definition unobservedTargetWarning :: string where
  "unobservedTargetWarning = ''[WARNING: target was never observed server-side during this investigation '' @ em_dash
     @ '' possible hallucinated or injected resource; verify it exists and is the right one before approving]''"

definition guard_target :: "observed_resources \<Rightarrow> bool \<Rightarrow> action \<Rightarrow> action" where
  "guard_target o1 autoMode a =
     (if ac_op a = [] \<or> wl_name (ac_target a) = [] then a
      else if ob_matches o1 (ac_target a) then a
      else if autoMode then a\<lparr>ac_op := [], ac_mutating := False\<rparr>
      else a\<lparr>ac_description := unobservedTargetWarning @ '' '' @ ac_description a\<rparr>)"

definition guardUnobservedTargets :: "observed_resources option \<Rightarrow> bool \<Rightarrow> action list \<Rightarrow> action list" where
  "guardUnobservedTargets observed autoMode acts = (case observed of
     None \<Rightarrow> acts | Some o1 \<Rightarrow> map (guard_target o1 autoMode) acts)"

definition reviewActions :: "action_policy option \<Rightarrow> observed_resources option \<Rightarrow> action list \<Rightarrow> action list" where
  "reviewActions actions observed proposed = (case actions of
     None \<Rightarrow> []
   | Some p \<Rightarrow> if \<not> policy_Enabled p then []
               else fst (Review p (guardUnobservedTargets observed (IsAuto p) proposed)))"

text \<open>\<open>autoExecuting\<close>: the nil policy is read-only.\<close>

definition autoExecuting :: "action_policy option \<Rightarrow> bool" where
  "autoExecuting actions = (case actions of None \<Rightarrow> False | Some p \<Rightarrow> IsAuto p)"

section \<open>Lemmas\<close>

lemma observed_grows: "ob_matches o1 t \<Longrightarrow> ob_matches (recordObserved ws o1) t"
  by (induction ws arbitrary: o1)
    (auto simp: recordObserved_def ob_matches_def ob_add_def split: if_splits)

lemma seed_observed: "wl_name w \<noteq> [] \<Longrightarrow> ob_matches (recordObserved ws (WithObservedResources [w])) w"
  by (rule observed_grows) (simp add: WithObservedResources_def ob_add_def ob_matches_def)

lemma deriveSafety_frame [simp]: "ac_op (deriveSafety a) = ac_op a" "ac_target (deriveSafety a) = ac_target a"
  "ac_description (deriveSafety a) = ac_description a"
  by (simp_all add: deriveSafety_def split: option.split)

lemma review_loop_from: "a \<in> set (fst (review_loop p as)) \<Longrightarrow> \<exists>a0 \<in> set as. a = deriveSafety a0 \<and> violation p a = []"
  by (induction as) (auto simp: Let_def split: if_splits prod.splits)

lemma reviewActions_from:
  assumes "a \<in> set (reviewActions (Some p) observed proposed)"
  obtains a0 where "a0 \<in> set (guardUnobservedTargets observed (IsAuto p) proposed)" "a = deriveSafety a0" "violation p a = []"
  using assms review_loop_from by (auto simp: reviewActions_def Review_def split: if_splits)

lemma guarded_observed:
  assumes "a \<in> set (guardUnobservedTargets (Some o1) True acts)" and "ac_op a \<noteq> []"
  shows "wl_name (ac_target a) = [] \<or> ob_matches o1 (ac_target a)"
  using assms by (auto simp: guardUnobservedTargets_def guard_target_def split: if_splits)

text \<open>Every call of an unattended run is one of its actions, with an operation.\<close>

lemma Run_calls_from:
  assumes "Run exec redact confidence as (a, wd) = (outs, a', wd')"
  shows "\<exists>new. wd_calls wd' = wd_calls wd @ new
    \<and> (\<forall>(actor, act) \<in> set new. \<exists>a0 \<in> snd ` set as. act = deriveSafety a0 \<and> ac_op a0 \<noteq> [])"
  using assms
proof (induction as arbitrary: a wd outs)
  case (Cons x as)
  obtain env act where x: "x = (env, act)" by (cases x)
  obtain out a1 wd1 where r: "runOne exec redact (ge_switches env) (ge_now env) (ge_now' env) confidence act (a, wd)
      = (out, a1, wd1)" by (cases "runOne exec redact (ge_switches env) (ge_now env) (ge_now' env) confidence act (a, wd)")
  obtain outs2 where run: "Run exec redact confidence as (a1, wd1) = (outs2, a', wd')"
    using Cons.prems(1) r by (auto simp: x split: prod.splits)
  from Cons.IH [OF run] obtain new where new: "wd_calls wd' = wd_calls wd1 @ new"
    "\<forall>(actor, act) \<in> set new. \<exists>a0 \<in> snd ` set as. act = deriveSafety a0 \<and> ac_op a0 \<noteq> []" by blast
  from r show ?case
  proof (cases rule: runOne_outcome)
    case called
    then have "ac_op act \<noteq> []" by (simp add: gates_pass_def)
    then show ?thesis
      using called new by (intro exI [of _ "(''auto'', deriveSafety act) # new"]) (auto simp: x)
  qed (use new in \<open>auto simp: x\<close>)
qed simp

section \<open>Property\<close>

text \<open>
  C8: No named target is changed unattended unless it was observed. Under the auto policy, whatever
  actions the model proposed, every cluster call of the unattended run over the reviewed actions is
  for an action whose target the investigation observed on the server, or whose target carries no
  name at all (which the guard lets pass, as the code does), and the action is inside the policy's
  envelope as it was when the review kept it.
\<close>

theorem unattended_targets_observed:
  assumes "IsAuto p" and "map snd as = reviewActions (Some p) (Some o1) proposed"
    and "Run exec redact confidence as (a, wd) = (outs, a', wd')"
  shows "\<exists>new. wd_calls wd' = wd_calls wd @ new
    \<and> (\<forall>(actor, act) \<in> set new. safe_action p act
         \<and> (wl_name (ac_target act) = [] \<or> ob_matches o1 (ac_target act)))"
proof -
  obtain new where new: "wd_calls wd' = wd_calls wd @ new"
    and from_as: "\<forall>(actor, act) \<in> set new. \<exists>a0 \<in> snd ` set as. act = deriveSafety a0 \<and> ac_op a0 \<noteq> []"
    using Run_calls_from [OF assms(3)] by blast
  have kept: "snd ` set as = set (reviewActions (Some p) (Some o1) proposed)"
    using assms(2) by (metis set_map)
  have "safe_action p (deriveSafety a0) \<and> (wl_name (ac_target a0) = [] \<or> ob_matches o1 (ac_target a0))"
    if "a0 \<in> snd ` set as" and op: "ac_op a0 \<noteq> []" for a0
  proof -
    from that(1) obtain a1 where a1: "a1 \<in> set (guardUnobservedTargets (Some o1) True proposed)"
        "a0 = deriveSafety a1" "violation p a0 = []"
      using reviewActions_from assms(1) unfolding kept by metis
    have "deriveSafety a0 = a0"
      unfolding a1(2) by (simp add: deriveSafety_def split: option.split)
    then show ?thesis using a1 op guarded_observed [OF a1(1)] violation_safe [of p a0] by auto
  qed
  then show ?thesis using new from_as by (intro exI [of _ new]) fastforce
qed

lemma unattended_targets_observed_witness:
  "\<exists>new. new \<noteq> [] \<and> wd_calls (snd (snd (Run (\<lambda>_ _. None) id 1
       (map (Pair \<lparr>ge_switches = [], ge_now = 1, ge_now' = 1\<rparr>)
          (reviewActions (Some demo_policy) (Some (WithObservedResources [ac_target demo_action])) [demo_action]))
       (demo_auto, empty_world)))) = new
     \<and> (\<forall>(actor, act) \<in> set new. wl_name (ac_target act) = [] \<or> wl_name (ac_target act) = ''x'')"
proof -
  let ?o = "WithObservedResources [ac_target demo_action]"
  let ?as = "map (Pair \<lparr>ge_switches = [], ge_now = 1, ge_now' = 1\<rparr>) (reviewActions (Some demo_policy) (Some ?o) [demo_action])"
  obtain outs a' wd' where r: "Run (\<lambda>_ _. None) id 1 ?as (demo_auto, empty_world) = (outs, a', wd')" by (metis prod.exhaust)
  have m: "ob_matches ?o t \<Longrightarrow> wl_name t = ''x''" for t
    by (auto simp: ob_matches_def WithObservedResources_def ob_add_def demo_action_def split: if_splits)
  have p: "IsAuto demo_policy" by (simp add: IsAuto_def demo_policy_def)
  have as: "map snd ?as = reviewActions (Some demo_policy) (Some ?o) [demo_action]" by (simp add: comp_def)
  have "wd_calls (snd (snd (Run (\<lambda>_ _. None) id 1 ?as (demo_auto, empty_world)))) \<noteq> []" by code_simp
  then have ne: "wd_calls wd' \<noteq> []" unfolding r snd_conv .
  obtain new where "wd_calls wd' = new" and "\<forall>(actor, act) \<in> set new. safe_action demo_policy act
      \<and> (wl_name (ac_target act) = [] \<or> ob_matches ?o (ac_target act))"
    using unattended_targets_observed [OF p as r] by (auto simp: empty_world_def)
  then have "new \<noteq> [] \<and> wd_calls wd' = new \<and> (\<forall>(actor, act) \<in> set new. wl_name (ac_target act) = [] \<or> wl_name (ac_target act) = ''x'')"
    using m ne by blast
  then show ?thesis unfolding r snd_conv by blast
qed

end
