(* ===== verification/Delivery.thy ===== *)
theory Delivery
  imports Findings Spend
begin

text \<open>
  What leaves an investigation: \<open>redactInvestigation\<close>, the tail of \<open>finish\<close> and \<open>emitProgress\<close> of
  \<open>internal/investigate/loop.go\<close>. The reflective walk \<open>redactStrings\<close> is defined on the shape that reflection
  sees; what it does to a result is also written out over the fields of the records, and both agree.
  \<open>redact\<close> (\<open>redact.Secrets\<close>) is a parameter.
\<close>

section \<open>Egress redaction\<close>

definition redact_hypothesis :: "(string \<Rightarrow> string) \<Rightarrow> hypothesis \<Rightarrow> hypothesis" where
  "redact_hypothesis redact h = h\<lparr>hy_summary := redact (hy_summary h), hy_changeRef := redact (hy_changeRef h),
     hy_evidence := map redact (hy_evidence h), hy_suggestedAction := redact (hy_suggestedAction h)\<rparr>"

definition redact_action :: "(string \<Rightarrow> string) \<Rightarrow> action \<Rightarrow> action" where
  "redact_action redact a = a\<lparr>ac_name := redact (ac_name a), ac_description := redact (ac_description a)\<rparr>"

definition redact_prior :: "(string \<Rightarrow> string) \<Rightarrow> prior_knowledge \<Rightarrow> prior_knowledge" where
  "redact_prior redact p = p\<lparr>pk_cause := redact (pk_cause p), pk_resolution := redact (pk_resolution p)\<rparr>"

definition redact_matched :: "(string \<Rightarrow> string) \<Rightarrow> matched_entry \<Rightarrow> matched_entry" where
  "redact_matched redact m = m\<lparr>me_title := redact (me_title m)\<rparr>"

definition redactInvestigation :: "(string \<Rightarrow> string) \<Rightarrow> investigation \<Rightarrow> investigation" where
  "redactInvestigation redact iv = iv\<lparr>iv_title := redact (iv_title iv),
     iv_rootCauses := map (redact_hypothesis redact) (iv_rootCauses iv),
     iv_unresolved := map redact (iv_unresolved iv), iv_ruledOut := map redact (iv_ruledOut iv),
     iv_dataGaps := map redact (iv_dataGaps iv), iv_severity := redact (iv_severity iv),
     iv_environment := redact (iv_environment iv), iv_cluster := redact (iv_cluster iv),
     iv_tenant := redact (iv_tenant iv), iv_alertName := redact (iv_alertName iv),
     iv_actions := map (redact_action redact) (iv_actions iv),
     iv_prior := map_option (redact_prior redact) (iv_prior iv),
     iv_matchedKnowledge := map_option (redact_matched redact) (iv_matchedKnowledge iv)\<rparr>"

text \<open>
  The walk itself, over the shape reflection sees: strings, slices, and structs with the names of their
  type and fields; a pointer is its target or nil, everything else holds no string.
\<close>

datatype go_value = VText string | VSlice "go_value list" | VStruct string "(string \<times> go_value) list" | VOther

definition redactionSkipTypes :: "string list" where
  "redactionSkipTypes = [''Workload'']"

definition redactionSkipField :: "string list" where
  "redactionSkipField = [''Investigation.Verdict'', ''Action.Op'', ''Action.ApprovalID'', ''Investigation.CuratedURL'',
     ''Investigation.PrevCuratedURL'', ''Investigation.RecalledEntry'', ''PriorKnowledge.EntryPath'', ''MatchedEntry.Path'',
     ''MatchedEntry.URL'', ''Investigation.Fingerprint'', ''Investigation.Fingerprints'', ''Investigation.TriggerKey'']"

fun redactStrings :: "(string \<Rightarrow> string) \<Rightarrow> go_value \<Rightarrow> go_value" where
  "redactStrings redact (VText s) = VText (redact s)"
| "redactStrings redact (VSlice vs) = VSlice (map (redactStrings redact) vs)"
| "redactStrings redact (VStruct t fs) =
     (if t \<in> set redactionSkipTypes then VStruct t fs
      else VStruct t (map (\<lambda>(f, v). (f, if t @ ''.'' @ f \<in> set redactionSkipField then v else redactStrings redact v)) fs))"
| "redactStrings redact VOther = VOther"

text \<open>The strings the walk visits.\<close>

fun visited :: "go_value \<Rightarrow> string list" where
  "visited (VText s) = [s]"
| "visited (VSlice vs) = concat (map visited vs)"
| "visited (VStruct t fs) = (if t \<in> set redactionSkipTypes then []
     else concat (map (\<lambda>(f, v). if t @ ''.'' @ f \<in> set redactionSkipField then [] else visited v) fs))"
| "visited VOther = []"

lemma visited_redacted: "visited (redactStrings redact v) = map redact (visited v)"
proof (induction redact v rule: redactStrings.induct)
  case (2 redact vs)
  then show ?case by (induction vs) simp_all
next
  case (3 redact t fs)
  show ?case
  proof (cases "t \<in> set redactionSkipTypes")
    case False
    have "visited (redactStrings redact v) = map redact (visited v)"
      if "(f, v) \<in> set fs" "t @ CHR ''.'' # f \<notin> set redactionSkipField" for f v
      using False 3 that by auto
    then have m: "map (\<lambda>(f, v). if t @ CHR ''.'' # f \<in> set redactionSkipField then [] else visited (redactStrings redact v)) fs
        = map (map redact \<circ> (\<lambda>(f, v). if t @ CHR ''.'' # f \<in> set redactionSkipField then [] else visited v)) fs"
      by (intro map_cong) auto
    have c: "(\<lambda>(f, v). if t @ CHR ''.'' # f \<in> set redactionSkipField then [] else visited v)
        \<circ> (\<lambda>(f, v). (f, if t @ CHR ''.'' # f \<in> set redactionSkipField then v else redactStrings redact v))
      = (\<lambda>(f, v). if t @ CHR ''.'' # f \<in> set redactionSkipField then [] else visited (redactStrings redact v))" by (auto simp: fun_eq_iff)
    show ?thesis using False by (simp add: map_concat c m del: map_eq_conv)
  qed simp
qed simp_all

text \<open>The shape of a result as the delivery sees it. Fields that are filled later only are left out.\<close>

definition texts_shape :: "string list \<Rightarrow> go_value" where
  "texts_shape xs = VSlice (map VText xs)"

definition workload_shape :: "workload \<Rightarrow> go_value" where
  "workload_shape w = VStruct ''Workload'' [(''Kind'', VText (wl_kind w)), (''Name'', VText (wl_name w)),
     (''Namespace'', VText (wl_namespace w)), (''Region'', VText (wl_region w)), (''Account'', VText (wl_account w)), (''Scope'', VOther)]"

definition hypothesis_shape :: "hypothesis \<Rightarrow> go_value" where
  "hypothesis_shape h = VStruct ''Hypothesis'' [(''Summary'', VText (hy_summary h)), (''Confidence'', VOther),
     (''ChangeRef'', VText (hy_changeRef h)), (''Evidence'', texts_shape (hy_evidence h)),
     (''SuggestedAction'', VText (hy_suggestedAction h)), (''Reversible'', VOther)]"

definition action_shape :: "action \<Rightarrow> go_value" where
  "action_shape a = VStruct ''Action'' [(''Name'', VText (ac_name a)), (''Description'', VText (ac_description a)),
     (''Op'', VText (ac_op a)), (''Target'', workload_shape (ac_target a)), (''Mutating'', VOther), (''Reversible'', VOther),
     (''BlastRadius'', VOther), (''ApprovalID'', VText (ac_approvalID a))]"

definition prior_shape :: "prior_knowledge \<Rightarrow> go_value" where
  "prior_shape p = VStruct ''PriorKnowledge'' [(''Cause'', VText (pk_cause p)), (''Resolution'', VText (pk_resolution p)),
     (''EntryPath'', VText (pk_entryPath p)), (''Recalls'', VOther), (''Resolved'', VOther)]"

definition matched_shape :: "matched_entry \<Rightarrow> go_value" where
  "matched_shape m = VStruct ''MatchedEntry'' [(''Path'', VText (me_path m)), (''Title'', VText (me_title m)),
     (''URL'', VText (me_url m)), (''Score'', VOther)]"

definition pointer_shape :: "('a \<Rightarrow> go_value) \<Rightarrow> 'a option \<Rightarrow> go_value" where
  "pointer_shape f x = (case x of None \<Rightarrow> VOther | Some y \<Rightarrow> f y)"

definition investigation_shape :: "investigation \<Rightarrow> go_value" where
  "investigation_shape iv = VStruct ''Investigation'' [(''Title'', VText (iv_title iv)),
     (''RootCauses'', VSlice (map hypothesis_shape (iv_rootCauses iv))), (''Unresolved'', texts_shape (iv_unresolved iv)),
     (''Verdict'', VText (iv_verdict iv)), (''RuledOut'', texts_shape (iv_ruledOut iv)), (''DataGaps'', texts_shape (iv_dataGaps iv)),
     (''Confidence'', VOther), (''Recalled'', VOther), (''Resource'', workload_shape (iv_resource iv)),
     (''AlertResource'', workload_shape (iv_alertResource iv)), (''Severity'', VText (iv_severity iv)),
     (''Environment'', VText (iv_environment iv)), (''Cluster'', VText (iv_cluster iv)), (''Tenant'', VText (iv_tenant iv)),
     (''AlertName'', VText (iv_alertName iv)), (''StartedAt'', VOther), (''InvestigationStartedAt'', VOther),
     (''Actions'', VSlice (map action_shape (iv_actions iv))), (''CuratedURL'', VText (iv_curatedURL iv)),
     (''Fingerprint'', VText (iv_fingerprint iv)), (''Fingerprints'', texts_shape (iv_fingerprints iv)),
     (''TriggerKey'', VText (iv_triggerKey iv)), (''RecalledEntry'', VText (iv_recalledEntry iv)), (''Verified'', VOther),
     (''Usage'', VOther), (''Prior'', pointer_shape prior_shape (iv_prior iv)),
     (''MatchedKnowledge'', pointer_shape matched_shape (iv_matchedKnowledge iv))]"

lemmas shape_defs = texts_shape_def workload_shape_def hypothesis_shape_def action_shape_def prior_shape_def matched_shape_def
  redact_hypothesis_def redact_action_def redact_prior_def redact_matched_def redactionSkipTypes_def redactionSkipField_def

lemma redact_part_shapes:
  "hypothesis_shape (redact_hypothesis r h) = redactStrings r (hypothesis_shape h)"
  "action_shape (redact_action r a) = redactStrings r (action_shape a)"
  "prior_shape (redact_prior r p) = redactStrings r (prior_shape p)"
  "matched_shape (redact_matched r m) = redactStrings r (matched_shape m)"
  "texts_shape (map r xs) = redactStrings r (texts_shape xs)"
  "redactStrings r (workload_shape w) = workload_shape w"
  by (simp_all add: shape_defs)

text \<open>The definition written out over the records is what the walk does to the shape.\<close>

lemma redactInvestigation_walks:
  "investigation_shape (redactInvestigation redact iv) = redactStrings redact (investigation_shape iv)"
proof -
  have p: "pointer_shape f (map_option g x) = redactStrings redact (pointer_shape f x)"
    if "\<And>y. f (g y) = redactStrings redact (f y)" for f x and g :: "'x \<Rightarrow> 'x"
    using that by (cases x) (simp_all add: pointer_shape_def)
  have l: "VSlice (map hypothesis_shape (map (redact_hypothesis redact) hs)) = redactStrings redact (VSlice (map hypothesis_shape hs))"
    "VSlice (map action_shape (map (redact_action redact) as)) = redactStrings redact (VSlice (map action_shape as))" for hs as
    by (simp_all add: redact_part_shapes)
  show ?thesis
    unfolding investigation_shape_def redactInvestigation_def
    by (simp del: redactStrings.simps(2) map_map add: l p redact_part_shapes redactionSkipTypes_def redactionSkipField_def)
qed

text \<open>What the executor, the ledger and the deduplication read is left as it is.\<close>

lemma redact_identity:
  "iv_resource (redactInvestigation redact iv) = iv_resource iv"
  "iv_verdict (redactInvestigation redact iv) = iv_verdict iv"
  "iv_confidence (redactInvestigation redact iv) = iv_confidence iv"
  "iv_fingerprint (redactInvestigation redact iv) = iv_fingerprint iv"
  "iv_fingerprints (redactInvestigation redact iv) = iv_fingerprints iv"
  "iv_triggerKey (redactInvestigation redact iv) = iv_triggerKey iv"
  "iv_recalled (redactInvestigation redact iv) = iv_recalled iv"
  "iv_recalledEntry (redactInvestigation redact iv) = iv_recalledEntry iv"
  "iv_verified (redactInvestigation redact iv) = iv_verified iv"
  "iv_usage (redactInvestigation redact iv) = iv_usage iv"
  "iv_investigationStartedAt (redactInvestigation redact iv) = iv_investigationStartedAt iv"
  "map hy_confidence (iv_rootCauses (redactInvestigation redact iv)) = map hy_confidence (iv_rootCauses iv)"
  "map ac_op (iv_actions (redactInvestigation redact iv)) = map ac_op (iv_actions iv)"
  "map ac_target (iv_actions (redactInvestigation redact iv)) = map ac_target (iv_actions iv)"
  by (simp_all add: redactInvestigation_def redact_hypothesis_def redact_action_def)

section \<open>Delivery\<close>

record delivery_env =
  dl_redact :: "string \<Rightarrow> string"
  dl_kindScope :: "(string \<Rightarrow> resource_scope option) option"
  dl_start :: gotime
  dl_config :: spend_config

text \<open>\<open>finish\<close> and \<open>deliver\<close>: the investigation that \<open>OnComplete\<close> receives.\<close>

definition finish :: "delivery_env \<Rightarrow> usage_totals \<Rightarrow> usage_totals \<Rightarrow> usage_totals \<Rightarrow> investigation \<Rightarrow> investigation" where
  "finish dl loopTotals verifyTotals embedded iv0 =
     (let iv = iv0\<lparr>iv_usage := aggregateUsage (dl_config dl) loopTotals verifyTotals embedded,
            iv_investigationStartedAt := dl_start dl, iv_resource := scopeResource (dl_kindScope dl) (iv_resource iv0)\<rparr>
      in redactInvestigation (dl_redact dl) iv)"

lemma finish_frame [simp]:
  "iv_verdict (finish dl lt vt e iv) = iv_verdict iv" "iv_confidence (finish dl lt vt e iv) = iv_confidence iv"
  "iv_recalled (finish dl lt vt e iv) = iv_recalled iv" "iv_verified (finish dl lt vt e iv) = iv_verified iv"
  "iv_recalledEntry (finish dl lt vt e iv) = iv_recalledEntry iv"
  "iv_investigationStartedAt (finish dl lt vt e iv) = dl_start dl"
  "iv_usage (finish dl lt vt e iv) = aggregateUsage (dl_config dl) lt vt e"
  by (simp_all add: finish_def redact_identity)

section \<open>Progress\<close>

record progress_update =
  pu_title :: string
  pu_step :: int
  pu_maxSteps :: int
  pu_toolsUsed :: "string \<Rightarrow> nat"
  pu_interim :: string

definition emitProgress :: "(string \<Rightarrow> string) \<Rightarrow> int \<Rightarrow> request \<Rightarrow> int \<Rightarrow> int \<Rightarrow> (string \<Rightarrow> nat) \<Rightarrow> string \<Rightarrow> progress_update list" where
  "emitProgress redact every req step maxSteps used interim =
     (if every \<le> 0 then []
      else if (step + 1) mod every \<noteq> 0 then []
      else [\<lparr>pu_title = rq_title req, pu_step = step + 1, pu_maxSteps = maxSteps, pu_toolsUsed = used,
             pu_interim = redact interim\<rparr>])"

end
