(* ===== verification/Loop.thy ===== *)
theory Loop
  imports Delivery Seed Ladder Recall RecurrenceGate
begin

text \<open>
  The investigation loop: \<open>Investigate\<close> and \<open>tryRecall\<close> of \<open>internal/investigate/loop.go\<close> with
  \<open>recalledInvestigation\<close> of \<open>recall.go\<close>. The recurrence gate is asked first, then instant recall, then
  the model runs for at most \<open>maxSteps\<close> steps over the tools; every way out but a model error delivers
  one result. What the model, the tools and the reviewer answer at each step are parameters, which may
  depend on the step and on what they are given. The locals of the loop are the record \<open>loop_state\<close>,
  with the part the spend guard works on inside; requests sent and progress pings are traces. The code
  reads one catalog at three places: instant recall, the knowledge-base tool and the tracker of its best
  hit. Here they are separate parameters, so that a property of one says nothing of the others.
\<close>

section \<open>Environment and state\<close>

record loop_env =
  le_guard :: guard_env
  le_delivery :: delivery_env
  le_maxSteps :: int
  le_verify :: bool
  le_actions :: "action_policy option"
  le_recall :: "recall option"
  le_recurrence :: "duration option"
  le_history :: "(string \<Rightarrow> trigger_recurrence) option"
  le_now :: gotime
  le_seed :: seed_env
  le_tools :: "nat \<Rightarrow> tool_config"
  le_confirmTools :: tool_config
  le_model :: "nat \<Rightarrow> string \<Rightarrow> message list \<Rightarrow> tool_spec list \<Rightarrow> string \<Rightarrow> completion"
  le_deadline :: "nat \<Rightarrow> bool"
  le_digest :: "nat \<Rightarrow> completion"
  le_review :: "investigation \<Rightarrow> completion"
  le_recallReview :: "investigation \<Rightarrow> completion"
  le_parseVerdicts :: "string \<Rightarrow> review_verdict list"
  le_recallEmbedded :: usage_totals
  le_observe :: "nat \<Rightarrow> tool_call \<Rightarrow> workload list"
  le_kbHits :: "nat \<Rightarrow> tool_call \<Rightarrow> scored_entry list"
  le_kbMatchScore :: rat
  le_progressEvery :: int

record sent_request =
  sr_messages :: "message list"
  sr_toolChoice :: string

record loop_state =
  lp_guard :: guard_state
  lp_nudged :: bool
  lp_truncationNudged :: bool
  lp_forcedFinal :: bool
  lp_used :: "string \<Rightarrow> nat"
  lp_observed :: observed_resources
  lp_kbHit :: "matched_entry option"
  lp_requests :: "sent_request list"
  lp_progress :: "progress_update list"

abbreviation loop_request :: "loop_env \<Rightarrow> request" where
  "loop_request env \<equiv> ge_request (le_guard env)"

abbreviation loop_config :: "loop_env \<Rightarrow> spend_config" where
  "loop_config env \<equiv> ge_config (le_guard env)"

section \<open>Instant recall\<close>

definition recalledInvestigation :: "request \<Rightarrow> entry \<Rightarrow> rat \<Rightarrow> investigation" where
  "recalledInvestigation req e confidence =
     (let rc = \<lparr>hy_summary = en_title e @ '' '' @ em_dash @ '' '' @ en_description e, hy_confidence = confidence,
            hy_changeRef = [], hy_evidence = [''instant recall: matched knowledge-base entry '' @ go_quote (en_path e)],
            hy_suggestedAction = [], hy_reversible = False\<rparr>;
          iv = zero_investigation\<lparr>iv_title := rq_title req, iv_confidence := confidence, iv_rootCauses := [rc],
            iv_unresolved := [''recalled from the catalog without a fresh investigation '' @ em_dash @ '' confirm it still applies''],
            iv_recalled := True, iv_recalledEntry := en_path e, iv_resource := rq_workload req\<rparr>;
          cause = Section e ''Cause''; resolution = Section e ''Resolution'';
          iv1 = (if cause \<noteq> [] \<or> resolution \<noteq> []
            then iv\<lparr>iv_prior := Some \<lparr>pk_cause = cause, pk_resolution = resolution, pk_entryPath = en_path e,
                   pk_recalls = 0, pk_resolved = 0\<rparr>\<rparr> else iv)
      in stampRequestFacts req iv1)"

record recall_decision =
  rd_fired :: bool
  rd_entry :: string
  rd_shortCircuited :: bool
  rd_verifyUnavailable :: bool

text \<open>\<open>rx_answer\<close> is what is handed to \<open>finish\<close>, the lead of a fall-through is \<open>rx_nearMiss\<close>.\<close>

record recall_exit =
  rx_nearMiss :: "entry option"
  rx_answer :: "investigation option"
  rx_verifyTotals :: usage_totals
  rx_decisions :: "recall_decision list"

definition spend_channel :: "loop_env \<Rightarrow> usage_totals \<Rightarrow> usage_totals \<Rightarrow> recall_spend option" where
  "spend_channel env loopTotals verifyTotals = Some \<lparr>sp_totals = Some verifyTotals,
     sp_afford = Some (\<lambda>vt est. budgetTrip (loop_config env) est
        (aggregateUsage (loop_config env) loopTotals (case vt of None \<Rightarrow> zero_totals | Some t \<Rightarrow> t) (le_recallEmbedded env))),
     sp_shadow = (False, False)\<rparr>"

definition channel_totals :: "recall_spend option \<Rightarrow> usage_totals" where
  "channel_totals s = (case s of None \<Rightarrow> zero_totals
     | Some s \<Rightarrow> (case sp_totals s of None \<Rightarrow> zero_totals | Some t \<Rightarrow> t))"

text \<open>A fired entry: confronted with the live state, de-rated if that failed, and reviewed.\<close>

definition review_recalled :: "loop_env \<Rightarrow> entry \<Rightarrow> rat \<Rightarrow> usage_totals \<Rightarrow> (investigation \<times> bool) \<times> usage_totals" where
  "review_recalled env e c vt =
     (case confirmRecall (le_confirmTools env) (loop_request env) (recalledInvestigation (loop_request env) e c) of
        (confirmed, transcript) \<Rightarrow>
          let iv = (if transcript = [] then capRecallConfidence confirmed recallUnconfirmedCap else confirmed)
          in if le_verify env then verifyFindings (le_parseVerdicts env) (le_recallReview env iv) iv vt else ((iv, True), vt))"

definition tryRecall :: "loop_env \<Rightarrow> usage_totals \<Rightarrow> usage_totals \<Rightarrow> recall_exit" where
  "tryRecall env loopTotals verifyTotals = (case le_recall env of
     None \<Rightarrow> \<lparr>rx_nearMiss = None, rx_answer = None, rx_verifyTotals = verifyTotals, rx_decisions = []\<rparr>
   | Some r \<Rightarrow>
       if autoExecuting (le_actions env)
       then \<lparr>rx_nearMiss = None, rx_answer = None, rx_verifyTotals = verifyTotals, rx_decisions = []\<rparr>
       else (case lookupWithUsage r (loop_request env) (spend_channel env loopTotals verifyTotals) of
         (None, rejected, s) \<Rightarrow>
           \<lparr>rx_nearMiss = nearMissExcluding r (loop_request env) rejected, rx_answer = None,
            rx_verifyTotals = channel_totals s, rx_decisions = [\<lparr>rd_fired = False, rd_entry = [],
              rd_shortCircuited = False, rd_verifyUnavailable = False\<rparr>]\<rparr>
       | (Some (e, c), rejected, s) \<Rightarrow>
           (case review_recalled env e c (channel_totals s) of ((iv, verified), vt) \<Rightarrow>
              let lead = nearMissExcluding r (loop_request env) (rejected @ [en_path e])
              in if \<not> verified
                 then \<lparr>rx_nearMiss = lead, rx_answer = None, rx_verifyTotals = vt, rx_decisions = [\<lparr>rd_fired = True,
                        rd_entry = en_path e, rd_shortCircuited = False, rd_verifyUnavailable = True\<rparr>]\<rparr>
                 else if iv_rootCauses iv \<noteq> []
                 then \<lparr>rx_nearMiss = None, rx_answer = Some iv, rx_verifyTotals = vt, rx_decisions = [\<lparr>rd_fired = True,
                        rd_entry = en_path e, rd_shortCircuited = True, rd_verifyUnavailable = False\<rparr>]\<rparr>
                 else \<lparr>rx_nearMiss = lead, rx_answer = None, rx_verifyTotals = vt, rx_decisions = [\<lparr>rd_fired = True,
                        rd_entry = en_path e, rd_shortCircuited = False, rd_verifyUnavailable = False\<rparr>]\<rparr>)))"

section \<open>One step\<close>

definition assistant_message :: "completion \<Rightarrow> tool_call list \<Rightarrow> message" where
  "assistant_message resp calls = \<lparr>ms_role = ''assistant'', ms_content = cp_text resp, ms_toolCalls = calls, ms_toolCallID = []\<rparr>"

definition truncationPrompt :: string where
  "truncationPrompt = ''Your previous response was cut off at the output limit. Continue from where you stopped, but be ''
     @ ''concise: prioritise calling a tool (or submit_findings) over long prose.''"

definition prosePrompt :: string where
  "prosePrompt = ''Record your conclusion now by calling the submit_findings tool (ranked root_causes with evidence, ''
     @ ''plus anything unresolved). Do not answer in prose.''"

datatype turn =
    GoesOn loop_state
  | Finishes investigation loop_state
  | Fails loop_state

definition label_result :: "string \<Rightarrow> loop_state \<Rightarrow> loop_state" where
  "label_result r st = st\<lparr>lp_guard := (lp_guard st)\<lparr>gs_result := r\<rparr>\<rparr>"

definition append_messages :: "message list \<Rightarrow> loop_state \<Rightarrow> loop_state" where
  "append_messages ms st = st\<lparr>lp_guard := (lp_guard st)\<lparr>gs_messages := gs_messages (lp_guard st) @ ms\<rparr>\<rparr>"

text \<open>The request of step \<open>n\<close>: the last one forces a submission, unless the budget already did.\<close>

definition is_final :: "loop_env \<Rightarrow> nat \<Rightarrow> guard_state \<Rightarrow> bool" where
  "is_final env n g \<longleftrightarrow> int n = le_maxSteps env - 1 \<and> gs_toolChoice g \<noteq> submitFindingsName"

definition begin_request :: "loop_env \<Rightarrow> nat \<Rightarrow> guard_state \<Rightarrow> loop_state \<Rightarrow> loop_state" where
  "begin_request env n g st =
     (let g1 = force_final (is_final env n g) g
      in st\<lparr>lp_guard := g1, lp_forcedFinal := lp_forcedFinal st \<or> is_final env n g,
            lp_requests := lp_requests st @ [\<lparr>sr_messages = gs_messages g1, sr_toolChoice = gs_toolChoice g1\<rparr>]\<rparr>)"

definition raw_estimate :: "loop_env \<Rightarrow> guard_state \<Rightarrow> int" where
  "raw_estimate env g = int (EstimateTokens (ge_system (le_guard env)) (gs_messages g) (ge_specs (le_guard env)))"

definition charge :: "usage \<Rightarrow> loop_state \<Rightarrow> loop_state" where
  "charge u st = st\<lparr>lp_guard := (lp_guard st)\<lparr>gs_loopTotals := addUsage (gs_loopTotals (lp_guard st)) u\<rparr>\<rparr>"

definition calibrate :: "int \<Rightarrow> usage \<Rightarrow> loop_state \<Rightarrow> loop_state" where
  "calibrate h u st = st\<lparr>lp_guard := (lp_guard st)\<lparr>gs_ratio := observe (gs_ratio (lp_guard st)) h u\<rparr>\<rparr>"

definition count_used :: "tool_call list \<Rightarrow> (string \<Rightarrow> nat) \<Rightarrow> string \<Rightarrow> nat" where
  "count_used run used = fold (\<lambda>tc u. if tc_name tc \<noteq> submitFindingsName then u(tc_name tc := u (tc_name tc) + 1) else u) run used"

text \<open>
  A turn with tool calls: those before the terminal call run, their results are recorded, and what
  they saw on the server and in the knowledge base is remembered, in call order.
\<close>

definition run_tools :: "loop_env \<Rightarrow> nat \<Rightarrow> completion \<Rightarrow> tool_call list \<Rightarrow> loop_state \<Rightarrow> loop_state" where
  "run_tools env n resp run st =
     (let real = filter (\<lambda>tc. tc_name tc \<noteq> submitFindingsName) run; used = count_used run (lp_used st);
          st1 = append_messages (assistant_message resp (cp_toolCalls resp) # dispatchTools (le_tools env n) run) st
      in st1\<lparr>lp_nudged := False, lp_used := used,
             lp_observed := fold (\<lambda>tc. recordObserved (le_observe env n tc)) real (lp_observed st),
             lp_kbHit := fold (\<lambda>tc. observeTopHit (newKBHitTracker (le_kbMatchScore env)) (le_kbHits env n tc)) real (lp_kbHit st),
             lp_progress := lp_progress st @ emitProgress (dl_redact (le_delivery env)) (le_progressEvery env)
               (loop_request env) (int n) (le_maxSteps env) used (cp_text resp)\<rparr>)"

text \<open>An accepted submission: stamped, reviewed, its actions filtered.\<close>

definition stamp_final :: "loop_env \<Rightarrow> loop_state \<Rightarrow> investigation \<Rightarrow> investigation" where
  "stamp_final env st final =
     (let req = loop_request env;
          iv = (if iv_title final = [] then final\<lparr>iv_title := rq_title req\<rparr> else final)
      in stampMatchedKnowledge (lp_kbHit st) (stampRequestFacts req
           (iv\<lparr>iv_resource := preferDiscoveredResource (iv_resource iv) (rq_workload req)\<rparr>)))"

definition conclude :: "loop_env \<Rightarrow> investigation \<Rightarrow> loop_state \<Rightarrow> turn" where
  "conclude env final st =
     (let iv = stamp_final env st final; vt = gs_verifyTotals (lp_guard st)
      in case (if le_verify env then verifyFindings (le_parseVerdicts env) (le_review env iv) iv vt else ((iv, False), vt)) of
           ((iv1, _), vt1) \<Rightarrow>
             let iv2 = iv1\<lparr>iv_actions := reviewActions (le_actions env) (Some (lp_observed st)) (iv_actions iv1)\<rparr>;
                 st1 = label_result (if lp_forcedFinal st then ''max_steps_degraded'' else ''resolved'')
                   (st\<lparr>lp_guard := (lp_guard st)\<lparr>gs_verifyTotals := vt1\<rparr>\<rparr>)
             in Finishes iv2 st1)"

definition handle_turn :: "loop_env \<Rightarrow> nat \<Rightarrow> completion \<Rightarrow> loop_state \<Rightarrow> turn" where
  "handle_turn env n resp st =
     (if Refused resp then Finishes (refusalResult (loop_request env)) (label_result ''refused'' st)
      else if cp_truncated resp \<and> \<not> lp_truncationNudged st
      then GoesOn (append_messages [assistant_message resp [], user_message truncationPrompt] (st\<lparr>lp_truncationNudged := True\<rparr>))
      else if cp_toolCalls resp = []
      then (if lp_nudged st
            then Finishes (nonConvergenceResult (loop_request env)
                   ''model concluded in prose without calling submit_findings after a nudge'') (label_result ''inconclusive'' st)
            else GoesOn (append_messages [assistant_message resp [], user_message prosePrompt] (st\<lparr>lp_nudged := True\<rparr>)))
      else (case split_terminal (le_tools env n) (cp_toolCalls resp) of
              (run, None) \<Rightarrow> GoesOn (run_tools env n resp run st)
            | (run, Some final) \<Rightarrow> conclude env final (run_tools env n resp run st)))"

definition loop_step :: "loop_env \<Rightarrow> nat \<Rightarrow> loop_state \<Rightarrow> turn" where
  "loop_step env n st = (case enforceBudget (le_guard env) (le_digest env n) (lp_guard st) of
     (Some kill, g) \<Rightarrow> Finishes kill (st\<lparr>lp_guard := g\<rparr>)
   | (None, g) \<Rightarrow>
       let st1 = begin_request env n g st; g1 = lp_guard st1;
           resp = le_model env n (ge_system (le_guard env)) (gs_messages g1) (ge_specs (le_guard env)) (gs_toolChoice g1);
           st2 = charge (cp_usage resp) st1
       in if cp_err resp
          then (if le_deadline env n then Finishes (timeoutResult (loop_request env)) (label_result ''timeout'' st2)
                else Fails (label_result ''error'' st2))
          else handle_turn env n resp (calibrate (raw_estimate env g1) (cp_usage resp) st2))"

section \<open>The loop and the whole investigation\<close>

definition max_steps_reason :: "loop_env \<Rightarrow> string" where
  "max_steps_reason env = ''investigation exhausted its '' @ fmt_decimal (le_maxSteps env) @ ''-step budget without concluding''"

fun loop_steps :: "loop_env \<Rightarrow> nat list \<Rightarrow> loop_state \<Rightarrow> turn" where
  "loop_steps env [] st = Finishes (nonConvergenceResult (loop_request env) (max_steps_reason env)) (label_result ''max_steps'' st)"
| "loop_steps env (n # ns) st = (case loop_step env n st of GoesOn st' \<Rightarrow> loop_steps env ns st' | t \<Rightarrow> t)"

definition seed_message :: "loop_env \<Rightarrow> trigger_recurrence \<Rightarrow> entry option \<Rightarrow> message" where
  "seed_message env prior nearMiss = user_message (dl_redact (le_delivery env) (seedPrompt (le_seed env) (loop_request env)
     \<lparr>sx_nearMiss = nearMiss, sx_prior = replayableStandingAnswer (le_actions env) prior\<rparr>))"

definition initial_state :: "loop_env \<Rightarrow> message \<Rightarrow> usage_totals \<Rightarrow> loop_state" where
  "initial_state env seed verifyTotals = \<lparr>lp_guard = \<lparr>gs_messages = [seed], gs_ratio = 0, gs_loopTotals = zero_totals,
       gs_verifyTotals = verifyTotals, gs_budgetStop = [], gs_toolChoice = [], gs_result = ''unresolved''\<rparr>,
     lp_nudged = False, lp_truncationNudged = False, lp_forcedFinal = False, lp_used = (\<lambda>_. 0),
     lp_observed = WithObservedResources [rq_workload (loop_request env)], lp_kbHit = None, lp_requests = [], lp_progress = []\<rparr>"

definition with_default_steps :: "loop_env \<Rightarrow> loop_env" where
  "with_default_steps env = (if le_maxSteps env \<le> 0 then env\<lparr>le_maxSteps := 20\<rparr> else env)"

definition run_loop :: "loop_env \<Rightarrow> message \<Rightarrow> usage_totals \<Rightarrow> turn" where
  "run_loop env0 seed verifyTotals =
     (let env = with_default_steps env0
      in loop_steps env [0..<nat (le_maxSteps env)] (initial_state env seed verifyTotals))"

record loop_run =
  lr_result :: string
  lr_error :: bool
  lr_deliveries :: "investigation list"
  lr_decisions :: "recall_decision list"
  lr_requests :: "sent_request list"
  lr_progress :: "progress_update list"

definition run_of_turn :: "loop_env \<Rightarrow> recall_decision list \<Rightarrow> turn \<Rightarrow> loop_run" where
  "run_of_turn env ds t = (case t of
     Finishes iv st \<Rightarrow> \<lparr>lr_result = gs_result (lp_guard st), lr_error = False,
       lr_deliveries = [finish (le_delivery env) (gs_loopTotals (lp_guard st)) (gs_verifyTotals (lp_guard st)) (ge_embedded (le_guard env)) iv],
       lr_decisions = ds, lr_requests = lp_requests st, lr_progress = lp_progress st\<rparr>
   | Fails st \<Rightarrow> \<lparr>lr_result = gs_result (lp_guard st), lr_error = True, lr_deliveries = [], lr_decisions = ds,
       lr_requests = lp_requests st, lr_progress = lp_progress st\<rparr>
   | GoesOn st \<Rightarrow> \<lparr>lr_result = gs_result (lp_guard st), lr_error = False, lr_deliveries = [], lr_decisions = ds,
       lr_requests = lp_requests st, lr_progress = lp_progress st\<rparr>)"

definition Investigate :: "loop_env \<Rightarrow> loop_run" where
  "Investigate env =
     (let req = loop_request env; prior = priorForTrigger (le_history env) (rq_triggerKey req);
          decision = decide (le_recurrence env) req prior (le_now env)
      in if suppressed decision
         then \<lparr>lr_result = (if decision = recurrenceSilenced then ''silenced'' else ''recurrence_suppressed''), lr_error = False,
               lr_deliveries = [], lr_decisions = [], lr_requests = [], lr_progress = []\<rparr>
         else (let rx = tryRecall env zero_totals zero_totals
               in case rx_answer rx of
                    Some iv \<Rightarrow> \<lparr>lr_result = ''recall'', lr_error = False,
                      lr_deliveries = [finish (le_delivery env) zero_totals (rx_verifyTotals rx) (le_recallEmbedded env) iv],
                      lr_decisions = rx_decisions rx, lr_requests = [], lr_progress = []\<rparr>
                  | None \<Rightarrow> run_of_turn env (rx_decisions rx)
                      (run_loop env (seed_message env prior (rx_nearMiss rx)) (rx_verifyTotals rx))))"

end
