(* ===== verification/LoopSteps.thy ===== *)
theory LoopSteps
  imports Loop
begin

text \<open>
  The ways through one step of the investigation loop, as case rules, and what each leaves alone;
  the runs of the loop as runs of the spend guard; the shape of the conversation. The properties of
  whole investigations in \<open>LoopGuards\<close> rest on these.
\<close>

section \<open>The ways through a step\<close>

primrec turn_state :: "turn \<Rightarrow> loop_state" where
  "turn_state (GoesOn st) = st"
| "turn_state (Finishes iv st) = st"
| "turn_state (Fails st) = st"

lemma label_result_simps [simp]:
  "lp_requests (label_result r st) = lp_requests st" "gs_result (lp_guard (label_result r st)) = r"
  "gs_messages (lp_guard (label_result r st)) = gs_messages (lp_guard st)"
  "gs_loopTotals (lp_guard (label_result r st)) = gs_loopTotals (lp_guard st)"
  "gs_verifyTotals (lp_guard (label_result r st)) = gs_verifyTotals (lp_guard st)"
  "lp_observed (label_result r st) = lp_observed st" "lp_progress (label_result r st) = lp_progress st"
  by (simp_all add: label_result_def)

lemma append_messages_simps [simp]:
  "lp_requests (append_messages ms st) = lp_requests st" "lp_progress (append_messages ms st) = lp_progress st"
  "lp_guard (append_messages ms st) = (lp_guard st)\<lparr>gs_messages := gs_messages (lp_guard st) @ ms\<rparr>"
  "lp_observed (append_messages ms st) = lp_observed st" "lp_used (append_messages ms st) = lp_used st"
  "lp_kbHit (append_messages ms st) = lp_kbHit st" "lp_nudged (append_messages ms st) = lp_nudged st"
  by (simp_all add: append_messages_def)

lemma charge_simps [simp]:
  "lp_requests (charge u st) = lp_requests st" "lp_progress (charge u st) = lp_progress st"
  "gs_messages (lp_guard (charge u st)) = gs_messages (lp_guard st)"
  "lp_requests (calibrate h u st) = lp_requests st" "lp_progress (calibrate h u st) = lp_progress st"
  "gs_messages (lp_guard (calibrate h u st)) = gs_messages (lp_guard st)"
  by (simp_all add: charge_def calibrate_def)

lemma run_tools_simps [simp]:
  "lp_requests (run_tools env n resp run st) = lp_requests st"
  "lp_guard (run_tools env n resp run st) = (lp_guard st)\<lparr>gs_messages := gs_messages (lp_guard st)
     @ assistant_message resp (cp_toolCalls resp) # dispatchTools (le_tools env n) run\<rparr>"
  by (simp_all add: run_tools_def Let_def)

lemma begin_request_simps:
  "lp_guard (begin_request env n g st) = force_final (is_final env n g) g"
  "lp_requests (begin_request env n g st) = lp_requests st
     @ [\<lparr>sr_messages = gs_messages (force_final (is_final env n g) g), sr_toolChoice = gs_toolChoice (force_final (is_final env n g) g)\<rparr>]"
  "lp_progress (begin_request env n g st) = lp_progress st"
  by (simp_all add: begin_request_def Let_def)

definition answer_of :: "loop_env \<Rightarrow> nat \<Rightarrow> guard_state \<Rightarrow> completion" where
  "answer_of env n g = le_model env n (ge_system (le_guard env)) (gs_messages g) (ge_specs (le_guard env)) (gs_toolChoice g)"

text \<open>The state in which the answer to the request of a step is handled.\<close>

definition charged_state :: "loop_env \<Rightarrow> nat \<Rightarrow> guard_state \<Rightarrow> loop_state \<Rightarrow> loop_state" where
  "charged_state env n g st = charge (cp_usage (answer_of env n (force_final (is_final env n g) g))) (begin_request env n g st)"

definition answered_state :: "loop_env \<Rightarrow> nat \<Rightarrow> guard_state \<Rightarrow> loop_state \<Rightarrow> loop_state" where
  "answered_state env n g st = calibrate (raw_estimate env (force_final (is_final env n g) g))
     (cp_usage (answer_of env n (force_final (is_final env n g) g))) (charged_state env n g st)"

lemma loop_step_cases:
  obtains (kill) iv g where "enforceBudget (le_guard env) (le_digest env n) (lp_guard st) = (Some iv, g)"
      "loop_step env n st = Finishes iv (st\<lparr>lp_guard := g\<rparr>)"
  | (failed) g where "enforceBudget (le_guard env) (le_digest env n) (lp_guard st) = (None, g)"
      "loop_step env n st = (if le_deadline env n
         then Finishes (timeoutResult (loop_request env)) (label_result ''timeout'' (charged_state env n g st))
         else Fails (label_result ''error'' (charged_state env n g st)))"
  | (answered) g where "enforceBudget (le_guard env) (le_digest env n) (lp_guard st) = (None, g)"
      "loop_step env n st = handle_turn env n (answer_of env n (force_final (is_final env n g) g)) (answered_state env n g st)"
proof -
  obtain k g where e: "enforceBudget (le_guard env) (le_digest env n) (lp_guard st) = (k, g)" by (metis prod.exhaust)
  show ?thesis
  proof (cases k)
    case (Some iv)
    then show ?thesis using e that(1) [of iv g] by (simp add: loop_step_def)
  next
    case None
    have "loop_step env n st = (if cp_err (answer_of env n (force_final (is_final env n g) g))
        then (if le_deadline env n
          then Finishes (timeoutResult (loop_request env)) (label_result ''timeout'' (charged_state env n g st))
          else Fails (label_result ''error'' (charged_state env n g st)))
        else handle_turn env n (answer_of env n (force_final (is_final env n g) g)) (answered_state env n g st))"
      using e None by (simp add: loop_step_def Let_def begin_request_simps answer_of_def charged_state_def answered_state_def)
    then show ?thesis using e None that(2,3) by (cases "cp_err (answer_of env n (force_final (is_final env n g) g))") simp_all
  qed
qed

text \<open>The answers that let the loop go on, with what they append to the history.\<close>

lemma handle_turn_cases:
  obtains (stopped) iv r where "handle_turn env n resp st = Finishes iv (label_result r st)" "r \<in> {''refused'', ''inconclusive''}"
      "iv_recalled iv = False"
  | (nudge) st' s where "handle_turn env n resp st = GoesOn (append_messages [assistant_message resp [], user_message s] st')"
      "lp_guard st' = lp_guard st" "lp_requests st' = lp_requests st" "lp_progress st' = lp_progress st"
  | (tools) "handle_turn env n resp st = GoesOn (run_tools env n resp (cp_toolCalls resp) st)" "cp_toolCalls resp \<noteq> []"
  | (final) run fin where "split_terminal (le_tools env n) (cp_toolCalls resp) = (run, Some fin)"
      "handle_turn env n resp st = conclude env fin (run_tools env n resp run st)"
proof -
  consider (refused) "Refused resp"
    | (trunc) "\<not> Refused resp" "cp_truncated resp \<and> \<not> lp_truncationNudged st"
    | (prose) "\<not> Refused resp" "\<not> (cp_truncated resp \<and> \<not> lp_truncationNudged st)" "cp_toolCalls resp = []"
    | (calls) "\<not> Refused resp" "\<not> (cp_truncated resp \<and> \<not> lp_truncationNudged st)" "cp_toolCalls resp \<noteq> []" by blast
  then show ?thesis
  proof cases
    case refused
    then show ?thesis
      using stopped [of "refusalResult (loop_request env)" "''refused''"] by (simp add: handle_turn_def result_defs)
  next
    case trunc
    then show ?thesis
      using nudge [of truncationPrompt "st\<lparr>lp_truncationNudged := True\<rparr>"] by (simp add: handle_turn_def)
  next
    case prose
    let ?why = "''model concluded in prose without calling submit_findings after a nudge''"
    have "handle_turn env n resp st = (if lp_nudged st
        then Finishes (nonConvergenceResult (loop_request env) ?why) (label_result ''inconclusive'' st)
        else GoesOn (append_messages [assistant_message resp [], user_message prosePrompt] (st\<lparr>lp_nudged := True\<rparr>)))"
      unfolding handle_turn_def using prose by (simp only: if_False if_True simp_thms)
    moreover have "iv_recalled (nonConvergenceResult (loop_request env) ?why) = False" by (simp add: result_defs)
    ultimately show ?thesis
      using nudge [of prosePrompt "st\<lparr>lp_nudged := True\<rparr>"]
        stopped [of "nonConvergenceResult (loop_request env) ?why" "''inconclusive''"]
      by (cases "lp_nudged st") simp_all
  next
    case calls
    obtain run t where s: "split_terminal (le_tools env n) (cp_toolCalls resp) = (run, t)" by (metis prod.exhaust)
    have h: "handle_turn env n resp st = (case t of None \<Rightarrow> GoesOn (run_tools env n resp run st)
        | Some fin \<Rightarrow> conclude env fin (run_tools env n resp run st))"
      unfolding handle_turn_def using calls by (simp only: if_False if_True simp_thms s prod.case)
    show ?thesis
    proof (cases t)
      case None
      then have "run = cp_toolCalls resp" using split_terminal_spec [OF s] by simp
      then show ?thesis using calls(3) h None tools by simp
    next
      case (Some fin)
      then show ?thesis using h s final by simp
    qed
  qed
qed

lemma verifyFindings_totals: "snd (verifyFindings parse resp iv t) \<in> {t, addUsage t (cp_usage resp)}"
  by (simp add: verifyFindings_def Let_def)

lemma conclude_shape:
  obtains iv vt where "conclude env fin st = Finishes (iv\<lparr>iv_actions := reviewActions (le_actions env) (Some (lp_observed st)) (iv_actions iv)\<rparr>)
     (label_result (if lp_forcedFinal st then ''max_steps_degraded'' else ''resolved'')
        (st\<lparr>lp_guard := (lp_guard st)\<lparr>gs_verifyTotals := vt\<rparr>\<rparr>))"
    "vt \<in> {gs_verifyTotals (lp_guard st), addUsage (gs_verifyTotals (lp_guard st)) (cp_usage (le_review env (stamp_final env st fin)))}"
proof -
  let ?r = "if le_verify env
    then verifyFindings (le_parseVerdicts env) (le_review env (stamp_final env st fin)) (stamp_final env st fin) (gs_verifyTotals (lp_guard st))
    else ((stamp_final env st fin, False), gs_verifyTotals (lp_guard st))"
  obtain iv ok vt where r: "?r = ((iv, ok), vt)" by (metis prod.exhaust)
  have "vt \<in> {gs_verifyTotals (lp_guard st), addUsage (gs_verifyTotals (lp_guard st)) (cp_usage (le_review env (stamp_final env st fin)))}"
    using r verifyFindings_totals [of "le_parseVerdicts env" "le_review env (stamp_final env st fin)" "stamp_final env st fin"
        "gs_verifyTotals (lp_guard st)"] by (cases "le_verify env") auto
  then show ?thesis using that [of iv vt] r unfolding conclude_def Let_def by simp
qed

lemma answered_requests [simp]:
  "lp_requests (charged_state env n g st) = lp_requests (begin_request env n g st)"
  "lp_requests (answered_state env n g st) = lp_requests (begin_request env n g st)"
  "gs_messages (lp_guard (answered_state env n g st)) = gs_messages (force_final (is_final env n g) g)"
  by (simp_all add: charged_state_def answered_state_def begin_request_simps)

text \<open>
  A step that the guard lets through sends one request; what is known of the guard's state holds
  for the request, and the state after a step that goes on has the history of the request and the
  messages of the turn.
\<close>

lemma step_request:
  assumes "enforceBudget (le_guard env) (le_digest env n) (lp_guard st) = (None, g)"
  shows "lp_requests (turn_state (loop_step env n st)) = lp_requests (begin_request env n g st)"
proof (cases rule: loop_step_cases [of env n st])
  case (answered g')
  then have g: "g' = g" using assms by simp
  show ?thesis
  proof (cases rule: handle_turn_cases [of env n "answer_of env n (force_final (is_final env n g) g)" "answered_state env n g st"])
    case (final run fin)
    then show ?thesis using answered(2) g by (cases rule: conclude_shape [of env fin "run_tools env n (answer_of env n (force_final (is_final env n g) g)) run (answered_state env n g st)"]) auto
  qed (use answered(2) g in auto)
qed (use assms in auto)

lemma step_goes_on:
  assumes "loop_step env n st = GoesOn st'"
  obtains g resp ms where "enforceBudget (le_guard env) (le_digest env n) (lp_guard st) = (None, g)"
    "resp = answer_of env n (force_final (is_final env n g) g)"
    "lp_guard st' = after_request (is_final env n g) True (cp_usage resp) (raw_estimate env (force_final (is_final env n g) g)) ms g"
    "ms \<in> {assistant_message resp (cp_toolCalls resp) # dispatchTools (le_tools env n) (cp_toolCalls resp)}
        \<union> range (\<lambda>s. [assistant_message resp [], user_message s])"
proof (cases rule: loop_step_cases [of env n st])
  case (answered g)
  let ?resp = "answer_of env n (force_final (is_final env n g) g)"
  have a: "lp_guard (answered_state env n g st)
      = after_request (is_final env n g) True (cp_usage ?resp) (raw_estimate env (force_final (is_final env n g) g)) [] g"
    by (simp add: answered_state_def charged_state_def calibrate_def charge_def begin_request_simps after_request_def)
  show ?thesis
  proof (cases rule: handle_turn_cases [of env n ?resp "answered_state env n g st"])
    case (nudge st1 s)
    then have "st' = append_messages [assistant_message ?resp [], user_message s] st1" using assms answered(2) by simp
    then show ?thesis
      using that [OF answered(1) refl, of "[assistant_message ?resp [], user_message s]"] nudge(2) a
      by (auto simp: after_request_def)
  next
    case tools
    then have "st' = run_tools env n ?resp (cp_toolCalls ?resp) (answered_state env n g st)" using assms answered(2) by simp
    then show ?thesis
      using that [OF answered(1) refl, of "assistant_message ?resp (cp_toolCalls ?resp) # dispatchTools (le_tools env n) (cp_toolCalls ?resp)"] a
      by (auto simp: after_request_def)
  next
    case (final run fin)
    then show ?thesis
      using assms answered(2)
      by (cases rule: conclude_shape [of env fin "run_tools env n ?resp run (answered_state env n g st)"]) auto
  qed (use assms answered(2) in auto)
qed (use assms in \<open>auto split: if_splits\<close>)

end
