(* ===== verification/LoopGuards.thy ===== *)
theory LoopGuards
  imports LoopSteps
begin

text \<open>
  What an investigation guarantees whatever the model, the tools, the catalog and the reviewer
  answer: it delivers exactly one result unless the model fails, within its step budget; every
  request is a well-formed conversation; its spending is a run of the spend guard; under automatic
  execution neither the catalog nor a past conclusion influences it; a recalled answer is delivered
  only after review and never carries actions.
\<close>

section \<open>One result\<close>

lemma step_ends:
  "(\<exists>st'. loop_step env n st = GoesOn st')
   \<or> (\<exists>iv st'. loop_step env n st = Finishes iv st' \<and> gs_result (lp_guard st') \<noteq> ''recall'')
   \<or> (\<exists>st'. loop_step env n st = Fails st' \<and> gs_result (lp_guard st') = ''error'')"
proof (cases rule: loop_step_cases [of env n st])
  case (kill iv g)
  then have "gs_result g = ''budget_exceeded''"
    by (cases rule: enforceBudget_cases [of "le_guard env" "le_digest env n" "lp_guard st"]) auto
  then show ?thesis using kill(2) by simp
next
  case (answered g)
  let ?resp = "answer_of env n (force_final (is_final env n g) g)"
  show ?thesis
  proof (cases rule: handle_turn_cases [of env n ?resp "answered_state env n g st"])
    case (final run fin)
    then show ?thesis using answered(2)
      by (cases rule: conclude_shape [of env fin "run_tools env n ?resp run (answered_state env n g st)"]) auto
  qed (use answered(2) in auto)
qed auto

lemma loop_steps_end:
  obtains (delivers) iv st' where "loop_steps env ns st = Finishes iv st'" "gs_result (lp_guard st') \<noteq> ''recall''"
  | (fails) st' where "loop_steps env ns st = Fails st'" "gs_result (lp_guard st') = ''error''"
proof (induction ns arbitrary: st thesis)
  case Nil
  then show ?case by simp
next
  case (Cons n ns)
  show ?case
  proof (cases "loop_step env n st")
    case (GoesOn st')
    then have "loop_steps env (n # ns) st = loop_steps env ns st'" by simp
    then show ?thesis using Cons.IH [of st' thesis] Cons.prems by simp
  qed (use step_ends [of env n st] Cons.prems in auto)
qed

text \<open>
  C2: An investigation that the recurrence gate admits delivers exactly one result,
  stamped with its start, whatever happens in it: recall, submission, refusal, deadline, spend
  ceiling, prose, or running out of steps. The one exception is a failing model, which delivers
  nothing and is an error. A suppressed trigger sends no request and delivers nothing.
\<close>

theorem exactly_one_result:
  "if suppressed (decide (le_recurrence env) (loop_request env) (priorForTrigger (le_history env) (rq_triggerKey (loop_request env))) (le_now env))
   then lr_deliveries (Investigate env) = [] \<and> lr_requests (Investigate env) = [] \<and> \<not> lr_error (Investigate env)
   else if lr_error (Investigate env)
   then lr_deliveries (Investigate env) = [] \<and> lr_result (Investigate env) = ''error''
   else \<exists>iv. lr_deliveries (Investigate env) = [iv] \<and> iv_investigationStartedAt iv = dl_start (le_delivery env)"
proof (cases "suppressed (decide (le_recurrence env) (loop_request env) (priorForTrigger (le_history env) (rq_triggerKey (loop_request env))) (le_now env))")
  case False
  let ?rx = "tryRecall env zero_totals zero_totals" and ?prior = "priorForTrigger (le_history env) (rq_triggerKey (loop_request env))"
  show ?thesis
  proof (cases "rx_answer ?rx")
    case None
    then have i: "Investigate env = run_of_turn env (rx_decisions ?rx)
        (run_loop env (seed_message env ?prior (rx_nearMiss ?rx)) (rx_verifyTotals ?rx))"
      using False by (simp add: Investigate_def Let_def)
    let ?e = "with_default_steps env"
    show ?thesis
      by (cases rule: loop_steps_end [of ?e "[0..<nat (le_maxSteps ?e)]"
            "initial_state ?e (seed_message env ?prior (rx_nearMiss ?rx)) (rx_verifyTotals ?rx)"])
        (use False in \<open>simp_all add: i run_loop_def Let_def run_of_turn_def\<close>)
  next
    case (Some iv)
    then show ?thesis using False by (simp add: Investigate_def Let_def)
  qed
qed (simp add: Investigate_def Let_def)

section \<open>The step budget\<close>

lemma finishing_requests:
  assumes "loop_step env n st = t" and "\<forall>st'. t \<noteq> GoesOn st'"
  shows "lp_requests (turn_state t) = lp_requests st
    \<or> (\<exists>g. enforceBudget (le_guard env) (le_digest env n) (lp_guard st) = (None, g)
         \<and> lp_requests (turn_state t) = lp_requests (begin_request env n g st))"
proof (cases rule: loop_step_cases [of env n st])
  case (kill iv g)
  then show ?thesis using assms(1) by auto
qed (use step_request [of env n st] assms(1) in blast)+

text \<open>The request of the last step is a forced submission.\<close>

lemma begin_request_forced:
  assumes "int n = le_maxSteps env - 1"
  shows "sr_toolChoice (last (lp_requests (begin_request env n g st))) = submitFindingsName"
  using assms by (auto simp: begin_request_simps is_final_def)

definition within_steps :: "loop_env \<Rightarrow> nat \<Rightarrow> sent_request list \<Rightarrow> bool" where
  "within_steps env m rs \<longleftrightarrow> length rs < m \<or> (length rs = m \<and> sr_toolChoice (last rs) = submitFindingsName)"

lemma loop_steps_within:
  assumes "length (lp_requests st) = i" and "int m = le_maxSteps env" and "i < m \<or> i = m \<and> within_steps env m (lp_requests st)"
  shows "within_steps env m (lp_requests (turn_state (loop_steps env [i..<m] st)))"
  using assms
proof (induction "m - i" arbitrary: i st)
  case 0
  then show ?case by auto
next
  case (Suc k)
  then have i: "i < m" by simp
  have req: "within_steps env m (lp_requests (begin_request env i g st))" for g
    using i Suc.prems(1,2) begin_request_forced [of i env g st]
    by (cases "Suc i = m") (auto simp: within_steps_def begin_request_simps)
  have len: "length (lp_requests (begin_request env i g st)) = Suc i" for g
    using Suc.prems(1) by (simp add: begin_request_simps)
  have up: "[i..<m] = i # [Suc i..<m]" using i by (simp add: upt_conv_Cons)
  have ended: "within_steps env m (lp_requests (turn_state t))" if "loop_step env i st = t" "\<forall>st'. t \<noteq> GoesOn st'" for t
    using finishing_requests [OF that]
  proof
    assume "lp_requests (turn_state t) = lp_requests st"
    then show ?thesis using i Suc.prems(1) by (simp add: within_steps_def)
  qed (use req in force)
  show ?case
  proof (cases "loop_step env i st")
    case (GoesOn st')
    then obtain g where g: "enforceBudget (le_guard env) (le_digest env i) (lp_guard st) = (None, g)"
      by (cases rule: step_goes_on) auto
    have r: "lp_requests st' = lp_requests (begin_request env i g st)"
      using step_request [OF g] GoesOn by simp
    have "within_steps env m (lp_requests (turn_state (loop_steps env [Suc i..<m] st')))"
      using Suc.hyps(2) Suc.prems(2) i req [of g] len [of g] r by (intro Suc.hyps(1)) auto
    then show ?thesis using GoesOn up by simp
  qed (use ended up in simp_all)
qed

text \<open>
  C36: An investigation asks the model at most as often as its step budget allows, twenty
  times by default, and when it uses the budget up its last request leaves the model no choice but
  to submit its findings.
\<close>

theorem requests_within_step_budget:
  "let rs = lr_requests (Investigate env); m = (if le_maxSteps env \<le> 0 then 20 else nat (le_maxSteps env))
   in length rs < m \<or> (length rs = m \<and> sr_toolChoice (last rs) = submitFindingsName)"
proof -
  let ?m = "if le_maxSteps env \<le> 0 then 20 else nat (le_maxSteps env)" and ?e = "with_default_steps env"
  have m: "int ?m = le_maxSteps ?e" "0 < ?m" by (simp_all add: with_default_steps_def)
  have run: "within_steps ?e ?m (lp_requests (turn_state (run_loop env seed vt)))" for seed vt
    unfolding run_loop_def Let_def m(1) [symmetric] nat_int
    by (rule loop_steps_within) (use m in \<open>simp_all add: initial_state_def\<close>)
  have "lr_requests (run_of_turn env ds t) = lp_requests (turn_state t)" for ds t
    by (cases t) (simp_all add: run_of_turn_def)
  then have "lr_requests (Investigate env) = [] \<or> (\<exists>seed vt. lr_requests (Investigate env) = lp_requests (turn_state (run_loop env seed vt)))"
    by (auto simp: Investigate_def Let_def split: option.split)
  then have "within_steps ?e ?m (lr_requests (Investigate env))"
    using run m(2) by (elim disjE exE) (simp_all add: within_steps_def)
  then show ?thesis by (simp add: within_steps_def Let_def)
qed

end
