(* ===== verification/Conversation.thy ===== *)
theory Conversation
  imports LoopGuards
begin

text \<open>
  The shape of the conversation that the loop sends. Every provider rejects a request in which an
  assistant turn with tool calls is not followed by one result per call, in order; the loop keeps
  that shape through nudges, truncated turns, malformed submissions and compaction.
\<close>

section \<open>Well-formed conversations\<close>

fun well_formed :: "message list \<Rightarrow> bool" where
  "well_formed [] = True"
| "well_formed (m # ms) =
     (if ms_role m = ''assistant'' \<and> ms_toolCalls m \<noteq> []
      then map ms_toolCallID (take (length (ms_toolCalls m)) ms) = map tc_id (ms_toolCalls m)
           \<and> list_all (\<lambda>r. ms_role r = ''tool'') (take (length (ms_toolCalls m)) ms)
           \<and> well_formed (drop (length (ms_toolCalls m)) ms)
      else ms_role m \<noteq> ''tool'' \<and> well_formed ms)"

definition shape :: "message \<Rightarrow> string \<times> tool_call list \<times> string" where
  "shape m = (ms_role m, ms_toolCalls m, ms_toolCallID m)"

lemma shape_eq: "shape m = shape m' \<longleftrightarrow> ms_role m = ms_role m' \<and> ms_toolCalls m = ms_toolCalls m' \<and> ms_toolCallID m = ms_toolCallID m'"
  by (auto simp: shape_def)

lemma well_formed_shape: "map shape ms = map shape ms' \<Longrightarrow> well_formed ms = well_formed ms'"
proof (induction ms arbitrary: ms' rule: well_formed.induct)
  case (2 m ms)
  then obtain m' ns where ms': "ms' = m' # ns" "shape m = shape m'" "map shape ms = map shape ns" by (cases ms') auto
  let ?k = "length (ms_toolCalls m)"
  have t: "map shape (take ?k ms) = map shape (take ?k ns)" and d: "map shape (drop ?k ms) = map shape (drop ?k ns)"
    using ms'(3) by (metis take_map, metis drop_map)
  have ids: "map ms_toolCallID (take ?k ms) = map ms_toolCallID (take ?k ns)"
    using arg_cong [OF t, of "map (snd \<circ> snd)"] by (simp add: shape_def comp_def)
  have roles: "map ms_role (take ?k ms) = map ms_role (take ?k ns)"
    using arg_cong [OF t, of "map fst"] by (simp add: shape_def comp_def)
  have all_map: "list_all (\<lambda>r. ms_role r = ''tool'') rs \<longleftrightarrow> list_all (\<lambda>x. x = ''tool'') (map ms_role rs)" for rs
    by (simp add: list.pred_map comp_def)
  show ?case
  proof (cases "ms_role m = ''assistant'' \<and> ms_toolCalls m \<noteq> []")
    case True
    then have "well_formed (drop ?k ms) = well_formed (drop ?k ns)" using 2(1) d by blast
    then show ?thesis using True ms'(1,2) ids roles by (simp add: shape_eq all_map)
  next
    case False
    then have "well_formed ms = well_formed ns" using 2(2) ms'(3) by blast
    then show ?thesis using False ms'(1,2) by (auto simp: shape_eq)
  qed
qed simp

lemma well_formed_append: "well_formed ms \<Longrightarrow> well_formed ms' \<Longrightarrow> well_formed (ms @ ms')"
proof (induction ms rule: well_formed.induct)
  case (2 m ms)
  show ?case
  proof (cases "ms_role m = ''assistant'' \<and> ms_toolCalls m \<noteq> []")
    case True
    let ?k = "length (ms_toolCalls m)"
    have "map ms_toolCallID (take ?k ms) = map tc_id (ms_toolCalls m)" using 2(3) True by simp
    then have k: "?k \<le> length ms" by (metis length_map length_take min.cobounded1)
    then show ?thesis using 2 True by simp
  qed (use 2 in auto)
qed simp

lemma well_formed_single [simp]:
  "well_formed [user_message s]" "well_formed [assistant_message resp [], user_message s]"
  by (simp_all add: user_message_def assistant_message_def)

lemma well_formed_turn: "well_formed (assistant_message resp (cp_toolCalls resp) # dispatchTools cfg (cp_toolCalls resp))"
  by (simp add: assistant_message_def dispatchTools_def comp_def list_all_iff)

declare well_formed.simps(2) [simp del]

section \<open>The guard keeps the shape\<close>

lemma marks_shape: "map shape (marks b cs ms) = map shape ms"
  by (rule nth_equalityI) (simp_all add: marks_nth shape_def)

lemma compact_shape: "map shape (fst (compactHistoryDetailed ms sys specs tgt)) = map shape ms"
  by (cases rule: compact_cases [of ms sys specs tgt]) (simp_all add: marks_shape)

lemma rewrite_shape: "map shape (out[d := (out ! d)\<lparr>ms_content := c\<rparr>]) = map shape out"
  by (cases "d < length out") (auto intro!: nth_equalityI simp: nth_list_update shape_eq)

lemma summarize_shape: "map shape (fst (snd (summarizeElided resp out removed totals))) = map shape out"
  by (simp add: summarizeElided_def Let_def rewrite_shape)

lemma compact_step_shape: "map shape (gs_messages (compact_step genv summ g)) = map shape (gs_messages g)"
proof -
  let ?h = "heuristicTarget (gs_ratio g) (compactionTarget (sc_maxTokensPerInvestigation (ge_config genv)))"
  obtain out el rm where c: "compactHistoryDetailed (gs_messages g) (ge_system genv) (ge_specs genv) ?h = (out, el, rm)"
    by (metis prod.exhaust)
  have o: "map shape out = map shape (gs_messages g)" using compact_shape by (metis c fst_conv)
  obtain k out' vt where s: "summarizeElided summ out rm (gs_verifyTotals g) = (k, out', vt)" by (metis prod.exhaust)
  have "map shape out' = map shape out" using summarize_shape by (metis s fst_conv snd_conv)
  then show ?thesis using o by (simp add: compact_step_def Let_def c s)
qed

lemma guard_well_formed:
  assumes "enforceBudget genv summ g = (None, g')" and "well_formed (gs_messages g)"
  shows "well_formed (gs_messages (force_final fin g'))"
proof -
  have c: "well_formed (gs_messages (compact_step genv summ g))"
    using assms(2) well_formed_shape [OF compact_step_shape] by blast
  then have "well_formed (gs_messages g')"
    using assms(1) by (cases rule: enforceBudget_cases [of genv summ g]) (auto simp: well_formed_append)
  then show ?thesis by (simp add: force_final_def well_formed_append)
qed

section \<open>Every request\<close>

lemma loop_steps_well_formed:
  assumes "well_formed (gs_messages (lp_guard st))" and "\<forall>rq \<in> set (lp_requests st). well_formed (sr_messages rq)"
  shows "\<forall>rq \<in> set (lp_requests (turn_state (loop_steps env ns st))). well_formed (sr_messages rq)"
  using assms
proof (induction ns arbitrary: st)
  case (Cons n ns)
  have sent: "\<forall>rq \<in> set (lp_requests (begin_request env n g st)). well_formed (sr_messages rq)"
    if "enforceBudget (le_guard env) (le_digest env n) (lp_guard st) = (None, g)" for g
    using guard_well_formed [OF that Cons.prems(1)] Cons.prems(2) by (auto simp: begin_request_simps)
  have ended: "\<forall>rq \<in> set (lp_requests (turn_state t)). well_formed (sr_messages rq)"
    if "loop_step env n st = t" "\<forall>st'. t \<noteq> GoesOn st'" for t
    using finishing_requests [OF that] Cons.prems(2) sent by auto
  show ?case
  proof (cases "loop_step env n st")
    case (GoesOn st')
    then obtain g resp ms where g: "enforceBudget (le_guard env) (le_digest env n) (lp_guard st) = (None, g)"
      and st': "lp_guard st' = after_request (is_final env n g) True (cp_usage resp) (raw_estimate env (force_final (is_final env n g) g)) ms g"
      and ms: "ms \<in> {assistant_message resp (cp_toolCalls resp) # dispatchTools (le_tools env n) (cp_toolCalls resp)}
        \<union> range (\<lambda>s. [assistant_message resp [], user_message s])"
      by (rule step_goes_on)
    have "well_formed ms" using ms well_formed_turn by auto
    then have "well_formed (gs_messages (lp_guard st'))"
      using guard_well_formed [OF g Cons.prems(1)] by (simp add: st' after_request_def well_formed_append)
    moreover have "lp_requests st' = lp_requests (begin_request env n g st)" using step_request [OF g] GoesOn by simp
    ultimately show ?thesis using Cons.IH [of st'] sent [OF g] GoesOn by simp
  qed (use ended in simp_all)
qed simp

text \<open>
  C7: Every request the loop sends is a conversation a provider accepts: each assistant turn
  with tool calls is followed by exactly one result per call, in the order of the calls, and no
  result stands anywhere else; also after nudges, truncated turns, malformed submissions, and any
  number of compactions.
\<close>

theorem requests_are_conversations:
  "list_all (\<lambda>rq. well_formed (sr_messages rq)) (lr_requests (Investigate env))"
proof -
  have run: "\<forall>rq \<in> set (lp_requests (turn_state (run_loop env seed vt))). well_formed (sr_messages rq)"
    if "seed = user_message s" for seed s vt
    unfolding run_loop_def Let_def by (rule loop_steps_well_formed) (simp_all add: initial_state_def that)
  have "lr_requests (run_of_turn env ds t) = lp_requests (turn_state t)" for ds t
    by (cases t) (simp_all add: run_of_turn_def)
  then show ?thesis
    using run by (auto simp: list_all_iff Investigate_def Let_def seed_message_def split: option.splits)
qed

end
