(* ===== verification/LoopTrust.thy ===== *)
theory LoopTrust
  imports LoopGuards RecallGuards
begin

text \<open>
  What an investigation may trust: under automatic execution nothing of the catalog or of past
  conclusions reaches it; a recalled answer is delivered only after its review and cannot act; a lead
  is never an entry that was just withdrawn; what is delivered has passed through redaction, which
  the prompt of the reranker has not.
\<close>

section \<open>Automatic execution\<close>

abbreviation elsewhere :: "recall option \<Rightarrow> (string \<Rightarrow> trigger_recurrence) option \<Rightarrow> loop_env \<Rightarrow> loop_env" where
  "elsewhere r h env \<equiv> env\<lparr>le_recall := r, le_history := h\<rparr>"

lemma elsewhere_request: "begin_request (elsewhere r h env) = begin_request env" "raw_estimate (elsewhere r h env) = raw_estimate env"
  by (intro ext, simp add: begin_request_def is_final_def raw_estimate_def Let_def)+

lemma elsewhere_conclude: "conclude (elsewhere r h env) = conclude env"
  by (intro ext) (simp add: conclude_def stamp_final_def Let_def split: prod.split)

lemma elsewhere_tools: "run_tools (elsewhere r h env) = run_tools env"
  by (intro ext) (simp add: run_tools_def Let_def)

lemma elsewhere_turn: "handle_turn (elsewhere r h env) = handle_turn env"
  by (intro ext) (simp add: handle_turn_def elsewhere_conclude elsewhere_tools split: prod.split option.split)

lemma elsewhere_step: "loop_step (elsewhere r h env) = loop_step env"
  by (intro ext) (simp add: loop_step_def elsewhere_turn elsewhere_request Let_def split: prod.split option.split)

lemma elsewhere_steps: "loop_steps (elsewhere r h env) ns st = loop_steps env ns st"
  by (induction ns arbitrary: st) (simp_all add: elsewhere_step max_steps_reason_def split: turn.split)

lemma elsewhere_loop: "run_loop (elsewhere r h env) seed vt = run_loop env seed vt"
proof -
  have "with_default_steps (elsewhere r h env) = elsewhere r h (with_default_steps env)" by (simp add: with_default_steps_def)
  then show ?thesis by (simp add: run_loop_def elsewhere_steps initial_state_def Let_def)
qed

lemma elsewhere_seed:
  assumes "autoExecuting (le_actions env)"
  shows "seed_message (elsewhere r h env) p nm = seed_message env q nm"
proof -
  have "seedPrompt (le_seed env) (loop_request env) \<lparr>sx_nearMiss = nm, sx_prior = replayableStandingAnswer (le_actions env) p\<rparr>
      = seedPrompt (le_seed env) (loop_request env) \<lparr>sx_nearMiss = nm, sx_prior = replayableStandingAnswer (le_actions env) q\<rparr>"
    using assms by (intro seed_without_answer withheld_answer) simp_all
  then show ?thesis by (simp add: seed_message_def)
qed

text \<open>
  C5: Under automatic execution neither instant recall nor the standing answer of the ledger reaches an
  investigation: when the recurrence gate suppresses it neither with the one history nor with the other,
  replacing the recall (its search, index and settings) and the history of past conclusions changes
  nothing: not the prompt, not the requests, not the result. What the model itself looks up while it
  investigates, with the knowledge-base tool and so in the same catalog, is held fixed here: it is an
  answer of a tool. What the gate itself makes of past conclusions is outside this property.
\<close>

theorem auto_ignores_recall_and_history:
  assumes "autoExecuting (le_actions env)"
    and "\<And>past. past = le_history env \<or> past = h \<Longrightarrow> \<not> suppressed (decide (le_recurrence env) (loop_request env)
        (priorForTrigger past (rq_triggerKey (loop_request env))) (le_now env))"
  shows "Investigate (env\<lparr>le_recall := r, le_history := h\<rparr>) = Investigate env"
proof -
  have rx: "tryRecall e lt vt = \<lparr>rx_nearMiss = None, rx_answer = None, rx_verifyTotals = vt, rx_decisions = []\<rparr>"
    if "autoExecuting (le_actions e)" for e lt vt
    using that by (simp add: tryRecall_def split: option.split)
  have i: "Investigate e = run_of_turn e [] (run_loop e
        (seed_message e (priorForTrigger (le_history e) (rq_triggerKey (loop_request e))) None) zero_totals)"
    if "autoExecuting (le_actions e)" "\<not> suppressed (decide (le_recurrence e) (loop_request e)
        (priorForTrigger (le_history e) (rq_triggerKey (loop_request e))) (le_now e))" for e
    using that by (simp add: Investigate_def Let_def rx)
  have "run_of_turn (elsewhere r h env) = run_of_turn env" by (intro ext) (simp add: run_of_turn_def split: turn.split)
  moreover have "seed_message (elsewhere r h env) (priorForTrigger h (rq_triggerKey (loop_request env))) None
      = seed_message env (priorForTrigger (le_history env) (rq_triggerKey (loop_request env))) None"
    by (rule elsewhere_seed [OF assms(1)])
  moreover have "Investigate (elsewhere r h env) = run_of_turn (elsewhere r h env) [] (run_loop (elsewhere r h env)
      (seed_message (elsewhere r h env) (priorForTrigger h (rq_triggerKey (loop_request env))) None) zero_totals)"
    using i [of "elsewhere r h env"] assms by simp
  moreover have "Investigate env = run_of_turn env [] (run_loop env
      (seed_message env (priorForTrigger (le_history env) (rq_triggerKey (loop_request env))) None) zero_totals)"
    using assms by (intro i) blast+
  ultimately show ?thesis by (simp only: elsewhere_loop)
qed

section \<open>Recalled answers\<close>

lemma recalled_fields:
  "iv_recalled (recalledInvestigation req e c)" "iv_recalledEntry (recalledInvestigation req e c) = en_path e"
  "iv_confidence (recalledInvestigation req e c) = c" "iv_actions (recalledInvestigation req e c) = []"
  by (simp_all add: recalledInvestigation_def Let_def stampRequestFacts_def zero_investigation_def)

lemma confirm_frame:
  assumes "confirmRecall cfg req iv = (iv', ms)"
  shows "iv_recalled iv' = iv_recalled iv" "iv_recalledEntry iv' = iv_recalledEntry iv"
    "iv_confidence iv' = iv_confidence iv" "iv_actions iv' = iv_actions iv"
  using assms by (auto simp: confirmRecall_def Let_def split: if_splits)

lemma cap_frame:
  "iv_recalled (capRecallConfidence iv c) = iv_recalled iv" "iv_recalledEntry (capRecallConfidence iv c) = iv_recalledEntry iv"
  "iv_confidence (capRecallConfidence iv c) = min (iv_confidence iv) c" "iv_actions (capRecallConfidence iv c) = iv_actions iv"
  by (auto simp: capRecallConfidence_def)

lemma verify_frame:
  assumes "verifyFindings parse resp iv t = ((iv', ok), t')"
  shows "iv_recalled iv' = iv_recalled iv" "iv_recalledEntry iv' = iv_recalledEntry iv"
    "iv_confidence iv' \<le> iv_confidence iv" "iv_actions iv = [] \<Longrightarrow> iv_actions iv' = []"
    "ok \<Longrightarrow> iv_rootCauses iv' \<noteq> [] \<Longrightarrow> iv_verified iv'"
  using assms by (auto simp: verifyFindings_def applyVerdicts_def Let_def split: if_splits)

lemma review_recalled_frame:
  assumes "review_recalled env e c vt = ((iv, ok), vt')"
  shows "iv_recalled iv \<and> iv_recalledEntry iv = en_path e \<and> iv_confidence iv \<le> c \<and> iv_actions iv = []
    \<and> (snd (confirmRecall (le_confirmTools env) (loop_request env) (recalledInvestigation (loop_request env) e c)) = []
        \<longrightarrow> iv_confidence iv \<le> recallUnconfirmedCap)
    \<and> (le_verify env \<longrightarrow> ok \<longrightarrow> iv_rootCauses iv \<noteq> [] \<longrightarrow> iv_verified iv)"
proof -
  let ?r = "recalledInvestigation (loop_request env) e c"
  obtain iv1 ms where c: "confirmRecall (le_confirmTools env) (loop_request env) ?r = (iv1, ms)" by (metis prod.exhaust)
  define iv2 where "iv2 = (if ms = [] then capRecallConfidence iv1 recallUnconfirmedCap else iv1)"
  have iv2: "iv_recalled iv2" "iv_recalledEntry iv2 = en_path e" "iv_confidence iv2 \<le> c" "iv_actions iv2 = []"
      "ms = [] \<Longrightarrow> iv_confidence iv2 \<le> recallUnconfirmedCap"
    using confirm_frame [OF c] by (simp_all add: iv2_def cap_frame recalled_fields)
  have r: "(if le_verify env then verifyFindings (le_parseVerdicts env) (le_recallReview env iv2) iv2 vt else ((iv2, True), vt)) = ((iv, ok), vt')"
    using assms unfolding review_recalled_def c iv2_def Let_def prod.case .
  show ?thesis
  proof (cases "le_verify env")
    case True
    then have v: "verifyFindings (le_parseVerdicts env) (le_recallReview env iv2) iv2 vt = ((iv, ok), vt')" using r by simp
    show ?thesis using verify_frame [OF v] iv2 c by fastforce
  next
    case False
    then show ?thesis using r iv2 c by auto
  qed
qed

lemma recalled_delivery:
  assumes "lr_result (Investigate env) = ''recall''"
  obtains iv where "rx_answer (tryRecall env zero_totals zero_totals) = Some iv"
    "Investigate env = \<lparr>lr_result = ''recall'', lr_error = False,
       lr_deliveries = [finish (le_delivery env) zero_totals (rx_verifyTotals (tryRecall env zero_totals zero_totals)) (le_recallEmbedded env) iv],
       lr_decisions = rx_decisions (tryRecall env zero_totals zero_totals), lr_requests = [], lr_progress = []\<rparr>"
proof (cases "rx_answer (tryRecall env zero_totals zero_totals)")
  case None
  let ?e = "with_default_steps env" and ?rx = "tryRecall env zero_totals zero_totals"
  have "gs_result (lp_guard (turn_state (run_loop env seed vt))) \<noteq> ''recall''" for seed vt
    by (cases rule: loop_steps_end [of ?e "[0..<nat (le_maxSteps ?e)]" "initial_state ?e seed vt"])
      (simp_all add: run_loop_def Let_def)
  moreover have "lr_result (run_of_turn env ds t) = gs_result (lp_guard (turn_state t))" for ds t
    by (cases t) (simp_all add: run_of_turn_def)
  ultimately show ?thesis using assms None by (auto simp: Investigate_def Let_def split: if_splits)
next
  case (Some iv)
  then show ?thesis
    using assms that by (auto simp: Investigate_def Let_def split: if_splits)
qed

text \<open>
  C6: An answer from the catalog short-circuits the investigation only outside automatic
  execution, only for the entry the lookup fired, with at most the confidence the lookup gave it and
  at most 0.70 when the live state could not be consulted; with the review on, only reviewed and with
  a surviving cause; it proposes no action, and no request of the loop is sent.
\<close>

theorem recalled_answer_is_reviewed:
  assumes "lr_result (Investigate env) = ''recall''"
  shows "\<exists>r e c rejected s iv. le_recall env = Some r \<and> \<not> autoExecuting (le_actions env)
    \<and> lookupWithUsage r (loop_request env) (spend_channel env zero_totals zero_totals) = (Some (e, c), rejected, s)
    \<and> lr_deliveries (Investigate env) = [iv] \<and> lr_requests (Investigate env) = []
    \<and> iv_recalled iv \<and> iv_recalledEntry iv = en_path e \<and> iv_confidence iv \<le> c \<and> iv_actions iv = []
    \<and> (le_verify env \<longrightarrow> iv_verified iv)
    \<and> (snd (confirmRecall (le_confirmTools env) (loop_request env) (recalledInvestigation (loop_request env) e c)) = []
        \<longrightarrow> iv_confidence iv \<le> recallUnconfirmedCap)"
proof -
  obtain iv where a: "rx_answer (tryRecall env zero_totals zero_totals) = Some iv"
    and i: "Investigate env = \<lparr>lr_result = ''recall'', lr_error = False,
       lr_deliveries = [finish (le_delivery env) zero_totals (rx_verifyTotals (tryRecall env zero_totals zero_totals)) (le_recallEmbedded env) iv],
       lr_decisions = rx_decisions (tryRecall env zero_totals zero_totals), lr_requests = [], lr_progress = []\<rparr>"
    using recalled_delivery [OF assms] by blast
  from a obtain r where r: "le_recall env = Some r" "\<not> autoExecuting (le_actions env)"
    by (auto simp: tryRecall_def split: option.splits if_splits)
  obtain hit rejected s where l: "lookupWithUsage r (loop_request env) (spend_channel env zero_totals zero_totals) = (hit, rejected, s)"
    by (metis prod.exhaust)
  then obtain e c where h: "hit = Some (e, c)" using a r by (cases hit) (auto simp: tryRecall_def)
  obtain iv1 ok vt where v: "review_recalled env e c (channel_totals s) = ((iv1, ok), vt)" by (metis prod.exhaust)
  have "ok" "iv1 = iv" "iv_rootCauses iv \<noteq> []"
    using a r l h v by (auto simp: tryRecall_def Let_def split: if_splits)
  moreover have "iv_actions (finish dl lt vt e iv) = map (redact_action (dl_redact dl)) (iv_actions iv)" for dl lt vt e
    by (simp add: finish_def redactInvestigation_def)
  ultimately show ?thesis
    using review_recalled_frame [OF v] r l h i by auto
qed

section \<open>Leads\<close>

text \<open>
  What the lookup rejected for its track record, and what fired but was refuted or could not
  be reviewed, does not come back as a lead in the prompt; nor does a retired or draft entry.
\<close>

theorem withdrawn_is_no_lead:
  assumes "rx_nearMiss (tryRecall env lt vt) = Some l" and "en_path l \<noteq> []"
  shows "\<exists>r res rejected s. le_recall env = Some r
    \<and> lookupWithUsage r (loop_request env) (spend_channel env lt vt) = (res, rejected, s)
    \<and> (\<forall>p \<in> set rejected. \<not> outcome_ok r p) \<and> en_path l \<notin> set rejected
    \<and> en_path l \<notin> rd_entry ` set (rx_decisions (tryRecall env lt vt)) \<and> entryActive l"
proof -
  from assms(1) obtain r where r: "le_recall env = Some r" "\<not> autoExecuting (le_actions env)"
    by (auto simp: tryRecall_def split: option.splits if_splits)
  obtain res rejected s where l: "lookupWithUsage r (loop_request env) (spend_channel env lt vt) = (res, rejected, s)"
    by (metis prod.exhaust)
  have bad: "\<forall>p \<in> set rejected. \<not> outcome_ok r p" using lookup_spec [OF l] by blast
  have near: "entryActive e \<and> (en_path e \<noteq> [] \<longrightarrow> en_path e \<notin> set excl)"
    if "nearMissExcluding r (loop_request env) excl = Some e" for excl e
    using that by (auto simp: nearMissExcluding_def find_Some_iff)
  have "en_path l \<notin> set rejected \<and> en_path l \<notin> rd_entry ` set (rx_decisions (tryRecall env lt vt)) \<and> entryActive l"
  proof (cases res)
    case None
    then have "nearMissExcluding r (loop_request env) rejected = Some l"
        "rx_decisions (tryRecall env lt vt) = [\<lparr>rd_fired = False, rd_entry = [], rd_shortCircuited = False, rd_verifyUnavailable = False\<rparr>]"
      using assms(1) r l by (simp_all add: tryRecall_def)
    then show ?thesis using near assms(2) by auto
  next
    case (Some ec)
    obtain e c where ec: "ec = (e, c)" by (cases ec)
    obtain iv ok vt1 where v: "review_recalled env e c (channel_totals s) = ((iv, ok), vt1)" by (metis prod.exhaust)
    have t: "tryRecall env lt vt = (let lead = nearMissExcluding r (loop_request env) (rejected @ [en_path e]) in
        if \<not> ok then \<lparr>rx_nearMiss = lead, rx_answer = None, rx_verifyTotals = vt1, rx_decisions = [\<lparr>rd_fired = True,
             rd_entry = en_path e, rd_shortCircuited = False, rd_verifyUnavailable = True\<rparr>]\<rparr>
        else if iv_rootCauses iv \<noteq> []
        then \<lparr>rx_nearMiss = None, rx_answer = Some iv, rx_verifyTotals = vt1, rx_decisions = [\<lparr>rd_fired = True,
             rd_entry = en_path e, rd_shortCircuited = True, rd_verifyUnavailable = False\<rparr>]\<rparr>
        else \<lparr>rx_nearMiss = lead, rx_answer = None, rx_verifyTotals = vt1, rx_decisions = [\<lparr>rd_fired = True,
             rd_entry = en_path e, rd_shortCircuited = False, rd_verifyUnavailable = False\<rparr>]\<rparr>)"
      using r l Some ec v by (simp add: tryRecall_def)
    then have "nearMissExcluding r (loop_request env) (rejected @ [en_path e]) = Some l"
      using assms(1) by (auto simp: Let_def split: if_splits)
    moreover have "rd_entry ` set (rx_decisions (tryRecall env lt vt)) = {en_path e}" unfolding t by (simp add: Let_def)
    ultimately show ?thesis using near assms(2) by fastforce
  qed
  then show ?thesis using r l bad by blast
qed

section \<open>Egress\<close>

lemma emitProgress_redacted: "\<forall>p \<in> set (emitProgress redact every req n m used s). pu_interim p \<in> range redact"
  by (simp add: emitProgress_def)

lemma step_progress:
  "set (lp_progress (turn_state (loop_step env n st))) \<subseteq> set (lp_progress st) \<union> {p. pu_interim p \<in> range (dl_redact (le_delivery env))}"
proof (cases rule: loop_step_cases [of env n st])
  case (answered g)
  let ?resp = "answer_of env n (force_final (is_final env n g) g)" and ?st = "answered_state env n g st"
  have st: "lp_progress ?st = lp_progress st"
    by (simp add: answered_state_def charged_state_def begin_request_simps)
  have tools: "set (lp_progress (run_tools env n ?resp run ?st))
      \<subseteq> set (lp_progress st) \<union> {p. pu_interim p \<in> range (dl_redact (le_delivery env))}" for run
    using emitProgress_redacted by (fastforce simp: run_tools_def Let_def st)
  show ?thesis
  proof (cases rule: handle_turn_cases [of env n ?resp ?st])
    case (final run fin)
    then show ?thesis using tools [of run] answered(2)
      by (cases rule: conclude_shape [of env fin "run_tools env n ?resp run ?st"]) auto
  qed (use answered(2) st tools in auto)
qed (auto simp: charged_state_def begin_request_simps)

lemma steps_progress:
  "set (lp_progress (turn_state (loop_steps env ns st))) \<subseteq> set (lp_progress st) \<union> {p. pu_interim p \<in> range (dl_redact (le_delivery env))}"
proof (induction ns arbitrary: st)
  case (Cons n ns)
  show ?case
  proof (cases "loop_step env n st")
    case (GoesOn st')
    then show ?thesis using Cons.IH [of st'] step_progress [of env n st] by auto
  qed (use step_progress [of env n st] in auto)
qed simp

text \<open>
  C35: Nothing leaves unredacted, from any exit. Every string that the reflective walk visits in a
  delivered result, which is every string of it but those of the skip list and of workloads, and every
  interim text of a progress ping, is what redaction returned for some text.
\<close>

theorem nothing_delivered_unredacted:
  "(\<forall>iv \<in> set (lr_deliveries (Investigate env)). \<forall>t \<in> set (visited (investigation_shape iv)). t \<in> range (dl_redact (le_delivery env)))
    \<and> (\<forall>p \<in> set (lr_progress (Investigate env)). pu_interim p \<in> range (dl_redact (le_delivery env)))"
proof -
  let ?e = "with_default_steps env"
  have fin: "t \<in> range (dl_redact dl)" if "t \<in> set (visited (investigation_shape (finish dl lt vt u iv)))" for t dl lt vt u iv
    using that by (auto simp: finish_def Let_def redactInvestigation_walks visited_redacted)
  have e: "le_delivery ?e = le_delivery env" by (simp add: with_default_steps_def)
  have prog: "set (lp_progress (turn_state (run_loop env seed vt))) \<subseteq> {p. pu_interim p \<in> range (dl_redact (le_delivery env))}" for seed vt
    using steps_progress [of ?e "[0..<nat (le_maxSteps ?e)]" "initial_state ?e seed vt"]
    by (simp add: run_loop_def Let_def e initial_state_def)
  have "(\<exists>lt vt u iv. lr_deliveries (Investigate env) \<in> {[], [finish (le_delivery env) lt vt u iv]})"
    by (auto simp: Investigate_def Let_def run_of_turn_def split: option.split turn.split)
  moreover have "lr_progress (run_of_turn env ds t) = lp_progress (turn_state t)" for ds t
    by (cases t) (simp_all add: run_of_turn_def)
  then have "lr_progress (Investigate env) = [] \<or> (\<exists>seed vt. lr_progress (Investigate env) = lp_progress (turn_state (run_loop env seed vt)))"
    by (auto simp: Investigate_def Let_def split: option.split)
  ultimately have "\<forall>iv \<in> set (lr_deliveries (Investigate env)). \<forall>t \<in> set (visited (investigation_shape iv)). t \<in> range (dl_redact (le_delivery env))"
      "\<forall>p \<in> set (lr_progress (Investigate env)). pu_interim p \<in> range (dl_redact (le_delivery env))"
    using fin prog by fastforce+
  then show ?thesis by blast
qed

text \<open>
  The prompt of the reranker carries the alert's message as it came. The seed of the loop is
  redacted before it is sent; the prompt the reranker's model receives for the same incident, a step
  earlier, contains the message verbatim, whatever redaction would have removed.
\<close>

theorem reranker_prompt_is_unredacted:
  assumes "rq_message req \<noteq> []"
  shows "\<exists>before after. renderRerankCandidates req cands = before @ ''Message: '' @ rq_message req @ newline # after"
proof -
  have "\<exists>rest. renderRerankCandidates req cands = prompt_line ''Incident: '' (rq_title req)
      @ (if rq_message req \<noteq> [] then prompt_line ''Message: '' (rq_message req) else []) @ rest"
    unfolding renderRerankCandidates_def Let_def by (rule exI, rule refl)
  then obtain rest where "renderRerankCandidates req cands
      = prompt_line ''Incident: '' (rq_title req) @ prompt_line ''Message: '' (rq_message req) @ rest"
    using assms by auto
  then have "renderRerankCandidates req cands
      = prompt_line ''Incident: '' (rq_title req) @ ''Message: '' @ rq_message req @ newline # rest"
    by (simp add: prompt_line_def [of "''Message: ''"])
  then show ?thesis by blast
qed

lemma reranker_prompt_is_unredacted_witness:
  "\<exists>before after. renderRerankCandidates (zero_request\<lparr>rq_message := ''password=hunter2''\<rparr>) []
     = before @ ''Message: '' @ ''password=hunter2'' @ newline # after"
proof -
  let ?req = "zero_request\<lparr>rq_message := ''password=hunter2''\<rparr>"
  have m: "rq_message ?req = ''password=hunter2''" by simp
  have "rq_message ?req \<noteq> []" unfolding m by simp
  from reranker_prompt_is_unredacted [OF this, of "[]"] show ?thesis unfolding m .
qed

section \<open>A run that is answered from the catalog\<close>

definition demo_mask :: "string \<Rightarrow> string" where
  "demo_mask = map (\<lambda>c. if c = CHR ''#'' then CHR ''*'' else c)"

definition demo_loop :: loop_env where
  "demo_loop = \<lparr>le_guard = demo_env\<lparr>ge_request := demo_incident\<rparr>,
     le_delivery = \<lparr>dl_redact = demo_mask, dl_kindScope = None, dl_start = 7, dl_config = ge_config demo_env\<rparr>,
     le_maxSteps = 0, le_verify = False, le_actions = None, le_recall = Some demo_recaller, le_recurrence = None,
     le_history = None, le_now = 0, le_seed = \<lparr>sd_startNow = 0, sd_priorNow = 0, sd_formatTime = (\<lambda>_. []),
       sd_labelKeys = [], sd_annotationKeys = []\<rparr>,
     le_tools = (\<lambda>_. \<lparr>tg_byName = Map.empty, tg_toolTimeout = 0, tg_maxToolOutputBytes = 0, tg_redact = id,
       tg_parseFindings = Inl\<rparr>),
     le_confirmTools = \<lparr>tg_byName = Map.empty, tg_toolTimeout = 0, tg_maxToolOutputBytes = 0, tg_redact = id,
       tg_parseFindings = Inl\<rparr>,
     le_model = (\<lambda>_ _ _ _ _. demo_off_target), le_deadline = (\<lambda>_. False), le_digest = (\<lambda>_. demo_no_digest),
     le_review = (\<lambda>_. demo_no_digest), le_recallReview = (\<lambda>_. demo_no_digest), le_parseVerdicts = (\<lambda>_. []),
     le_recallEmbedded = zero_totals, le_observe = (\<lambda>_ _. []), le_kbHits = (\<lambda>_ _. []), le_kbMatchScore = 0,
     le_progressEvery = 0\<rparr>"

lemma demo_loop_simps:
  "loop_request demo_loop = demo_incident" "le_recall demo_loop = Some demo_recaller" "\<not> autoExecuting (le_actions demo_loop)"
  "\<not> le_verify demo_loop" "\<not> suppressed (decide (le_recurrence demo_loop) req prior now)" "le_maxSteps demo_loop = 0"
  "tg_byName (le_confirmTools demo_loop) = Map.empty" "dl_redact (le_delivery demo_loop) = demo_mask"
  by (simp_all add: demo_loop_def autoExecuting_def decide_def suppressed_def)

lemma demo_unconfirmed: "confirmRecall (le_confirmTools demo_loop) demo_incident iv = (iv, [])"
  by (simp add: confirmRecall_def confirm_one_def demo_loop_simps Let_def map_filter_def)

lemma demo_near_b: "nearMissExcluding demo_recaller demo_incident [''a.md''] = Some (demo_entry ''b.md'')"
proof -
  have e: "eligible demo_recaller demo_incident (demo_entry ''b.md'')"
    using demo_entry_eligible [of 0 None "''b.md''"] by (simp only: demo_no_outcome)
  then have "nearMissEntryAgrees (rq_workload demo_incident) (demo_entry ''b.md'') (rc_requireWorkloadMatch demo_recaller) \<noteq> matchNone"
    by (auto simp: eligible_def entryAgrees_iff nearMissEntryAgrees_iff nearMissAgrees_def)
  moreover have "recall_hits demo_recaller demo_incident
    = [\<lparr>se_entry = demo_entry ''a.md'', se_score = 5\<rparr>, \<lparr>se_entry = demo_entry ''b.md'', se_score = 2\<rparr>]"
    by (simp add: recall_hits_def demo_recaller_def)
  moreover have "en_path (demo_entry p) = p" for p by (simp add: demo_entry_def)
  ultimately show ?thesis using e by (simp add: nearMissExcluding_def eligible_def)
qed

lemma demo_loop_recalls: "lr_result (Investigate demo_loop) = ''recall''"
proof -
  let ?iv = "capRecallConfidence (recalledInvestigation demo_incident (demo_entry ''a.md'') demo_confidence) recallUnconfirmedCap"
  have v: "review_recalled demo_loop (demo_entry ''a.md'') demo_confidence vt = ((?iv, True), vt)" for vt
    by (simp add: review_recalled_def demo_unconfirmed demo_loop_simps)
  have "iv_rootCauses ?iv \<noteq> []"
    by (simp add: capRecallConfidence_def recalledInvestigation_def Let_def stampRequestFacts_def)
  then have "rx_answer (tryRecall demo_loop zero_totals zero_totals) = Some ?iv"
    by (simp add: tryRecall_def demo_loop_simps demo_lookup v)
  then show ?thesis by (simp add: Investigate_def demo_loop_simps Let_def)
qed

lemma recalled_answer_is_reviewed_witness:
  "\<exists>iv. lr_deliveries (Investigate demo_loop) = [iv] \<and> iv_actions iv = [] \<and> iv_confidence iv \<le> 70 / 100"
  using recalled_answer_is_reviewed [OF demo_loop_recalls] demo_unconfirmed
  by (auto simp: demo_loop_simps recallUnconfirmedCap_def)

lemma auto_ignores_recall_and_history_witness:
  "Investigate (demo_loop\<lparr>le_actions := Some demo_policy, le_recall := None, le_history := Some (\<lambda>_. zero_recurrence)\<rparr>)
   = Investigate (demo_loop\<lparr>le_actions := Some demo_policy\<rparr>)"
proof -
  have a: "autoExecuting (le_actions (demo_loop\<lparr>le_actions := Some demo_policy\<rparr>))"
    by (simp add: autoExecuting_def IsAuto_def demo_policy_def)
  have "Investigate ((demo_loop\<lparr>le_actions := Some demo_policy\<rparr>)\<lparr>le_recall := None, le_history := Some (\<lambda>_. zero_recurrence)\<rparr>)
      = Investigate (demo_loop\<lparr>le_actions := Some demo_policy\<rparr>)"
    by (rule auto_ignores_recall_and_history [OF a]) (use demo_loop_simps(5) in simp)
  then show ?thesis by simp
qed

lemma withdrawn_is_no_lead_witness:
  "\<exists>l. rx_nearMiss (tryRecall (demo_loop\<lparr>le_verify := True\<rparr>) zero_totals zero_totals) = Some l
     \<and> entryActive l \<and> en_path l \<noteq> ''a.md''"
proof -
  let ?env = "demo_loop\<lparr>le_verify := True\<rparr>" and ?b = "demo_entry ''b.md''"
  define iv where "iv = capRecallConfidence (recalledInvestigation demo_incident (demo_entry ''a.md'') demo_confidence) recallUnconfirmedCap"
  have rc: "iv_rootCauses iv \<noteq> []"
    by (simp add: iv_def capRecallConfidence_def recalledInvestigation_def Let_def stampRequestFacts_def)
  have s: "le_recall ?env = Some demo_recaller" "\<not> autoExecuting (le_actions ?env)" "loop_request ?env = demo_incident"
      "le_confirmTools ?env = le_confirmTools demo_loop" "le_recallReview ?env = (\<lambda>_. demo_no_digest)"
    by (simp_all add: demo_loop_simps) (simp_all add: demo_loop_def)
  have "cp_err demo_no_digest" by (simp add: demo_no_digest_def)
  then have "snd (fst (verifyFindings (le_parseVerdicts ?env) demo_no_digest iv vt)) = False" for vt
    using rc by (simp add: verifyFindings_def Let_def)
  moreover have "review_recalled ?env (demo_entry ''a.md'') demo_confidence vt
      = verifyFindings (le_parseVerdicts ?env) demo_no_digest iv vt" for vt
    unfolding review_recalled_def s demo_unconfirmed prod.case Let_def iv_def by simp
  ultimately have "snd (fst (review_recalled ?env (demo_entry ''a.md'') demo_confidence vt)) = False" for vt by simp
  note unreviewed = this
  let ?rv = "review_recalled ?env (demo_entry ''a.md'') demo_confidence (channel_totals (spend_channel ?env zero_totals zero_totals))"
  obtain x vt' where x: "?rv = (x, vt')" by (cases ?rv)
  obtain iv' ok where "x = (iv', ok)" by (cases x)
  then have v: "?rv = ((iv', False), vt')" using unreviewed x by (metis fst_conv snd_conv)
  note n = demo_near_b
  have p: "en_path (demo_entry x) = x" "[] @ [x] = [x]" for x by (simp_all add: demo_entry_def)
  have t: "rx_nearMiss (tryRecall ?env zero_totals zero_totals) = Some ?b"
      "rx_decisions (tryRecall ?env zero_totals zero_totals) = [\<lparr>rd_fired = True, rd_entry = ''a.md'',
          rd_shortCircuited = False, rd_verifyUnavailable = True\<rparr>]"
    unfolding tryRecall_def s option.case demo_lookup prod.case v Let_def p n by (simp_all add: demo_loop_simps)
  have "en_path ?b \<noteq> []" unfolding p by simp
  from withdrawn_is_no_lead [OF t(1) this] show ?thesis using t by auto
qed

lemma nothing_delivered_unredacted_witness:
  "''#'' \<notin> range demo_mask \<and> (\<exists>iv. lr_deliveries (Investigate demo_loop) = [iv]
     \<and> list_all (\<lambda>t. t \<in> range demo_mask) (visited (investigation_shape iv)))"
proof -
  obtain iv where d: "lr_deliveries (Investigate demo_loop) = [iv]"
    using recalled_delivery [OF demo_loop_recalls] by (metis loop_run.select_convs(3))
  then have "\<forall>t \<in> set (visited (investigation_shape iv)). t \<in> range demo_mask"
    using nothing_delivered_unredacted [of demo_loop] by (simp add: demo_loop_simps)
  then show ?thesis using d by (auto simp: list_all_iff demo_mask_def split: if_splits)
qed

end
