(* ===== verification/LoopSpend.thy ===== *)
theory LoopSpend
  imports LoopTrust
begin










lemma guard_frames [simp]:
  "gs_budgetStop (lp_guard (charged_state env n g st)) = gs_budgetStop g"
  "gs_budgetStop (lp_guard (answered_state env n g st)) = gs_budgetStop g"
  "gs_budgetStop (lp_guard (label_result l st)) = gs_budgetStop (lp_guard st)"
  "spent ge (lp_guard (answered_state env n g st)) = spent ge (lp_guard (charged_state env n g st))"
  "spent ge (lp_guard (label_result l st)) = spent ge (lp_guard st)"
  by (simp_all add: charged_state_def answered_state_def charge_def calibrate_def begin_request_simps label_result_def spent_sum)













end
