(* ===== verification/ThreadBudget.thy ===== *)
theory ThreadBudget
  imports RateLimit Chat
begin

text \<open>
  \<open>internal/thread/budget.go\<close>: the hourly ceiling on the model calls and tokens of the chat in a
  thread. \<open>Allow\<close> admits a call and reserves its estimate, \<open>Record\<close> replaces a reservation by what
  the call cost, \<open>Remaining\<close> peeks. Each reads the clock once per use, so an admission carries
  three readings. The mutex makes each one critical section; a run is a sequence of them.
\<close>

section \<open>State and operations\<close>

record callTokens =
  ct_at :: gotime
  ct_tokens :: int
  ct_pending :: bool

datatype deny_reason = DenyNone | DenyCalls | DenyTokens

record budget =
  bu_maxCalls :: int
  bu_maxTokens :: int
  bu_window :: duration
  bu_calls :: "gotime list"
  bu_spent :: "callTokens list"

definition NewBudget :: "int \<Rightarrow> int \<Rightarrow> duration \<Rightarrow> budget" where
  "NewBudget maxCalls maxTokens w = \<lparr>bu_maxCalls = maxCalls, bu_maxTokens = maxTokens, bu_window = w,
     bu_calls = [], bu_spent = []\<rparr>"

definition slide_budget :: "gotime \<Rightarrow> budget \<Rightarrow> budget" where
  "slide_budget now b = (let cutoff = now - bu_window b
     in b\<lparr>bu_calls := filter (\<lambda>t. t > cutoff) (bu_calls b),
          bu_spent := filter (\<lambda>e. ct_at e > cutoff) (bu_spent b)\<rparr>)"

definition spentLocked :: "budget \<Rightarrow> int" where
  "spentLocked b = sum_list (map ct_tokens (bu_spent b))"

record call_times =
  tm_slide :: gotime
  tm_call :: gotime
  tm_reserve :: gotime

definition budget_attempt :: "int \<Rightarrow> call_times \<Rightarrow> budget \<Rightarrow> (bool \<times> deny_reason) \<times> budget" where
  "budget_attempt estimate tm b =
     (if bu_maxCalls b \<le> 0 \<and> bu_maxTokens b \<le> 0 then ((True, DenyNone), b)
      else (let b1 = slide_budget (tm_slide tm) b
            in if bu_maxCalls b1 > 0 \<and> int (length (bu_calls b1)) \<ge> bu_maxCalls b1 then ((False, DenyCalls), b1)
               else if bu_maxTokens b1 > 0 \<and> spentLocked b1 \<ge> bu_maxTokens b1 then ((False, DenyTokens), b1)
               else (let b2 = (if bu_maxCalls b1 > 0 then b1\<lparr>bu_calls := bu_calls b1 @ [tm_call tm]\<rparr> else b1)
                     in ((True, DenyNone),
                         if bu_maxTokens b2 > 0 \<and> estimate > 0
                         then b2\<lparr>bu_spent := bu_spent b2 @ [\<lparr>ct_at = tm_reserve tm, ct_tokens = estimate, ct_pending = True\<rparr>]\<rparr>
                         else b2))))"

text \<open>A nil budget allows everything and records nothing.\<close>

definition Allow_call :: "int \<Rightarrow> call_times \<Rightarrow> budget option \<Rightarrow> (bool \<times> deny_reason) \<times> budget option" where
  "Allow_call estimate tm b = (case b of None \<Rightarrow> ((True, DenyNone), None)
     | Some b \<Rightarrow> (case budget_attempt estimate tm b of (r, b') \<Rightarrow> (r, Some b')))"

definition usage_total :: "usage \<Rightarrow> int" where
  "usage_total u = us_inputTokens u + us_outputTokens u"

text \<open>The newest pending entry takes the cost of the call; \<open>None\<close> when nothing is pending.\<close>

fun settle_newest :: "int \<Rightarrow> callTokens list \<Rightarrow> callTokens list option" where
  "settle_newest n [] = None"
| "settle_newest n (e # es) = (case settle_newest n es of
     Some es' \<Rightarrow> Some (e # es')
   | None \<Rightarrow> if ct_pending e then Some (e\<lparr>ct_tokens := n, ct_pending := False\<rparr> # es) else None)"

definition record_usage :: "usage \<Rightarrow> gotime \<Rightarrow> gotime \<Rightarrow> budget \<Rightarrow> budget" where
  "record_usage u now now' b =
     (if bu_maxTokens b \<le> 0 then b
      else (let b1 = slide_budget now b
            in case settle_newest (usage_total u) (bu_spent b1) of
                 Some es \<Rightarrow> b1\<lparr>bu_spent := es\<rparr>
               | None \<Rightarrow> b1\<lparr>bu_spent := bu_spent b1 @ [\<lparr>ct_at = now', ct_tokens = usage_total u, ct_pending = False\<rparr>]\<rparr>))"

definition Record_call :: "usage \<Rightarrow> gotime \<Rightarrow> gotime \<Rightarrow> budget option \<Rightarrow> budget option" where
  "Record_call u now now' = map_option (record_usage u now now')"

definition maxInt :: int where "maxInt = 9223372036854775807"

definition budget_remaining :: "gotime \<Rightarrow> budget \<Rightarrow> (int \<times> int) \<times> budget" where
  "budget_remaining now b =
     (let b1 = slide_budget now b
      in ((if bu_maxCalls b1 > 0 then max 0 (bu_maxCalls b1 - int (length (bu_calls b1))) else maxInt,
           if bu_maxTokens b1 > 0 then max 0 (bu_maxTokens b1 - spentLocked b1) else maxInt), b1))"

definition Remaining :: "gotime \<Rightarrow> budget option \<Rightarrow> (int \<times> int) \<times> budget option" where
  "Remaining now b = (case b of None \<Rightarrow> ((maxInt, maxInt), None)
     | Some b \<Rightarrow> (case budget_remaining now b of (r, b') \<Rightarrow> (r, Some b')))"

section \<open>Runs\<close>

datatype budget_event = Ask int call_times | Done usage gotime gotime | Peek gotime

fun event_readings :: "budget_event \<Rightarrow> gotime list" where
  "event_readings (Ask e tm) = [tm_slide tm, tm_call tm, tm_reserve tm]"
| "event_readings (Done u n n') = [n, n']"
| "event_readings (Peek n) = [n]"

text \<open>The budget beside the history of the run: the instants and estimates admitted, the costs recorded.\<close>

record budget_history =
  bh_budget :: budget
  bh_granted :: "gotime list"
  bh_estimates :: "int list"
  bh_costs :: "int list"

fun budget_step :: "budget_event \<Rightarrow> budget_history \<Rightarrow> budget_history" where
  "budget_step (Ask e tm) h = (case budget_attempt e tm (bh_budget h) of
     ((ok, _), b) \<Rightarrow> if ok then h\<lparr>bh_budget := b, bh_granted := bh_granted h @ [tm_call tm],
                            bh_estimates := bh_estimates h @ (if e > 0 then [e] else [])\<rparr>
                   else h\<lparr>bh_budget := b\<rparr>)"
| "budget_step (Done u n n') h = h\<lparr>bh_budget := record_usage u n n' (bh_budget h), bh_costs := bh_costs h @ [usage_total u]\<rparr>"
| "budget_step (Peek n) h = h\<lparr>bh_budget := snd (budget_remaining n (bh_budget h))\<rparr>"

definition fresh_budget :: "int \<Rightarrow> int \<Rightarrow> duration \<Rightarrow> budget_history" where
  "fresh_budget n k w = \<lparr>bh_budget = NewBudget n k w, bh_granted = [], bh_estimates = [], bh_costs = []\<rparr>"

definition budget_run :: "budget_event list \<Rightarrow> budget_history \<Rightarrow> budget_history" where
  "budget_run = fold budget_step"

section \<open>The ceiling on calls\<close>

interpretation chat_calls: recording_limiter "\<lambda>n n' b. case budget_attempt e \<lparr>tm_slide = n, tm_call = n', tm_reserve = r\<rparr> b of ((ok, _), b') \<Rightarrow> (ok, b')"
    bu_calls W limit "\<lambda>b. bu_window b = W \<and> bu_maxCalls b = int limit \<and> 0 < limit \<and> 0 < W" for e r W limit
  by unfold_locales
    (auto simp: budget_attempt_def slide_budget_def slide_def Let_def split: if_splits)

lemma record_calls [simp]:
  "bu_calls (record_usage u n n' b) = (if bu_maxTokens b \<le> 0 then bu_calls b else slide (bu_window b) n (bu_calls b))"
  "bu_window (record_usage u n n' b) = bu_window b" "bu_maxCalls (record_usage u n n' b) = bu_maxCalls b"
  "bu_maxTokens (record_usage u n n' b) = bu_maxTokens b"
  by (auto simp: record_usage_def slide_budget_def slide_def Let_def split: option.split)

lemma budget_step_tracks:
  assumes t: "chat_calls.tracks W limit (bh_budget h) (bh_granted h) c m"
    and s: "sorted (m # event_readings ev)"
  shows "\<exists>c'. chat_calls.tracks W limit (bh_budget (budget_step ev h)) (bh_granted (budget_step ev h)) c'
    (last (m # event_readings ev))"
proof -
  note conf = chat_calls.tracks_configured [OF t]
  show ?thesis
  proof (cases ev)
    case (Ask e tm)
    have le: "m \<le> tm_slide tm" "tm_slide tm \<le> tm_call tm" "tm_call tm \<le> tm_reserve tm" using s Ask by auto
    obtain ok r b where a: "budget_attempt e tm (bh_budget h) = ((ok, r), b)" by (metis prod.exhaust)
    then have a': "(case budget_attempt e \<lparr>tm_slide = tm_slide tm, tm_call = tm_call tm, tm_reserve = tm_reserve tm\<rparr> (bh_budget h)
        of ((ok, _), b') \<Rightarrow> (ok, b')) = (ok, b)" by (cases tm) simp
    have "\<exists>c'. chat_calls.tracks W limit b (if ok then bh_granted h @ [tm_call tm] else bh_granted h) c' (tm_call tm)"
      using chat_calls.tracks_granted [OF t le(1,2), of e "tm_reserve tm" b]
        chat_calls.tracks_refused [OF t le(1,2), of e "tm_reserve tm" b] a' by (cases ok) auto
    then obtain c' where t': "chat_calls.tracks W limit b (if ok then bh_granted h @ [tm_call tm] else bh_granted h) c' (tm_call tm)" ..
    have "chat_calls.tracks W limit b (if ok then bh_granted h @ [tm_call tm] else bh_granted h) c' (tm_reserve tm)"
      by (rule chat_calls.tracks_frame [OF t' chat_calls.tracks_configured [OF t'] refl le(3)])
    then show ?thesis by (cases ok) (auto simp: Ask a)
  next
    case (Done u n n')
    let ?b = "record_usage u n n' (bh_budget h)"
    have le: "m \<le> n" "n \<le> n'" using s Done by auto
    have b: "bu_window ?b = W \<and> bu_maxCalls ?b = int limit \<and> 0 < limit \<and> 0 < W" using conf by simp
    have "\<exists>c'. chat_calls.tracks W limit ?b (bh_granted h) c' n'"
    proof (cases "bu_maxTokens (bh_budget h) \<le> 0")
      case True
      then show ?thesis using chat_calls.tracks_frame [OF t b, of n'] le by auto
    next
      case False
      then have r: "bu_calls ?b = slide W n (bu_calls (bh_budget h))" using conf by simp
      show ?thesis using chat_calls.tracks_frame [OF chat_calls.tracks_slid [OF t le(1) b r] b refl le(2)] by blast
    qed
    then show ?thesis by (simp add: Done)
  next
    case (Peek n)
    let ?b = "snd (budget_remaining n (bh_budget h))"
    have le: "m \<le> n" using s Peek by auto
    have b: "bu_window ?b = W \<and> bu_maxCalls ?b = int limit \<and> 0 < limit \<and> 0 < W"
      and r: "bu_calls ?b = slide W n (bu_calls (bh_budget h))"
      using conf by (simp_all add: budget_remaining_def slide_budget_def slide_def Let_def)
    show ?thesis using chat_calls.tracks_slid [OF t le b r] by (auto simp: Peek)
  qed
qed

lemma budget_run_tracks:
  assumes "chat_calls.tracks W limit (bh_budget h) (bh_granted h) c m" and "sorted (m # concat (map event_readings es))"
  shows "\<exists>c' m'. chat_calls.tracks W limit (bh_budget (budget_run es h)) (bh_granted (budget_run es h)) c' m'"
  using assms
proof (induction es arbitrary: h c m)
  case Nil
  then show ?case by (auto simp: budget_run_def)
next
  case (Cons ev es)
  have "sorted (m # event_readings ev)" using Cons.prems(2) by (auto simp: sorted_append)
  from budget_step_tracks [OF Cons.prems(1) this] obtain c' where
    t: "chat_calls.tracks W limit (bh_budget (budget_step ev h)) (bh_granted (budget_step ev h)) c' (last (m # event_readings ev))" ..
  have "last (m # event_readings ev) \<in> set (m # event_readings ev)" by (rule last_in_set) simp
  then have "sorted (last (m # event_readings ev) # concat (map event_readings es))"
    using Cons.prems(2) by (auto simp: sorted_append)
  from Cons.IH [OF t this] show ?case by (simp add: budget_run_def)
qed

text \<open>
  C22: The ceiling on calls holds. For every sequence of admissions, recordings and peeks on a new
  budget, with clock readings that never go back, no interval as long as the window holds more
  admitted calls than the ceiling, whatever the estimates and the costs.
\<close>

theorem chat_calls_within_ceiling:
  assumes "0 < n" and "0 < w" and "sorted (concat (map event_readings es))"
  shows "int (in_window w a (bh_granted (budget_run es (fresh_budget n k w)))) \<le> n"
proof -
  obtain m where "sorted (m # concat (map event_readings es))" using sorted_from [OF assms(3)] ..
  moreover have "chat_calls.tracks w (nat n) (bh_budget (fresh_budget n k w)) (bh_granted (fresh_budget n k w)) (m - w) m"
    using chat_calls.tracks_init [of "NewBudget n k w" w "nat n" m] assms(1,2) by (simp add: fresh_budget_def NewBudget_def)
  ultimately obtain c' m' where "chat_calls.tracks w (nat n) (bh_budget (budget_run es (fresh_budget n k w)))
      (bh_granted (budget_run es (fresh_budget n k w))) c' m'"
    using budget_run_tracks by blast
  from chat_calls.tracks_bound [OF this, of a] show ?thesis using assms(1) by simp
qed

lemma chat_calls_within_ceiling_witness:
  "int (in_window 100 0 (bh_granted (budget_run [Ask 5 \<lparr>tm_slide = 1, tm_call = 2, tm_reserve = 3\<rparr>,
     Done \<lparr>us_inputTokens = 1, us_outputTokens = 1, us_cachedInputTokens = 0, us_cacheWriteTokens = 0\<rparr> 4 5, Peek 6,
     Ask 5 \<lparr>tm_slide = 7, tm_call = 8, tm_reserve = 9\<rparr>] (fresh_budget 1 50 100)))) \<le> 1"
  by (rule chat_calls_within_ceiling) simp_all

section \<open>The charges\<close>

text \<open>While nothing slides, an operation sees the whole history.\<close>

lemma settle_newest_None: "settle_newest n es = None \<longleftrightarrow> (\<forall>e \<in> set es. \<not> ct_pending e)"
  by (induction es) (auto split: option.splits)

lemma settle_newest_Some:
  "settle_newest n es = Some es' \<Longrightarrow> \<exists>xs e ys. es = xs @ e # ys \<and> ct_pending e \<and> (\<forall>y \<in> set ys. \<not> ct_pending y)
     \<and> es' = xs @ e\<lparr>ct_tokens := n, ct_pending := False\<rparr> # ys"
proof (induction es arbitrary: es')
  case (Cons e es)
  show ?case
  proof (cases "settle_newest n es")
    case None
    then have "es' = e\<lparr>ct_tokens := n, ct_pending := False\<rparr> # es" "ct_pending e"
      using Cons.prems by (auto split: if_splits)
    then show ?thesis using settle_newest_None [of n es] None by (intro exI [of _ "[]"]) auto
  next
    case (Some zs)
    then obtain xs e' ys where "es = xs @ e' # ys" "ct_pending e'" "\<forall>y \<in> set ys. \<not> ct_pending y"
      "zs = xs @ e'\<lparr>ct_tokens := n, ct_pending := False\<rparr> # ys" using Cons.IH by blast
    then show ?thesis using Cons.prems Some by (intro exI [of _ "e # xs"]) auto
  qed
qed simp

definition settled_of :: "budget \<Rightarrow> int multiset" where
  "settled_of b = mset (map ct_tokens (filter (\<lambda>e. \<not> ct_pending e) (bu_spent b)))"

definition pending_of :: "budget \<Rightarrow> int multiset" where
  "pending_of b = mset (map ct_tokens (filter ct_pending (bu_spent b)))"

lemma spent_split: "spentLocked b = sum_mset (settled_of b) + sum_mset (pending_of b)"
proof -
  have "sum_list (map ct_tokens es) = sum_list (map ct_tokens (filter (\<lambda>e. \<not> ct_pending e) es))
      + sum_list (map ct_tokens (filter ct_pending es))" for es
    by (induction es) auto
  then show ?thesis by (simp add: spentLocked_def settled_of_def pending_of_def sum_mset_sum_list flip: mset_map)
qed

text \<open>The history and the window agree: every cost once, every open call at one of the estimates.\<close>

definition charged :: "gotime set \<Rightarrow> budget_history \<Rightarrow> bool" where
  "charged T h \<longleftrightarrow> 0 < bu_maxTokens (bh_budget h) \<and> (\<forall>e \<in> set (bu_spent (bh_budget h)). ct_at e \<in> T)
     \<and> settled_of (bh_budget h) = mset (bh_costs h)
     \<and> pending_of (bh_budget h) \<subseteq># mset (bh_estimates h)
     \<and> length (bh_estimates h) \<le> length (bh_costs h) + size (pending_of (bh_budget h))"

lemma unslid:
  assumes "\<forall>t \<in> T. n < t + bu_window b" and "\<forall>e \<in> set (bu_spent b). ct_at e \<in> T"
  shows "bu_spent (slide_budget n b) = bu_spent b" and "settled_of (slide_budget n b) = settled_of b"
    and "pending_of (slide_budget n b) = pending_of b"
proof -
  show s: "bu_spent (slide_budget n b) = bu_spent b"
    using assms by (force simp: slide_budget_def Let_def filter_id_conv)
  show "settled_of (slide_budget n b) = settled_of b" "pending_of (slide_budget n b) = pending_of b"
    by (simp_all add: settled_of_def pending_of_def s)
qed

lemma slide_fields [simp]:
  "bu_window (slide_budget n b) = bu_window b" "bu_maxTokens (slide_budget n b) = bu_maxTokens b"
  "bu_maxCalls (slide_budget n b) = bu_maxCalls b"
  by (simp_all add: slide_budget_def Let_def)

lemma attempt_fields:
  assumes "budget_attempt e tm b = ((ok, r), b')"
  shows "bu_window b' = bu_window b" "bu_maxTokens b' = bu_maxTokens b" "bu_maxCalls b' = bu_maxCalls b"
  using assms by (auto simp: budget_attempt_def Let_def split: if_splits)

lemma attempt_spent:
  assumes "budget_attempt e tm b = ((ok, r), b')" and "0 < bu_maxTokens b"
  shows "bu_spent b' = bu_spent (slide_budget (tm_slide tm) b)
    @ (if ok \<and> e > 0 then [\<lparr>ct_at = tm_reserve tm, ct_tokens = e, ct_pending = True\<rparr>] else [])"
  using assms by (auto simp: budget_attempt_def Let_def split: if_splits)

lemma charged_ask:
  assumes c: "charged T h" and near: "\<forall>t \<in> T. tm_slide tm < t + bu_window (bh_budget h)" and "tm_reserve tm \<in> T"
  shows "charged T (budget_step (Ask e tm) h)"
proof -
  obtain ok r b where a: "budget_attempt e tm (bh_budget h) = ((ok, r), b)" by (metis prod.exhaust)
  have k: "0 < bu_maxTokens (bh_budget h)" using c by (simp add: charged_def)
  have s: "bu_spent b = bu_spent (bh_budget h)
      @ (if ok \<and> e > 0 then [\<lparr>ct_at = tm_reserve tm, ct_tokens = e, ct_pending = True\<rparr>] else [])"
    using attempt_spent [OF a k] unslid(1) [OF near] c by (simp add: charged_def)
  show ?thesis
    using c assms(3) attempt_fields [OF a]
    by (auto simp: charged_def a s settled_of_def pending_of_def intro: subset_mset.add_left_mono)
qed

lemma charged_done:
  assumes c: "charged T h" and near: "\<forall>t \<in> T. n < t + bu_window (bh_budget h)" and "n' \<in> T"
  shows "charged T (budget_step (Done u n n') h)"
proof -
  let ?b = "bh_budget h"
  have k: "\<not> bu_maxTokens ?b \<le> 0" and T: "\<forall>e \<in> set (bu_spent ?b). ct_at e \<in> T" using c by (auto simp: charged_def)
  note s = unslid(1) [OF near T]
  show ?thesis
  proof (cases "settle_newest (usage_total u) (bu_spent ?b)")
    case None
    then show ?thesis using c assms(3) k by (auto simp: charged_def record_usage_def Let_def s settled_of_def pending_of_def)
  next
    case (Some es)
    then obtain xs e ys where es: "bu_spent ?b = xs @ e # ys" "ct_pending e"
        "es = xs @ e\<lparr>ct_tokens := usage_total u, ct_pending := False\<rparr> # ys"
      using settle_newest_Some by blast
    have b: "bu_spent (record_usage u n n' ?b) = es" using k Some by (simp add: record_usage_def Let_def s)
    have "settled_of (record_usage u n n' ?b) = add_mset (usage_total u) (settled_of ?b)"
      and p: "pending_of ?b = add_mset (ct_tokens e) (pending_of (record_usage u n n' ?b))"
      using es by (simp_all add: settled_of_def pending_of_def b)
    moreover have "pending_of (record_usage u n n' ?b) \<subseteq># mset (bh_estimates h)"
      using c p unfolding charged_def by (metis mset_subset_eq_insertD subset_mset.less_imp_le)
    ultimately show ?thesis using c es by (auto simp: charged_def b)
  qed
qed

lemma charged_peek:
  assumes c: "charged T h" and near: "\<forall>t \<in> T. n < t + bu_window (bh_budget h)"
  shows "charged T (budget_step (Peek n) h)"
  using c unslid [OF near] by (simp add: charged_def budget_remaining_def Let_def)

lemma budget_step_window [simp]: "bu_window (bh_budget (budget_step ev h)) = bu_window (bh_budget h)"
  by (cases ev) (auto simp: budget_remaining_def Let_def attempt_fields split: prod.split)

lemma charged_run:
  assumes "charged T h" and "\<forall>r \<in> set (concat (map event_readings es)). r \<in> T \<and> (\<forall>t \<in> T. r < t + bu_window (bh_budget h))"
  shows "charged T (budget_run es h)"
  using assms
proof (induction es arbitrary: h)
  case Nil
  then show ?case by (simp add: budget_run_def)
next
  case (Cons ev es)
  have "charged T (budget_step ev h)"
    using Cons.prems charged_ask [of T h] charged_done [of T h] charged_peek [of T h] by (cases ev) auto
  then show ?case using Cons.IH [of "budget_step ev h"] Cons.prems(2) by (simp add: budget_run_def)
qed

text \<open>
  Every call is charged once. In a run that lasts less than the window, on a budget with a token
  ceiling, what counts against the ceiling is the cost of every recorded call exactly once, plus
  a sub-multiset of the admitted estimates; and an admitted call is not forgotten: there are as many
  open reservations as admitted calls less recorded ones, or more.
\<close>

theorem each_call_charged_once:
  assumes "0 < k" and "\<forall>r \<in> set (concat (map event_readings es)). \<forall>t \<in> set (concat (map event_readings es)). r < t + w"
  shows "\<exists>pending. spentLocked (bh_budget (budget_run es (fresh_budget n k w)))
        = sum_list (bh_costs (budget_run es (fresh_budget n k w))) + sum_mset pending
    \<and> pending \<subseteq># mset (bh_estimates (budget_run es (fresh_budget n k w)))
    \<and> length (bh_estimates (budget_run es (fresh_budget n k w)))
        \<le> length (bh_costs (budget_run es (fresh_budget n k w))) + size pending"
proof -
  let ?h = "budget_run es (fresh_budget n k w)"
  have "charged (set (concat (map event_readings es))) ?h"
    using assms by (intro charged_run) (auto simp: charged_def fresh_budget_def NewBudget_def settled_of_def pending_of_def)
  then show ?thesis
    by (intro exI [of _ "pending_of (bh_budget ?h)"]) (simp add: spent_split charged_def sum_mset_sum_list)
qed

text \<open>
  The budget repairs itself. Whatever the run was, abandoned calls included, one window
  after its last clock reading both ceilings are fully available again.
\<close>

definition stamps_before :: "gotime \<Rightarrow> budget \<Rightarrow> bool" where
  "stamps_before m b \<longleftrightarrow> (\<forall>t \<in> set (bu_calls b). t \<le> m) \<and> (\<forall>e \<in> set (bu_spent b). ct_at e \<le> m)"

lemma stamps_step:
  assumes s: "stamps_before m (bh_budget h)" and r: "\<forall>r \<in> set (event_readings ev). r \<le> m"
  shows "stamps_before m (bh_budget (budget_step ev h))"
proof (cases ev)
  case (Ask e tm)
  then show ?thesis using s r
    by (auto simp: stamps_before_def budget_attempt_def slide_budget_def Let_def split: prod.split if_splits)
next
  case (Done u n n')
  show ?thesis
  proof (cases "settle_newest (usage_total u) (bu_spent (slide_budget n (bh_budget h)))")
    case None
    then show ?thesis using s r Done by (auto simp: stamps_before_def record_usage_def slide_budget_def Let_def)
  next
    case (Some es)
    then obtain xs e ys where "bu_spent (slide_budget n (bh_budget h)) = xs @ e # ys"
        "es = xs @ e\<lparr>ct_tokens := usage_total u, ct_pending := False\<rparr> # ys"
      using settle_newest_Some by blast
    then have "ct_at ` set es = ct_at ` set (bu_spent (slide_budget n (bh_budget h)))" by auto
    moreover have "\<forall>e \<in> set (bu_spent (slide_budget n (bh_budget h))). ct_at e \<le> m"
      using s by (auto simp: stamps_before_def slide_budget_def Let_def)
    ultimately have "\<forall>e \<in> set es. ct_at e \<le> m" by (metis image_iff)
    moreover have "\<forall>t \<in> set (bu_calls (slide_budget n (bh_budget h))). t \<le> m"
      using s by (auto simp: stamps_before_def slide_budget_def Let_def)
    ultimately show ?thesis using s Done Some by (auto simp: stamps_before_def record_usage_def Let_def)
  qed
next
  case (Peek n)
  then show ?thesis using s by (auto simp: stamps_before_def budget_remaining_def slide_budget_def Let_def)
qed

lemma budget_step_limits [simp]:
  "bu_maxCalls (bh_budget (budget_step ev h)) = bu_maxCalls (bh_budget h)"
  "bu_maxTokens (bh_budget (budget_step ev h)) = bu_maxTokens (bh_budget h)"
  by (cases ev; auto simp: budget_remaining_def Let_def attempt_fields split: prod.split)+

lemma stamps_run:
  assumes "stamps_before m (bh_budget h)" and "\<forall>r \<in> set (concat (map event_readings es)). r \<le> m"
  shows "stamps_before m (bh_budget (budget_run es h)) \<and> bu_window (bh_budget (budget_run es h)) = bu_window (bh_budget h)
    \<and> bu_maxCalls (bh_budget (budget_run es h)) = bu_maxCalls (bh_budget h)
    \<and> bu_maxTokens (bh_budget (budget_run es h)) = bu_maxTokens (bh_budget h)"
  using assms
proof (induction es arbitrary: h)
  case (Cons ev es)
  have "stamps_before m (bh_budget (budget_step ev h))" using stamps_step Cons.prems by simp
  then show ?case using Cons.IH [of "budget_step ev h"] Cons.prems(2) by (simp add: budget_run_def)
qed (simp add: budget_run_def)

lemma all_lapsed:
  assumes "stamps_before (now - bu_window b) b"
  shows "bu_calls (slide_budget now b) = []" and "bu_spent (slide_budget now b) = []"
  using assms by (auto simp: stamps_before_def slide_budget_def Let_def filter_empty_conv)

theorem budget_repairs_itself:
  assumes "0 < n" and "0 < k" and "\<forall>r \<in> set (concat (map event_readings es)). r + w \<le> now"
  shows "fst (budget_remaining now (bh_budget (budget_run es (fresh_budget n k w)))) = (n, k)"
proof -
  let ?b = "bh_budget (budget_run es (fresh_budget n k w))"
  have b: "stamps_before (now - w) ?b \<and> bu_window ?b = w \<and> bu_maxCalls ?b = n \<and> bu_maxTokens ?b = k"
    using stamps_run [of "now - w" "fresh_budget n k w" es] assms(3)
    by (auto simp: fresh_budget_def NewBudget_def stamps_before_def algebra_simps)
  then show ?thesis using assms(1,2) all_lapsed [of now ?b]
    by (simp add: budget_remaining_def spentLocked_def Let_def)
qed

section \<open>Concrete runs\<close>

text \<open>
  Four calls overlap on a ceiling of 150 tokens. Each one costs exactly its estimate: 10, 100,
  100 and 100. The first to return settles the newest reservation, so while the second call is open
  its charge is the first one's 10, and two more calls are admitted.
\<close>

definition cost_of :: "int \<Rightarrow> usage" where
  "cost_of n = \<lparr>us_inputTokens = n, us_outputTokens = 0, us_cachedInputTokens = 0, us_cacheWriteTokens = 0\<rparr>"

definition ask_at :: "int \<Rightarrow> gotime \<Rightarrow> budget_event" where
  "ask_at e n = Ask e \<lparr>tm_slide = n, tm_call = n, tm_reserve = n\<rparr>"

definition overlapping :: "budget_event list" where
  "overlapping = [ask_at 10 1, ask_at 100 2, Done (cost_of 10) 3 3, ask_at 100 4, ask_at 100 5,
     Done (cost_of 100) 6 6, Done (cost_of 100) 7 7, Done (cost_of 100) 8 8]"

lemma overlapping_run: "budget_run overlapping (fresh_budget 30 150 1000)
  = \<lparr>bh_budget = \<lparr>bu_maxCalls = 30, bu_maxTokens = 150, bu_window = 1000, bu_calls = [1, 2, 4, 5],
        bu_spent = [\<lparr>ct_at = 1, ct_tokens = 100, ct_pending = False\<rparr>, \<lparr>ct_at = 2, ct_tokens = 10, ct_pending = False\<rparr>,
          \<lparr>ct_at = 4, ct_tokens = 100, ct_pending = False\<rparr>, \<lparr>ct_at = 5, ct_tokens = 100, ct_pending = False\<rparr>]\<rparr>,
      bh_granted = [1, 2, 4, 5], bh_estimates = [10, 100, 100, 100], bh_costs = [10, 100, 100, 100]\<rparr>"
  by (simp add: budget_run_def overlapping_def ask_at_def cost_of_def fresh_budget_def NewBudget_def budget_attempt_def
      slide_budget_def spentLocked_def record_usage_def usage_total_def Let_def)

theorem overlapping_calls_undercounted:
  "spentLocked (bh_budget (budget_run overlapping (fresh_budget 30 150 1000))) = 310
   \<and> bh_costs (budget_run overlapping (fresh_budget 30 150 1000)) = bh_estimates (budget_run overlapping (fresh_budget 30 150 1000))
   \<and> Max (set (bh_costs (budget_run overlapping (fresh_budget 30 150 1000)))) = 100"
  by (simp add: overlapping_run spentLocked_def)

lemma each_call_charged_once_witness:
  "\<exists>pending. (310 :: int) = 310 + sum_mset pending \<and> pending \<subseteq># {#10, 100, 100, 100#}"
  using each_call_charged_once [of 150 overlapping 1000 30]
  by (simp add: overlapping_run spentLocked_def) (auto simp: overlapping_def ask_at_def)

lemma budget_repairs_itself_witness:
  "fst (budget_remaining 1008 (bh_budget (budget_run overlapping (fresh_budget 30 150 1000)))) = (30, 150)"
  by (rule budget_repairs_itself) (simp_all add: overlapping_def ask_at_def)

end
