(* ===== verification/RootLock.thy ===== *)
theory RootLock
  imports Prelude
begin

text \<open>
  \<open>lockRoot\<close> of \<open>internal/thread/registry.go\<close>: the guard that serialises forge writes of one thread
  root. A lock object is an address; the registry's map \<open>writeLocks\<close> points at it while somebody
  holds or awaits it, counted in \<open>refs\<close> under the registry's mutex. A writer goes through four atomic
  steps: enter under the registry's mutex, lock the object, unlock it, leave under the registry's
  mutex. The steps of any number of writers interleave freely.
\<close>

section \<open>State and steps\<close>

type_synonym lock_addr = nat
type_synonym writer = nat

datatype phase = Away | Waiting string lock_addr | Holding string lock_addr | Leaving string lock_addr

record root_locks =
  rl_writeLocks :: "string \<rightharpoonup> lock_addr"
  rl_refs :: "lock_addr \<Rightarrow> int"
  rl_owner :: "lock_addr \<rightharpoonup> writer"
  rl_next :: lock_addr
  rl_phase :: "writer \<Rightarrow> phase"

definition no_locks :: root_locks where
  "no_locks = \<lparr>rl_writeLocks = Map.empty, rl_refs = (\<lambda>_. 0), rl_owner = Map.empty, rl_next = 0, rl_phase = (\<lambda>_. Away)\<rparr>"

definition enter_lock :: "writer \<Rightarrow> string \<Rightarrow> root_locks \<Rightarrow> root_locks" where
  "enter_lock w rt s =
     (let s1 = (case rl_writeLocks s rt of
                  Some _ \<Rightarrow> s
                | None \<Rightarrow> s\<lparr>rl_writeLocks := (rl_writeLocks s)(rt \<mapsto> rl_next s),
                            rl_refs := (rl_refs s)(rl_next s := 0), rl_next := Suc (rl_next s)\<rparr>);
          l = the (rl_writeLocks s1 rt)
      in s1\<lparr>rl_refs := (rl_refs s1)(l := rl_refs s1 l + 1), rl_phase := (rl_phase s1)(w := Waiting rt l)\<rparr>)"

definition take_lock :: "writer \<Rightarrow> string \<Rightarrow> lock_addr \<Rightarrow> root_locks \<Rightarrow> root_locks" where
  "take_lock w rt l s = s\<lparr>rl_owner := (rl_owner s)(l \<mapsto> w), rl_phase := (rl_phase s)(w := Holding rt l)\<rparr>"

definition unlock :: "writer \<Rightarrow> string \<Rightarrow> lock_addr \<Rightarrow> root_locks \<Rightarrow> root_locks" where
  "unlock w rt l s = s\<lparr>rl_owner := (rl_owner s)(l := None), rl_phase := (rl_phase s)(w := Leaving rt l)\<rparr>"

definition leave_lock :: "writer \<Rightarrow> string \<Rightarrow> lock_addr \<Rightarrow> root_locks \<Rightarrow> root_locks" where
  "leave_lock w rt l s =
     (let s1 = s\<lparr>rl_refs := (rl_refs s)(l := rl_refs s l - 1), rl_phase := (rl_phase s)(w := Away)\<rparr>
      in if rl_refs s1 l = 0 then s1\<lparr>rl_writeLocks := (rl_writeLocks s1)(rt := None)\<rparr> else s1)"

text \<open>A lock on the empty root is not taken at all: its holder goes through none of these steps.\<close>

inductive lock_step :: "root_locks \<Rightarrow> root_locks \<Rightarrow> bool" where
  enter: "rl_phase s w = Away \<Longrightarrow> rt \<noteq> [] \<Longrightarrow> lock_step s (enter_lock w rt s)"
| take_it: "rl_phase s w = Waiting rt l \<Longrightarrow> rl_owner s l = None \<Longrightarrow> lock_step s (take_lock w rt l s)"
| unlock: "rl_phase s w = Holding rt l \<Longrightarrow> lock_step s (unlock w rt l s)"
| leave: "rl_phase s w = Leaving rt l \<Longrightarrow> lock_step s (leave_lock w rt l s)"

inductive locks_reachable :: "root_locks \<Rightarrow> bool" where
  init: "locks_reachable no_locks"
| step: "locks_reachable s \<Longrightarrow> lock_step s s' \<Longrightarrow> locks_reachable s'"

section \<open>The invariant\<close>

fun at_lock :: "phase \<Rightarrow> (string \<times> lock_addr) option" where
  "at_lock Away = None"
| "at_lock (Waiting r l) = Some (r, l)"
| "at_lock (Holding r l) = Some (r, l)"
| "at_lock (Leaving r l) = Some (r, l)"

definition users :: "root_locks \<Rightarrow> lock_addr \<Rightarrow> writer set" where
  "users s l = {w. \<exists>r. at_lock (rl_phase s w) = Some (r, l)}"

definition locks_ok :: "root_locks \<Rightarrow> bool" where
  "locks_ok s \<longleftrightarrow> finite {w. rl_phase s w \<noteq> Away}
     \<and> (\<forall>l. rl_refs s l = int (card (users s l)))
     \<and> (\<forall>w r l. at_lock (rl_phase s w) = Some (r, l) \<longrightarrow> rl_writeLocks s r = Some l)
     \<and> (\<forall>r l. rl_writeLocks s r = Some l \<longrightarrow> l < rl_next s \<and> users s l \<noteq> {})
     \<and> inj_on (rl_writeLocks s) (dom (rl_writeLocks s))
     \<and> (\<forall>w l. rl_owner s l = Some w \<longleftrightarrow> (\<exists>r. rl_phase s w = Holding r l))"

lemma locks_okD:
  assumes "locks_ok s"
  shows "at_lock (rl_phase s w) = Some (r, l) \<Longrightarrow> rl_writeLocks s r = Some l"
    and "rl_owner s l = Some w \<longleftrightarrow> (\<exists>r. rl_phase s w = Holding r l)"
    and "rl_refs s l = int (card (users s l))"
    and "rl_writeLocks s r = Some l \<Longrightarrow> l < rl_next s"
    and "rl_writeLocks s r = Some l \<Longrightarrow> users s l \<noteq> {}"
    and "rl_writeLocks s r = Some l \<Longrightarrow> rl_writeLocks s r' = Some l \<Longrightarrow> r = r'"
  using assms by (simp_all add: locks_ok_def inj_on_def) (metis domI)

lemma locks_ok_init: "locks_ok no_locks"
  by (simp add: locks_ok_def no_locks_def users_def)

lemma users_finite: "locks_ok s \<Longrightarrow> finite (users s l)"
  by (rule finite_subset [of _ "{w. rl_phase s w \<noteq> Away}"]) (auto simp: locks_ok_def users_def)

lemma users_root:
  assumes "locks_ok s" and "w \<in> users s l" and "rl_writeLocks s r = Some l"
  shows "at_lock (rl_phase s w) = Some (r, l)"
proof -
  obtain r' where r': "at_lock (rl_phase s w) = Some (r', l)" using assms(2) by (auto simp: users_def)
  then have "rl_writeLocks s r' = Some l" by (rule locks_okD(1) [OF assms(1)])
  then have "r' = r" using locks_okD(6) [OF assms(1) _ assms(3)] by simp
  then show ?thesis using r' by simp
qed

lemma enter_ok:
  assumes ok: "locks_ok s" and away: "rl_phase s w = Away"
  shows "locks_ok (enter_lock w rt s)"
proof -
  have fin: "finite {v. rl_phase s v \<noteq> Away}" using ok by (simp add: locks_ok_def)
  show ?thesis
  proof (cases "rl_writeLocks s rt")
    case (Some l)
    let ?s = "enter_lock w rt s"
    have p: "rl_phase ?s = (rl_phase s)(w := Waiting rt l)" "rl_writeLocks ?s = rl_writeLocks s"
      "rl_refs ?s = (rl_refs s)(l := rl_refs s l + 1)" "rl_owner ?s = rl_owner s" "rl_next ?s = rl_next s"
      by (simp_all add: enter_lock_def Some)
    have u: "users ?s m = (if m = l then insert w (users s m) else users s m)" and n: "w \<notin> users s m" for m
      using away by (auto simp: users_def p)
    have "finite {v. rl_phase ?s v \<noteq> Away}" using fin by (rule rev_finite_subset [OF finite.insertI [of _ w]]) (auto simp: p)
    moreover have "rl_refs ?s m = int (card (users ?s m))" for m
      using ok users_finite [OF ok, of l] n [of l] by (simp add: u p locks_ok_def)
    ultimately show ?thesis using ok away Some unfolding locks_ok_def u p by auto
  next
    case None
    let ?s = "enter_lock w rt s" and ?l = "rl_next s"
    have p: "rl_phase ?s = (rl_phase s)(w := Waiting rt ?l)" "rl_writeLocks ?s = (rl_writeLocks s)(rt \<mapsto> ?l)"
      "rl_refs ?s = (rl_refs s)(?l := 1)" "rl_owner ?s = rl_owner s" "rl_next ?s = Suc ?l"
      by (simp_all add: enter_lock_def None Let_def)
    have fresh: "rl_writeLocks s r \<noteq> Some ?l" for r using ok by (auto simp: locks_ok_def)
    have none: "users s ?l = {}" using ok fresh by (fastforce simp: users_def locks_ok_def)
    have u: "users ?s m = (if m = ?l then {w} else users s m)" for m
      using away none by (auto simp: users_def p)
    have "finite {v. rl_phase ?s v \<noteq> Away}" using fin by (rule rev_finite_subset [OF finite.insertI [of _ w]]) (auto simp: p)
    moreover have "inj_on (rl_writeLocks ?s) (dom (rl_writeLocks ?s))"
      using ok fresh by (auto simp: p locks_ok_def inj_on_def)
    moreover have "at_lock (rl_phase s v) = Some (rt, l) \<Longrightarrow> False" for v l
      using ok None by (fastforce simp: locks_ok_def)
    ultimately show ?thesis using ok away None unfolding locks_ok_def u p by (auto simp: less_SucI)
  qed
qed

lemma same_users:
  assumes "at_lock ph = at_lock (rl_phase s w)" and "rl_phase s' = (rl_phase s)(w := ph)"
  shows "users s' l = users s l" and "at_lock (rl_phase s' v) = at_lock (rl_phase s v)"
  using assms by (auto simp: users_def)

lemma at_lock_Away: "at_lock ph = None \<longleftrightarrow> ph = Away"
  by (cases ph) auto

lemma take_ok:
  assumes ok: "locks_ok s" and w: "rl_phase s w = Waiting rt l" and free: "rl_owner s l = None"
  shows "locks_ok (take_lock w rt l s)"
proof -
  let ?s = "take_lock w rt l s"
  have p: "rl_phase ?s = (rl_phase s)(w := Holding rt l)" "rl_writeLocks ?s = rl_writeLocks s"
      "rl_refs ?s = rl_refs s" "rl_owner ?s = (rl_owner s)(l \<mapsto> w)" "rl_next ?s = rl_next s"
    by (simp_all add: take_lock_def)
  have a: "at_lock (Holding rt l) = at_lock (rl_phase s w)" by (simp add: w)
  note u = same_users [OF a p(1)]
  have "{v. rl_phase ?s v \<noteq> Away} = {v. rl_phase s v \<noteq> Away}" using w by (auto simp: p)
  moreover note own = locks_okD(2) [OF ok]
  have "rl_owner ?s m = Some v \<longleftrightarrow> (\<exists>r. rl_phase ?s v = Holding r m)" for v m
    using own [of m v] own [of l v] own [of m w] w free by (auto simp: p)
  ultimately show ?thesis using ok unfolding locks_ok_def u p(2,3,5) by simp
qed

lemma unlock_ok:
  assumes ok: "locks_ok s" and w: "rl_phase s w = Holding rt l"
  shows "locks_ok (unlock w rt l s)"
proof -
  let ?s = "unlock w rt l s"
  have p: "rl_phase ?s = (rl_phase s)(w := Leaving rt l)" "rl_writeLocks ?s = rl_writeLocks s"
      "rl_refs ?s = rl_refs s" "rl_owner ?s = (rl_owner s)(l := None)" "rl_next ?s = rl_next s"
    by (simp_all add: unlock_def)
  have a: "at_lock (Leaving rt l) = at_lock (rl_phase s w)" by (simp add: w)
  note u = same_users [OF a p(1)]
  note own = locks_okD(2) [OF ok]
  have "{v. rl_phase ?s v \<noteq> Away} = {v. rl_phase s v \<noteq> Away}" using w by (auto simp: p)
  moreover have "rl_owner ?s m = Some v \<longleftrightarrow> (\<exists>r. rl_phase ?s v = Holding r m)" for v m
    using own [of m v] own [of l v] own [of l w] w by (auto simp: p)
  ultimately show ?thesis using ok unfolding locks_ok_def u p(2,3,5) by simp
qed

lemma leave_ok:
  assumes ok: "locks_ok s" and w: "rl_phase s w = Leaving rt l"
  shows "locks_ok (leave_lock w rt l s)"
proof -
  let ?s = "leave_lock w rt l s"
  have p: "rl_phase ?s = (rl_phase s)(w := Away)" "rl_refs ?s = (rl_refs s)(l := rl_refs s l - 1)"
      "rl_owner ?s = rl_owner s" "rl_next ?s = rl_next s"
      "rl_writeLocks ?s = (if rl_refs s l = 1 then (rl_writeLocks s)(rt := None) else rl_writeLocks s)"
    by (auto simp: leave_lock_def Let_def)
  have u: "users ?s m = users s m - {w}" for m by (auto simp: users_def p)
  have wl: "w \<in> users s m \<longleftrightarrow> m = l" for m using w by (auto simp: users_def)
  have m: "rl_writeLocks s rt = Some l" by (rule locks_okD(1) [OF ok, of w]) (simp add: w)
  note refs = locks_okD(3) [OF ok]
  have one: "rl_refs s l = 1 \<longleftrightarrow> users s l = {w}"
    using wl [of l] users_finite [OF ok, of l] by (auto simp: refs card_1_singleton_iff)
  have refs': "rl_refs ?s k = int (card (users ?s k))" for k
  proof (cases "k = l")
    case True
    have "w \<in> users s l" using wl by simp
    then have "card (users s l) = Suc (card (users s l - {w}))"
      by (rule card.remove [OF users_finite [OF ok]])
    then show ?thesis using True refs [of l] by (simp add: p u)
  next
    case False
    then have "users s k - {w} = users s k" using wl by blast
    then show ?thesis using False refs [of k] by (simp add: p u)
  qed
  have fin: "finite {v. rl_phase ?s v \<noteq> Away}"
    using ok by (auto simp: p locks_ok_def elim: rev_finite_subset)
  have "rl_writeLocks ?s r = Some k" if "at_lock (rl_phase ?s v) = Some (r, k)" for v r k
  proof -
    have v: "v \<noteq> w" "at_lock (rl_phase s v) = Some (r, k)" using that by (auto simp: p split: if_splits)
    then have rk: "rl_writeLocks s r = Some k" using locks_okD(1) [OF ok] by blast
    have vk: "v \<in> users s k" using v(2) unfolding users_def by blast
    have "r \<noteq> rt" if "rl_refs s l = 1"
    proof
      assume "r = rt"
      then have "k = l" using rk m by simp
      then show False using vk v(1) that one by blast
    qed
    then show ?thesis using rk by (simp add: p)
  qed
  moreover have "k < rl_next ?s \<and> users ?s k \<noteq> {}" if "rl_writeLocks ?s r = Some k" for r k
  proof -
    have rk: "rl_writeLocks s r = Some k" using that by (auto simp: p split: if_splits)
    then have k: "k < rl_next s" "users s k \<noteq> {}" using locks_okD(4,5) [OF ok] by blast+
    have "users s k \<noteq> {w}"
    proof
      assume s: "users s k = {w}"
      then have kl: "k = l" using wl by blast
      then have "rl_refs s l = 1" using s one by blast
      moreover have "r = rt" using locks_okD(6) [OF ok rk] m kl by simp
      ultimately show False using that by (simp add: p)
    qed
    then show ?thesis using k unfolding u p by blast
  qed
  moreover have "inj_on (rl_writeLocks ?s) (dom (rl_writeLocks ?s))"
    using locks_okD(6) [OF ok] by (auto simp: p inj_on_def)
  moreover have "rl_owner ?s k = Some v \<longleftrightarrow> (\<exists>r. rl_phase ?s v = Holding r k)" for v k
    using locks_okD(2) [OF ok] w by (auto simp: p)
  ultimately show ?thesis using fin refs' by (simp add: locks_ok_def)
qed

lemma reachable_ok: "locks_reachable s \<Longrightarrow> locks_ok s"
proof (induction rule: locks_reachable.induct)
  case init
  show ?case by (rule locks_ok_init)
next
  case (step s s')
  from step.hyps(2) step.IH show ?case
    by (cases rule: lock_step.cases) (simp_all add: enter_ok take_ok unlock_ok leave_ok)
qed

section \<open>Properties\<close>

text \<open>
  C15: One writer per root. However the steps of the writers interleave, with locks being deleted
  and created again for the same root, two writers never hold the guard of one root at once.
\<close>

theorem one_writer_per_root:
  assumes "locks_reachable s" and "rl_phase s v = Holding rt l" and "rl_phase s w = Holding rt m"
  shows "v = w"
proof -
  note ok = reachable_ok [OF assms(1)]
  have "rl_writeLocks s rt = Some l" "rl_writeLocks s rt = Some m"
    using locks_okD(1) [OF ok, of v] locks_okD(1) [OF ok, of w] assms(2,3) by simp_all
  then have "m = l" by simp
  then have "rl_owner s l = Some v" "rl_owner s l = Some w" using locks_okD(2) [OF ok] assms(2,3) by blast+
  then show ?thesis by simp
qed

text \<open>
  The table of locks holds an entry exactly for the roots that some writer is waiting for,
  holding or leaving, and no writer waits for a lock that is gone: either it can take the lock, or
  another writer of the same root holds it.
\<close>

theorem locks_bounded_and_live:
  assumes "locks_reachable s"
  shows "dom (rl_writeLocks s) = {r. \<exists>w l. at_lock (rl_phase s w) = Some (r, l)}
    \<and> (\<forall>w r l. rl_phase s w = Waiting r l \<longrightarrow> lock_step s (take_lock w r l s)
         \<or> (\<exists>v. rl_phase s v = Holding r l))"
proof (intro conjI allI impI)
  note ok = reachable_ok [OF assms]
  have "\<exists>w l. at_lock (rl_phase s w) = Some (r, l)" if "rl_writeLocks s r = Some l" for r l
  proof -
    have "users s l \<noteq> {}" using ok that by (auto simp: locks_ok_def)
    then obtain w where "w \<in> users s l" by blast
    from users_root [OF ok this that] show ?thesis by blast
  qed
  then show "dom (rl_writeLocks s) = {r. \<exists>w l. at_lock (rl_phase s w) = Some (r, l)}"
    using locks_okD(1) [OF ok] by blast
  fix w r l
  assume w: "rl_phase s w = Waiting r l"
  show "lock_step s (take_lock w r l s) \<or> (\<exists>v. rl_phase s v = Holding r l)"
  proof (cases "rl_owner s l")
    case None
    then show ?thesis using lock_step.take_it [OF w] by simp
  next
    case (Some v)
    then obtain r' where v: "rl_phase s v = Holding r' l" using locks_okD(2) [OF ok] by blast
    have "rl_writeLocks s r = Some l" by (rule locks_okD(1) [OF ok, of w]) (simp add: w)
    then have "at_lock (rl_phase s v) = Some (r, l)"
      using users_root [OF ok, of v l r] v by (auto simp: users_def)
    then show ?thesis using v by auto
  qed
qed

section \<open>Two writers of one root\<close>

definition contended :: root_locks where
  "contended = take_lock 1 ''r'' 0 (enter_lock 2 ''r'' (enter_lock 1 ''r'' no_locks))"

lemma enter_phases: "rl_phase (enter_lock w rt s) v
  = (if v = w then Waiting rt (case rl_writeLocks s rt of Some l \<Rightarrow> l | None \<Rightarrow> rl_next s) else rl_phase s v)"
  by (simp add: enter_lock_def Let_def split: option.split)

lemma contended_reachable: "locks_reachable contended"
proof -
  have "locks_reachable (enter_lock 1 ''r'' no_locks)"
    by (rule locks_reachable.step [OF init lock_step.enter]) (simp_all add: no_locks_def)
  then have "locks_reachable (enter_lock 2 ''r'' (enter_lock 1 ''r'' no_locks))"
    by (rule locks_reachable.step [OF _ lock_step.enter]) (simp_all add: enter_phases no_locks_def)
  then show ?thesis unfolding contended_def
    by (rule locks_reachable.step [OF _ lock_step.take_it]) (simp_all add: enter_lock_def Let_def no_locks_def)
qed

lemma contended_phases: "rl_phase contended v = (if v = 1 then Holding ''r'' 0 else if v = 2 then Waiting ''r'' 0 else Away)"
  by (simp add: contended_def take_lock_def enter_lock_def Let_def no_locks_def)

lemma one_writer_per_root_witness:
  "locks_reachable contended \<and> rl_phase contended 1 = Holding ''r'' 0 \<and> {v. \<exists>l. rl_phase contended v = Holding ''r'' l} = {1}"
proof -
  have h: "rl_phase contended 1 = Holding ''r'' 0" by (simp add: contended_phases)
  have "v = 1" if "rl_phase contended v = Holding ''r'' l" for v l
    by (rule one_writer_per_root [OF contended_reachable that h])
  then show ?thesis using h contended_reachable by blast
qed

lemma locks_bounded_and_live_witness: "dom (rl_writeLocks contended) = {''r''} \<and> rl_phase contended 2 = Waiting ''r'' 0"
proof -
  have "{r. \<exists>w l. at_lock (rl_phase contended w) = Some (r, l)} = {''r''}"
    by (auto simp: contended_phases split: if_splits intro: exI [of _ 1])
  then show ?thesis using locks_bounded_and_live [OF contended_reachable] by (simp add: contended_phases)
qed

end
