(* ===== verification/ThreadRegistry.thy ===== *)
theory ThreadRegistry
  imports LedgerRun Findings
begin

text \<open>
  \<open>internal/thread/thread.go\<close> and \<open>internal/thread/registry.go\<close>: the context a chat thread is
  answered from, and the registry that maps a thread root to it. The registry is an append-only file
  of contexts, replayed on open, bounded by a time to live and by a maximum of live threads. A line
  of the file is the context it decodes to, or \<open>None\<close> when it does not decode; how an append ends is
  a parameter of each write, as for the outcome ledger. Every operation is one critical section of
  the registry's mutex; the guard of one root is the theory \<open>RootLock\<close>.
\<close>

section \<open>Contexts and evidence\<close>

record evidence =
  ed_rootCauses :: "string list"
  ed_ruledOut :: "string list"
  ed_unresolved :: "string list"
  ed_dataGaps :: "string list"

record thread_context =
  tx_transport :: string
  tx_root :: string
  tx_channel :: string
  tx_triggerKey :: string
  tx_dupFingerprint :: string
  tx_title :: string
  tx_resource :: string
  tx_verdict :: string
  tx_curatedURL :: string
  tx_recalledEntry :: string
  tx_noteURL :: string
  tx_notes :: int
  tx_evidence :: evidence
  tx_at :: gotime

definition no_evidence :: evidence where
  "no_evidence = \<lparr>ed_rootCauses = [], ed_ruledOut = [], ed_unresolved = [], ed_dataGaps = []\<rparr>"

definition zero_context :: thread_context where
  "zero_context = \<lparr>tx_transport = [], tx_root = [], tx_channel = [], tx_triggerKey = [], tx_dupFingerprint = [],
     tx_title = [], tx_resource = [], tx_verdict = [], tx_curatedURL = [], tx_recalledEntry = [], tx_noteURL = [],
     tx_notes = 0, tx_evidence = no_evidence, tx_at = 0\<rparr>"

definition MaxEvidenceRootCauses :: nat where "MaxEvidenceRootCauses = 3"
definition MaxEvidenceListItems :: nat where "MaxEvidenceListItems = 5"
definition MaxEvidenceItemBytes :: int where "MaxEvidenceItemBytes = 100"

definition MaxEvidenceBytes :: int where
  "MaxEvidenceBytes = (int MaxEvidenceRootCauses + 3 * int MaxEvidenceListItems) * (MaxEvidenceItemBytes + 2)"

text \<open>The longest prefix of at most \<open>n\<close> bytes that ends before the start of a rune.\<close>

fun back_to_rune :: "nat \<Rightarrow> string \<Rightarrow> nat" where
  "back_to_rune 0 s = 0"
| "back_to_rune (Suc n) s = (if is_cont (s ! Suc n) then back_to_rune n s else Suc n)"

definition truncate_bytes :: "string \<Rightarrow> int \<Rightarrow> string" where
  "truncate_bytes s n =
     (if n \<le> 0 then [] else if int (length s) \<le> n then s
      else take (back_to_rune (nat (n - 1)) s) s @ ellipsis)"

definition evidenceItem :: "string \<Rightarrow> string" where
  "evidenceItem s = truncate_bytes (trim_space s) MaxEvidenceItemBytes"

fun evidence_walk :: "nat \<Rightarrow> string list \<Rightarrow> string list" where
  "evidence_walk limit [] = []"
| "evidence_walk limit (item # rest) =
     (if limit = 0 then []
      else (let s = evidenceItem item
            in if s \<noteq> [] then s # evidence_walk (limit - 1) rest else evidence_walk limit rest))"

definition evidenceList :: "string list \<Rightarrow> nat \<Rightarrow> string list" where
  "evidenceList items limit = evidence_walk limit items"

definition evidenceFrom :: "investigation \<Rightarrow> evidence" where
  "evidenceFrom iv =
     \<lparr>ed_rootCauses = evidence_walk MaxEvidenceRootCauses (map hy_summary (iv_rootCauses iv)),
      ed_ruledOut = evidenceList (iv_ruledOut iv) MaxEvidenceListItems,
      ed_unresolved = evidenceList (iv_unresolved iv) MaxEvidenceListItems,
      ed_dataGaps = evidenceList (iv_dataGaps iv) MaxEvidenceListItems\<rparr>"

section \<open>The registry\<close>

record registry =
  rg_path :: string
  rg_ttl :: duration
  rg_maxLive :: int
  rg_byID :: "(string \<times> thread_context) list"
  rg_order :: "string list"
  rg_file :: "thread_context option list option"
  rg_torn :: bool

datatype registry_error = ErrThreadNotTracked | ErrThreadNotEstablishable | RegistryAppendError | RegistryLoadError

definition reg_enabled :: "registry \<Rightarrow> bool" where
  "reg_enabled r \<longleftrightarrow> rg_path r \<noteq> []"

text \<open>
  The eviction loop of \<open>putLocked\<close>. Go panics on an empty order; the invariant below shows that the
  first equation is never used with anything left to evict.
\<close>

fun evict :: "int \<Rightarrow> string list \<Rightarrow> (string \<times> thread_context) list \<Rightarrow> string list \<times> (string \<times> thread_context) list" where
  "evict m [] t = ([], t)"
| "evict m (oldest # rest) t =
     (if m > 0 \<and> int (length t) > m then evict m rest (AList.delete oldest t) else (oldest # rest, t))"

type_synonym live = "string list \<times> (string \<times> thread_context) list"

definition put_entry :: "int \<Rightarrow> thread_context \<Rightarrow> live \<Rightarrow> live" where
  "put_entry m tc l = (case l of (order, t) \<Rightarrow>
     evict m (if map_of t (tx_root tc) = None then order @ [tx_root tc] else order) (AList.update (tx_root tc) tc t))"

definition reg_live :: "registry \<Rightarrow> live" where
  "reg_live r = (rg_order r, rg_byID r)"

definition set_live :: "live \<Rightarrow> registry \<Rightarrow> registry" where
  "set_live l r = r\<lparr>rg_order := fst l, rg_byID := snd l\<rparr>"

definition putLocked :: "thread_context \<Rightarrow> registry \<Rightarrow> registry" where
  "putLocked tc r = set_live (put_entry (rg_maxLive r) tc (reg_live r)) r"

fun expire_walk :: "gotime \<Rightarrow> string list \<Rightarrow> (string \<times> thread_context) list \<Rightarrow> live" where
  "expire_walk cutoff [] t = ([], t)"
| "expire_walk cutoff (rt # rest) t = (case map_of t rt of
     None \<Rightarrow> expire_walk cutoff rest t
   | Some tc \<Rightarrow>
       if \<not> is_zero_time (tx_at tc) \<and> tx_at tc < cutoff then expire_walk cutoff rest (AList.delete rt t)
       else (case expire_walk cutoff rest t of (kept, t') \<Rightarrow> (rt # kept, t')))"

definition expireLocked :: "gotime \<Rightarrow> registry \<Rightarrow> registry" where
  "expireLocked now r =
     (if rg_ttl r \<le> 0 then r else set_live (expire_walk (now - rg_ttl r) (rg_order r) (rg_byID r)) r)"

definition reg_lines :: "registry \<Rightarrow> thread_context option list" where
  "reg_lines r = (case rg_file r of None \<Rightarrow> [] | Some ls \<Rightarrow> ls)"

text \<open>An append after a torn one fuses with the torn bytes.\<close>

definition append_context :: "append_outcome \<Rightarrow> thread_context \<Rightarrow> registry \<Rightarrow> registry_error option \<times> registry" where
  "append_context io tc r = (case io of
     OpenFails \<Rightarrow> (Some RegistryAppendError, r)
   | ShortWrite \<Rightarrow> (Some RegistryAppendError, r\<lparr>rg_file := Some (if rg_torn r then reg_lines r else reg_lines r @ [None]), rg_torn := True\<rparr>)
   | SyncFails \<Rightarrow> (Some RegistryAppendError,
       r\<lparr>rg_file := Some (if rg_torn r then reg_lines r else reg_lines r @ [Some tc]), rg_torn := False\<rparr>)
   | AppendOk \<Rightarrow> (None,
       r\<lparr>rg_file := Some (if rg_torn r then reg_lines r else reg_lines r @ [Some tc]), rg_torn := False\<rparr>))"

definition Put :: "append_outcome \<Rightarrow> gotime \<Rightarrow> thread_context \<Rightarrow> registry \<Rightarrow> registry_error option \<times> registry" where
  "Put io now tc r =
     (if \<not> reg_enabled r \<or> tx_root tc = [] then (None, r)
      else (let tc1 = (if is_zero_time (tx_at tc) then tc\<lparr>tx_at := now\<rparr> else tc)
            in append_context io tc1 (putLocked tc1 r)))"

definition Get :: "gotime \<Rightarrow> string \<Rightarrow> registry \<Rightarrow> thread_context option \<times> registry" where
  "Get now rt r =
     (if \<not> reg_enabled r \<or> rt = [] then (None, r)
      else (let r1 = expireLocked now r in (map_of (rg_byID r1) rt, r1)))"

definition Update :: "append_outcome \<Rightarrow> string \<Rightarrow> (thread_context \<Rightarrow> thread_context) \<Rightarrow> registry
     \<Rightarrow> registry_error option \<times> registry" where
  "Update io rt fn r =
     (if \<not> reg_enabled r \<or> rt = [] then (None, r)
      else case map_of (rg_byID r) rt of
             None \<Rightarrow> (Some ErrThreadNotTracked, r)
           | Some tc \<Rightarrow> (let tc1 = (fn tc)\<lparr>tx_root := rt\<rparr> in append_context io tc1 (putLocked tc1 r)))"

definition GetOrCreate :: "append_outcome \<Rightarrow> gotime \<Rightarrow> gotime \<Rightarrow> string \<Rightarrow> thread_context \<Rightarrow> registry
     \<Rightarrow> (thread_context \<times> bool \<times> registry_error option) \<times> registry" where
  "GetOrCreate io now now' rt fallback r =
     (if \<not> reg_enabled r \<or> rt = [] then ((zero_context, False, Some ErrThreadNotEstablishable), r)
      else (let r1 = expireLocked now r
            in case map_of (rg_byID r1) rt of
                 Some existing \<Rightarrow> ((existing, False, None), r1)
               | None \<Rightarrow>
                   (let f1 = fallback\<lparr>tx_root := rt\<rparr>;
                        f2 = (if is_zero_time (tx_at f1) then f1\<lparr>tx_at := now'\<rparr> else f1)
                    in case append_context io f2 (putLocked f2 r1) of (err, r2) \<Rightarrow> ((f2, True, err), r2))))"

definition Register_thread :: "append_outcome \<Rightarrow> gotime \<Rightarrow> string \<Rightarrow> string \<Rightarrow> string \<Rightarrow> investigation \<Rightarrow> registry \<Rightarrow> registry" where
  "Register_thread io now transport rt channel iv r =
     (if rt = [] then r
      else snd (Put io now \<lparr>tx_transport = transport, tx_root = rt, tx_channel = channel,
        tx_triggerKey = iv_triggerKey iv, tx_dupFingerprint = [], tx_title = iv_title iv, tx_resource = Ref (iv_resource iv),
        tx_verdict = iv_verdict iv, tx_curatedURL = iv_curatedURL iv, tx_recalledEntry = iv_recalledEntry iv,
        tx_noteURL = [], tx_notes = 0, tx_evidence = evidenceFrom iv, tx_at = now\<rparr> r))"

text \<open>\<open>compactLocked\<close>; \<open>ok\<close> is whether the temporary file could be written and renamed.\<close>

definition compact_registry :: "bool \<Rightarrow> registry \<Rightarrow> registry_error option \<times> registry" where
  "compact_registry ok r =
     (if \<not> ok then (Some RegistryLoadError, r)
      else (None, r\<lparr>rg_file := Some (map Some (List.map_filter (map_of (rg_byID r)) (rg_order r))), rg_torn := False\<rparr>))"

text \<open>
  A new registry is opened on the file as it was left, \<open>torn\<close> when its last line has no end.
  \<open>load\<close>: \<open>fits\<close> says which lines the scanner's buffer can hold. A line that does not fit ends the scan
  with an error.
\<close>

definition load_registry :: "(thread_context option \<Rightarrow> bool) \<Rightarrow> bool \<Rightarrow> gotime \<Rightarrow> registry \<Rightarrow> registry_error option \<times> registry" where
  "load_registry fits ok now r = (case rg_file r of
     None \<Rightarrow> (None, r)
   | Some ls \<Rightarrow>
       (let scanned = List.map_filter id (takeWhile fits ls);
            r1 = fold putLocked (filter (\<lambda>tc. tx_root tc \<noteq> []) scanned) r
        in if \<not> list_all fits ls then (Some RegistryLoadError, r1)
           else (let r2 = expireLocked now r1
                 in if length scanned > length (rg_byID r2) then compact_registry ok r2 else (None, r2))))"

definition NewRegistry :: "(thread_context option \<Rightarrow> bool) \<Rightarrow> bool \<Rightarrow> gotime \<Rightarrow> string \<Rightarrow> duration \<Rightarrow> int
     \<Rightarrow> thread_context option list option \<Rightarrow> bool \<Rightarrow> registry_error + registry" where
  "NewRegistry fits ok now path ttl maxLive file torn =
     (let r = \<lparr>rg_path = path, rg_ttl = ttl, rg_maxLive = maxLive, rg_byID = [], rg_order = [], rg_file = file, rg_torn = torn\<rparr>
      in if path = [] then Inr r
         else case load_registry fits ok now r of
                (Some err, _) \<Rightarrow> Inl err
              | (None, r1) \<Rightarrow> Inr r1)"

end
