(* ===== verification/RegistryRun.thy ===== *)
theory RegistryRun
  imports ThreadRegistry
begin

text \<open>
  Runs of the thread registry: its invariant, the bound on live threads and on the evidence of a
  thread, that it is a journal (a restart replays to the live state as long as nothing expired), and
  what expiry changes about that.
\<close>

section \<open>The evidence is bounded\<close>

lemma back_to_rune_le: "back_to_rune n s \<le> n"
  by (induction n) (auto intro: le_SucI)

lemma truncate_bytes_length: "0 < n \<Longrightarrow> int (length (truncate_bytes s n)) \<le> n + 2"
  using back_to_rune_le [of "nat (n - 1)" s] by (auto simp: truncate_bytes_def ellipsis_def)

lemma evidence_walk_bounded:
  "int (length (concat (evidence_walk limit xs))) \<le> int limit * (MaxEvidenceItemBytes + 2)"
proof (induction limit xs rule: evidence_walk.induct)
  case (2 limit item rest)
  have "int (length (evidenceItem item)) \<le> MaxEvidenceItemBytes + 2"
    unfolding evidenceItem_def by (rule truncate_bytes_length) (simp add: MaxEvidenceItemBytes_def)
  moreover have "limit \<noteq> 0 \<Longrightarrow> int limit * (MaxEvidenceItemBytes + 2)
      = int (limit - 1) * (MaxEvidenceItemBytes + 2) + (MaxEvidenceItemBytes + 2)"
    by (cases limit) (simp_all add: algebra_simps)
  ultimately show ?case using 2 by (auto simp: Let_def)
qed (simp add: MaxEvidenceItemBytes_def)

definition evidence_bytes :: "evidence \<Rightarrow> nat" where
  "evidence_bytes e = length (concat (ed_rootCauses e @ ed_ruledOut e @ ed_unresolved e @ ed_dataGaps e))"

text \<open>
  What a thread keeps of an investigation's reasoning stays within \<open>MaxEvidenceBytes\<close>, however long
  the investigation's texts are.
\<close>

theorem evidence_bounded: "int (evidence_bytes (evidenceFrom iv)) \<le> MaxEvidenceBytes"
  using evidence_walk_bounded [of MaxEvidenceRootCauses "map hy_summary (iv_rootCauses iv)"]
    evidence_walk_bounded [of MaxEvidenceListItems "iv_ruledOut iv"]
    evidence_walk_bounded [of MaxEvidenceListItems "iv_unresolved iv"]
    evidence_walk_bounded [of MaxEvidenceListItems "iv_dataGaps iv"]
  by (simp add: evidence_bytes_def evidenceFrom_def evidenceList_def MaxEvidenceBytes_def MaxEvidenceRootCauses_def
      MaxEvidenceListItems_def MaxEvidenceItemBytes_def)

section \<open>The invariant\<close>

text \<open>The order lists the keys of the table, in the table's own order, and the table is in bounds.\<close>

definition live_ok :: "int \<Rightarrow> live \<Rightarrow> bool" where
  "live_ok m l \<longleftrightarrow> map fst (snd l) = fst l \<and> distinct (fst l) \<and> (\<forall>(k, tc) \<in> set (snd l). tx_root tc = k \<and> k \<noteq> [])
     \<and> (m > 0 \<longrightarrow> int (length (snd l)) \<le> m)"

lemma AList_delete_head: "k \<notin> fst ` set t \<Longrightarrow> AList.delete k ((k, v) # t) = t"
  by (simp add: AList.delete_eq filter_id_conv) force

text \<open>With a table that enumerates the order, eviction drops a prefix of both.\<close>

lemma evict_drop:
  assumes "map fst t = order" and "distinct order"
  shows "evict m order t = (let n = (if m > 0 then length t - nat m else 0) in (drop n order, drop n t))"
  using assms
proof (induction order arbitrary: t)
  case Nil
  then show ?case by simp
next
  case (Cons rt order)
  obtain tc t' where t: "t = (rt, tc) # t'" "map fst t' = order" using Cons.prems(1) by auto
  have "rt \<notin> set (map fst t')" using Cons.prems(2) unfolding t(2) by simp
  then have "rt \<notin> fst ` set t'" by simp
  then have d: "AList.delete rt t = t'" by (simp add: t(1) AList_delete_head)
  have l: "nat m \<le> length t' \<Longrightarrow> Suc (length t') - nat m = Suc (length t' - nat m)" by simp
  show ?case using Cons.IH [OF t(2)] Cons.prems(2) d l by (auto simp: t(1) Let_def)
qed

lemma update_keys: "map fst (AList.update k v t) = (if map_of t k = None then map fst t @ [k] else map fst t)"
  by (simp add: AList.update_keys map_of_eq_None_iff)

lemma put_entry_alt: "put_entry m tc l
  = evict m (if map_of (snd l) (tx_root tc) = None then fst l @ [tx_root tc] else fst l) (AList.update (tx_root tc) tc (snd l))"
  by (simp add: put_entry_def split: prod.split)

lemma put_entry_drop:
  assumes "live_ok m l"
  shows "put_entry m tc l = (let t = AList.update (tx_root tc) tc (snd l); n = (if m > 0 then length t - nat m else 0)
    in (drop n (map fst t), drop n t))"
proof -
  let ?t = "AList.update (tx_root tc) tc (snd l)"
  have "(if map_of (snd l) (tx_root tc) = None then fst l @ [tx_root tc] else fst l) = map fst ?t"
    using assms by (auto simp: update_keys live_ok_def)
  moreover have "distinct (map fst ?t)" using assms by (auto simp: live_ok_def)
  ultimately show ?thesis unfolding put_entry_alt by (simp only: evict_drop length_map Let_def)
qed

lemma set_AList_update: "(k, x) \<in> set (AList.update k' v t) \<Longrightarrow> (k, x) = (k', v) \<or> (k, x) \<in> set t"
  by (induction t) (auto split: if_splits)

lemma put_entry_ok:
  assumes "live_ok m l" and "tx_root tc \<noteq> []"
  shows "live_ok m (put_entry m tc l)"
proof -
  let ?t = "AList.update (tx_root tc) tc (snd l)"
  have d: "distinct (map fst ?t)" using assms(1) by (auto simp: live_ok_def)
  have e: "\<forall>(k, x) \<in> set ?t. tx_root x = k \<and> k \<noteq> []" using assms set_AList_update by (fastforce simp: live_ok_def)
  have "distinct (map fst (drop n ?t))" for n by (metis d distinct_drop drop_map)
  then show ?thesis
    using e unfolding put_entry_drop [OF assms(1)] live_ok_def
    by (auto simp: Let_def drop_map dest: in_set_dropD)
qed

lemma expire_walk_other:
  "k \<notin> set order \<Longrightarrow> expire_walk c order ((k, v) # t) = (case expire_walk c order t of (kept, u) \<Rightarrow> (kept, (k, v) # u))"
  by (induction order arbitrary: t) (auto split: option.split prod.split)

lemma expire_walk_filter:
  assumes "map fst t = order" and "distinct order"
  shows "expire_walk c order t = (let t' = filter (\<lambda>(k, tc). is_zero_time (tx_at tc) \<or> c \<le> tx_at tc) t in (map fst t', t'))"
  using assms
proof (induction order arbitrary: t)
  case Nil
  then show ?case by simp
next
  case (Cons rt order)
  obtain tc t' where t: "t = (rt, tc) # t'" "map fst t' = order" using Cons.prems(1) by auto
  have "rt \<notin> set (map fst t')" using Cons.prems(2) unfolding t(2) by simp
  then have "rt \<notin> fst ` set t'" by simp
  then have d: "AList.delete rt t = t'" by (simp add: t(1) AList_delete_head)
  show ?case
  proof (cases "\<not> is_zero_time (tx_at tc) \<and> tx_at tc < c")
    case True
    then show ?thesis using Cons.IH [OF t(2)] Cons.prems(2) d by (auto simp: t(1) Let_def)
  next
    case False
    have "expire_walk c order ((rt, tc) # t') = (case expire_walk c order t' of (kept, u) \<Rightarrow> (kept, (rt, tc) # u))"
      by (rule expire_walk_other) (use Cons.prems(2) in simp)
    then show ?thesis using Cons.IH [OF t(2)] Cons.prems(2) False by (auto simp: t(1) Let_def)
  qed
qed

section \<open>Runs\<close>

datatype registry_op =
    RegPut thread_context | RegGet string | RegUpdate string "thread_context \<Rightarrow> thread_context"
  | RegGetOrCreate string thread_context | RegRegister string string string investigation

record registry_event =
  re_io :: append_outcome
  re_now :: gotime
  re_now' :: gotime
  re_op :: registry_op

definition registry_step :: "registry_event \<Rightarrow> registry \<Rightarrow> registry" where
  "registry_step e r = (case re_op e of
     RegPut tc \<Rightarrow> snd (Put (re_io e) (re_now e) tc r)
   | RegGet rt \<Rightarrow> snd (Get (re_now e) rt r)
   | RegUpdate rt fn \<Rightarrow> snd (Update (re_io e) rt fn r)
   | RegGetOrCreate rt fallback \<Rightarrow> snd (GetOrCreate (re_io e) (re_now e) (re_now' e) rt fallback r)
   | RegRegister transport rt channel iv \<Rightarrow> Register_thread (re_io e) (re_now e) transport rt channel iv r)"

text \<open>An operation leaves the live set alone, expires it, or expires it and puts one entry, which it appends.\<close>

definition appended :: "append_outcome \<Rightarrow> thread_context \<Rightarrow> registry \<Rightarrow> registry" where
  "appended io tc r = snd (append_context io tc (putLocked tc r))"

lemma registry_step_cases:
  obtains (idle) "registry_step e r = r"
  | (expired) "registry_step e r = expireLocked (re_now e) r" "reg_enabled r"
  | (written) tc r1 where "registry_step e r = appended (re_io e) tc r1" "reg_enabled r" "tx_root tc \<noteq> []"
      "r1 = r \<or> r1 = expireLocked (re_now e) r"
      "(\<exists>c. re_op e = RegPut c \<and> tc = (if is_zero_time (tx_at c) then c\<lparr>tx_at := re_now e\<rparr> else c))
       \<or> (\<exists>rt f c. re_op e = RegUpdate rt f \<and> (rt, c) \<in> set (rg_byID r) \<and> tx_at tc = tx_at (f c))
       \<or> (\<exists>rt c. re_op e = RegGetOrCreate rt c \<and> tx_at tc = (if is_zero_time (tx_at c) then re_now' e else tx_at c))
       \<or> tx_at tc = re_now e"
proof (cases "re_op e")
  case (RegPut tc)
  then show ?thesis using idle written
    by (cases "\<not> reg_enabled r \<or> tx_root tc = []") (auto simp: registry_step_def Put_def appended_def Let_def)
next
  case (RegGet rt)
  then show ?thesis using idle expired
    by (cases "\<not> reg_enabled r \<or> rt = []") (auto simp: registry_step_def Get_def Let_def)
next
  case (RegUpdate rt f)
  show ?thesis
  proof (cases "reg_enabled r \<and> rt \<noteq> [] \<and> map_of (rg_byID r) rt \<noteq> None")
    case True
    then obtain c where c: "map_of (rg_byID r) rt = Some c" by auto
    show ?thesis
      by (rule written [of "(f c)\<lparr>tx_root := rt\<rparr>" r]) (use True c map_of_SomeD [OF c] RegUpdate in \<open>auto simp: registry_step_def Update_def appended_def Let_def\<close>)
  next
    case False
    then show ?thesis using idle RegUpdate by (auto simp: registry_step_def Update_def Let_def split: option.splits)
  qed
next
  case (RegGetOrCreate rt c)
  show ?thesis
  proof (cases "reg_enabled r \<and> rt \<noteq> []")
    case False
    then show ?thesis using idle RegGetOrCreate by (auto simp: registry_step_def GetOrCreate_def)
  next
    case True
    show ?thesis
    proof (cases "map_of (rg_byID (expireLocked (re_now e) r)) rt")
      case None
      show ?thesis
        by (rule written [of "if is_zero_time (tx_at c) then c\<lparr>tx_root := rt, tx_at := re_now' e\<rparr> else c\<lparr>tx_root := rt\<rparr>" "expireLocked (re_now e) r"])
          (use True None RegGetOrCreate in \<open>auto simp: registry_step_def GetOrCreate_def appended_def Let_def split: prod.split\<close>)
    next
      case (Some x)
      then show ?thesis using expired True RegGetOrCreate by (auto simp: registry_step_def GetOrCreate_def Let_def)
    qed
  qed
next
  case (RegRegister transport rt channel iv)
  then show ?thesis using idle written
    by (cases "\<not> reg_enabled r \<or> rt = []") (auto simp: registry_step_def Register_thread_def Put_def appended_def Let_def)
qed

section \<open>The invariant is kept\<close>

definition registry_ok :: "registry \<Rightarrow> bool" where
  "registry_ok r \<longleftrightarrow> live_ok (rg_maxLive r) (reg_live r)"

lemma int_length_filter: "int (length xs) \<le> m \<Longrightarrow> int (length (filter P xs)) \<le> m"
  using length_filter_le [of P xs] by linarith

lemma expire_ok: "registry_ok r \<Longrightarrow> registry_ok (expireLocked now r)"
  by (auto simp: registry_ok_def expireLocked_def set_live_def reg_live_def live_ok_def expire_walk_filter Let_def
      distinct_map_filter intro: int_length_filter)

lemma set_live_frame [simp]:
  "rg_path (set_live l r) = rg_path r" "rg_ttl (set_live l r) = rg_ttl r" "rg_maxLive (set_live l r) = rg_maxLive r"
  "rg_file (set_live l r) = rg_file r" "rg_torn (set_live l r) = rg_torn r" "reg_live (set_live l r) = l"
  by (simp_all add: set_live_def reg_live_def)

lemma append_frame [simp]:
  "reg_live (snd (append_context io tc r)) = reg_live r" "rg_maxLive (snd (append_context io tc r)) = rg_maxLive r"
  "rg_ttl (snd (append_context io tc r)) = rg_ttl r" "rg_path (snd (append_context io tc r)) = rg_path r"
  by (cases io; simp add: append_context_def reg_live_def)+

lemma appended_live:
  "reg_live (appended io tc r) = put_entry (rg_maxLive r) tc (reg_live r)" "rg_maxLive (appended io tc r) = rg_maxLive r"
  by (simp_all add: appended_def putLocked_def)

lemma put_ok: "registry_ok r \<Longrightarrow> tx_root tc \<noteq> [] \<Longrightarrow> registry_ok (appended io tc r)"
  by (simp add: registry_ok_def appended_live put_entry_ok)

lemma registry_step_ok: "registry_ok r \<Longrightarrow> registry_ok (registry_step e r)"
  by (rule registry_step_cases [of e r]) (auto intro: expire_ok put_ok)

lemma registry_run_ok: "registry_ok r \<Longrightarrow> registry_ok (fold registry_step es r)"
  by (induction es arbitrary: r) (simp_all add: registry_step_ok)

lemma puts_frame: "rg_maxLive (fold putLocked tcs r) = rg_maxLive r \<and> rg_ttl (fold putLocked tcs r) = rg_ttl r
    \<and> rg_path (fold putLocked tcs r) = rg_path r \<and> rg_file (fold putLocked tcs r) = rg_file r
    \<and> rg_torn (fold putLocked tcs r) = rg_torn r
    \<and> reg_live (fold putLocked tcs r) = fold (put_entry (rg_maxLive r)) tcs (reg_live r)"
  by (induction tcs arbitrary: r) (simp_all add: putLocked_def)

lemma puts_ok: "live_ok m l \<Longrightarrow> list_all (\<lambda>tc. tx_root tc \<noteq> []) tcs \<Longrightarrow> live_ok m (fold (put_entry m) tcs l)"
  by (induction tcs arbitrary: l) (simp_all add: put_entry_ok)

lemma expire_frame [simp]: "rg_maxLive (expireLocked now r) = rg_maxLive r" "rg_ttl (expireLocked now r) = rg_ttl r"
    "rg_path (expireLocked now r) = rg_path r" "rg_file (expireLocked now r) = rg_file r" "rg_torn (expireLocked now r) = rg_torn r"
  by (simp_all add: expireLocked_def)

lemma compact_live: "reg_live (snd (compact_registry ok r)) = reg_live r" "rg_maxLive (snd (compact_registry ok r)) = rg_maxLive r"
  by (simp_all add: compact_registry_def reg_live_def)

lemma empty_ok: "live_ok m ([], [])"
  by (simp add: live_ok_def)

lemma NewRegistry_ok:
  assumes "NewRegistry fits ok now path ttl maxLive file torn = Inr r"
  shows "registry_ok r \<and> rg_maxLive r = maxLive"
proof (cases "path = [] \<or> file = None")
  case True
  then show ?thesis using assms empty_ok
    by (auto simp: NewRegistry_def load_registry_def registry_ok_def reg_live_def Let_def split: option.splits prod.splits)
next
  case False
  then obtain ls where ls: "file = Some ls" "path \<noteq> []" by auto
  let ?r = "\<lparr>rg_path = path, rg_ttl = ttl, rg_maxLive = maxLive, rg_byID = [], rg_order = [], rg_file = file, rg_torn = torn\<rparr>"
  let ?tcs = "filter (\<lambda>tc. tx_root tc \<noteq> []) (List.map_filter id (takeWhile fits ls))"
  let ?e = "expireLocked now (fold putLocked ?tcs ?r)"
  have "list_all (\<lambda>tc. tx_root tc \<noteq> []) ?tcs" by (simp add: list_all_iff)
  then have "registry_ok (fold putLocked ?tcs ?r)"
    using puts_ok [OF empty_ok, of ?tcs maxLive] puts_frame [of ?tcs ?r] by (simp add: registry_ok_def reg_live_def)
  from expire_ok [OF this] have e: "registry_ok ?e" .
  have "r = ?e \<or> r = snd (compact_registry ok ?e)"
    using assms by (auto simp: NewRegistry_def load_registry_def ls Let_def split: if_splits option.splits prod.splits)
  then show ?thesis using e puts_frame [of ?tcs ?r] by (auto simp: registry_ok_def compact_live)
qed

text \<open>
  The live set is bounded. Whatever the file held when the registry was opened, and whatever
  operations ran since, with any outcome of their writes: the table holds each root once, under
  its own root, in the order of eviction, and at most the configured maximum of live threads.
\<close>

theorem registry_stays_bounded:
  assumes "NewRegistry fits ok now path ttl maxLive file torn = Inr r"
  shows "registry_ok (fold registry_step es r) \<and> (maxLive > 0 \<longrightarrow> int (length (rg_byID (fold registry_step es r))) \<le> maxLive)"
proof -
  have m: "rg_maxLive (registry_step e x) = rg_maxLive x" for e x
    by (rule registry_step_cases [of e x]) (auto simp: appended_live)
  have "rg_maxLive (fold registry_step es x) = rg_maxLive x" for x
    by (induction es arbitrary: x) (simp_all add: m)
  moreover have "registry_ok (fold registry_step es r)" "rg_maxLive r = maxLive"
    using NewRegistry_ok [OF assms] registry_run_ok by auto
  ultimately show ?thesis by (auto simp: registry_ok_def live_ok_def reg_live_def)
qed

section \<open>Restarts\<close>

text \<open>What a replay applies to the live set for one decoded line.\<close>

definition apply_context :: "int \<Rightarrow> thread_context \<Rightarrow> live \<Rightarrow> live" where
  "apply_context m tc l = (if tx_root tc = [] then l else put_entry m tc l)"

definition registry_log :: "registry \<Rightarrow> thread_context list" where
  "registry_log r = List.map_filter id (reg_lines r)"

text \<open>Contexts that are not expired before the cutoff \<open>C\<close>, and events that only write such ones.\<close>

definition fresh_context :: "gotime \<Rightarrow> thread_context \<Rightarrow> bool" where
  "fresh_context C tc \<longleftrightarrow> is_zero_time (tx_at tc) \<or> C \<le> tx_at tc"

definition clean_event :: "duration \<Rightarrow> gotime \<Rightarrow> registry_event \<Rightarrow> bool" where
  "clean_event d C e \<longleftrightarrow> (re_io e = AppendOk \<or> re_io e = SyncFails) \<and> (0 < d \<longrightarrow> re_now e - d \<le> C)
     \<and> C \<le> re_now e \<and> C \<le> re_now' e
     \<and> (case re_op e of RegPut tc \<Rightarrow> fresh_context C tc
        | RegUpdate rt fn \<Rightarrow> \<forall>c. fresh_context C c \<longrightarrow> fresh_context C (fn c)
        | RegGetOrCreate rt fallback \<Rightarrow> fresh_context C fallback
        | _ \<Rightarrow> True)"

definition registry_sound :: "int \<Rightarrow> duration \<Rightarrow> gotime \<Rightarrow> registry \<Rightarrow> bool" where
  "registry_sound m d C r \<longleftrightarrow> rg_maxLive r = m \<and> rg_ttl r = d \<and> \<not> rg_torn r \<and> live_ok m (reg_live r)
     \<and> (\<forall>x \<in> set (rg_byID r). fresh_context C (snd x))"

lemma expire_none:
  assumes "registry_sound m d C r" and "0 < d \<longrightarrow> now - d \<le> C"
  shows "expireLocked now r = r"
proof (cases "d \<le> 0")
  case True
  then show ?thesis using assms by (simp add: registry_sound_def expireLocked_def)
next
  case False
  have "filter (\<lambda>(k, tc). is_zero_time (tx_at tc) \<or> now - d \<le> tx_at tc) (rg_byID r) = rg_byID r"
    using assms False by (fastforce simp: registry_sound_def fresh_context_def filter_id_conv)
  then show ?thesis using assms False
    by (simp add: registry_sound_def expireLocked_def live_ok_def reg_live_def expire_walk_filter Let_def set_live_def)
qed

lemma put_entry_set:
  assumes "live_ok m l"
  shows "set (snd (put_entry m tc l)) \<subseteq> insert (tx_root tc, tc) (set (snd l))"
  unfolding put_entry_drop [OF assms] using set_AList_update [of _ _ "tx_root tc" tc "snd l"]
  by (fastforce simp: Let_def dest: in_set_dropD)

lemma appended_sound:
  assumes s: "registry_sound m d C r" and "io = AppendOk \<or> io = SyncFails" and "tx_root tc \<noteq> []" and "fresh_context C tc"
  shows "registry_sound m d C (appended io tc r)" and "registry_log (appended io tc r) = registry_log r @ [tc]"
    and "reg_live (appended io tc r) = apply_context m tc (reg_live r)"
proof -
  have l: "reg_live (appended io tc r) = put_entry m tc (reg_live r)" and ok: "live_ok m (reg_live r)"
    using s by (simp_all add: appended_live registry_sound_def)
  have f: "rg_file (appended io tc r) = Some (reg_lines r @ [Some tc])" "\<not> rg_torn (appended io tc r)"
    using s assms(2) by (auto simp: appended_def append_context_def putLocked_def registry_sound_def reg_lines_def)
  have "set (snd (reg_live (appended io tc r))) \<subseteq> insert (tx_root tc, tc) (set (snd (reg_live r)))"
    unfolding l by (rule put_entry_set [OF ok])
  then have "set (rg_byID (appended io tc r)) \<subseteq> insert (tx_root tc, tc) (set (rg_byID r))" by (simp add: reg_live_def)
  then show "registry_sound m d C (appended io tc r)"
    using s assms(4) l f put_entry_ok [OF ok assms(3)]
    by (auto simp: registry_sound_def appended_live) (simp_all add: appended_def putLocked_def)
  show "registry_log (appended io tc r) = registry_log r @ [tc]"
    using f by (simp add: registry_log_def reg_lines_def List.map_filter_def)
  show "reg_live (appended io tc r) = apply_context m tc (reg_live r)"
    using l assms(3) by (simp add: apply_context_def)
qed

lemma written_fresh:
  assumes "clean_event d C e" and "registry_sound m d C r"
    and "(\<exists>c. re_op e = RegPut c \<and> tc = (if is_zero_time (tx_at c) then c\<lparr>tx_at := re_now e\<rparr> else c))
       \<or> (\<exists>rt f c. re_op e = RegUpdate rt f \<and> (rt, c) \<in> set (rg_byID r) \<and> tx_at tc = tx_at (f c))
       \<or> (\<exists>rt c. re_op e = RegGetOrCreate rt c \<and> tx_at tc = (if is_zero_time (tx_at c) then re_now' e else tx_at c))
       \<or> tx_at tc = re_now e"
  shows "fresh_context C tc"
  using assms by (fastforce simp: clean_event_def registry_sound_def fresh_context_def split: if_splits)

text \<open>While nothing expires, the registry is a journal too.\<close>

interpretation registry_journal: journal registry_step "clean_event d C" "registry_sound m d C" registry_log reg_live "apply_context m"
  for d C m
proof unfold_locales
  fix e :: registry_event and r :: registry
  assume c: "clean_event d C e" and s: "registry_sound m d C r"
  have io: "re_io e = AppendOk \<or> re_io e = SyncFails" and x: "expireLocked (re_now e) r = r"
    using c expire_none [OF s] by (simp_all add: clean_event_def)
  have "registry_sound m d C (registry_step e r) \<and> (\<exists>ls. registry_log (registry_step e r) = registry_log r @ ls
      \<and> reg_live (registry_step e r) = fold (apply_context m) ls (reg_live r))"
  proof (cases rule: registry_step_cases [of e r])
    case (written tc r1)
    have "r1 = r" using written(4) x by auto
    then show ?thesis
      using appended_sound [OF s io written(3) written_fresh [OF c s written(5)]] written(1)
      by (intro conjI exI [of _ "[tc]"]) simp_all
  qed (use s x in \<open>auto intro: exI [of _ "[]"]\<close>)
  then show "registry_sound m d C (registry_step e r)" and "\<exists>ls. registry_log (registry_step e r) = registry_log r @ ls
      \<and> reg_live (registry_step e r) = fold (apply_context m) ls (reg_live r)" by auto
qed

text \<open>The file a compaction writes replays to the live set it was written from.\<close>

lemma replay_table:
  assumes "live_ok m (map fst t, t)"
  shows "fold (apply_context m) (map snd t) ([], []) = (map fst t, t)"
  using assms
proof (induction t rule: rev_induct)
  case Nil
  then show ?case by simp
next
  case (snoc x t)
  obtain k tc where x: "x = (k, tc)" by (cases x)
  have ok: "live_ok m (map fst t, t)" and k: "tx_root tc = k" "k \<noteq> []" "k \<notin> fst ` set t" and len: "m > 0 \<Longrightarrow> int (length t) + 1 \<le> m"
    using snoc.prems by (auto simp: live_ok_def x)
  have u: "AList.update k tc t = t @ [(k, tc)]" using k(3) by (induction t) auto
  have "Suc (length t) - nat m = 0" if "m > 0" using len [OF that] by simp
  then have "put_entry m tc (map fst t, t) = (map fst t @ [k], t @ [(k, tc)])"
    unfolding put_entry_drop [OF ok] by (simp add: k(1) u Let_def)
  then show ?case using snoc.IH [OF ok] k by (simp add: x apply_context_def)
qed

lemma lookup_all: "distinct (map fst t) \<Longrightarrow> List.map_filter (map_of t) (map fst t) = map snd t"
proof -
  assume d: "distinct (map fst t)"
  have "map_of t (fst x) = Some (snd x)" if "x \<in> set t" for x
    using d that by (simp add: map_of_eq_Some_iff)
  then have "List.map_filter (map_of t) (map fst xs) = map snd xs" if "set xs \<subseteq> set t" for xs
    using that by (induction xs) (auto simp: List.map_filter_def)
  then show ?thesis by simp
qed

lemma fold_nonempty: "fold (apply_context m) tcs l = fold (put_entry m) (filter (\<lambda>tc. tx_root tc \<noteq> []) tcs) l"
  by (induction tcs arbitrary: l) (simp_all add: apply_context_def)

text \<open>A reload of a sound registry's file.\<close>

lemma reload:
  assumes s: "registry_sound m d C r" and log: "reg_live r = fold (apply_context m) (registry_log r) ([], [])"
    and "path \<noteq> []" and fits: "list_all fits (reg_lines r)" and late: "0 < d \<longrightarrow> now - d \<le> C"
  shows "\<exists>r'. NewRegistry fits True now path d m (rg_file r) False = Inr r' \<and> reg_live r' = reg_live r
    \<and> fold (apply_context m) (registry_log r') ([], []) = reg_live r"
proof (cases "rg_file r")
  case None
  then have "reg_live r = ([], [])" using log by (simp add: registry_log_def reg_lines_def List.map_filter_def)
  then show ?thesis using None assms(3)
    by (simp add: NewRegistry_def load_registry_def reg_live_def registry_log_def reg_lines_def List.map_filter_def)
next
  case (Some ls)
  have lines: "reg_lines r = ls" by (simp add: reg_lines_def Some)
  have all: "takeWhile fits ls = ls" "list_all fits ls" using fits lines by (simp_all add: list_all_iff)
  let ?n = "\<lparr>rg_path = path, rg_ttl = d, rg_maxLive = m, rg_byID = [], rg_order = [], rg_file = Some ls, rg_torn = False\<rparr>"
  let ?tcs = "List.map_filter id ls"
  let ?r1 = "fold putLocked (filter (\<lambda>tc. tx_root tc \<noteq> []) ?tcs) ?n"
  have log': "registry_log r = ?tcs" by (simp add: registry_log_def lines)
  have live: "reg_live ?r1 = reg_live r" and fr: "rg_maxLive ?r1 = m" "rg_ttl ?r1 = d" "rg_file ?r1 = Some ls" "\<not> rg_torn ?r1"
    using puts_frame [of "filter (\<lambda>tc. tx_root tc \<noteq> []) ?tcs" ?n] log by (simp_all add: log' fold_nonempty reg_live_def)
  then have "registry_sound m d C ?r1" using s by (simp add: registry_sound_def reg_live_def)
  then have x: "expireLocked now ?r1 = ?r1" using late by (rule expire_none)
  have ok: "map fst (rg_byID r) = rg_order r" "distinct (rg_order r)" "live_ok m (reg_live r)"
    using s by (simp_all add: registry_sound_def live_ok_def reg_live_def)
  have t1: "rg_byID ?r1 = rg_byID r" "rg_order ?r1 = rg_order r" using live by (simp_all add: reg_live_def)
  show ?thesis
  proof (cases "length ?tcs > length (rg_byID ?r1)")
    case True
    have c: "compact_registry True ?r1 = (None, ?r1\<lparr>rg_file := Some (map Some (map snd (rg_byID r))), rg_torn := False\<rparr>)"
      using lookup_all [of "rg_byID r"] ok by (simp add: compact_registry_def t1)
    have "NewRegistry fits True now path d m (rg_file r) False = Inr (snd (compact_registry True ?r1))"
      using True assms(3) by (simp add: NewRegistry_def load_registry_def Some Let_def c all x)
    moreover have "rg_file (snd (compact_registry True ?r1)) = Some (map Some (map snd (rg_byID r)))" unfolding c by simp
    then have "registry_log (snd (compact_registry True ?r1)) = map snd (rg_byID r)"
      by (simp only: registry_log_def reg_lines_def option.case) (simp add: List.map_filter_def comp_def)
    then have "fold (apply_context m) (registry_log (snd (compact_registry True ?r1))) ([], []) = reg_live r"
      using replay_table [of m "rg_byID r"] ok by (simp only: reg_live_def)
    ultimately show ?thesis using live by (simp add: compact_live)
  next
    case False
    then have "NewRegistry fits True now path d m (rg_file r) False = Inr ?r1"
      using assms(3) by (simp add: NewRegistry_def load_registry_def Some Let_def all x)
    moreover have "registry_log ?r1 = registry_log r" by (simp add: registry_log_def reg_lines_def fr Some)
    ultimately show ?thesis using live log by simp
  qed
qed

text \<open>
  C20: A restart is invisible while nothing expires and every write reaches the file. Take a registry
  opened on no file and any run of operations each of whose appends reaches the file (a failed fsync
  included; an append that fails is dropped by the code and then lost to a restart), in which no
  context is older than the cutoff \<open>C\<close> and every expiry the run performs, and the one of the restart,
  is before that cutoff, and whose lines are all within the reader's limit on a line. Opening the file again gives the same threads in the same order of eviction, and so does
  opening the file that this restart leaves, compacted or not.
\<close>

theorem restart_keeps_threads:
  assumes "NewRegistry fits ok now0 path d m None False = Inr r0" and "path \<noteq> []" and "list_all (clean_event d C) es"
    and "r = fold registry_step es r0" and "list_all fits (reg_lines r)" and "0 < d \<longrightarrow> now - d \<le> C"
  shows "\<exists>r'. NewRegistry fits True now path d m (rg_file r) False = Inr r' \<and> reg_live r' = reg_live r
    \<and> fold (apply_context m) (registry_log r') ([], []) = reg_live r"
proof -
  have r0: "r0 = \<lparr>rg_path = path, rg_ttl = d, rg_maxLive = m, rg_byID = [], rg_order = [], rg_file = None, rg_torn = False\<rparr>"
    using assms(1,2) by (simp add: NewRegistry_def load_registry_def)
  have s0: "registry_sound m d C r0" by (simp add: r0 registry_sound_def live_ok_def reg_live_def)
  have run: "r = registry_journal.run es r0" by (simp add: assms(4) registry_journal.run_def)
  have "registry_sound m d C r" using registry_journal.run_sound [OF assms(3) s0] by (simp add: run)
  moreover obtain ls where "registry_log r = registry_log r0 @ ls" "reg_live r = fold (apply_context m) ls (reg_live r0)"
    using registry_journal.run_log [OF assms(3) s0] by (auto simp: run)
  then have "reg_live r = fold (apply_context m) (registry_log r) ([], [])"
    by (simp add: r0 registry_log_def reg_lines_def reg_live_def List.map_filter_def)
  ultimately show ?thesis using assms(2,5,6) by (rule reload)
qed

section \<open>Concrete runs\<close>

definition thread_at :: "string \<Rightarrow> gotime \<Rightarrow> thread_context" where
  "thread_at rt t = zero_context\<lparr>tx_root := rt, tx_at := t\<rparr>"

definition reg_event :: "registry_op \<Rightarrow> gotime \<Rightarrow> registry_event" where
  "reg_event op t = \<lparr>re_io = AppendOk, re_now = t, re_now' = t, re_op = op\<rparr>"

definition two_threads :: "duration \<Rightarrow> registry" where
  "two_threads ttl = \<lparr>rg_path = ''/r'', rg_ttl = ttl, rg_maxLive = 2, rg_byID = [], rg_order = [], rg_file = None, rg_torn = False\<rparr>"

lemma thread_at_fields [simp]: "tx_root (thread_at rt t) = rt" "tx_at (thread_at rt t) = t" "(thread_at rt t)\<lparr>tx_root := rt\<rparr> = thread_at rt t"
  by (simp_all add: thread_at_def)

lemmas run_simps = registry_step_def reg_event_def Put_def Get_def Update_def GetOrCreate_def reg_enabled_def putLocked_def
  put_entry_def set_live_def reg_live_def expireLocked_def append_context_def reg_lines_def two_threads_def Let_def

lemma two_threads_new: "NewRegistry (\<lambda>_. True) True 0 ''/r'' ttl 2 None False = Inr (two_threads ttl)"
  by (simp add: NewRegistry_def load_registry_def two_threads_def)

definition three_puts :: "registry_event list" where
  "three_puts = map (\<lambda>r. reg_event (RegPut (thread_at r 5)) 5) [''a'', ''b'', ''c'']"

lemma registry_stays_bounded_witness:
  "int (length (rg_byID (fold registry_step three_puts (two_threads 0)))) \<le> 2"
  using registry_stays_bounded [OF two_threads_new] by simp

lemma restart_keeps_threads_witness:
  "\<exists>r'. NewRegistry (\<lambda>_. True) True 9 ''/r'' 100 2 (rg_file (fold registry_step three_puts (two_threads 100))) False = Inr r'
     \<and> rg_order r' = [''b'', ''c'']"
proof -
  let ?r = "fold registry_step three_puts (two_threads 100)"
  have "rg_order ?r = [''b'', ''c'']" by (simp add: three_puts_def run_simps)
  moreover have "list_all (clean_event 100 5) three_puts"
    by (simp add: three_puts_def clean_event_def reg_event_def fresh_context_def)
  then obtain r' where "NewRegistry (\<lambda>_. True) True 9 ''/r'' 100 2 (rg_file ?r) False = Inr r'" "reg_live r' = reg_live ?r"
    using restart_keeps_threads [OF two_threads_new _ _ refl, where now = 9] by (fastforce simp: list_all_iff)
  ultimately show ?thesis by (auto simp: reg_live_def)
qed

text \<open>
  What expiry changes. Two live threads at most and a time to live of 10: thread \<open>a\<close> expires and is
  created again by a mention, so it is the youngest but one in memory, and a third thread evicts
  \<open>b\<close>. The file still holds the first line of \<open>a\<close>, so its replay gives \<open>a\<close> its old place in the
  order and evicts it, while \<open>b\<close> comes back: after a restart the live thread \<open>a\<close> is not answered.
\<close>

definition recreated :: "registry_event list" where
  "recreated = [reg_event (RegPut (thread_at ''a'' 1)) 1, reg_event (RegPut (thread_at ''b'' 8)) 8,
     reg_event (RegGetOrCreate ''a'' (thread_at ''a'' 12)) 12, reg_event (RegPut (thread_at ''c'' 13)) 13]"

theorem restart_after_expiry_differs:
  "rg_order (fold registry_step recreated (two_threads 10)) = [''a'', ''c'']
   \<and> map_option rg_order (case NewRegistry (\<lambda>_. True) True 14 ''/r'' 10 2
        (rg_file (fold registry_step recreated (two_threads 10))) False of Inr r \<Rightarrow> Some r | Inl _ \<Rightarrow> None) = Some [''b'', ''c'']"
proof -
  have r: "fold registry_step recreated (two_threads 10) = \<lparr>rg_path = ''/r'', rg_ttl = 10, rg_maxLive = 2,
      rg_byID = [(''a'', thread_at ''a'' 12), (''c'', thread_at ''c'' 13)], rg_order = [''a'', ''c''],
      rg_file = Some (map Some [thread_at ''a'' 1, thread_at ''b'' 8, thread_at ''a'' 12, thread_at ''c'' 13]), rg_torn = False\<rparr>"
    by (simp add: recreated_def run_simps)
  show ?thesis unfolding r
    by (simp add: NewRegistry_def load_registry_def Let_def run_simps compact_registry_def List.map_filter_def)
qed

end
