(* ===== verification/OkfBundle.thy ===== *)
theory OkfBundle
  imports Catalog SourceAllowlist "HOL-Library.Sublist"
begin

text \<open>
  \<open>internal/okf\<close>: the files of the knowledge bundle. \<open>bundle.go\<close> keeps \<open>index.md\<close> and \<open>log.md\<close> in step
  with an entry, finds the entry among the changed files of a pull request, and appends a note to it;
  \<open>images.go\<close> defuses images and HTML; \<open>okf.go\<close> renders an entry and derives its slug. With them
  \<open>SplitFrontmatter\<close> of \<open>internal/catalog/load.go\<close>, which reads the rendered file back, and the merge
  gate's reading of sections (\<open>internal/kbvalidate\<close>). \<open>yaml.Marshal\<close> is a parameter. Text is lower-cased
  as ASCII.
\<close>

section \<open>Lines\<close>

abbreviation lines_of :: "string \<Rightarrow> string list" where
  "lines_of \<equiv> split_byte newline"

abbreviation join_lines :: "string list \<Rightarrow> string" where
  "join_lines \<equiv> str_join [newline]"

text \<open>\<open>strings.TrimRight(s, "\n")\<close> and \<open>strings.Trim(s, "\n")\<close>.\<close>

definition trim_newlines :: "string \<Rightarrow> string" where
  "trim_newlines s = trim_right newline (dropWhile (\<lambda>c. c = newline) s)"

text \<open>The index of the first line that satisfies a condition.\<close>

definition first_index :: "(string \<Rightarrow> bool) \<Rightarrow> string list \<Rightarrow> nat option" where
  "first_index P ls = (let n = length (takeWhile (\<lambda>l. \<not> P l) ls) in if n < length ls then Some n else None)"

definition insert_lines :: "nat \<Rightarrow> string list \<Rightarrow> string list \<Rightarrow> string list" where
  "insert_lines n new ls = take n ls @ new @ drop n ls"

section \<open>Entries\<close>

record applied_resolution =
  rs_fixPR :: string
  rs_mergeSHA :: string
  rs_verdict :: string
  rs_why :: string
  rs_diff :: string
  rs_evidence :: string
  rs_verifiedAt :: gotime

record kb_entry =
  ke_type :: string
  ke_title :: string
  ke_description :: string
  ke_resource :: string
  ke_alertResource :: string
  ke_tags :: "string list"
  ke_extraLabels :: "string list"
  ke_body :: string
  ke_fingerprint :: string
  ke_confidence :: rat
  ke_provenance :: "string list"
  ke_origin :: string
  ke_resolution :: "applied_resolution option"

definition zero_kb_entry :: kb_entry where
  "zero_kb_entry = \<lparr>ke_type = [], ke_title = [], ke_description = [], ke_resource = [], ke_alertResource = [], ke_tags = [],
     ke_extraLabels = [], ke_body = [], ke_fingerprint = [], ke_confidence = 0, ke_provenance = [], ke_origin = [], ke_resolution = None\<rparr>"

record file_meta =
  fm_timestamp :: string
  fm_status :: string
  fm_lastValidated :: string

text \<open>The frontmatter is what \<open>marshal\<close> writes for the entry, the meta data and a resolution that is kept.\<close>

definition rendered_resolution :: "kb_entry \<Rightarrow> applied_resolution option" where
  "rendered_resolution e = (case ke_resolution e of
     Some r \<Rightarrow> if rs_verdict r = ''resolved'' then Some r else None
   | None \<Rightarrow> None)"

definition Render :: "(kb_entry \<Rightarrow> file_meta \<Rightarrow> applied_resolution option \<Rightarrow> string) \<Rightarrow> kb_entry \<Rightarrow> file_meta \<Rightarrow> string" where
  "Render marshal e m =
     ''---'' @ [newline] @ marshal e m (rendered_resolution e) @ ''---'' @ [newline, newline] @ ke_body e @ [newline]"

definition AsEntry :: "kb_entry \<Rightarrow> file_meta \<Rightarrow> string \<Rightarrow> entry" where
  "AsEntry e m path =
     zero_entry\<lparr>en_type := ke_type e, en_title := ke_title e, en_description := ke_description e, en_resource := ke_resource e,
       en_alertResource := ke_alertResource e, en_tags := ke_tags e, en_timestamp := fm_timestamp m, en_status := fm_status m,
       en_lastValidated := fm_lastValidated m, en_fingerprint := ke_fingerprint e, en_body := ke_body e, en_path := path\<rparr>"

fun slug_walk :: "bool \<Rightarrow> string \<Rightarrow> string" where
  "slug_walk prevDash [] = []"
| "slug_walk prevDash (c # s) =
     (if is_lower c \<or> is_digit c then c # slug_walk False s
      else if prevDash then slug_walk True s else CHR ''-'' # slug_walk True s)"

definition trim_dashes :: "string \<Rightarrow> string" where
  "trim_dashes s = trim_right (CHR ''-'') (dropWhile (\<lambda>c. c = CHR ''-'') s)"

definition Slugify :: "string \<Rightarrow> string" where
  "Slugify s = trim_dashes (slug_walk False (to_lower s))"

section \<open>The index and the log\<close>

definition link_escape :: "char \<Rightarrow> string" where
  "link_escape c = (if c \<in> {CHR 0x5C, CHR ''['', CHR '']''} then [CHR 0x5C, c] else [c])"

definition linkText :: "string \<Rightarrow> string" where
  "linkText s = concat (map link_escape s)"

definition long_dash :: string where
  "long_dash = [CHR 0xE2, CHR 0x80, CHR 0x94]"

definition splitTail :: "string \<Rightarrow> string \<times> string" where
  "splitTail existing = (let cur = trim_right newline existing; tail = drop (length cur) existing
     in (cur, if tail = [] then [newline] else tail))"

text \<open>The trailing blank lines of a section: the loop counts \<open>end\<close> down to the line after the heading.\<close>

fun back_over_blanks :: "string list \<Rightarrow> nat \<Rightarrow> nat \<Rightarrow> nat" where
  "back_over_blanks ls start 0 = 0"
| "back_over_blanks ls start (Suc e) =
     (if Suc e > start + 1 \<and> trim_space (ls ! e) = [] then back_over_blanks ls start e else Suc e)"

definition index_section :: "kb_entry \<Rightarrow> string" where
  "index_section e = ''## '' @ ke_type e @ ''s''"

definition index_line :: "kb_entry \<Rightarrow> string \<Rightarrow> string" where
  "index_line e path = ''- ['' @ linkText (ke_title e) @ '']('' @ path @ '') '' @ long_dash @ '' '' @ ke_description e"

definition section_end :: "string list \<Rightarrow> nat \<Rightarrow> nat" where
  "section_end ls start =
     back_over_blanks ls start
       (case first_index (\<lambda>l. has_prefix (trim_space l) ''#'') (drop (start + 1) ls) of
          Some k \<Rightarrow> start + 1 + k | None \<Rightarrow> length ls)"

definition UpdateIndex :: "string \<Rightarrow> kb_entry \<Rightarrow> string \<Rightarrow> string" where
  "UpdateIndex existing e path =
     (case splitTail existing of (cur, tail) \<Rightarrow>
        (let ls = lines_of cur; line = index_line e path
         in case first_index (\<lambda>l. trim_space l = index_section e) ls of
              None \<Rightarrow> join_lines (ls @ [[], index_section e, [], line]) @ tail
            | Some start \<Rightarrow> join_lines (insert_lines (section_end ls start) [line] ls) @ tail))"

definition log_line :: "kb_entry \<Rightarrow> string \<Rightarrow> string" where
  "log_line e path = ''* **Creation**: Added ['' @ linkText (ke_title e) @ '']('' @ path @ '').''"

definition UpdateLog :: "string \<Rightarrow> kb_entry \<Rightarrow> string \<Rightarrow> string \<Rightarrow> string" where
  "UpdateLog existing e path date =
     (let heading = ''## '' @ date; line = log_line e path
      in case splitTail existing of (cur, tail) \<Rightarrow>
           if trim_space cur = []
           then ''# Knowledge catalog update log'' @ [newline, newline] @ heading @ [newline, newline] @ line @ [newline]
           else (let ls = lines_of cur
                 in case first_index (\<lambda>l. trim_space l = heading) ls of
                      Some i \<Rightarrow> join_lines (insert_lines (i + 1) [[], line] ls) @ tail
                    | None \<Rightarrow>
                        (let pos = (case first_index (\<lambda>l. has_prefix (trim_space l) ''## '') ls of Some k \<Rightarrow> k | None \<Rightarrow> length ls)
                         in join_lines (insert_lines pos [heading, [], line, []] ls) @ tail)))"

section \<open>The entry of a pull request\<close>

definition reservedBundleFiles :: "string list" where
  "reservedBundleFiles = [''index.md'', ''log.md'']"

definition EntryFile :: "string list \<Rightarrow> string option" where
  "EntryFile changed = (case filter (\<lambda>p. has_suffix p ''.md'' \<and> p \<notin> set reservedBundleFiles) changed of
     [p] \<Rightarrow> Some p | _ \<Rightarrow> None)"

definition AppendBlock :: "string \<Rightarrow> string \<Rightarrow> string" where
  "AppendBlock existing block0 =
     (let block = trim_newlines block0; cur = trim_right newline existing
      in if block = [] then existing
         else if cur = [] then block @ [newline]
         else cur @ [newline, newline] @ block @ [newline])"

definition HasFrontmatter :: "string \<Rightarrow> bool" where
  "HasFrontmatter raw \<longleftrightarrow> has_prefix raw (''---'' @ [newline]) \<and> contains_str (drop 4 raw) (newline # ''---'')"

text \<open>\<open>strings.SplitN(s, sep, 2)\<close> when it gives two parts.\<close>

fun cut_str :: "string \<Rightarrow> string \<Rightarrow> (string \<times> string) option" where
  "cut_str [] sep = (if sep = [] then Some ([], []) else None)"
| "cut_str (c # s) sep =
     (if has_prefix (c # s) sep then Some ([], drop (length sep) (c # s))
      else map_option (apfst ((#) c)) (cut_str s sep))"

definition SplitFrontmatter :: "string \<Rightarrow> string option \<times> string" where
  "SplitFrontmatter s =
     (if \<not> has_prefix s ''---'' then (None, s)
      else case cut_str s (newline # ''---'') of
             None \<Rightarrow> (None, s)
           | Some (a, b) \<Rightarrow> (Some (trim_prefix a (''---'' @ [newline])), trim_prefix b [newline]))"

definition NoteMarker :: "string \<Rightarrow> string" where
  "NoteMarker key = ''<!-- runlore-note:'' @ key @ '' -->''"

definition WithNoteMarker :: "string \<Rightarrow> string \<Rightarrow> string" where
  "WithNoteMarker block key = (if key = [] then block else block @ [newline, newline] @ NoteMarker key)"

definition HasNoteMarker :: "string \<Rightarrow> string \<Rightarrow> bool" where
  "HasNoteMarker raw key \<longleftrightarrow> key \<noteq> [] \<and> contains_str raw (NoteMarker key)"

section \<open>Images and HTML\<close>

text \<open>
  A match of \<open>!\[([^\]]*)\]\([^)]*\)\<close> at the start of a text: the alternative text and what follows the
  match. The replacement continues after a match.
\<close>

definition image_at :: "string \<Rightarrow> (string \<times> string) option" where
  "image_at s =
     (if \<not> has_prefix s ''!['' then None
      else (case cut_byte (CHR '']'') (drop 2 s) of (alt, rest, ok) \<Rightarrow>
              if \<not> ok \<or> \<not> has_prefix rest ''('' then None
              else (case cut_byte (CHR '')'') (drop 1 rest) of (_, after, ok) \<Rightarrow>
                      if ok then Some (alt, after) else None)))"

definition image_label :: "string \<Rightarrow> string" where
  "image_label alt = (if alt = [] then ''`[image]`'' else ''`[image: '' @ alt @ '']`'')"

lemma cut_byte_rest: "cut_byte c s = (a, b, True) \<Longrightarrow> length b < length s"
  by (drule cut_byte_eq) auto

lemma image_at_shorter:
  assumes "image_at s = Some (alt, after)" shows "length after < length s"
proof -
  obtain rest where 1: "cut_byte (CHR '']'') (drop 2 s) = (alt, rest, True)" and 2: "\<exists>x. cut_byte (CHR '')'') (drop 1 rest) = (x, after, True)"
    using assms by (auto simp: image_at_def split: if_splits prod.splits)
  from 2 obtain x where "cut_byte (CHR '')'') (drop 1 rest) = (x, after, True)" ..
  from cut_byte_rest [OF this] cut_byte_rest [OF 1] show ?thesis by simp
qed

function NeutralizeImages :: "string \<Rightarrow> string" where
  "NeutralizeImages [] = []"
| "NeutralizeImages (c # s) = (case image_at (c # s) of
     Some (alt, after) \<Rightarrow> image_label alt @ NeutralizeImages after
   | None \<Rightarrow> c # NeutralizeImages s)"
  by pat_completeness auto
termination
  by (relation "measure length") (auto dest: image_at_shorter)

definition tag_char :: "char \<Rightarrow> bool" where
  "tag_char c \<longleftrightarrow> is_lower c \<or> is_upper c \<or> c \<in> {CHR ''!'', CHR ''/'', CHR ''?''}"

text \<open>The replacement of \<open><([A-Za-z!/?])\<close> by \<open>&lt;$1\<close>, and of \<open>![\<close> by \<open>!&#91;\<close>.\<close>

fun escape_tags :: "string \<Rightarrow> string" where
  "escape_tags (a # b # s) =
     (if a = CHR ''<'' \<and> tag_char b then ''&lt;'' @ b # escape_tags s else a # escape_tags (b # s))"
| "escape_tags s = s"

fun escape_images :: "string \<Rightarrow> string" where
  "escape_images (a # b # s) =
     (if a = CHR ''!'' \<and> b = CHR ''['' then ''!&#91;'' @ escape_images s else a # escape_images (b # s))"
| "escape_images s = s"

definition DefuseMarkup :: "string \<Rightarrow> string" where
  "DefuseMarkup s = escape_tags (escape_images (NeutralizeImages s))"

text \<open>The edit of \<open>AppendToEntryOnPR\<close> in \<open>internal/forge/github/noteappend.go\<close>: the new file and whether it changed.\<close>

definition append_note :: "string \<Rightarrow> string \<Rightarrow> string \<Rightarrow> string \<times> bool" where
  "append_note body key raw =
     (if HasNoteMarker raw key then (raw, False)
      else (AppendBlock raw (WithNoteMarker (NeutralizeImages body) key), True))"

section \<open>The sections the merge gate reads\<close>

definition gate_heading :: "string \<Rightarrow> string option" where
  "gate_heading line =
     (let t = trim_space line
      in if has_prefix t ''## '' then Some (to_lower (trim_space (drop 3 t)))
         else if has_prefix t ''# '' then Some (to_lower (trim_space (drop 2 t)))
         else None)"

definition flush_section :: "string \<Rightarrow> string list \<Rightarrow> (string \<rightharpoonup> string) \<Rightarrow> string \<rightharpoonup> string" where
  "flush_section cur buf out = (if cur \<noteq> [] then out(cur \<mapsto> trim_space (join_lines buf)) else out)"

fun sections_loop :: "string \<Rightarrow> string list \<Rightarrow> (string \<rightharpoonup> string) \<Rightarrow> (string \<times> bool) list \<Rightarrow> string \<rightharpoonup> string" where
  "sections_loop cur buf out [] = flush_section cur buf out"
| "sections_loop cur buf out ((l, fenced) # rest) =
     (case (if fenced then None else gate_heading l) of
        Some label \<Rightarrow> sections_loop label [] (flush_section cur buf out) rest
      | None \<Rightarrow> sections_loop cur (if cur \<noteq> [] then buf @ [l] else buf) out rest)"

definition gate_Sections :: "string \<Rightarrow> string \<rightharpoonup> string" where
  "gate_Sections body = (let ls = lines_of body in sections_loop [] [] Map.empty (zip ls (FencedLines ls)))"

definition requiredIncidentSections :: "string list" where
  "requiredIncidentSections = [''symptom'', ''cause'', ''resolution'']"

definition HasIncidentSections :: "string \<Rightarrow> bool" where
  "HasIncidentSections body \<longleftrightarrow> list_all (\<lambda>k. mget [] (gate_Sections body) k \<noteq> []) requiredIncidentSections"

end
