(* ===== verification/OkfGuards.thy ===== *)
theory OkfGuards
  imports OkfBundle
begin

text \<open>
  What the bundle's files keep: the updates of the index and the log only insert lines, an entry's link
  survives any title, a note is appended once, and defused text holds no markup.
\<close>

section \<open>Splitting and joining lines\<close>

lemma split_nonempty [simp]: "split_byte c s \<noteq> []"
  by (cases s) (auto split: list.split)

lemma split_at: "split_byte c (a @ c # b) = split_byte c a @ split_byte c b"
proof (induction a)
  case (Cons x a)
  then show ?case using split_nonempty [of c a] by (cases "split_byte c a") auto
qed simp

lemma split_one: "c \<notin> set l \<Longrightarrow> split_byte c l = [l]"
  by (induction l) auto

lemma split_free: "l \<in> set (split_byte c s) \<Longrightarrow> c \<notin> set l"
proof (induction s arbitrary: l)
  case (Cons x s)
  then show ?case using split_nonempty [of c s] by (cases "split_byte c s") (auto split: if_splits)
qed simp

lemma join_Cons: "ls \<noteq> [] \<Longrightarrow> join_lines (l # ls) = l @ newline # join_lines ls"
  by (cases ls) (auto simp: str_join_def)

lemma join_one [simp]: "join_lines [l] = l"
  by (simp add: str_join_def)

lemma split_join: "ls \<noteq> [] \<Longrightarrow> lines_of (join_lines ls) = concat (map lines_of ls)"
proof (induction ls)
  case (Cons l ls)
  then show ?case by (cases "ls = []") (simp_all add: join_Cons split_at)
qed simp

lemma join_split [simp]: "join_lines (lines_of s) = s"
proof (induction s)
  case (Cons x s)
  then show ?case using split_nonempty [of newline s]
    by (cases "lines_of s"; cases "tl (lines_of s) = []") (auto simp: str_join_def)
qed (simp add: str_join_def)

lemma lines_flat_sub: "set ls \<subseteq> set (lines_of s) \<Longrightarrow> concat (map lines_of ls) = ls"
  by (induction ls) (auto simp: split_one dest: split_free)

lemma lines_flat: "concat (map lines_of (lines_of s)) = lines_of s"
  by (rule lines_flat_sub [OF order_refl])

text \<open>Every line of a text has a property; a block is a text of such lines, each with its line end.\<close>

definition all_lines :: "(string \<Rightarrow> bool) \<Rightarrow> string \<Rightarrow> bool" where
  "all_lines P s \<longleftrightarrow> (\<forall>l \<in> set (lines_of s). P l)"

definition line_block :: "(string \<Rightarrow> bool) \<Rightarrow> string \<Rightarrow> bool" where
  "line_block P s \<longleftrightarrow> s = [] \<or> (\<exists>a. s = a @ [newline] \<and> all_lines P a)"

lemma all_lines_newline: "all_lines P (a @ newline # b) \<longleftrightarrow> all_lines P a \<and> all_lines P b"
  by (auto simp: all_lines_def split_at)

lemma all_lines_one: "newline \<notin> set l \<Longrightarrow> all_lines P l \<longleftrightarrow> P l"
  by (simp add: all_lines_def split_one)

lemma all_lines_Nil [simp]: "all_lines P [] \<longleftrightarrow> P []"
  by (simp add: all_lines_def)

lemma line_block_then: "line_block P s \<Longrightarrow> all_lines P b \<Longrightarrow> all_lines P (s @ b)"
  by (auto simp: line_block_def all_lines_newline)

lemma line_block_append:
  assumes "line_block P a" and "line_block P b"
  shows "line_block P (a @ b)"
proof (cases "b = []")
  case False
  then obtain x where x: "b = x @ [newline]" "all_lines P x" using assms(2) by (auto simp: line_block_def)
  have "a @ b = (a @ x) @ [newline]" "all_lines P (a @ x)" using x line_block_then [OF assms(1) x(2)] by simp_all
  then show ?thesis unfolding line_block_def by blast
qed (use assms(1) in simp)

lemma line_block_text: "all_lines P s \<Longrightarrow> line_block P (s @ [newline])"
  by (auto simp: line_block_def)

lemma line_block_line: "newline \<notin> set l \<Longrightarrow> P l \<Longrightarrow> line_block P (l @ [newline])"
  using line_block_text all_lines_one by blast

lemma line_block_Nil [simp]: "line_block P []"
  by (simp add: line_block_def)

lemma line_block_newline: "P [] \<Longrightarrow> line_block P [newline]"
  by (simp add: line_block_def)

section \<open>Updates only insert\<close>

definition ended :: "string \<Rightarrow> string" where
  "ended s = (if s = [] \<or> last s \<noteq> newline then s @ [newline] else s)"

lemma trim_right_split: "\<exists>n. s = trim_right c s @ replicate n c \<and> (trim_right c s = [] \<or> last (trim_right c s) \<noteq> c)"
proof -
  have t: "takeWhile (\<lambda>x. x = c) (rev s) = replicate (length (takeWhile (\<lambda>x. x = c) (rev s))) c"
    by (rule replicate_eqI [symmetric, THEN sym]) (auto dest: set_takeWhileD)
  have "s = rev (takeWhile (\<lambda>x. x = c) (rev s) @ dropWhile (\<lambda>x. x = c) (rev s))" by simp
  then have s: "s = trim_right c s @ replicate (length (takeWhile (\<lambda>x. x = c) (rev s))) c"
    by (metis t rev_append rev_replicate trim_right_def)
  have "trim_right c s = [] \<or> last (trim_right c s) \<noteq> c"
    using hd_dropWhile [of "\<lambda>x. x = c" "rev s"] by (cases "dropWhile (\<lambda>x. x = c) (rev s) = []") (simp_all add: trim_right_def last_rev)
  then show ?thesis using s by blast
qed

lemma splitTail_spec:
  assumes "splitTail s = (cur, tail)"
  obtains t where "tail = newline # t" and "ended s = cur @ newline # t"
proof -
  obtain n where n: "s = trim_right newline s @ replicate n newline" "trim_right newline s = [] \<or> last (trim_right newline s) \<noteq> newline"
    using trim_right_split [of s newline] by blast
  have cur: "cur = trim_right newline s" using assms by (auto simp: splitTail_def Let_def)
  have d: "drop (length cur) s = replicate n newline" using n(1) cur by (metis append_eq_conv_conj)
  show thesis
  proof (cases n)
    case 0
    then have "s = cur" using n(1) cur by simp
    then show thesis using assms d 0 n(2) cur that [of "[]"] by (auto simp: splitTail_def Let_def ended_def)
  next
    case (Suc m)
    have "s = cur @ newline # replicate m newline" using n(1) cur Suc by (metis replicate_Suc)
    moreover have "last s = newline" using n(1) Suc by (metis last_appendR last_replicate nat.distinct(1) replicate_empty)
    ultimately show thesis using assms d Suc that [of "replicate m newline"] by (auto simp: splitTail_def Let_def ended_def)
  qed
qed

lemma insert_keeps: "subseq ls (insert_lines n new ls)"
proof -
  have "subseq (take n ls @ [] @ drop n ls) (take n ls @ new @ drop n ls)"
    by (intro list_emb_append_mono) auto
  then show ?thesis by (simp add: insert_lines_def)
qed

lemma inserted_lines:
  "lines_of (join_lines (insert_lines n new (lines_of cur)) @ newline # t)
     = take n (lines_of cur) @ concat (map lines_of new) @ drop n (lines_of cur) @ lines_of t"
proof -
  have ne: "insert_lines n new (lines_of cur) \<noteq> []"
    using split_nonempty [of newline cur] by (metis insert_keeps list_emb_Nil2)
  have "concat (map lines_of (take n (lines_of cur))) = take n (lines_of cur)"
    "concat (map lines_of (drop n (lines_of cur))) = drop n (lines_of cur)"
    by (auto intro!: lines_flat_sub dest: in_set_takeD in_set_dropD)
  then show ?thesis by (simp add: split_at split_join [OF ne]) (simp add: insert_lines_def)
qed

lemma inserting_update:
  assumes "splitTail existing = (cur, tail)" and "r = join_lines (insert_lines n new (lines_of cur)) @ tail"
  shows "subseq (lines_of (ended existing)) (lines_of r)" and "l \<in> set new \<Longrightarrow> set (lines_of l) \<subseteq> set (lines_of r)"
proof -
  obtain t where t: "tail = newline # t" "ended existing = cur @ newline # t" using splitTail_spec [OF assms(1)] by blast
  have r: "lines_of r = take n (lines_of cur) @ concat (map lines_of new) @ drop n (lines_of cur) @ lines_of t"
    by (simp add: assms(2) t(1) inserted_lines)
  have "subseq (take n (lines_of cur) @ [] @ drop n (lines_of cur) @ lines_of t)
      (take n (lines_of cur) @ concat (map lines_of new) @ drop n (lines_of cur) @ lines_of t)"
    by (intro list_emb_append_mono) auto
  moreover have "lines_of (ended existing) = take n (lines_of cur) @ [] @ drop n (lines_of cur) @ lines_of t"
    by (simp add: t(2) split_at)
  ultimately show "subseq (lines_of (ended existing)) (lines_of r)" by (simp only: r)
  show "l \<in> set new \<Longrightarrow> set (lines_of l) \<subseteq> set (lines_of r)" unfolding r by auto
qed

lemma trim_space_Nil: "trim_space s = [] \<longleftrightarrow> (\<forall>c \<in> set s. is_space c)"
proof -
  have "trim_space s = [] \<longleftrightarrow> (\<forall>c \<in> set (dropWhile is_space s). is_space c)"
    by (simp add: trim_space_def)
  also have "\<dots> \<longleftrightarrow> dropWhile is_space s = []"
    using hd_dropWhile [of is_space s] by (metis empty_iff empty_set hd_in_set)
  finally show ?thesis by simp
qed

lemma index_as_insert:
  assumes "splitTail existing = (cur, tail)"
  shows "\<exists>n new. UpdateIndex existing e path = join_lines (insert_lines n new (lines_of cur)) @ tail \<and> index_line e path \<in> set new"
proof (cases "first_index (\<lambda>l. trim_space l = index_section e) (lines_of cur)")
  case None
  then show ?thesis using assms
    by (intro exI [of _ "length (lines_of cur)"] exI [of _ "[[], index_section e, [], index_line e path]"])
      (simp add: UpdateIndex_def insert_lines_def Let_def)
next
  case (Some start)
  then show ?thesis using assms
    by (intro exI [of _ "section_end (lines_of cur) start"] exI [of _ "[index_line e path]"]) (simp add: UpdateIndex_def Let_def)
qed

lemma log_as_insert:
  assumes "splitTail existing = (cur, tail)" and "trim_space cur \<noteq> []"
  shows "\<exists>n new. UpdateLog existing e path date = join_lines (insert_lines n new (lines_of cur)) @ tail \<and> log_line e path \<in> set new"
proof (cases "first_index (\<lambda>l. trim_space l = ''## '' @ date) (lines_of cur)")
  case None
  then show ?thesis using assms
    by (intro exI [of _ "case first_index (\<lambda>l. has_prefix (trim_space l) ''## '') (lines_of cur) of Some k \<Rightarrow> k | None \<Rightarrow> length (lines_of cur)"]
        exI [of _ "[''## '' @ date, [], log_line e path, []]"])
      (simp add: UpdateLog_def Let_def)
next
  case (Some i)
  then show ?thesis using assms
    by (intro exI [of _ "i + 1"] exI [of _ "[[], log_line e path]"]) (simp add: UpdateLog_def Let_def)
qed

text \<open>
  C27: The bundle's files only grow. Whatever the index and the log hold, an update inserts lines
  and keeps every line there was, in its order (a missing final newline apart), which is the only
  change of these files the merge gate admits; and the entry's own line is among the new ones. A log
  that is blank gets the standard shape.
\<close>

theorem bundle_updates_only_insert:
  assumes "trim_space lg \<noteq> []"
  shows "subseq (lines_of (ended idx)) (lines_of (UpdateIndex idx e path))
    \<and> set (lines_of (index_line e path)) \<subseteq> set (lines_of (UpdateIndex idx e path))
    \<and> subseq (lines_of (ended lg)) (lines_of (UpdateLog lg e path date))
    \<and> set (lines_of (log_line e path)) \<subseteq> set (lines_of (UpdateLog lg e path date))"
proof -
  obtain c1 t1 where i: "splitTail idx = (c1, t1)" by (metis prod.exhaust)
  obtain c2 t2 where l: "splitTail lg = (c2, t2)" by (metis prod.exhaust)
  have "c2 = trim_right newline lg" using l by (auto simp: splitTail_def Let_def)
  then obtain n where "lg = c2 @ replicate n newline" using trim_right_split [of lg newline] by blast
  moreover have "is_space newline" by (simp add: is_space_def newline_def)
  ultimately have "trim_space c2 \<noteq> []" using assms by (auto simp: trim_space_Nil)
  from log_as_insert [OF l this] obtain n new where L: "UpdateLog lg e path date = join_lines (insert_lines n new (lines_of c2)) @ t2"
      "log_line e path \<in> set new" by blast
  from index_as_insert [OF i] obtain n' new' where I: "UpdateIndex idx e path = join_lines (insert_lines n' new' (lines_of c1)) @ t1"
      "index_line e path \<in> set new'" by blast
  show ?thesis using inserting_update [OF i I(1)] I(2) inserting_update [OF l L(1)] L(2) by blast
qed

lemma bundle_updates_only_insert_witness:
  "subseq [''# Log'', []] (lines_of (UpdateLog (''# Log'' @ [newline]) zero_kb_entry ''p'' ''d''))"
proof -
  have "trim_space (''# Log'' @ [newline]) \<noteq> []" "lines_of (ended (''# Log'' @ [newline])) = [''# Log'', []]" by code_simp+
  then show ?thesis using bundle_updates_only_insert [of "''# Log'' @ [newline]" "[]" zero_kb_entry "''p''" "''d''"] by simp
qed

section \<open>The entry's line in the index\<close>

text \<open>
  How a reader of the index takes a link's label: up to the first closing bracket that is not
  escaped, a backslash before a punctuation character standing for that character; an opening
  bracket would start another label. What follows the label is handed back.
\<close>

definition punctuation :: "char \<Rightarrow> bool" where
  "punctuation c \<longleftrightarrow> 33 \<le> (of_char c :: nat) \<and> (of_char c :: nat) \<le> 126 \<and> \<not> is_lower c \<and> \<not> is_upper c \<and> \<not> is_digit c"

fun link_label :: "string \<Rightarrow> (string \<times> string) option" where
  "link_label [] = None"
| "link_label (c # s) =
     (if c = CHR '']'' then Some ([], s)
      else if c = CHR ''['' then None
      else if c = CHR 0x5C then
        (case s of [] \<Rightarrow> None
         | d # t \<Rightarrow> if punctuation d then map_option (apfst ((#) d)) (link_label t) else map_option (apfst ((#) c)) (link_label s))
      else map_option (apfst ((#) c)) (link_label s))"

lemma escaped_label: "link_label (linkText t @ CHR '']'' # rest) = Some (t, rest)"
proof (induction t)
  case (Cons c t)
  have "punctuation (CHR 0x5C)" "punctuation (CHR ''['')" "punctuation (CHR '']'')"
    by (simp_all add: punctuation_def is_lower_def is_upper_def is_digit_def)
  then show ?case using Cons by (auto simp: linkText_def link_escape_def)
qed (simp add: linkText_def)

lemma section_end_bounds:
  assumes "start < length ls"
  shows "start < section_end ls start" and "section_end ls start \<le> length ls"
    and "\<And>l. l \<in> set (drop (start + 1) (take (section_end ls start) ls)) \<Longrightarrow> \<not> has_prefix (trim_space l) ''#''"
proof -
  have bk: "b \<le> e \<and> (start < e \<longrightarrow> start < b)" if "b = back_over_blanks ls start e" for b e
    using that by (induction e arbitrary: b) auto
  define e where "e = (case first_index (\<lambda>l. has_prefix (trim_space l) ''#'') (drop (start + 1) ls) of
      Some k \<Rightarrow> start + 1 + k | None \<Rightarrow> length ls)"
  have e: "start < e \<and> e \<le> length ls \<and> (\<forall>l \<in> set (drop (start + 1) (take e ls)). \<not> has_prefix (trim_space l) ''#'')"
  proof -
    let ?P = "\<lambda>l. has_prefix (trim_space l) ''#''"
    let ?d = "drop (start + 1) ls"
    let ?n = "length (takeWhile (\<lambda>l. \<not> ?P l) ?d)"
    have n: "?n \<le> length ?d" by (rule length_takeWhile_le)
    have "e = start + 1 + ?n"
      using assms n by (auto simp: e_def first_index_def Let_def)
    moreover have "drop (start + 1) (take (start + 1 + ?n) ls) = takeWhile (\<lambda>l. \<not> ?P l) ?d"
      by (simp add: drop_take takeWhile_eq_take [symmetric])
    ultimately show ?thesis using assms n by (auto dest: set_takeWhileD)
  qed
  have s: "section_end ls start = back_over_blanks ls start e" by (simp add: section_end_def e_def)
  then have b: "section_end ls start \<le> e" "start < section_end ls start" using bk e by blast+
  then show "start < section_end ls start" "section_end ls start \<le> length ls" using e by auto
  have "set (drop (start + 1) (take (section_end ls start) ls)) \<subseteq> set (drop (start + 1) (take e ls))"
    using b(1) by (simp add: drop_take set_take_subset_set_take)
  then show "\<And>l. l \<in> set (drop (start + 1) (take (section_end ls start) ls)) \<Longrightarrow> \<not> has_prefix (trim_space l) ''#''"
    using e by blast
qed

lemma first_index_Some:
  assumes "first_index P ls = Some n"
  shows "n < length ls" and "P (ls ! n)"
  using assms nth_length_takeWhile [of "\<lambda>l. \<not> P l" ls] by (auto simp: first_index_def Let_def split: if_splits)

lemma index_line_placed:
  assumes "newline \<notin> set (ke_type e)" and "newline \<notin> set (index_line e path)"
  shows "\<exists>pre h mid post. lines_of (UpdateIndex idx e path) = pre @ h # mid @ index_line e path # post
      \<and> trim_space h = index_section e \<and> (\<forall>l \<in> set mid. \<not> has_prefix (trim_space l) ''#'')"
proof -
  obtain cur tail where i: "splitTail idx = (cur, tail)" by (metis prod.exhaust)
  obtain t where t: "tail = newline # t" using splitTail_spec [OF i] by blast
  have one: "lines_of (index_line e path) = [index_line e path]" using assms(2) by (rule split_one)
  have sec: "lines_of (index_section e) = [index_section e]"
    by (rule split_one) (use assms(1) in \<open>auto simp: index_section_def newline_def\<close>)
  have trim: "trim_space (index_section e) = index_section e"
    by (simp add: index_section_def trim_space_def is_space_def)
  show ?thesis
  proof (cases "first_index (\<lambda>l. trim_space l = index_section e) (lines_of cur)")
    case None
    have "UpdateIndex idx e path
        = join_lines (insert_lines (length (lines_of cur)) [[], index_section e, [], index_line e path] (lines_of cur)) @ newline # t"
      using None i t by (simp add: UpdateIndex_def insert_lines_def Let_def)
    then have "lines_of (UpdateIndex idx e path)
        = (lines_of cur @ [[]]) @ index_section e # [[]] @ index_line e path # lines_of t"
      by (simp add: inserted_lines one sec)
    then show ?thesis using trim by (intro exI conjI) (assumption, auto simp: trim_space_def)
  next
    case (Some start)
    note f = first_index_Some [OF Some]
    let ?ls = "lines_of cur"
    let ?n = "section_end ?ls start"
    note b = section_end_bounds [OF f(1)]
    have "UpdateIndex idx e path = join_lines (insert_lines ?n [index_line e path] ?ls) @ newline # t"
      using Some i t by (simp add: UpdateIndex_def Let_def)
    then have "lines_of (UpdateIndex idx e path) = take ?n ?ls @ index_line e path # drop ?n ?ls @ lines_of t"
      by (simp add: inserted_lines one)
    moreover have "take ?n ?ls = take start ?ls @ ?ls ! start # drop (start + 1) (take ?n ?ls)"
      using id_take_nth_drop [of start "take ?n ?ls"] b(1) f(1) b(2) by simp
    ultimately have "lines_of (UpdateIndex idx e path)
        = take start ?ls @ ?ls ! start # drop (start + 1) (take ?n ?ls) @ index_line e path # drop ?n ?ls @ lines_of t" by simp
    then show ?thesis using f(2) b(3) by (intro exI conjI) (assumption, auto)
  qed
qed

text \<open>
  C30: An entry's line stands in its own section of the index and links to the entry. After an
  update there is a line that reads as the section of the entry's type, no other heading between it
  and the new line, and the new line's label reads back as the entry's title, whatever brackets and
  backslashes the title holds, followed by the entry's own path.
\<close>

theorem index_line_links_entry:
  assumes "newline \<notin> set (ke_type e)" and "newline \<notin> set (index_line e path)"
  shows "(\<exists>pre h mid post. lines_of (UpdateIndex idx e path) = pre @ h # mid @ index_line e path # post
      \<and> trim_space h = index_section e \<and> (\<forall>l \<in> set mid. \<not> has_prefix (trim_space l) ''#''))
    \<and> link_label (drop 3 (index_line e path)) = Some (ke_title e, ''('' @ path @ '') '' @ long_dash @ '' '' @ ke_description e)"
  using index_line_placed [OF assms]
    escaped_label [of "ke_title e" "''('' @ path @ '') '' @ long_dash @ '' '' @ ke_description e"] by (simp add: index_line_def)

lemma index_line_links_entry_witness:
  "\<exists>pre h mid post. lines_of (UpdateIndex ''## Concepts'' (zero_kb_entry\<lparr>ke_type := ''Concept'', ke_title := ''a](x)''\<rparr>) ''p'')
     = pre @ h # mid @ index_line (zero_kb_entry\<lparr>ke_type := ''Concept'', ke_title := ''a](x)''\<rparr>) ''p'' # post
   \<and> trim_space h = ''## Concepts'' \<and> (\<forall>l \<in> set mid. \<not> has_prefix (trim_space l) ''#'')"
proof -
  let ?e = "zero_kb_entry\<lparr>ke_type := ''Concept'', ke_title := ''a](x)''\<rparr>"
  have "newline \<notin> set (ke_type ?e)" "newline \<notin> set (index_line ?e ''p'')" by code_simp+
  from index_line_links_entry [OF this, of "''## Concepts''"] show ?thesis by (simp add: index_section_def)
qed

section \<open>One note, once\<close>

lemma contains_str_iff: "contains_str s x \<longleftrightarrow> (\<exists>a b. s = a @ x @ b)"
proof (induction s)
  case (Cons c s)
  have "(\<exists>a b. c # s = a @ x @ b) \<longleftrightarrow> (\<exists>r. c # s = x @ r) \<or> (\<exists>a b. s = a @ x @ b)"
    by (metis (no_types, opaque_lifting) append_Cons append_Nil append_eq_Cons_conv)
  then show ?case using Cons by (simp add: has_prefix_iff)
qed simp

lemma dropWhile_keeps_tail: "y \<noteq> [] \<Longrightarrow> \<not> P (hd y) \<Longrightarrow> \<exists>x'. dropWhile P (x @ y) = x' @ y"
  by (induction x) (auto simp: neq_Nil_conv)

lemma NoteMarker_nonempty [simp]: "NoteMarker k \<noteq> []"
  by (simp add: NoteMarker_def)

lemma trim_newlines_marked: "\<exists>x'. trim_newlines (x @ NoteMarker k) = x' @ NoteMarker k"
proof -
  have h: "\<not> hd (NoteMarker k) = newline" and ne: "NoteMarker k \<noteq> []" by (simp_all add: NoteMarker_def newline_def)
  obtain x' where "dropWhile (\<lambda>c. c = newline) (x @ NoteMarker k) = x' @ NoteMarker k"
    using dropWhile_keeps_tail [OF ne, of "\<lambda>c. c = newline"] h by blast
  moreover have "trim_right newline (x' @ NoteMarker k) = x' @ NoteMarker k"
    by (simp add: trim_right_def NoteMarker_def newline_def)
  ultimately show ?thesis by (simp add: trim_newlines_def)
qed

text \<open>
  C28: A note is appended once and destroys nothing. Once a note with a key is on the file, a second
  delivery with that key changes nothing, whatever its text; an append keeps all the file held
  before, the newlines at its end apart.
\<close>

theorem note_appended_once:
  assumes "key \<noteq> []"
  shows "append_note body' key (fst (append_note body key raw)) = (fst (append_note body key raw), False)
    \<and> has_prefix (fst (append_note body key raw)) (trim_right newline raw)"
proof (cases "HasNoteMarker raw key")
  case True
  then show ?thesis using trim_right_prefix [of raw newline] by (auto simp: append_note_def has_prefix_iff)
next
  case False
  let ?block = "NeutralizeImages body @ [newline, newline] @ NoteMarker key"
  obtain x where x: "trim_newlines ?block = x @ NoteMarker key"
    using trim_newlines_marked [of "NeutralizeImages body @ [newline, newline]" key] by auto
  have ne: "trim_newlines ?block \<noteq> []" unfolding x by simp
  have r: "fst (append_note body key raw) =
      (if trim_right newline raw = [] then x @ NoteMarker key @ [newline]
       else trim_right newline raw @ [newline, newline] @ x @ NoteMarker key @ [newline])"
    using False assms ne x by (simp add: append_note_def WithNoteMarker_def AppendBlock_def Let_def)
  have "\<exists>a b. fst (append_note body key raw) = a @ NoteMarker key @ b"
    unfolding r by (cases "trim_right newline raw = []")
      (auto intro: exI [of _ x] exI [of _ "trim_right newline raw @ [newline, newline] @ x"] exI [of _ "[newline]"])
  then have m: "HasNoteMarker (fst (append_note body key raw)) key" using assms by (simp add: HasNoteMarker_def contains_str_iff)
  have "has_prefix (fst (append_note body key raw)) (trim_right newline raw)" unfolding r by (auto simp: has_prefix_iff)
  then show ?thesis using m by (simp add: append_note_def [of body'])
qed

lemma note_appended_once_witness:
  "append_note ''again'' ''k'' (fst (append_note ''first'' ''k'' ''entry'')) = (fst (append_note ''first'' ''k'' ''entry''), False)"
  using note_appended_once [of "''k''" "''again''" "''first''" "''entry''"] by simp

section \<open>Defused text\<close>

text \<open>No image syntax opens anywhere, and no tag, end tag, comment or declaration.\<close>

fun inert :: "string \<Rightarrow> bool" where
  "inert (a # b # s) \<longleftrightarrow> \<not> (a = CHR ''!'' \<and> b = CHR ''['') \<and> \<not> (a = CHR ''<'' \<and> tag_char b) \<and> inert (b # s)"
| "inert s \<longleftrightarrow> True"

fun image_free :: "string \<Rightarrow> bool" where
  "image_free (a # b # s) \<longleftrightarrow> \<not> (a = CHR ''!'' \<and> b = CHR ''['') \<and> image_free (b # s)"
| "image_free s \<longleftrightarrow> True"

fun tag_free :: "string \<Rightarrow> bool" where
  "tag_free (a # b # s) \<longleftrightarrow> \<not> (a = CHR ''<'' \<and> tag_char b) \<and> tag_free (b # s)"
| "tag_free s \<longleftrightarrow> True"

lemma inert_iff: "inert s \<longleftrightarrow> image_free s \<and> tag_free s"
  by (induction s rule: inert.induct) auto

lemma image_free_Cons: "image_free (c # s) \<longleftrightarrow> \<not> (c = CHR ''!'' \<and> s \<noteq> [] \<and> hd s = CHR ''['') \<and> image_free s"
  by (cases s) auto

lemma tag_free_Cons: "tag_free (c # s) \<longleftrightarrow> \<not> (c = CHR ''<'' \<and> s \<noteq> [] \<and> tag_char (hd s)) \<and> tag_free s"
  by (cases s) auto

lemma hd_escape_tags: "hd (escape_tags s) = hd s \<or> hd s = CHR ''<'' \<and> hd (escape_tags s) = CHR ''&''"
  by (cases s rule: escape_tags.cases) auto

lemma escape_tags_Nil [simp]: "escape_tags s = [] \<longleftrightarrow> s = []"
  by (cases s rule: escape_tags.cases) auto

lemma hd_escape_images: "hd (escape_images s) = hd s"
  by (cases s rule: escape_images.cases) auto

lemma escape_images_Nil [simp]: "escape_images s = [] \<longleftrightarrow> s = []"
  by (cases s rule: escape_images.cases) auto

lemma tag_char_simps [simp]: "\<not> tag_char (CHR ''&'')" "\<not> tag_char (CHR ''l'') \<longleftrightarrow> False" "\<not> tag_char (CHR ''['')" "\<not> tag_char (CHR ''<'')"
  "tag_char (CHR ''!'')"
  by (simp_all add: tag_char_def is_lower_def is_upper_def)

lemma tag_free_escape: "tag_free (escape_tags s)"
proof (induction s rule: escape_tags.induct)
  case (1 a b s)
  show ?case
  proof (cases "a = CHR ''<'' \<and> tag_char b")
    case True
    then have "b \<noteq> CHR ''<''" by auto
    then show ?thesis using True 1 by (auto simp: tag_free_Cons)
  next
    case False
    have "hd (escape_tags (b # s)) = b \<or> hd (escape_tags (b # s)) = CHR ''&''" using hd_escape_tags [of "b # s"] by auto
    then show ?thesis using False 1 by (auto simp: tag_free_Cons)
  qed
qed simp_all

lemma image_free_escape: "image_free (escape_images s)"
proof (induction s rule: escape_images.induct)
  case (1 a b s)
  then show ?case using hd_escape_images [of "b # s"] by (auto simp: image_free_Cons)
qed simp_all

lemma tags_keep_image_free: "image_free s \<Longrightarrow> image_free (escape_tags s)"
proof (induction s rule: escape_tags.induct)
  case (1 a b s)
  have h: "hd (escape_tags (b # s)) = b \<or> hd (escape_tags (b # s)) = CHR ''&''" "hd (escape_tags s) = hd s \<or> hd (escape_tags s) = CHR ''&''"
    using hd_escape_tags [of "b # s"] hd_escape_tags [of s] by auto
  show ?case
  proof (cases "a = CHR ''<'' \<and> tag_char b")
    case True
    then show ?thesis using 1 h(2) by (auto simp: image_free_Cons)
  next
    case False
    then show ?thesis using 1 h(1) by (auto simp: image_free_Cons)
  qed
qed simp_all

lemma images_keep_tag_free: "tag_free s \<Longrightarrow> tag_free (escape_images s)"
proof (induction s rule: escape_images.induct)
  case (1 a b s)
  then show ?case using hd_escape_images [of "b # s"] by (auto simp: tag_free_Cons)
qed simp_all

lemma defused_inert: "inert (escape_tags (escape_images s))" "inert (escape_images (escape_tags s))"
  by (simp_all add: inert_iff tag_free_escape image_free_escape tags_keep_image_free images_keep_tag_free)

lemma inert_append:
  "inert (a @ b) \<longleftrightarrow> inert a \<and> inert b \<and> \<not> (a \<noteq> [] \<and> b \<noteq> [] \<and> (last a = CHR ''!'' \<and> hd b = CHR ''['' \<or> last a = CHR ''<'' \<and> tag_char (hd b)))"
proof (induction a rule: inert.induct)
  case (1 x y s)
  then show ?case by auto
qed (cases b; auto)+

lemma inert_infix: "inert (a @ b @ c) \<Longrightarrow> inert b"
  by (simp add: inert_append)

end
