(* ===== verification/ThreadGrammar.thy ===== *)
theory ThreadGrammar
  imports Workload
begin

text \<open>
  \<open>internal/thread/grammar.go\<close>: how a message addressed in a thread is read. A command token is
  \<open>reinvestigate:\<close>, \<open>silence:\<close> or \<open>note:\<close>, anywhere in the message, in any case, not directly
  after a letter or a digit; the first token in that order wins.
\<close>

section \<open>Leading mentions\<close>

lemma length_trim_space: "length (trim_space s) \<le> length s"
proof -
  have "length (dropWhile is_space t) \<le> length t" for t by (induction t) auto
  from this [of "rev (dropWhile is_space s)"] this [of s] show ?thesis by (simp add: trim_space_def)
qed

lemma cut_byte_shorter: "cut_byte c s = (a, b, True) \<Longrightarrow> length (trim_space b) < length s"
  using length_trim_space [of b] by (auto dest!: cut_byte_eq)

text \<open>The loop of \<open>stripLeadingMentions\<close>, on a text that is already trimmed.\<close>

function strip_mentions :: "string \<Rightarrow> string" where
  "strip_mentions s =
     (if has_prefix s ''<@''
      then (case cut_byte (CHR ''>'') s of (_, rest, found) \<Rightarrow>
              if found then strip_mentions (trim_space rest) else s)
      else s)"
  by pat_completeness auto
termination
  by (relation "measure length") (auto dest: cut_byte_shorter [OF sym])

declare strip_mentions.simps [simp del]

definition stripLeadingMentions :: "string \<Rightarrow> string" where
  "stripLeadingMentions s = trim_space (strip_mentions (trim_space s))"

section \<open>Commands\<close>

datatype intent = IntentFreeform | IntentNote | IntentReinvestigate | IntentSilence

fun intent_string :: "intent \<Rightarrow> string" where
  "intent_string IntentNote = ''note''"
| "intent_string IntentReinvestigate = ''reinvestigate''"
| "intent_string IntentSilence = ''silence''"
| "intent_string IntentFreeform = ''freeform''"

record parsed =
  pa_intent :: intent
  pa_text :: string
  pa_anchored :: bool

definition prefixes :: "(string \<times> intent) list" where
  "prefixes = [(''reinvestigate:'', IntentReinvestigate), (''silence:'', IntentSilence), (''note:'', IntentNote)]"

definition isASCIIAlphanumeric :: "char \<Rightarrow> bool" where
  "isASCIIAlphanumeric c \<longleftrightarrow> is_lower c \<or> is_upper c \<or> is_digit c"

text \<open>
  \<open>strings.EqualFold\<close> of a window of the prefix's own length with an ASCII prefix: a window that
  folds to it consists of ASCII letters only, so folding is lower-casing bytes.
\<close>

definition token_at :: "string \<Rightarrow> string \<Rightarrow> nat \<Rightarrow> bool" where
  "token_at s prefix i \<longleftrightarrow> to_lower (take (length prefix) (drop i s)) = prefix
     \<and> \<not> (i > 0 \<and> isASCIIAlphanumeric (s ! (i - 1)))"

definition commandTokenIndex :: "string \<Rightarrow> string \<Rightarrow> nat option" where
  "commandTokenIndex s prefix = find (token_at s prefix) [0..<Suc (length s) - length prefix]"

fun parse_prefixes :: "(string \<times> intent) list \<Rightarrow> string \<Rightarrow> parsed" where
  "parse_prefixes [] s = \<lparr>pa_intent = IntentFreeform, pa_text = s, pa_anchored = False\<rparr>"
| "parse_prefixes ((prefix, k) # ps) s = (case commandTokenIndex s prefix of
     Some i \<Rightarrow> \<lparr>pa_intent = k, pa_text = trim_space (drop (i + length prefix) s), pa_anchored = (i = 0)\<rparr>
   | None \<Rightarrow> parse_prefixes ps s)"

definition Parse :: "string \<Rightarrow> parsed" where
  "Parse raw = parse_prefixes prefixes (stripLeadingMentions raw)"

section \<open>What a command is\<close>

text \<open>A token of a prefix in a text, stated without indices: what precedes it, itself, what follows.\<close>

definition command_in :: "string \<Rightarrow> string \<Rightarrow> string \<Rightarrow> string \<Rightarrow> bool" where
  "command_in prefix s a b \<longleftrightarrow> (\<exists>tok. s = a @ tok @ b \<and> to_lower tok = prefix) \<and> (a \<noteq> [] \<longrightarrow> \<not> isASCIIAlphanumeric (last a))"

lemma length_to_lower [simp]: "length (to_lower s) = length s"
  by (simp add: to_lower_def)

lemma command_in_token:
  "command_in prefix s a b \<longleftrightarrow> token_at s prefix (length a) \<and> length a + length prefix \<le> length s
     \<and> a = take (length a) s \<and> b = drop (length a + length prefix) s"
proof
  assume "command_in prefix s a b"
  then obtain tok where s: "s = a @ tok @ b" "to_lower tok = prefix" and n: "a \<noteq> [] \<longrightarrow> \<not> isASCIIAlphanumeric (last a)"
    by (auto simp: command_in_def)
  have "length tok = length prefix" using s(2) by auto
  moreover have "a \<noteq> [] \<Longrightarrow> s ! (length a - 1) = last a" by (simp add: s(1) nth_append last_conv_nth)
  ultimately show "token_at s prefix (length a) \<and> length a + length prefix \<le> length s
      \<and> a = take (length a) s \<and> b = drop (length a + length prefix) s"
    using s n by (auto simp: token_at_def)
next
  assume t: "token_at s prefix (length a) \<and> length a + length prefix \<le> length s
      \<and> a = take (length a) s \<and> b = drop (length a + length prefix) s"
  let ?tok = "take (length prefix) (drop (length a) s)"
  have "s = take (length a) s @ ?tok @ drop (length prefix) (drop (length a) s)" by (simp only: append_take_drop_id)
  then have "s = a @ ?tok @ b" using t by (simp add: add.commute)
  moreover have "a \<noteq> [] \<Longrightarrow> s ! (length a - 1) = last a"
    using t by (metis diff_less last_conv_nth length_greater_0_conv less_one nth_take)
  ultimately show "command_in prefix s a b" using t by (auto simp: command_in_def token_at_def)
qed

lemma commandTokenIndex_Some:
  assumes "commandTokenIndex s prefix = Some i"
  shows "command_in prefix s (take i s) (drop (i + length prefix) s)" and "i + length prefix \<le> length s"
    and "command_in prefix s a b \<Longrightarrow> i \<le> length a"
proof -
  from assms obtain k where k: "k < length [0..<Suc (length s) - length prefix]" "token_at s prefix ([0..<Suc (length s) - length prefix] ! k)"
      "i = [0..<Suc (length s) - length prefix] ! k" "\<forall>j<k. \<not> token_at s prefix ([0..<Suc (length s) - length prefix] ! j)"
    by (auto simp: commandTokenIndex_def find_Some_iff)
  then have i: "k = i" "i < Suc (length s) - length prefix" "token_at s prefix i" by auto
  then show le: "i + length prefix \<le> length s" by linarith
  show "command_in prefix s (take i s) (drop (i + length prefix) s)"
    unfolding command_in_token using i le by auto
  show "i \<le> length a" if "command_in prefix s a b"
  proof (rule ccontr)
    assume "\<not> i \<le> length a"
    moreover have "token_at s prefix (length a)" using that by (simp add: command_in_token)
    ultimately show False using k(4) i(1,2) by auto
  qed
qed

lemma commandTokenIndex_None: "commandTokenIndex s prefix = None \<longleftrightarrow> (\<nexists>a b. command_in prefix s a b)"
proof
  assume n: "commandTokenIndex s prefix = None"
  show "\<nexists>a b. command_in prefix s a b"
  proof
    assume "\<exists>a b. command_in prefix s a b"
    then obtain a b where "command_in prefix s a b" by blast
    then have "token_at s prefix (length a)" "length a + length prefix \<le> length s"
      by (simp_all only: command_in_token)
    then show False using n by (auto simp: commandTokenIndex_def find_None_iff)
  qed
next
  assume "\<nexists>a b. command_in prefix s a b"
  then show "commandTokenIndex s prefix = None"
    by (cases "commandTokenIndex s prefix") (auto dest: commandTokenIndex_Some(1))
qed

text \<open>What it means that a text is read by the grammar.\<close>

definition reads_as :: "string \<Rightarrow> (string \<times> intent) list \<Rightarrow> parsed \<Rightarrow> bool" where
  "reads_as s ps p \<longleftrightarrow> (case find (\<lambda>(prefix, _). \<exists>a b. command_in prefix s a b) ps of
     None \<Rightarrow> p = \<lparr>pa_intent = IntentFreeform, pa_text = s, pa_anchored = False\<rparr>
   | Some (prefix, k) \<Rightarrow> \<exists>a b. command_in prefix s a b \<and> (\<forall>a' b'. command_in prefix s a' b' \<longrightarrow> length a \<le> length a')
       \<and> p = \<lparr>pa_intent = k, pa_text = trim_space b, pa_anchored = (a = [])\<rparr>)"

lemma parse_prefixes_reads: "reads_as s ps (parse_prefixes ps s)"
proof (induction ps)
  case Nil
  then show ?case by (simp add: reads_as_def)
next
  case (Cons x ps)
  obtain prefix k where x: "x = (prefix, k)" by (cases x)
  show ?case
  proof (cases "commandTokenIndex s prefix")
    case None
    then have "\<not> (\<exists>a b. command_in prefix s a b)" by (simp add: commandTokenIndex_None)
    then show ?thesis using Cons None by (simp add: reads_as_def x)
  next
    case (Some i)
    note c = commandTokenIndex_Some [OF Some]
    have e: "take i s = [] \<longleftrightarrow> i = 0" using c(2) c(1) by (auto simp: command_in_token)
    have f: "find (\<lambda>(prefix, _). \<exists>a b. command_in prefix s a b) (x # ps) = Some (prefix, k)"
      using c(1) by (auto simp: x)
    have p: "parse_prefixes (x # ps) s
        = \<lparr>pa_intent = k, pa_text = trim_space (drop (i + length prefix) s), pa_anchored = (take i s = [])\<rparr>"
      unfolding e by (simp add: x Some)
    have l: "length (take i s) = i" using c(2) by simp
    show ?thesis unfolding reads_as_def f p option.case prod.case
      by (intro exI [of _ "take i s"] exI [of _ "drop (i + length prefix) s"] conjI refl allI impI c(1))
        (simp only: l c(3))
  qed
qed

text \<open>
  C40: The parser reads the grammar. With the leading mentions stripped, the first of the three commands,
  in priority order, that occurs anywhere as a whole token decides; it is read at its leftmost
  occurrence, its text is what follows, and it is anchored exactly when nothing precedes it. Without
  any command the message is free-form.
\<close>

theorem parse_reads_grammar: "reads_as (stripLeadingMentions raw) prefixes (Parse raw)"
  unfolding Parse_def by (rule parse_prefixes_reads)

text \<open>A note never swallows a command that changes behaviour.\<close>

lemma note_has_no_other_command:
  assumes "pa_intent (Parse raw) = IntentNote" and "prefix = ''reinvestigate:'' \<or> prefix = ''silence:''"
  shows "\<nexists>a b. command_in prefix (stripLeadingMentions raw) a b"
  using assms parse_reads_grammar [of raw] by (auto simp: reads_as_def prefixes_def split: if_splits)

end
