(* ===== verification/ThreadNote.thy ===== *)
theory ThreadNote
  imports ThreadRegistry ThreadBudget
begin

text \<open>
  Notes of \<open>internal/thread/note.go\<close> (the data and the byte cap) and the reading of pull-request
  URLs in \<open>internal/thread/responder.go\<close>. Texts are valid UTF-8, host names and repository paths ASCII.
  \<open>url.Parse\<close> is the parameter \<open>parse_url\<close>: the host name and the path of a URL.
\<close>

section \<open>Notes\<close>

record thread_note =
  nt_author :: string
  nt_text :: string
  nt_draftedFrom :: string

definition HumanNote :: "string \<Rightarrow> string \<Rightarrow> thread_note" where
  "HumanNote author text = \<lparr>nt_author = author, nt_text = text, nt_draftedFrom = []\<rparr>"

definition ProposedNote :: "string \<Rightarrow> string \<Rightarrow> string \<Rightarrow> thread_note" where
  "ProposedNote author msg draft = \<lparr>nt_author = author, nt_text = draft, nt_draftedFrom = msg\<rparr>"

definition modelDrafted :: "thread_note \<Rightarrow> bool" where
  "modelDrafted n \<longleftrightarrow> nt_draftedFrom n \<noteq> []"

definition DefaultMaxNoteBytes :: int where "DefaultMaxNoteBytes = 8192"

definition em_dash :: string where
  "em_dash = [CHR 0xE2, CHR 0x80, CHR 0x94]"

definition noteTruncationMarker :: "nat \<Rightarrow> string" where
  "noteTruncationMarker dropped = ellipsis @ [newline, newline] @ ''_(truncated '' @ em_dash @ '' '' @ fmt_int dropped
     @ '' input bytes dropped)_''"

definition cutToRuneBoundary :: "string \<Rightarrow> int \<Rightarrow> string" where
  "cutToRuneBoundary s n =
     (if n \<le> 0 then [] else if int (length s) \<le> n then s else take (back_to_rune (nat n) s) s)"

definition capNoteText :: "string \<Rightarrow> int \<Rightarrow> string" where
  "capNoteText text maxBytes =
     (let m = (if maxBytes \<le> 0 then DefaultMaxNoteBytes else maxBytes)
      in if int (length text) \<le> m then text
         else (let reserved = int (length (noteTruncationMarker (length text)))
               in if m < reserved then cutToRuneBoundary (noteTruncationMarker (length text)) m
                  else (let kept = cutToRuneBoundary text (m - reserved)
                        in kept @ noteTruncationMarker (length text - length kept))))"

lemma back_to_rune_bound: "back_to_rune n s \<le> n"
  by (induction n) (auto intro: le_SucI)

lemma cut_bounded: "0 \<le> n \<Longrightarrow> int (length (cutToRuneBoundary s n)) \<le> n"
  using back_to_rune_bound [of "nat n" s] by (auto simp: cutToRuneBoundary_def)

lemma cut_is_prefix: "\<exists>r. s = cutToRuneBoundary s n @ r"
  by (auto simp: cutToRuneBoundary_def intro: exI [of _ "drop (back_to_rune (nat n) s) s"])

lemma fmt_int_length_mono: "a \<le> b \<Longrightarrow> length (fmt_int a) \<le> length (fmt_int b)"
proof (induction b arbitrary: a rule: fmt_int.induct)
  case (1 b)
  show ?case
  proof (cases "a < 10")
    case True
    then show ?thesis by (simp add: fmt_int.simps [of a] Suc_leI)
  next
    case False
    then have "\<not> b < 10" "a div 10 \<le> b div 10" using "1.prems" by (auto intro: div_le_mono)
    then show ?thesis using "1.IH" [of "a div 10"] False by (simp add: fmt_int.simps [of a] fmt_int.simps [of b])
  qed
qed

lemma marker_length_mono: "a \<le> b \<Longrightarrow> length (noteTruncationMarker a) \<le> length (noteTruncationMarker b)"
  by (simp add: noteTruncationMarker_def fmt_int_length_mono)

text \<open>
  The cap of a note. Its text never takes more bytes than the cap, and it is either the whole text
  or a prefix of it with a marker that states exactly how many bytes are missing, unless the cap is
  too small for the marker itself.
\<close>

theorem note_text_capped:
  assumes "0 < m"
  shows "int (length (capNoteText text m)) \<le> m
    \<and> (capNoteText text m = text \<or> m < int (length (noteTruncationMarker (length text)))
       \<or> (\<exists>kept dropped. text = kept @ dropped \<and> capNoteText text m = kept @ noteTruncationMarker (length dropped)))"
proof (cases "int (length text) \<le> m \<or> m < int (length (noteTruncationMarker (length text)))")
  case True
  then show ?thesis using assms cut_bounded [of m] by (auto simp: capNoteText_def Let_def)
next
  case False
  define kept where "kept = cutToRuneBoundary text (m - int (length (noteTruncationMarker (length text))))"
  have c: "capNoteText text m = kept @ noteTruncationMarker (length text - length kept)"
    using False assms by (simp add: capNoteText_def Let_def kept_def)
  obtain r where r: "text = kept @ r" using cut_is_prefix kept_def by blast
  have "int (length kept) \<le> m - int (length (noteTruncationMarker (length text)))"
    unfolding kept_def by (rule cut_bounded) (use False in simp)
  moreover have "length (noteTruncationMarker (length text - length kept)) \<le> length (noteTruncationMarker (length text))"
    by (rule marker_length_mono) simp
  ultimately have "int (length (capNoteText text m)) \<le> m" by (simp add: c)
  moreover have "length r = length text - length kept" by (simp add: r)
  ultimately show ?thesis using r c by metis
qed

lemma note_text_capped_witness:
  "int (length (capNoteText (replicate 200 (CHR ''x'')) 128)) \<le> 128"
  using note_text_capped [of 128] by simp

section \<open>Pull-request URLs\<close>

text \<open>The capture of \<open>/(?:pull|merge_requests)/(\d+)\<close> at the start of a text, and at its leftmost match.\<close>

definition pr_match :: "string \<Rightarrow> string option" where
  "pr_match s =
     (let digits = (\<lambda>p. takeWhile is_digit (drop (length p) s));
          p = (if has_prefix s ''/pull/'' then ''/pull/'' else ''/merge_requests/'')
      in if has_prefix s p \<and> digits p \<noteq> [] then Some (digits p) else None)"

fun pr_find :: "string \<Rightarrow> string option" where
  "pr_find [] = None"
| "pr_find (c # s) = (case pr_match (c # s) of Some d \<Rightarrow> Some d | None \<Rightarrow> pr_find s)"

text \<open>\<open>strconv.Atoi\<close> on digits, and the check that the number is positive.\<close>

definition pr_atoi :: "string \<Rightarrow> int option" where
  "pr_atoi d = (let n = int (digits_value d) in if n > maxInt \<or> n \<le> 0 then None else Some n)"

definition PRNumber :: "string \<Rightarrow> int option" where
  "PRNumber rawURL = (case pr_find rawURL of None \<Rightarrow> None | Some d \<Rightarrow> pr_atoi d)"

definition trim_slashes :: "string \<Rightarrow> string" where
  "trim_slashes s = trim_right (CHR ''/'') (dropWhile (\<lambda>c. c = CHR ''/'') s)"

definition repo_pr_match :: "string \<Rightarrow> string option" where
  "repo_pr_match s = (if has_prefix s ''/-/'' then pr_match (drop 2 s) else pr_match s)"

definition prNumberInRepo :: "(string \<Rightarrow> (string \<times> string) option) \<Rightarrow> string \<Rightarrow> string \<Rightarrow> int option" where
  "prNumberInRepo parse_url rawURL repo =
     (case cut_byte (CHR ''/'') (trim_slashes repo) of (host, repoPath, ok) \<Rightarrow>
        if \<not> ok \<or> host = [] \<or> repoPath = [] then None
        else case parse_url rawURL of
               None \<Rightarrow> None
             | Some (hostname, path) \<Rightarrow>
                 if to_lower hostname \<noteq> to_lower host then None
                 else (let prefix = CHR ''/'' # repoPath
                       in if length path < length prefix \<or> to_lower (take (length prefix) path) \<noteq> to_lower prefix then None
                          else case repo_pr_match (drop (length prefix) path) of
                                 None \<Rightarrow> None
                               | Some d \<Rightarrow> pr_atoi d))"

definition prNumberOn :: "(string \<Rightarrow> (string \<times> string) option) \<Rightarrow> string \<Rightarrow> string \<Rightarrow> int option" where
  "prNumberOn parse_url forgeRepo rawURL = (case PRNumber rawURL of
     None \<Rightarrow> None
   | Some n \<Rightarrow> if forgeRepo = [] then Some n else prNumberInRepo parse_url rawURL forgeRepo)"

end
