(* ===== verification/ThreadText.thy ===== *)
theory ThreadText
  imports ThreadNote OkfGuards Seed
begin

text \<open>
  The texts of \<open>internal/thread/note.go\<close>: the body of a note, and the title and the description of the
  entry it opens. \<open>redact.Secrets\<close>, the rendering of an instant and the Unicode tables of letters and
  digits are parameters. Case is folded as ASCII (\<open>strings.EqualFold\<close> also folds a few letters outside it).
  Texts are valid UTF-8; a rune is a byte that is not a continuation byte with
  the continuation bytes after it.
\<close>

section \<open>Runes\<close>

function runes :: "string \<Rightarrow> string list" where
  "runes [] = []"
| "runes (c # s) =
     (if (of_char c :: nat) < 128 then [c] # runes s
      else (c # takeWhile is_cont s) # runes (dropWhile is_cont s))"
  by pat_completeness auto
termination
  by (relation "measure length") (auto simp: less_Suc_eq_le length_dropWhile_le)

definition rune_value :: "string \<Rightarrow> int" where
  "rune_value r = (case r of
     [] \<Rightarrow> 0
   | c # cs \<Rightarrow>
       (let lead = (of_char c :: int)
        in foldl (\<lambda>v b. 64 * v + of_char b mod 64)
             (case length cs of 0 \<Rightarrow> lead | Suc 0 \<Rightarrow> lead mod 32 | Suc (Suc 0) \<Rightarrow> lead mod 16 | _ \<Rightarrow> lead mod 8) cs))"

definition in_ranges :: "(int \<times> int) list \<Rightarrow> int \<Rightarrow> bool" where
  "in_ranges rs v = list_ex (\<lambda>(a, b). a \<le> v \<and> v \<le> b) rs"

text \<open>\<open>unicode.IsSpace\<close>, \<open>unicode.IsControl\<close>, and the categories \<open>Cf\<close> and \<open>Co\<close> of Go's tables.\<close>

definition unicode_space :: "int \<Rightarrow> bool" where
  "unicode_space = in_ranges [(9, 13), (32, 32), (0x85, 0x85), (0xA0, 0xA0), (0x1680, 0x1680), (0x2000, 0x200A),
     (0x2028, 0x2029), (0x202F, 0x202F), (0x205F, 0x205F), (0x3000, 0x3000)]"

definition unicode_control :: "int \<Rightarrow> bool" where
  "unicode_control = in_ranges [(0, 0x1F), (0x7F, 0x9F)]"

definition unicode_Cf :: "int \<Rightarrow> bool" where
  "unicode_Cf = in_ranges [(0xAD, 0xAD), (0x600, 0x605), (0x61C, 0x61C), (0x6DD, 0x6DD), (0x70F, 0x70F), (0x890, 0x891),
     (0x8E2, 0x8E2), (0x180E, 0x180E), (0x200B, 0x200F), (0x202A, 0x202E), (0x2060, 0x2064), (0x2066, 0x206F),
     (0xFEFF, 0xFEFF), (0xFFF9, 0xFFFB), (0x110BD, 0x110BD), (0x110CD, 0x110CD), (0x13430, 0x1343F), (0x1BCA0, 0x1BCA3),
     (0x1D173, 0x1D17A), (0xE0001, 0xE0001), (0xE0020, 0xE007F)]"

definition unicode_Co :: "int \<Rightarrow> bool" where
  "unicode_Co = in_ranges [(0xE000, 0xF8FF), (0xF0000, 0xFFFFD), (0x100000, 0x10FFFD)]"

definition flat_rune :: "string \<Rightarrow> string" where
  "flat_rune r = (let v = rune_value r in
     if r = '' '' then r
     else if unicode_space v \<or> unicode_control v \<or> unicode_Cf v \<or> unicode_Co v then '' '' else r)"

definition SingleLine :: "string \<Rightarrow> string" where
  "SingleLine s = concat (map flat_rune (runes s))"

lemma rune_shape: "r \<in> set (runes s) \<Longrightarrow> newline \<in> set r \<Longrightarrow> r = [newline]"
proof (induction s rule: runes.induct)
  case (2 c s)
  have "newline \<notin> set (takeWhile is_cont s)" by (auto simp: newline_def is_cont_def dest: set_takeWhileD)
  moreover have "\<not> (of_char c :: nat) < 128 \<Longrightarrow> c \<noteq> newline" by (auto simp: newline_def)
  ultimately show ?case using 2 by (auto split: if_splits)
qed simp

lemma SingleLine_flat: "newline \<notin> set (SingleLine s)"
proof
  assume "newline \<in> set (SingleLine s)"
  then obtain r where r: "r \<in> set (runes s)" "newline \<in> set (flat_rune r)" by (auto simp: SingleLine_def)
  have sp: "newline \<noteq> CHR '' ''" by (simp add: newline_def)
  then have "flat_rune r = r" using r(2) by (auto simp: flat_rune_def Let_def split: if_splits)
  then have "r = [newline]" using rune_shape r by simp
  moreover have "flat_rune [newline] = '' ''" by (simp add: flat_rune_def rune_value_def newline_def unicode_space_def in_ranges_def)
  ultimately show False using r(2) sp by simp
qed

text \<open>\<open>strings.Fields\<close>: the words between white space.\<close>

fun Fields_walk :: "string \<Rightarrow> string list \<Rightarrow> string list" where
  "Fields_walk w [] = (if w = [] then [] else [w])"
| "Fields_walk w (r # rs) =
     (if unicode_space (rune_value r) then (if w = [] then Fields_walk [] rs else w # Fields_walk [] rs)
      else Fields_walk (w @ r) rs)"

definition Fields :: "string \<Rightarrow> string list" where
  "Fields s = Fields_walk [] (runes s)"

text \<open>The text before the last white space (\<open>strings.LastIndexFunc\<close> with \<open>unicode.IsSpace\<close>), if there is one.\<close>

definition before_last_space :: "string \<Rightarrow> string option" where
  "before_last_space s = (case dropWhile (\<lambda>r. \<not> unicode_space (rune_value r)) (rev (runes s)) of
     [] \<Rightarrow> None | _ # before \<Rightarrow> Some (concat (rev before)))"

section \<open>Fields and lines of a note\<close>

record note_env =
  ne_redact :: "string \<Rightarrow> string"
  ne_stamp :: "gotime \<Rightarrow> string"
  ne_hasWord :: "string \<Rightarrow> bool"

definition maxNoteTitle :: int where "maxNoteTitle = 90"
definition noteTitlePrefix :: string where "noteTitlePrefix = ''Operator note: ''"
definition maxNoteDescriptionClaim :: int where "maxNoteDescriptionClaim = 200"
definition maxNoteDescriptionContext :: int where "maxNoteDescriptionContext = 120"
definition maxNoteAuthor :: int where "maxNoteAuthor = 40"

definition transportName :: "string \<Rightarrow> string" where
  "transportName t = (if t = [] then ''chat'' else t)"

definition noteForgeLabel :: string where "noteForgeLabel = ''runlore-operator-note''"

definition noteField :: "note_env \<Rightarrow> string \<Rightarrow> string" where
  "noteField ne s = SingleLine (ne_redact ne s)"

definition neutralizeImages :: "string \<Rightarrow> string" where
  "neutralizeImages s = escape_images s"

definition neutralizeHTML :: "string \<Rightarrow> string" where
  "neutralizeHTML s = escape_tags s"

definition defuseMarkup :: "string \<Rightarrow> string" where
  "defuseMarkup s = neutralizeImages (neutralizeHTML s)"

definition noteLine :: "note_env \<Rightarrow> string \<Rightarrow> string" where
  "noteLine ne s = defuseMarkup (str_join '' '' (Fields (noteField ne s)))"

definition atxHeadingText :: "string \<Rightarrow> string" where
  "atxHeadingText line =
     (let i = length (takeWhile (\<lambda>c. c = CHR ''#'') line)
      in if i = 0 \<or> i > 6 \<or> i \<ge> length line \<or> line ! i \<noteq> CHR '' '' then []
         else trim_space (drop i line))"

definition okfSectionNames :: "string list" where
  "okfSectionNames = [''Symptom'', ''Cause'', ''Resolution'']"

definition okf_heading :: "string \<Rightarrow> bool" where
  "okf_heading h \<longleftrightarrow> list_ex (\<lambda>name. to_lower h = to_lower name) okfSectionNames"

text \<open>\<open>strings.Replace(ln, "#", "\#", 1)\<close>.\<close>

definition escape_hash :: "string \<Rightarrow> string" where
  "escape_hash l = takeWhile (\<lambda>c. c \<noteq> CHR ''#'') l
     @ (case dropWhile (\<lambda>c. c \<noteq> CHR ''#'') l of [] \<Rightarrow> [] | _ # r \<Rightarrow> [CHR 0x5C, CHR ''#''] @ r)"

definition escape_line :: "string \<Rightarrow> string" where
  "escape_line l = (let h = atxHeadingText (trim_space l)
     in if h = [] then l else if okf_heading h then escape_hash l else l)"

definition escapeOKFSections :: "string \<Rightarrow> string" where
  "escapeOKFSections s = (if CHR ''#'' \<notin> set s then s else join_lines (map escape_line (lines_of s)))"

definition noteText :: "note_env \<Rightarrow> string \<Rightarrow> int \<Rightarrow> string" where
  "noteText ne s maxBytes = neutralizeImages (neutralizeHTML (escapeOKFSections (capNoteText (ne_redact ne s) maxBytes)))"

text \<open>\<open>mandatoryBreaks\<close> of \<open>responder.go\<close>, tried in the order of its patterns at each position.\<close>

fun mandatory_breaks :: "string \<Rightarrow> string" where
  "mandatory_breaks [] = []"
| "mandatory_breaks (c # s) =
     (if c = CHR 0x0D \<and> has_prefix s [newline] then newline # mandatory_breaks (drop 1 s)
      else if c \<in> {CHR 0x0D, CHR 0x0B, CHR 0x0C} then newline # mandatory_breaks s
      else if c = CHR 0xC2 \<and> has_prefix s [CHR 0x85] then newline # mandatory_breaks (drop 1 s)
      else if c = CHR 0xE2 \<and> (has_prefix s [CHR 0x80, CHR 0xA8] \<or> has_prefix s [CHR 0x80, CHR 0xA9])
      then newline # mandatory_breaks (drop 2 s)
      else c # mandatory_breaks s)"

definition blockquote :: "string \<Rightarrow> string" where
  "blockquote s = join_lines (map ((@) ''> '') (lines_of (mandatory_breaks s)))"

section \<open>The body\<close>

definition robot :: string where "robot = [CHR 0xF0, CHR 0x9F, CHR 0xA4, CHR 0x96]"
definition memo :: string where "memo = [CHR 0xF0, CHR 0x9F, CHR 0x93, CHR 0x9D]"

definition note_header :: "note_env \<Rightarrow> thread_context \<Rightarrow> thread_note \<Rightarrow> gotime \<Rightarrow> string" where
  "note_header ne tc n t =
     (let who = noteField ne (nt_author n)
      in if modelDrafted n
         then ''### '' @ robot @ '' Proposed operator note '' @ em_dash @ '' drafted by RunLore'' @ [newline, newline]
           @ ''RunLore'' @ [CHR 0x27] @ ''s chat model wrote this from **@'' @ who @ ''**'' @ [CHR 0x27] @ ''s message via '' @ transportName (tx_transport tc)
           @ '' on '' @ ne_stamp ne t @ ''. @'' @ who @ '' did not write it.'' @ [newline]
         else ''### '' @ memo @ '' Operator note'' @ [newline, newline]
           @ ''From **@'' @ who @ ''** via '' @ transportName (tx_transport tc) @ '' on '' @ ne_stamp ne t @ ''.'' @ [newline])"

definition NoteBody :: "note_env \<Rightarrow> thread_context \<Rightarrow> thread_note \<Rightarrow> gotime \<Rightarrow> int \<Rightarrow> string" where
  "NoteBody ne tc n t maxBytes =
     (let who = noteField ne (nt_author n); title = noteField ne (tx_title tc)
      in note_header ne tc n t
         @ (if title \<noteq> [] then ''Thread: '' @ title @ [newline] else [])
         @ [newline]
         @ (if modelDrafted n then ''**Proposed note:**'' @ [newline, newline] else [])
         @ noteText ne (nt_text n) maxBytes @ [newline]
         @ (if modelDrafted n
            then [newline] @ ''**What @'' @ who @ '' actually wrote:**'' @ [newline, newline]
              @ blockquote (noteText ne (nt_draftedFrom n) maxBytes) @ [newline]
            else []))"

section \<open>The title and the description\<close>

definition dangling :: "string list" where
  "dangling = ['' '', '','', '';'', '':'', em_dash, ''-'']"

definition trim_dangling :: "string \<Rightarrow> string" where
  "trim_dangling s = concat (rev (dropWhile (\<lambda>r. r \<in> set dangling) (rev (runes s))))"

definition truncateWords :: "string \<Rightarrow> int \<Rightarrow> string" where
  "truncateWords s n =
     (if n \<le> 0 then [] else if int (length s) \<le> n then s
      else (let kept = cutToRuneBoundary s (n - 1);
                i = length kept - Suc (length (takeWhile (\<lambda>c. c \<noteq> CHR '' '') (rev kept)));
                kept' = (if CHR '' '' \<in> set kept \<and> i > 0 \<and> 2 * i \<ge> length kept then take i kept else kept)
            in trim_dangling kept' @ ellipsis))"

definition leadingMarkupMarkers :: string where "leadingMarkupMarkers = ''>-*+''"

fun strip_markup :: "nat \<Rightarrow> string \<Rightarrow> string" where
  "strip_markup 0 s = s"
| "strip_markup (Suc k) s =
     (let h = atxHeadingText s
      in if h \<noteq> [] then strip_markup k h
         else if length s \<ge> 2 \<and> s ! 0 \<in> set leadingMarkupMarkers \<and> s ! 1 = CHR '' '' then strip_markup k (trim_space (drop 2 s))
         else s)"

definition stripLeadingMarkup :: "string \<Rightarrow> string" where
  "stripLeadingMarkup s = strip_markup 4 (trim_space s)"

definition noteClaimSource :: "string \<Rightarrow> int \<Rightarrow> string" where
  "noteClaimSource text maxBytes =
     (let m = (if maxBytes \<le> 0 then DefaultMaxNoteBytes else maxBytes)
      in if int (length text) \<le> m then text
         else case before_last_space (cutToRuneBoundary text m) of None \<Rightarrow> [] | Some s \<Rightarrow> s)"

definition noteClaim :: "note_env \<Rightarrow> string \<Rightarrow> int \<Rightarrow> string" where
  "noteClaim ne text maxBytes =
     (let s = stripLeadingMarkup (noteLine ne (noteClaimSource text maxBytes))
      in if \<not> ne_hasWord ne s then [] else truncateWords s maxNoteDescriptionClaim)"

definition noteEntryTitle :: "note_env \<Rightarrow> thread_context \<Rightarrow> string \<Rightarrow> string" where
  "noteEntryTitle ne tc said =
     (if said \<noteq> [] then noteTitlePrefix @ truncateWords said (maxNoteTitle - int (length noteTitlePrefix))
      else (let s = noteLine ne (tx_title tc)
            in if s \<noteq> [] then truncateWords (''Operator note on '' @ s) maxNoteTitle else ''Operator note''))"

definition conceptDescription :: "note_env \<Rightarrow> thread_context \<Rightarrow> thread_note \<Rightarrow> string \<Rightarrow> string" where
  "conceptDescription ne tc n said =
     (let who = truncateWords (noteLine ne (nt_author n)) maxNoteAuthor;
          s = truncateWords (noteLine ne (tx_title tc)) maxNoteDescriptionContext
      in (if modelDrafted n
          then ''Note drafted by RunLore from @'' @ who @ [CHR 0x27] @ ''s '' @ transportName (tx_transport tc) @ '' thread message, pending review''
          else ''Operator knowledge from @'' @ who @ '' via '' @ transportName (tx_transport tc))
         @ (if s \<noteq> [] then '', on the finding '' @ go_quote s else [])
         @ (if said \<noteq> [] then '': '' @ said else ''.''))"

definition context_line :: "note_env \<Rightarrow> string \<Rightarrow> string \<Rightarrow> string" where
  "context_line ne label v = (if v = [] then [] else ''- '' @ label @ '': `'' @ noteField ne v @ ''`'' @ [newline])"

definition ConceptEntry :: "note_env \<Rightarrow> thread_context \<Rightarrow> thread_note \<Rightarrow> gotime \<Rightarrow> int \<Rightarrow> kb_entry" where
  "ConceptEntry ne tc n t maxBytes =
     (let said = noteClaim ne (nt_text n) maxBytes
      in zero_kb_entry\<lparr>ke_type := ''Concept'', ke_title := noteEntryTitle ne tc said,
           ke_description := conceptDescription ne tc n said, ke_resource := EntryResourceRef (tx_resource tc),
           ke_tags := [''operator-note'', transportName (tx_transport tc)], ke_extraLabels := [noteForgeLabel],
           ke_body := NoteBody ne tc n t maxBytes
             @ (if tx_recalledEntry tc \<noteq> [] \<or> tx_triggerKey tc \<noteq> [] \<or> tx_resource tc \<noteq> []
                then [newline] @ ''### Context'' @ [newline, newline]
                  @ context_line ne ''Corrects or extends'' (tx_recalledEntry tc)
                  @ context_line ne ''Resource'' (tx_resource tc)
                  @ context_line ne ''Trigger key'' (tx_triggerKey tc)
                  @ context_line ne ''Verdict at delivery'' (tx_verdict tc)
                else [])\<rparr>)"

end
