(* ===== verification/ThreadChat.thy ===== *)
theory ThreadChat
  imports ThreadPrompt
begin

text \<open>
  \<open>Chat.Answer\<close> of \<open>internal/thread/chat.go\<close>: one message, at most one completion. The system
  prompt, the tool's texts and the decoding of the tool's arguments are parameters; the completion is whatever the model answers, with the attempts the response and
  the error report.
\<close>

record chat_reply =
  cr_reply :: string
  cr_kbNote :: string

record model_answer =
  ma_response :: completion
  ma_attempts :: int
  ma_errAttempts :: int

record chat_env =
  ch_model :: "(string list \<Rightarrow> string \<Rightarrow> model_answer) option"
  ch_maxOutputTokens :: int
  ch_system :: string
  ch_tool :: tool_spec
  ch_prompt :: prompt_env
  ch_decode :: "string \<Rightarrow> (string \<times> string) option"

text \<open>The clock readings of one message and whether its context is already done.\<close>

record chat_moment =
  cm_cancelled :: bool
  cm_allow :: call_times
  cm_record :: gotime
  cm_record' :: gotime

record chat_state =
  cs_budget :: "budget option"
  cs_prompts :: "string list"
  cs_denied :: "deny_reason list"

definition submitThreadReplyTool :: string where "submitThreadReplyTool = ''submit_thread_reply''"

definition DefaultChatMaxOutputTokens :: int where "DefaultChatMaxOutputTokens = 1024"

definition maxOutputTokens :: "chat_env \<Rightarrow> int" where
  "maxOutputTokens ch = (if ch_maxOutputTokens ch > 0 then ch_maxOutputTokens ch else DefaultChatMaxOutputTokens)"

definition chat_estimate :: "chat_env \<Rightarrow> string \<Rightarrow> int" where
  "chat_estimate ch prompt = int (EstimateTokens (ch_system ch) [user_message prompt] [ch_tool ch])"

definition callEstimate :: "chat_env \<Rightarrow> string \<Rightarrow> int" where
  "callEstimate ch prompt = chat_estimate ch prompt + maxOutputTokens ch"

definition maxChatCallTokens :: "chat_env \<Rightarrow> int" where
  "maxChatCallTokens ch =
     (MaxChatContextBytes + int (length (ch_system ch)) + int (spec_bytes (ch_tool ch))) div 4 + DefaultChatMaxOutputTokens"

definition completionAttempts :: "model_answer \<Rightarrow> int" where
  "completionAttempts a = (let n = max (ma_attempts a) (ma_errAttempts a) in if n < 1 then 1 else n)"

definition chargedUsage :: "chat_env \<Rightarrow> string \<Rightarrow> model_answer \<Rightarrow> usage" where
  "chargedUsage ch prompt a =
     (let inputEstimate = chat_estimate ch prompt;
          u = cp_usage (ma_response a);
          u1 = (if us_inputTokens u = 0
                then u\<lparr>us_inputTokens := inputEstimate,
                       us_outputTokens := (if us_outputTokens u = 0 then maxOutputTokens ch else us_outputTokens u)\<rparr>
                else if cp_err (ma_response a) \<and> us_outputTokens u = 0 then u\<lparr>us_outputTokens := maxOutputTokens ch\<rparr>
                else u);
          retries = completionAttempts a - 1
      in if retries > 0 then u1\<lparr>us_inputTokens := us_inputTokens u1 + retries * inputEstimate\<rparr> else u1)"

fun decode_calls :: "(string \<Rightarrow> (string \<times> string) option) \<Rightarrow> tool_call list \<Rightarrow> chat_reply option" where
  "decode_calls decode [] = None"
| "decode_calls decode (c # cs) =
     (if tc_name c \<noteq> submitThreadReplyTool then decode_calls decode cs
      else case decode (tc_args c) of
             None \<Rightarrow> None
           | Some (reply, kbNote) \<Rightarrow>
               if trim_space reply = [] then None
               else Some \<lparr>cr_reply = trim_space reply, cr_kbNote = trim_space kbNote\<rparr>)"

definition decodeReply :: "chat_env \<Rightarrow> completion \<Rightarrow> chat_reply option" where
  "decodeReply ch resp =
     (if Refused resp then None else if cp_truncated resp then None
      else decode_calls (ch_decode ch) (cp_toolCalls resp))"

definition Answer :: "chat_env \<Rightarrow> chat_moment \<Rightarrow> thread_context \<Rightarrow> string \<Rightarrow> string \<Rightarrow> chat_state
     \<Rightarrow> chat_reply option \<times> chat_state" where
  "Answer ch cm tc author text s = (case ch_model ch of
     None \<Rightarrow> (None, s)
   | Some model \<Rightarrow>
       if cm_cancelled cm then (None, s)
       else (let prompt = renderContext (ch_prompt ch) tc author text
             in case Allow_call (callEstimate ch prompt) (cm_allow cm) (cs_budget s) of
                  ((False, reason), b) \<Rightarrow> (None, s\<lparr>cs_budget := b, cs_denied := cs_denied s @ [reason]\<rparr>)
                | ((True, _), b) \<Rightarrow>
                    (let a = model (cs_prompts s) prompt;
                         b' = Record_call (chargedUsage ch prompt a) (cm_record cm) (cm_record' cm) b;
                         s' = s\<lparr>cs_budget := b', cs_prompts := cs_prompts s @ [prompt]\<rparr>
                     in if cp_err (ma_response a) then (None, s') else (decodeReply ch (ma_response a), s'))))"

section \<open>What a message costs\<close>

lemma chargedUsage_floor:
  assumes "0 \<le> us_inputTokens (cp_usage (ma_response a))" and "0 \<le> us_outputTokens (cp_usage (ma_response a))"
  shows "usage_total (cp_usage (ma_response a)) \<le> usage_total (chargedUsage ch prompt a)"
    and "us_inputTokens (cp_usage (ma_response a)) = 0 \<Longrightarrow>
      completionAttempts a * chat_estimate ch prompt \<le> us_inputTokens (chargedUsage ch prompt a)"
proof -
  have n: "1 \<le> completionAttempts a" by (auto simp: completionAttempts_def Let_def)
  have e: "0 \<le> chat_estimate ch prompt" by (simp add: chat_estimate_def)
  have m: "0 \<le> maxOutputTokens ch" by (simp add: maxOutputTokens_def DefaultChatMaxOutputTokens_def)
  have r: "0 \<le> (completionAttempts a - 1) * chat_estimate ch prompt" using n e by simp
  show "usage_total (cp_usage (ma_response a)) \<le> usage_total (chargedUsage ch prompt a)"
    using assms e m r by (auto simp: chargedUsage_def usage_total_def Let_def)
  show "us_inputTokens (cp_usage (ma_response a)) = 0 \<Longrightarrow>
      completionAttempts a * chat_estimate ch prompt \<le> us_inputTokens (chargedUsage ch prompt a)"
    using n by (auto simp: chargedUsage_def Let_def algebra_simps)
qed

text \<open>The code derives the hourly ceiling of tokens from the most that one call can cost.\<close>

lemma callEstimate_bounded:
  assumes "\<And>ps. length (pe_hash (ch_prompt ch) ps) = 16" and "pe_maxNoteBytes (ch_prompt ch) \<le> 0" and "ch_maxOutputTokens ch \<le> 0"
  shows "callEstimate ch (renderContext (ch_prompt ch) tc author text) \<le> maxChatCallTokens ch"
proof -
  let ?p = "renderContext (ch_prompt ch) tc author text"
  have "int (length ?p) \<le> MaxChatContextBytes"
    using renderContext_bound [OF assms(1), of tc author "text"] assms(2) by (simp add: MaxChatContextBytes_def)
  then have "(int (length (ch_system ch)) + int (spec_bytes (ch_tool ch)) + int (length ?p)) div 4
      \<le> (MaxChatContextBytes + int (length (ch_system ch)) + int (spec_bytes (ch_tool ch))) div 4"
    by (intro zdiv_mono1) simp_all
  then show ?thesis
    using assms(3) by (simp add: callEstimate_def chat_estimate_def EstimateTokens_def message_bytes_def user_message_def
        maxChatCallTokens_def maxOutputTokens_def zdiv_int add_ac)
qed

text \<open>What it means that an answered message has paid for its completion.\<close>

definition paid_answer :: "chat_env \<Rightarrow> chat_moment \<Rightarrow> string \<Rightarrow> chat_state \<Rightarrow> chat_reply option \<Rightarrow> chat_state \<Rightarrow> bool" where
  "paid_answer ch cm prompt s r s' \<longleftrightarrow> (\<exists>model b u. ch_model ch = Some model \<and> \<not> cm_cancelled cm
     \<and> Allow_call (callEstimate ch prompt) (cm_allow cm) (cs_budget s) = ((True, DenyNone), b)
     \<and> cs_prompts s' = cs_prompts s @ [prompt]
     \<and> cs_budget s' = Record_call u (cm_record cm) (cm_record' cm) b
     \<and> usage_total (cp_usage (ma_response (model (cs_prompts s) prompt))) \<le> usage_total u
     \<and> (us_inputTokens (cp_usage (ma_response (model (cs_prompts s) prompt))) = 0 \<longrightarrow>
          completionAttempts (model (cs_prompts s) prompt) * chat_estimate ch prompt \<le> us_inputTokens u)
     \<and> (r \<noteq> None \<longrightarrow> \<not> cp_err (ma_response (model (cs_prompts s) prompt))
          \<and> \<not> Refused (ma_response (model (cs_prompts s) prompt)) \<and> \<not> cp_truncated (ma_response (model (cs_prompts s) prompt))))"

lemma granted_reason: "Allow_call e tm b = ((True, reason), b') \<Longrightarrow> reason = DenyNone"
  by (auto simp: Allow_call_def budget_attempt_def Let_def split: option.splits prod.splits if_splits)

text \<open>
  C23: No completion goes unpaid. A message sends at most one completion, and only when the budget
  admits it; the completion is charged at least what the provider reports, and, when the provider
  reports no input, at least the estimate of the request for every attempt, whether the call
  failed or not. A reply comes only from a completion that did not fail, was not refused and was
  not cut off.
\<close>

theorem completions_are_paid:
  assumes "\<And>model h. ch_model ch = Some model \<Longrightarrow> 0 \<le> us_inputTokens (cp_usage (ma_response (model h (renderContext (ch_prompt ch) tc author text))))
      \<and> 0 \<le> us_outputTokens (cp_usage (ma_response (model h (renderContext (ch_prompt ch) tc author text))))"
    and "Answer ch cm tc author text s = (r, s')"
  shows "r = None \<and> cs_prompts s' = cs_prompts s \<or> paid_answer ch cm (renderContext (ch_prompt ch) tc author text) s r s'"
proof (cases "ch_model ch = None \<or> cm_cancelled cm")
  case True
  then show ?thesis using assms(2) by (auto simp: Answer_def split: option.splits)
next
  case False
  then obtain model where m: "ch_model ch = Some model" "\<not> cm_cancelled cm" by auto
  let ?p = "renderContext (ch_prompt ch) tc author text"
  let ?a = "model (cs_prompts s) ?p"
  obtain ok reason b where al: "Allow_call (callEstimate ch ?p) (cm_allow cm) (cs_budget s) = ((ok, reason), b)"
    by (metis prod.exhaust)
  show ?thesis
  proof (cases ok)
    case False
    then show ?thesis using assms(2) m al by (auto simp: Answer_def Let_def)
  next
    case True
    note fl = chargedUsage_floor [of ?a ch ?p] assms(1) [OF m(1), of "cs_prompts s"]
    have s': "s' = s\<lparr>cs_budget := Record_call (chargedUsage ch ?p ?a) (cm_record cm) (cm_record' cm) b,
          cs_prompts := cs_prompts s @ [?p]\<rparr>"
      and r: "r = (if cp_err (ma_response ?a) then None else decodeReply ch (ma_response ?a))"
      using assms(2) m al True by (auto simp: Answer_def Let_def split: if_splits)
    have "paid_answer ch cm ?p s r s'"
      unfolding paid_answer_def using m al True granted_reason [of _ _ _ reason] fl s' r
      by (intro exI [of _ model] exI [of _ b] exI [of _ "chargedUsage ch ?p ?a"])
        (auto simp: decodeReply_def split: if_splits)
    then show ?thesis ..
  qed
qed

definition failing_model :: chat_env where
  "failing_model =
     \<lparr>ch_model = Some (\<lambda>_ _. \<lparr>ma_response = \<lparr>cp_text = [], cp_toolCalls = [], cp_usage = \<lparr>us_inputTokens = 0, us_outputTokens = 0,
        us_cachedInputTokens = 0, us_cacheWriteTokens = 0\<rparr>, cp_truncated = False, cp_stopReason = [], cp_err = True\<rparr>,
        ma_attempts = 0, ma_errAttempts = 3\<rparr>),
      ch_maxOutputTokens = 0, ch_system = ''s'', ch_tool = \<lparr>ts_name = submitThreadReplyTool, ts_description = ''d'', ts_schema = ''{}''\<rparr>,
      ch_prompt = prompt_demo, ch_decode = \<lambda>_. None\<rparr>"

definition chat_once :: "chat_reply option \<times> chat_state" where
  "chat_once = Answer failing_model
     \<lparr>cm_cancelled = False, cm_allow = \<lparr>tm_slide = 1, tm_call = 1, tm_reserve = 1\<rparr>, cm_record = 2, cm_record' = 2\<rparr>
     zero_context ''U'' ''why'' \<lparr>cs_budget = Some (NewBudget 2 5000 100), cs_prompts = [], cs_denied = []\<rparr>"

lemma completions_are_paid_witness:
  "\<exists>cm s. paid_answer failing_model cm (renderContext prompt_demo zero_context ''U'' ''why'') s (fst chat_once) (snd chat_once)"
proof -
  let ?cm = "\<lparr>cm_cancelled = False, cm_allow = \<lparr>tm_slide = 1, tm_call = 1, tm_reserve = 1\<rparr>, cm_record = 2, cm_record' = 2\<rparr>"
  let ?s = "\<lparr>cs_budget = Some (NewBudget 2 5000 100), cs_prompts = [], cs_denied = []\<rparr>"
  have "cs_prompts (snd chat_once) \<noteq> []" by code_simp
  moreover have "fst chat_once = None \<and> cs_prompts (snd chat_once) = cs_prompts ?s
      \<or> paid_answer failing_model ?cm (renderContext (ch_prompt failing_model) zero_context ''U'' ''why'') ?s (fst chat_once) (snd chat_once)"
    by (rule completions_are_paid) (auto simp: failing_model_def chat_once_def)
  ultimately have "paid_answer failing_model ?cm (renderContext prompt_demo zero_context ''U'' ''why'') ?s (fst chat_once) (snd chat_once)"
    by (simp add: failing_model_def)
  then show ?thesis by blast
qed

end
