(* ===== verification/ThreadResponder.thy ===== *)
theory ThreadResponder
  imports ThreadChat ThreadGrammar ThreadText
begin

text \<open>
  \<open>internal/thread/responder.go\<close> and \<open>mention.go\<close>: what a message in a thread does. The forge and
  the silence recorder are parameters, and so are the parameters of the texts of a note (theory
  \<open>ThreadText\<close>); every forge answer may depend on all calls made before. Replies are values of a datatype, one constructor per message
  of the code, not rendered text. A note is recorded under the guard of its thread root (theory
  \<open>RootLock\<close>), so two notes of one root do not interleave; what other goroutines do to the registry
  and to the shared write budget meanwhile is an arbitrary function at each point where this one
  holds no mutex. Logs are not modelled, and of the metrics only the count of notes written.
\<close>

section \<open>Forge, notes and replies\<close>

datatype forge_call = IsPROpen int | AppendToEntryOnPR int string string | CommentOnPR int string | OpenPR kb_entry

datatype forge_error = ErrPRNotOpen | ForgeFails string

record kb_write =
  kw_route :: string
  kw_pr :: int
  kw_url :: string
  kw_title :: string
  kw_note :: string

definition RouteComment :: string where "RouteComment = ''comment''"
definition RouteOpenPR :: string where "RouteOpenPR = ''open_pr''"
definition RouteAppend :: string where "RouteAppend = ''append''"

record kb_update =
  ku_transport :: string
  ku_root :: string
  ku_channel :: string
  ku_route :: string
  ku_pr :: int
  ku_url :: string
  ku_title :: string
  ku_author :: string
  ku_modelDrafted :: bool
  ku_note :: string
  ku_at :: gotime

datatype reply =
    ReinvestigateNotSupportedReply | SilenceNotAnchoredReply | SilencingDisabled | UnknownIncident
  | UnreadableDuration string duration | SilenceRefused string | SilenceAck string duration gotime bool
  | FreeformNotRecordedReply | EmptyNoteReply | NoteLimitReply int | ThrottledReply
  | CheckFailedReply int | ForgeErrorReply string | RecordedOn string int string
  | OpenedReply "int option" bool string | ModelVoice string | ReplyLines reply reply
  | WithRecordedBlock reply thread_note kb_write | CountNotUpdated reply | NoContextReply

record responder =
  rn_maxNotesPerThread :: int
  rn_maxNoteBytes :: int
  rn_forgeRepo :: string
  rn_silenceMax :: duration
  rn_feedbackEnabled :: bool
  rn_announces :: bool
  rn_replies :: bool
  rn_chat :: "chat_env option"
  rn_silence :: "(string \<Rightarrow> duration \<Rightarrow> string \<Rightarrow> gotime \<Rightarrow> string option) option"
  rn_isPROpen :: "forge_call list \<Rightarrow> int \<Rightarrow> string + bool"
  rn_append :: "forge_call list \<Rightarrow> int \<Rightarrow> forge_error option"
  rn_comment :: "forge_call list \<Rightarrow> int \<Rightarrow> forge_error option"
  rn_openPR :: "forge_call list \<Rightarrow> kb_entry \<Rightarrow> string + string"
  rn_parseURL :: "string \<Rightarrow> (string \<times> string) option"
  rn_texts :: note_env
  rn_noteKey :: "string \<Rightarrow> string \<Rightarrow> string \<Rightarrow> string"

record responder_state =
  rs_registry :: registry
  rs_forgeWrites :: "window option"
  rs_forge :: "forge_call list"
  rs_written :: "string list"
  rs_announced :: "kb_update list"
  rs_silenced :: "(string \<times> duration \<times> string \<times> gotime) list"
  rs_chat :: chat_state
  rs_replied :: "(string \<times> string \<times> reply) list"

text \<open>The moment of one message: clock readings, outcomes of its file writes, and the other goroutines.\<close>

type_synonym others = "registry \<times> window option \<Rightarrow> registry \<times> window option"

record moment =
  mo_get :: gotime
  mo_create :: gotime
  mo_create' :: gotime
  mo_createIO :: append_outcome
  mo_recordGet :: gotime
  mo_at :: gotime
  mo_allow :: gotime
  mo_allow' :: gotime
  mo_urlIO :: append_outcome
  mo_countIO :: append_outcome
  mo_chat :: chat_moment
  mo_beforeWrite :: others
  mo_duringForge :: others
  mo_beforeCount :: others

definition meanwhile :: "others \<Rightarrow> responder_state \<Rightarrow> responder_state" where
  "meanwhile f s = (case f (rs_registry s, rs_forgeWrites s) of (r, w) \<Rightarrow> s\<lparr>rs_registry := r, rs_forgeWrites := w\<rparr>)"

section \<open>Writing a note\<close>

definition DefaultMaxNotesPerThread :: int where "DefaultMaxNotesPerThread = 20"

definition maxNotes :: "responder \<Rightarrow> int" where
  "maxNotes rn = (if rn_maxNotesPerThread rn \<le> 0 then DefaultMaxNotesPerThread else rn_maxNotesPerThread rn)"

definition maxNoteBytes :: "responder \<Rightarrow> int" where
  "maxNoteBytes rn = (if rn_maxNoteBytes rn \<le> 0 then DefaultMaxNoteBytes else rn_maxNoteBytes rn)"

definition noteAsWritten :: "responder \<Rightarrow> thread_note \<Rightarrow> thread_note" where
  "noteAsWritten rn n = n\<lparr>nt_text := capNoteText (ne_redact (rn_texts rn) (nt_text n)) (maxNoteBytes rn)\<rparr>"

definition noteKey :: "responder \<Rightarrow> thread_context \<Rightarrow> thread_note \<Rightarrow> string" where
  "noteKey rn tc n = rn_noteKey rn (tx_root tc) (nt_author n) (nt_text n)"

text \<open>The pull requests a note may be added to: the curated one, then the thread's own.\<close>

definition noteTargets :: "thread_context \<Rightarrow> (string \<times> bool) list" where
  "noteTargets tc = [(tx_curatedURL tc, False), (tx_noteURL tc, True)]"

definition addToPR :: "responder \<Rightarrow> thread_context \<Rightarrow> thread_note \<Rightarrow> gotime \<Rightarrow> int \<Rightarrow> bool \<Rightarrow> forge_call list
     \<Rightarrow> (forge_error + string) \<times> forge_call list" where
  "addToPR rn tc n t num ours calls =
     (let body = NoteBody (rn_texts rn) tc n t (maxNoteBytes rn);
          comment = (\<lambda>cs. case rn_comment rn cs num of
             None \<Rightarrow> (Inr RouteComment, cs @ [CommentOnPR num body])
           | Some e \<Rightarrow> (Inl e, cs @ [CommentOnPR num body]))
      in if ours
         then (let appended_calls = calls @ [AppendToEntryOnPR num body (noteKey rn tc n)]
               in case rn_append rn calls num of
                    None \<Rightarrow> (Inr RouteAppend, appended_calls)
                  | Some ErrPRNotOpen \<Rightarrow> (Inl ErrPRNotOpen, appended_calls)
                  | Some (ForgeFails _) \<Rightarrow> comment appended_calls)
         else comment calls)"

datatype target_result = NoTarget | CheckFails int | WriteFails string | Landed string int string

fun try_targets :: "responder \<Rightarrow> thread_context \<Rightarrow> thread_note \<Rightarrow> gotime \<Rightarrow> (string \<times> bool) list \<Rightarrow> forge_call list
     \<Rightarrow> target_result \<times> forge_call list" where
  "try_targets rn tc n t [] calls = (NoTarget, calls)"
| "try_targets rn tc n t ((url, ours) # rest) calls =
     (case prNumberOn (rn_parseURL rn) (rn_forgeRepo rn) url of
        None \<Rightarrow> try_targets rn tc n t rest calls
      | Some num \<Rightarrow>
          (case rn_isPROpen rn calls num of
             Inl _ \<Rightarrow> (CheckFails num, calls @ [IsPROpen num])
           | Inr False \<Rightarrow> try_targets rn tc n t rest (calls @ [IsPROpen num])
           | Inr True \<Rightarrow>
               (case addToPR rn tc n t num ours (calls @ [IsPROpen num]) of
                  (Inl ErrPRNotOpen, calls') \<Rightarrow> try_targets rn tc n t rest calls'
                | (Inl (ForgeFails e), calls') \<Rightarrow> (WriteFails e, calls')
                | (Inr route, calls') \<Rightarrow> (Landed route num url, calls'))))"

definition allow_write :: "moment \<Rightarrow> window option \<Rightarrow> bool \<times> window option" where
  "allow_write mo w = (case w of None \<Rightarrow> (True, None)
     | Some w \<Rightarrow> (case RateLimit.Allow (mo_allow mo) (mo_allow' mo) w of (ok, w') \<Rightarrow> (ok, Some w')))"

definition refund_write :: "responder_state \<Rightarrow> responder_state" where
  "refund_write s = s\<lparr>rs_forgeWrites := map_option RateLimit.Refund (rs_forgeWrites s)\<rparr>"

text \<open>
  \<open>write\<close>: the reply, the write that landed if one did, and whether an error is returned. The token
  taken first is handed back unless the write lands.
\<close>

definition write_note :: "responder \<Rightarrow> moment \<Rightarrow> thread_context \<Rightarrow> thread_note \<Rightarrow> responder_state
     \<Rightarrow> (reply \<times> kb_write option \<times> bool) \<times> responder_state" where
  "write_note rn mo tc n0 s =
     (case allow_write mo (rs_forgeWrites s) of (ok, w) \<Rightarrow>
        (let s1 = s\<lparr>rs_forgeWrites := w\<rparr>; t = mo_at mo; n = noteAsWritten rn n0
         in if \<not> ok then ((ThrottledReply, None, False), s1)
            else (case try_targets rn tc n t (noteTargets tc) (rs_forge s1) of (tr, calls) \<Rightarrow>
              (let s2 = s1\<lparr>rs_forge := calls\<rparr>
               in case tr of
                    CheckFails num \<Rightarrow> ((CheckFailedReply num, None, True), refund_write (meanwhile (mo_duringForge mo) s2))
                  | WriteFails e \<Rightarrow> ((ForgeErrorReply e, None, True), refund_write (meanwhile (mo_duringForge mo) s2))
                  | Landed route num url \<Rightarrow>
                      ((RecordedOn route num url, Some \<lparr>kw_route = route, kw_pr = num, kw_url = url, kw_title = [], kw_note = nt_text n\<rparr>, False),
                       (meanwhile (mo_duringForge mo) s2)\<lparr>rs_written := rs_written s2 @ [route]\<rparr>)
                  | NoTarget \<Rightarrow>
                      (let e0 = ConceptEntry (rn_texts rn) tc n t (maxNoteBytes rn);
                           entry = e0\<lparr>ke_body := WithNoteMarker (ke_body e0) (noteKey rn tc n)\<rparr>;
                           s3 = meanwhile (mo_duringForge mo) (s2\<lparr>rs_forge := calls @ [OpenPR entry]\<rparr>)
                       in case rn_openPR rn calls entry of
                            Inl e \<Rightarrow> ((ForgeErrorReply e, None, True), refund_write s3)
                          | Inr url \<Rightarrow>
                              (let r = snd (Update (mo_urlIO mo) (tx_root tc) (\<lambda>c. c\<lparr>tx_noteURL := url\<rparr>) (rs_registry s3));
                                   s4 = s3\<lparr>rs_registry := r, rs_written := rs_written s3 @ [RouteOpenPR]\<rparr>;
                                   num = PRNumber url
                               in ((OpenedReply num (modelDrafted n) url,
                                    Some \<lparr>kw_route = RouteOpenPR, kw_pr = (case num of None \<Rightarrow> 0 | Some k \<Rightarrow> k), kw_url = url,
                                      kw_title = ke_title entry, kw_note = nt_text n\<rparr>, False), s4)))))))"

definition kbUpdateFor :: "responder \<Rightarrow> thread_context \<Rightarrow> thread_note \<Rightarrow> kb_write \<Rightarrow> gotime \<Rightarrow> kb_update" where
  "kbUpdateFor rn tc n w t =
     \<lparr>ku_transport = tx_transport tc, ku_root = tx_root tc, ku_channel = tx_channel tc, ku_route = kw_route w,
      ku_pr = kw_pr w, ku_url = kw_url w, ku_title = kw_title w, ku_author = noteField (rn_texts rn) (nt_author n),
      ku_modelDrafted = modelDrafted n, ku_note = kw_note w, ku_at = t\<rparr>"

definition announce :: "responder \<Rightarrow> thread_context \<Rightarrow> thread_note \<Rightarrow> kb_write \<Rightarrow> gotime \<Rightarrow> responder_state \<Rightarrow> responder_state" where
  "announce rn tc n w t s =
     (if rn_announces rn then s\<lparr>rs_announced := rs_announced s @ [kbUpdateFor rn tc n w t]\<rparr> else s)"

definition has_block :: "kb_write \<Rightarrow> bool" where
  "has_block w \<longleftrightarrow> kw_title w \<noteq> [] \<or> kw_note w \<noteq> []"

definition record_note :: "responder \<Rightarrow> moment \<Rightarrow> thread_context \<Rightarrow> thread_note \<Rightarrow> responder_state
     \<Rightarrow> (reply \<times> bool) \<times> responder_state" where
  "record_note rn mo tc0 n s0 =
     (case Get (mo_recordGet mo) (tx_root tc0) (rs_registry s0) of (fresh, r) \<Rightarrow>
        (let s = s0\<lparr>rs_registry := r\<rparr>; tc = (case fresh of Some f \<Rightarrow> f | None \<Rightarrow> tc0)
         in if tx_notes tc \<ge> maxNotes rn then ((NoteLimitReply (maxNotes rn), False), s)
            else (case write_note rn mo tc n (meanwhile (mo_beforeWrite mo) s) of ((reply, w, err), s1) \<Rightarrow>
              if err then ((reply, True), s1)
              else (case w of
                      None \<Rightarrow> ((reply, False), s1)
                    | Some kw \<Rightarrow>
                        (let s2 = announce rn tc n kw (mo_at mo) s1;
                             reply' = (if has_block kw then WithRecordedBlock reply n kw else reply);
                             s3 = meanwhile (mo_beforeCount mo) s2
                         in case Update (mo_countIO mo) (tx_root tc) (\<lambda>c. c\<lparr>tx_notes := tx_notes c + 1\<rparr>) (rs_registry s3) of
                              (None, r') \<Rightarrow> ((reply', False), s3\<lparr>rs_registry := r'\<rparr>)
                            | (Some _, r') \<Rightarrow> ((CountNotUpdated reply', True), s3\<lparr>rs_registry := r'\<rparr>))))))"

section \<open>A message\<close>

definition silence_thread :: "responder \<Rightarrow> moment \<Rightarrow> thread_context \<Rightarrow> string \<Rightarrow> string \<Rightarrow> responder_state
     \<Rightarrow> (reply \<times> bool) \<times> responder_state" where
  "silence_thread rn mo tc author text s = (case rn_silence rn of
     None \<Rightarrow> ((SilencingDisabled, False), s)
   | Some silence \<Rightarrow>
       if tx_triggerKey tc = [] then ((UnknownIncident, False), s)
       else case parse_duration (trim_space text) of
              None \<Rightarrow> ((UnreadableDuration (trim_space text) (rn_silenceMax rn), False), s)
            | Some w \<Rightarrow>
                (let now = mo_at mo; s1 = s\<lparr>rs_silenced := rs_silenced s @ [(tx_triggerKey tc, w, author, now)]\<rparr>
                 in case silence (tx_triggerKey tc) w author now of
                      Some e \<Rightarrow> ((SilenceRefused e, False), s1)
                    | None \<Rightarrow> ((SilenceAck author w (now + w) (rn_feedbackEnabled rn), False), s1)))"

definition freeform :: "responder \<Rightarrow> moment \<Rightarrow> thread_context \<Rightarrow> string \<Rightarrow> string \<Rightarrow> responder_state
     \<Rightarrow> (reply \<times> bool) \<times> responder_state" where
  "freeform rn mo tc author text s = (case rn_chat rn of
     None \<Rightarrow> ((FreeformNotRecordedReply, False), s)
   | Some ch \<Rightarrow>
       if text = [] then ((FreeformNotRecordedReply, False), s)
       else (case Answer ch (mo_chat mo) tc author text (rs_chat s) of
               (None, cs) \<Rightarrow> ((FreeformNotRecordedReply, False), s\<lparr>rs_chat := cs\<rparr>)
             | (Some res, cs) \<Rightarrow>
                 if cr_kbNote res = [] then ((ModelVoice (cr_reply res), False), s\<lparr>rs_chat := cs\<rparr>)
                 else (case record_note rn mo tc (ProposedNote author text (cr_kbNote res)) (s\<lparr>rs_chat := cs\<rparr>) of
                         ((reply, err), s') \<Rightarrow> ((ReplyLines (ModelVoice (cr_reply res)) reply, err), s'))))"

definition Handle :: "responder \<Rightarrow> moment \<Rightarrow> thread_context \<Rightarrow> string \<Rightarrow> string \<Rightarrow> responder_state
     \<Rightarrow> (reply \<times> bool) \<times> responder_state" where
  "Handle rn mo tc author raw s =
     (let p = Parse raw;
          note = (if pa_text p = [] then ((EmptyNoteReply, False), s) else record_note rn mo tc (HumanNote author (pa_text p)) s)
      in case pa_intent p of
           IntentReinvestigate \<Rightarrow> ((ReinvestigateNotSupportedReply, False), s)
         | IntentSilence \<Rightarrow> (if \<not> pa_anchored p then ((SilenceNotAnchoredReply, False), s)
                             else silence_thread rn mo tc author (pa_text p) s)
         | IntentFreeform \<Rightarrow> freeform rn mo tc author (pa_text p) s
         | IntentNote \<Rightarrow> (if \<not> pa_anchored p \<and> rn_chat rn = None then freeform rn mo tc author (pa_text p) s else note))"

definition reply_in_thread :: "responder \<Rightarrow> string \<Rightarrow> string \<Rightarrow> reply \<Rightarrow> responder_state \<Rightarrow> responder_state" where
  "reply_in_thread rn rt channel rep s =
     (if rn_replies rn then s\<lparr>rs_replied := rs_replied s @ [(rt, channel, rep)]\<rparr> else s)"

definition HandleMention :: "responder \<Rightarrow> moment \<Rightarrow> string \<Rightarrow> string \<Rightarrow> string \<Rightarrow> string \<Rightarrow> thread_context option
     \<Rightarrow> responder_state \<Rightarrow> responder_state" where
  "HandleMention rn mo channel rt author text fallback s0 =
     (case Get (mo_get mo) rt (rs_registry s0) of (found, r) \<Rightarrow>
        (let s = s0\<lparr>rs_registry := r\<rparr>;
             answer = (\<lambda>tc st. case Handle rn mo (tc\<lparr>tx_channel := channel\<rparr>) author text st of
                ((rep, _), st') \<Rightarrow> reply_in_thread rn rt channel rep st')
         in case found of
              Some tc \<Rightarrow> answer tc s
            | None \<Rightarrow>
                (case fallback of
                   None \<Rightarrow> reply_in_thread rn rt channel NoContextReply s
                 | Some fb \<Rightarrow>
                     (case GetOrCreate (mo_createIO mo) (mo_create mo) (mo_create' mo) rt fb (rs_registry s) of
                        ((tc, _, err), r') \<Rightarrow>
                          if err = Some ErrThreadNotEstablishable
                          then reply_in_thread rn rt channel NoContextReply (s\<lparr>rs_registry := r'\<rparr>)
                          else answer tc (s\<lparr>rs_registry := r'\<rparr>)))))"

end
