(* ===== verification/ResponderGuards.thy ===== *)
theory ResponderGuards
  imports ThreadResponder RegistryRun
begin

text \<open>
  What a thread's participants and the forge can rely on: which messages write, the cap on notes per
  thread, one pull request per thread, and a write budget charged for landed writes only.
\<close>

section \<open>Which messages write\<close>

lemma meanwhile_frame [simp]:
  "rs_forge (meanwhile f s) = rs_forge s" "rs_written (meanwhile f s) = rs_written s"
  "rs_silenced (meanwhile f s) = rs_silenced s" "rs_chat (meanwhile f s) = rs_chat s"
  "rs_announced (meanwhile f s) = rs_announced s"
  "rs_registry (meanwhile f s) = fst (f (rs_registry s, rs_forgeWrites s))"
  "rs_forgeWrites (meanwhile f s) = snd (f (rs_registry s, rs_forgeWrites s))"
  by (simp_all add: meanwhile_def split: prod.split)

lemma refund_frame [simp]:
  "rs_forge (refund_write s) = rs_forge s" "rs_written (refund_write s) = rs_written s"
  "rs_silenced (refund_write s) = rs_silenced s" "rs_chat (refund_write s) = rs_chat s"
  "rs_registry (refund_write s) = rs_registry s"
  by (simp_all add: refund_write_def)

lemma announce_frame [simp]:
  "rs_forge (announce rn tc n w t s) = rs_forge s" "rs_written (announce rn tc n w t s) = rs_written s"
  "rs_silenced (announce rn tc n w t s) = rs_silenced s" "rs_chat (announce rn tc n w t s) = rs_chat s"
  "rs_registry (announce rn tc n w t s) = rs_registry s" "rs_forgeWrites (announce rn tc n w t s) = rs_forgeWrites s"
  by (simp_all add: announce_def)

text \<open>How a write ends: throttled, failed with its token handed back, or landed.\<close>

lemma write_note_cases:
  assumes "write_note rn mo tc n s = ((reply, w, err), s')"
  obtains (throttled) v where "allow_write mo (rs_forgeWrites s) = (False, v)" "w = None" "\<not> err" "s' = s\<lparr>rs_forgeWrites := v\<rparr>"
  | (failed) v calls where "allow_write mo (rs_forgeWrites s) = (True, v)" "w = None" "err"
      "s' = refund_write (meanwhile (mo_duringForge mo) (s\<lparr>rs_forgeWrites := v, rs_forge := calls\<rparr>))"
  | (added) v calls route num url where "allow_write mo (rs_forgeWrites s) = (True, v)" "\<not> err"
      "try_targets rn tc (noteAsWritten rn n) (mo_at mo) (noteTargets tc) (rs_forge s) = (Landed route num url, calls)"
      "w = Some \<lparr>kw_route = route, kw_pr = num, kw_url = url, kw_title = [], kw_note = nt_text (noteAsWritten rn n)\<rparr>"
      "s' = (meanwhile (mo_duringForge mo) (s\<lparr>rs_forgeWrites := v, rs_forge := calls\<rparr>))\<lparr>rs_written := rs_written s @ [route]\<rparr>"
  | (opened) v calls url kw entry where "allow_write mo (rs_forgeWrites s) = (True, v)" "\<not> err" "w = Some kw"
      "try_targets rn tc (noteAsWritten rn n) (mo_at mo) (noteTargets tc) (rs_forge s) = (NoTarget, calls)"
      "rn_openPR rn calls entry = Inr url"
      "s' = (let s3 = meanwhile (mo_duringForge mo) (s\<lparr>rs_forgeWrites := v, rs_forge := calls @ [OpenPR entry]\<rparr>)
        in s3\<lparr>rs_registry := snd (Update (mo_urlIO mo) (tx_root tc) (\<lambda>c. c\<lparr>tx_noteURL := url\<rparr>) (rs_registry s3)),
              rs_written := rs_written s @ [RouteOpenPR]\<rparr>)"
proof -
  obtain ok v where al: "allow_write mo (rs_forgeWrites s) = (ok, v)" by (metis prod.exhaust)
  obtain tr calls where tt: "try_targets rn tc (noteAsWritten rn n) (mo_at mo) (noteTargets tc) (rs_forge s) = (tr, calls)"
    by (metis prod.exhaust)
  show ?thesis
  proof (cases ok)
    case False
    then show ?thesis using throttled assms al by (auto simp: write_note_def Let_def)
  next
    case True
    then have al: "allow_write mo (rs_forgeWrites s) = (True, v)" using al by simp
    show ?thesis
    proof (cases tr)
      case (Landed route num url)
      then show ?thesis using added [OF al _ tt [unfolded Landed]] assms al tt by (auto simp: write_note_def Let_def)
    next
      case NoTarget
      let ?n = "noteAsWritten rn n"
      let ?e0 = "ConceptEntry (rn_texts rn) tc ?n (mo_at mo) (maxNoteBytes rn)"
      let ?e = "?e0\<lparr>ke_body := WithNoteMarker (ke_body ?e0) (noteKey rn tc ?n)\<rparr>"
      show ?thesis
      proof (cases "rn_openPR rn calls ?e")
        case (Inl x)
        then show ?thesis using failed [OF al] assms al tt NoTarget by (auto simp: write_note_def Let_def)
      next
        case (Inr url)
        then show ?thesis using opened [OF al _ _ tt [unfolded NoTarget] Inr] assms al tt NoTarget
          by (auto simp: write_note_def Let_def)
      qed
    qed (use failed [OF al] assms al tt in \<open>auto simp: write_note_def Let_def\<close>)
  qed
qed

lemma write_note_frame:
  assumes "write_note rn mo tc n s = ((reply, w, err), s')"
  shows "rs_chat s' = rs_chat s" "rs_silenced s' = rs_silenced s"
  using assms by (cases rule: write_note_cases; simp add: Let_def)+

lemma record_note_frame:
  assumes "record_note rn mo tc n s = (rep, s')"
  shows "rs_chat s' = rs_chat s" "rs_silenced s' = rs_silenced s"
proof -
  obtain fresh r where g: "Get (mo_recordGet mo) (tx_root tc) (rs_registry s) = (fresh, r)" by (metis prod.exhaust)
  let ?tc = "case fresh of Some f \<Rightarrow> f | None \<Rightarrow> tc"
  obtain reply w err s1 where w: "write_note rn mo ?tc n (meanwhile (mo_beforeWrite mo) (s\<lparr>rs_registry := r\<rparr>)) = ((reply, w, err), s1)"
    by (metis prod.exhaust)
  have "rs_chat s1 = rs_chat s" "rs_silenced s1 = rs_silenced s" using write_note_frame [OF w] by simp_all
  then show "rs_chat s' = rs_chat s" "rs_silenced s' = rs_silenced s"
    using assms g w by (auto simp: record_note_def Let_def split: if_splits option.splits prod.splits)
qed

text \<open>
  C24: What makes a message act. The forge is called only in two cases: for a note with a text, which
  begins the message or, when a chat model is configured, stands anywhere in it; and for a free-form
  message to which the configured chat model answers with a knowledge-base note of its own proposal. A
  silence is recorded only for a message that starts with the command. The model is asked only about
  free-form messages: a note, a silence and a re-run request cost no completion.
\<close>

theorem only_meant_commands_act:
  assumes "Handle rn mo tc author raw s = (rep, s')"
  shows "(rs_forge s' \<noteq> rs_forge s \<longrightarrow> pa_text (Parse raw) \<noteq> []
        \<and> (pa_intent (Parse raw) = IntentNote \<and> (pa_anchored (Parse raw) \<or> rn_chat rn \<noteq> None)
           \<or> pa_intent (Parse raw) = IntentFreeform
              \<and> (\<exists>ch res. rn_chat rn = Some ch \<and> cr_kbNote res \<noteq> []
                  \<and> fst (Answer ch (mo_chat mo) tc author (pa_text (Parse raw)) (rs_chat s)) = Some res)))
    \<and> (rs_silenced s' \<noteq> rs_silenced s \<longrightarrow> pa_intent (Parse raw) = IntentSilence \<and> pa_anchored (Parse raw))
    \<and> (rs_chat s' \<noteq> rs_chat s \<longrightarrow> pa_intent (Parse raw) = IntentFreeform \<and> rn_chat rn \<noteq> None)"
proof (cases "pa_intent (Parse raw)")
  case IntentFreeform
  then show ?thesis using assms record_note_frame(2)
    by (auto simp: Handle_def freeform_def Let_def split: option.splits if_splits prod.splits)
next
  case IntentNote
  then show ?thesis using assms record_note_frame
    by (auto simp: Handle_def freeform_def Let_def split: if_splits option.splits)
next
  case IntentReinvestigate
  then show ?thesis using assms by (auto simp: Handle_def)
next
  case IntentSilence
  then show ?thesis using assms
    by (auto simp: Handle_def silence_thread_def Let_def split: if_splits option.splits)
qed

section \<open>The thread in the registry\<close>

text \<open>A thread that is tracked, with its context, and that is not older than the time to live at an instant.\<close>

definition tracks_thread :: "string \<Rightarrow> duration \<Rightarrow> thread_context \<Rightarrow> registry \<Rightarrow> bool" where
  "tracks_thread rt d c r \<longleftrightarrow> registry_ok r \<and> reg_enabled r \<and> rg_ttl r = d \<and> map_of (rg_byID r) rt = Some c"

definition unexpired :: "duration \<Rightarrow> thread_context \<Rightarrow> gotime \<Rightarrow> bool" where
  "unexpired d c now \<longleftrightarrow> d \<le> 0 \<or> is_zero_time (tx_at c) \<or> now - d \<le> tx_at c"

text \<open>Other goroutines that leave the thread alone: under its guard nobody else writes its context.\<close>

definition leaves_thread :: "string \<Rightarrow> others \<Rightarrow> bool" where
  "leaves_thread rt f \<longleftrightarrow> (\<forall>r w d c. tracks_thread rt d c r \<longrightarrow> tracks_thread rt d c (fst (f (r, w))))"

lemma map_of_filter_Some: "distinct (map fst t) \<Longrightarrow> map_of t k = Some v \<Longrightarrow> P (k, v) \<Longrightarrow> map_of (filter P t) k = Some v"
  by (induction t) (auto split: if_splits simp: map_of_eq_None_iff[symmetric] dest: map_of_SomeD)

lemma tracked_root: "tracks_thread rt d c r \<Longrightarrow> tx_root c = rt \<and> rt \<noteq> []"
  by (auto simp: tracks_thread_def registry_ok_def live_ok_def reg_live_def dest!: map_of_SomeD)

lemma Get_tracked:
  assumes t: "tracks_thread rt d c r" and u: "unexpired d c now"
  shows "\<exists>r'. Get now rt r = (Some c, r') \<and> tracks_thread rt d c r'"
proof -
  let ?r = "expireLocked now r"
  have ok: "registry_ok ?r" using t by (simp add: tracks_thread_def expire_ok)
  have l: "map fst (rg_byID r) = rg_order r" "distinct (rg_order r)"
    using t by (simp_all add: tracks_thread_def registry_ok_def live_ok_def reg_live_def)
  then have "map_of (rg_byID ?r) rt = Some c"
    using t u by (auto simp: tracks_thread_def unexpired_def expireLocked_def set_live_def expire_walk_filter Let_def
        intro!: map_of_filter_Some)
  then show ?thesis using t ok tracked_root [OF t] by (simp add: Get_def tracks_thread_def reg_enabled_def)
qed

lemma put_existing:
  assumes ok: "live_ok m l" and c: "map_of (snd l) (tx_root tc) = Some c"
  shows "snd (put_entry m tc l) = AList.update (tx_root tc) tc (snd l)"
proof -
  have "map fst (AList.update (tx_root tc) tc (snd l)) = map fst (snd l)" by (simp add: update_keys c)
  then have "length (AList.update (tx_root tc) tc (snd l)) = length (snd l)" by (metis length_map)
  then have "(if m > 0 then length (AList.update (tx_root tc) tc (snd l)) - nat m else 0) = 0"
    using ok by (auto simp: live_ok_def)
  then show ?thesis unfolding put_entry_drop [OF ok] by (simp add: Let_def)
qed

lemma Update_tracked:
  assumes t: "tracks_thread rt d c r" and f: "tx_root (f c) = rt"
  shows "tracks_thread rt d (f c) (snd (Update io rt f r))"
proof -
  have k: "(f c)\<lparr>tx_root := rt\<rparr> = f c" using f by (simp add: thread_context.surjective)
  have u: "snd (Update io rt f r) = appended io (f c) r"
    using t tracked_root [OF t] by (simp add: Update_def appended_def tracks_thread_def Let_def k)
  have ok: "live_ok (rg_maxLive r) (reg_live r)" and c: "map_of (snd (reg_live r)) (tx_root (f c)) = Some c"
    using t f by (simp_all add: tracks_thread_def registry_ok_def reg_live_def)
  have "rg_byID (appended io (f c) r) = snd (put_entry (rg_maxLive r) (f c) (reg_live r))"
    by (metis appended_live(1) reg_live_def snd_conv)
  then have "map_of (rg_byID (appended io (f c) r)) rt = Some (f c)"
    using put_existing [OF ok c] f by (simp add: update_conv')
  moreover have "registry_ok (appended io (f c) r)"
    using t f tracked_root [OF t] by (intro put_ok) (simp_all add: tracks_thread_def)
  moreover have "reg_enabled (appended io (f c) r)" "rg_ttl (appended io (f c) r) = d"
    using t by (simp_all add: tracks_thread_def appended_def putLocked_def reg_enabled_def)
  ultimately show ?thesis by (simp add: u tracks_thread_def)
qed

section \<open>One note\<close>

lemma try_targets_route:
  "try_targets rn tc n t targets calls = (Landed route num url, calls') \<Longrightarrow> route = RouteComment \<or> route = RouteAppend"
proof (induction rn tc n t targets calls rule: try_targets.induct)
  case (2 rn tc n t url0 ours rest calls)
  show ?case
  proof (cases "prNumberOn (rn_parseURL rn) (rn_forgeRepo rn) url0")
    case None
    then show ?thesis using 2 by simp
  next
    case (Some k)
    show ?thesis
    proof (cases "rn_isPROpen rn calls k")
      case (Inl e)
      then show ?thesis using 2(4) Some by simp
    next
      case (Inr still)
      obtain res calls1 where a: "addToPR rn tc n t k ours (calls @ [IsPROpen k]) = (res, calls1)" by (metis prod.exhaust)
      have r: "res = Inr x \<Longrightarrow> x = RouteComment \<or> x = RouteAppend" for x
        using a by (auto simp: addToPR_def Let_def split: if_splits option.splits forge_error.splits)
      show ?thesis using 2 Some Inr a r
        by (cases still; cases res) (auto split: forge_error.splits)
    qed
  qed
qed simp

lemma routes_distinct [simp]: "RouteComment \<noteq> RouteOpenPR" "RouteAppend \<noteq> RouteOpenPR"
  by (simp_all add: RouteComment_def RouteAppend_def RouteOpenPR_def)

text \<open>What one note does to a tracked thread.\<close>

definition after_note :: "responder \<Rightarrow> thread_context \<Rightarrow> string option \<Rightarrow> string \<Rightarrow> thread_context" where
  "after_note rn c route url = (case route of
     None \<Rightarrow> c
   | Some rte \<Rightarrow> c\<lparr>tx_notes := tx_notes c + 1, tx_noteURL := (if rte = RouteOpenPR then url else tx_noteURL c)\<rparr>)"

definition landed_by :: "responder \<Rightarrow> moment \<Rightarrow> thread_note \<Rightarrow> thread_context \<Rightarrow> string option \<Rightarrow> string \<Rightarrow> bool" where
  "landed_by rn mo n c route url \<longleftrightarrow> (route \<noteq> None \<longrightarrow> tx_notes c < maxNotes rn)
     \<and> (route = Some RouteOpenPR \<longrightarrow> (\<exists>calls entry. rn_openPR rn calls entry = Inr url)
         \<and> (\<exists>calls calls'. try_targets rn c (noteAsWritten rn n) (mo_at mo) (noteTargets c) calls = (NoTarget, calls')))"

lemma record_note_tracked:
  assumes t: "tracks_thread rt d c (rs_registry s)" and rt: "tx_root tc = rt" and u: "unexpired d c (mo_recordGet mo)"
    and o: "leaves_thread rt (mo_beforeWrite mo)" "leaves_thread rt (mo_duringForge mo)" "leaves_thread rt (mo_beforeCount mo)"
    and r: "record_note rn mo tc n s = (rep, s')"
  shows "\<exists>route url. tracks_thread rt d (after_note rn c route url) (rs_registry s')
    \<and> rs_written s' = rs_written s @ (case route of None \<Rightarrow> [] | Some x \<Rightarrow> [x]) \<and> landed_by rn mo n c route url"
proof -
  obtain r1 where g: "Get (mo_recordGet mo) rt (rs_registry s) = (Some c, r1)" "tracks_thread rt d c r1"
    using Get_tracked [OF t u] by blast
  have cr: "tx_root c = rt" using tracked_root [OF t] by simp
  have none: "tracks_thread rt d c (rs_registry s') \<Longrightarrow> rs_written s' = rs_written s \<Longrightarrow> ?thesis"
    by (intro exI [of _ None]) (simp add: after_note_def landed_by_def)
  show ?thesis
  proof (cases "tx_notes c \<ge> maxNotes rn")
    case True
    then have "s' = s\<lparr>rs_registry := r1\<rparr>" using r g rt by (simp add: record_note_def)
    then show ?thesis using none g(2) by simp
  next
    case False
    let ?s1 = "meanwhile (mo_beforeWrite mo) (s\<lparr>rs_registry := r1\<rparr>)"
    obtain reply w err s2 where w: "write_note rn mo c n ?s1 = ((reply, w, err), s2)" by (metis prod.exhaust)
    have t1: "tracks_thread rt d c (rs_registry ?s1)" using o(1) g(2) by (simp add: leaves_thread_def)
    have du: "tracks_thread rt d c (rs_registry (meanwhile (mo_duringForge mo) (?s1\<lparr>rs_forgeWrites := v, rs_forge := calls\<rparr>)))" for v calls
      using o(2) t1 by (simp add: leaves_thread_def)
    have idle: "s' = s2" if "w = None"
      using r g(1) rt False w that by (auto simp: record_note_def Let_def split: if_splits)
    have landed: ?thesis if kw: "w = Some kw" "\<not> err" and t2: "tracks_thread rt d c' (rs_registry s2)"
      and wr: "rs_written s2 = rs_written s @ [route]" and c': "c' = c\<lparr>tx_noteURL := (if route = RouteOpenPR then url else tx_noteURL c)\<rparr>"
      and lb: "landed_by rn mo n c (Some route) url" for kw c' route url
    proof -
      let ?s3 = "meanwhile (mo_beforeCount mo) (announce rn c n kw (mo_at mo) s2)"
      let ?f = "\<lambda>x. x\<lparr>tx_notes := tx_notes x + 1\<rparr>"
      have t3: "tracks_thread rt d c' (rs_registry ?s3)" using o(3) t2 by (simp add: leaves_thread_def)
      have "tracks_thread rt d (?f c') (snd (Update (mo_countIO mo) rt ?f (rs_registry ?s3)))"
        by (rule Update_tracked [OF t3]) (simp add: c' cr)
      moreover have "rs_registry s' = snd (Update (mo_countIO mo) rt ?f (rs_registry ?s3))" "rs_written s' = rs_written s2"
        using r g(1) rt False w kw cr by (auto simp: record_note_def Let_def split: prod.splits option.splits)
      moreover have "?f c' = after_note rn c (Some route) url" by (simp add: after_note_def c')
      ultimately show ?thesis using wr lb by (intro exI [of _ "Some route"] exI [of _ url]) simp
    qed
    from w show ?thesis
    proof (cases rule: write_note_cases)
      case (throttled v)
      then show ?thesis using none idle t1 by simp
    next
      case (failed v calls)
      then show ?thesis using none idle du by simp
    next
      case (added v calls route num url)
      have ne: "route \<noteq> RouteOpenPR" using try_targets_route [OF added(3)] routes_distinct by metis
      then have "c = c\<lparr>tx_noteURL := (if route = RouteOpenPR then url else tx_noteURL c)\<rparr>" by simp
      then show ?thesis using landed [OF added(4,2), of c route url] du added(5) ne False
        by (simp add: landed_by_def)
    next
      case (opened v calls url kw entry)
      let ?s3 = "meanwhile (mo_duringForge mo) (?s1\<lparr>rs_forgeWrites := v, rs_forge := calls @ [OpenPR entry]\<rparr>)"
      let ?c = "c\<lparr>tx_noteURL := url\<rparr>"
      have s2: "rs_registry s2 = snd (Update (mo_urlIO mo) rt (\<lambda>c. c\<lparr>tx_noteURL := url\<rparr>) (rs_registry ?s3))"
          "rs_written s2 = rs_written s @ [RouteOpenPR]"
        by (simp_all only: opened(6) cr Let_def) simp_all
      have t2: "tracks_thread rt d ?c (rs_registry s2)"
        unfolding s2(1) by (rule Update_tracked [OF du]) (simp add: cr)
      have c': "?c = c\<lparr>tx_noteURL := (if RouteOpenPR = RouteOpenPR then url else tx_noteURL c)\<rparr>" by simp
      have lb: "landed_by rn mo n c (Some RouteOpenPR) url"
        unfolding landed_by_def using opened(4,5) False by fastforce
      show ?thesis by (rule landed [OF opened(3,2) t2 s2(2) c' lb])
    qed
  qed
qed

section \<open>The notes of a thread\<close>

text \<open>
  One note of a thread: what the caller saw of the thread, the note, and the moment. The guard of the
  root is held from the re-read on, so the notes of one root follow one another; between two of them
  other goroutines may do anything that leaves this thread alone.
\<close>

record note_turn =
  tu_context :: thread_context
  tu_note :: thread_note
  tu_moment :: moment
  tu_before :: others

definition note_turn_step :: "responder \<Rightarrow> note_turn \<Rightarrow> responder_state \<Rightarrow> responder_state" where
  "note_turn_step rn tu s = snd (record_note rn (tu_moment tu) (tu_context tu) (tu_note tu) (meanwhile (tu_before tu) s))"

definition under_guard :: "string \<Rightarrow> note_turn \<Rightarrow> bool" where
  "under_guard rt tu \<longleftrightarrow> tx_root (tu_context tu) = rt \<and> leaves_thread rt (tu_before tu)
     \<and> leaves_thread rt (mo_beforeWrite (tu_moment tu)) \<and> leaves_thread rt (mo_duringForge (tu_moment tu))
     \<and> leaves_thread rt (mo_beforeCount (tu_moment tu))"

text \<open>No note comes after the thread has expired; its delivery instant never changes.\<close>

definition in_time :: "duration \<Rightarrow> gotime \<Rightarrow> note_turn \<Rightarrow> bool" where
  "in_time d delivered tu \<longleftrightarrow> d \<le> 0 \<or> is_zero_time delivered \<or> mo_recordGet (tu_moment tu) - d \<le> delivered"

definition landed_since :: "responder_state \<Rightarrow> responder_state \<Rightarrow> string list" where
  "landed_since s s' = drop (length (rs_written s)) (rs_written s')"

lemma note_turn_tracked:
  assumes t: "tracks_thread rt d c (rs_registry s)" and g: "under_guard rt tu" and i: "in_time d (tx_at c) tu"
  shows "\<exists>route url. tracks_thread rt d (after_note rn c route url) (rs_registry (note_turn_step rn tu s))
    \<and> rs_written (note_turn_step rn tu s) = rs_written s @ (case route of None \<Rightarrow> [] | Some x \<Rightarrow> [x])
    \<and> landed_by rn (tu_moment tu) (tu_note tu) c route url"
proof -
  obtain rep s' where r: "record_note rn (tu_moment tu) (tu_context tu) (tu_note tu) (meanwhile (tu_before tu) s) = (rep, s')"
    by (metis prod.exhaust)
  have "tracks_thread rt d c (rs_registry (meanwhile (tu_before tu) s))"
    using t g by (simp add: under_guard_def leaves_thread_def)
  from record_note_tracked [OF this _ _ _ _ _ r] show ?thesis
    using g i r by (simp add: under_guard_def in_time_def unexpired_def note_turn_step_def)
qed

lemma after_note_simps [simp]:
  "tx_at (after_note rn c route url) = tx_at c"
  "tx_notes (after_note rn c route url) = tx_notes c + (if route = None then 0 else 1)"
  by (simp_all add: after_note_def split: option.split)

text \<open>
  C14: A tracked thread never holds more than its cap of notes. As long as the other goroutines neither
  evict the thread nor write its context, and every note comes before the thread expires, the writes
  that land in it are no more than what its count leaves of the cap, however late the caller's copy
  of the context is and whatever the forge answers. The cap does nothing for a thread that is no
  longer tracked.
\<close>

theorem notes_within_cap:
  assumes "tracks_thread rt d c (rs_registry s)"
    and "\<And>tu. tu \<in> set tus \<Longrightarrow> under_guard rt tu \<and> in_time d (tx_at c) tu"
  shows "int (length (landed_since s (fold (note_turn_step rn) tus s))) \<le> max 0 (maxNotes rn - tx_notes c)"
proof -
  have "\<exists>l. rs_written (fold (note_turn_step rn) tus s) = rs_written s @ l \<and> int (length l) \<le> max 0 (maxNotes rn - tx_notes c)"
    using assms
  proof (induction tus arbitrary: c s)
    case Nil
    then show ?case by simp
  next
    case (Cons tu tus)
    obtain route url where n: "tracks_thread rt d (after_note rn c route url) (rs_registry (note_turn_step rn tu s))"
      "rs_written (note_turn_step rn tu s) = rs_written s @ (case route of None \<Rightarrow> [] | Some x \<Rightarrow> [x])"
      "landed_by rn (tu_moment tu) (tu_note tu) c route url"
      using note_turn_tracked [OF Cons.prems(1)] Cons.prems(2) by (metis list.set_intros(1))
    obtain l where l: "rs_written (fold (note_turn_step rn) tus (note_turn_step rn tu s)) = rs_written (note_turn_step rn tu s) @ l"
      "int (length l) \<le> max 0 (maxNotes rn - tx_notes (after_note rn c route url))"
      using Cons.IH [OF n(1)] Cons.prems(2) by auto
    then show ?case using n(2,3) by (cases route) (auto simp: landed_by_def)
  qed
  then show ?thesis by (auto simp: landed_since_def)
qed

text \<open>A forge on which every pull request it opens stays open, and a pull request of this thread that stays open.\<close>

definition forge_keeps_open :: "responder \<Rightarrow> bool" where
  "forge_keeps_open rn \<longleftrightarrow> (\<forall>calls entry url. rn_openPR rn calls entry = Inr url \<longrightarrow>
     (\<exists>k. prNumberOn (rn_parseURL rn) (rn_forgeRepo rn) url = Some k
        \<and> (\<forall>cs. rn_isPROpen rn cs k = Inr True \<and> rn_append rn cs k \<noteq> Some ErrPRNotOpen \<and> rn_comment rn cs k \<noteq> Some ErrPRNotOpen)))"

definition own_pr_open :: "responder \<Rightarrow> string \<Rightarrow> bool" where
  "own_pr_open rn url \<longleftrightarrow> (\<exists>k. prNumberOn (rn_parseURL rn) (rn_forgeRepo rn) url = Some k
     \<and> (\<forall>cs. rn_isPROpen rn cs k = Inr True \<and> rn_append rn cs k \<noteq> Some ErrPRNotOpen \<and> rn_comment rn cs k \<noteq> Some ErrPRNotOpen))"

lemma open_target_found:
  assumes "own_pr_open rn url" and "(url, ours) \<in> set targets"
  shows "try_targets rn tc n t targets calls \<noteq> (NoTarget, calls')"
  using assms(2)
proof (induction targets arbitrary: calls)
  case (Cons x rest)
  obtain u o' where x: "x = (u, o')" by (metis prod.exhaust)
  show ?case
  proof (cases "u = url")
    case True
    obtain k where k: "prNumberOn (rn_parseURL rn) (rn_forgeRepo rn) url = Some k" "rn_isPROpen rn calls k = Inr True"
      "\<And>cs. rn_append rn cs k \<noteq> Some ErrPRNotOpen \<and> rn_comment rn cs k \<noteq> Some ErrPRNotOpen"
      using assms(1) by (auto simp: own_pr_open_def)
    obtain res calls1 where a: "addToPR rn tc n t k o' (calls @ [IsPROpen k]) = (res, calls1)" by (metis prod.exhaust)
    have "res \<noteq> Inl ErrPRNotOpen"
      using a k(3) by (auto simp: addToPR_def Let_def split: if_splits option.splits forge_error.splits)
    then show ?thesis using x True k a by (cases res) (auto split: forge_error.splits)
  next
    case False
    then have "(url, ours) \<in> set rest" using Cons.prems x by auto
    then show ?thesis using Cons.IH x
      by (auto split: option.splits sum.splits bool.splits prod.splits forge_error.splits)
  qed
qed simp

text \<open>
  C13: One pull request per tracked thread. Assume that the thread is tracked and stays so: the other
  goroutines neither evict it nor write its context, and every note comes before it expires. Assume
  also a forge that reports the pull requests it opened as open and refuses none of them as closed.
  Then at most one of a run's landed writes opened a pull request, and the later notes go there. A
  thread that was evicted or has expired may open a second one.
\<close>

theorem thread_keeps_one_pull_request:
  assumes "tracks_thread rt d c (rs_registry s)"
    and "\<And>tu. tu \<in> set tus \<Longrightarrow> under_guard rt tu \<and> in_time d (tx_at c) tu"
    and "forge_keeps_open rn"
  shows "length (filter ((=) RouteOpenPR) (landed_since s (fold (note_turn_step rn) tus s))) \<le> 1"
proof -
  let ?opened = "\<lambda>l. length (filter ((=) RouteOpenPR) l)"
  have "\<exists>l. rs_written (fold (note_turn_step rn) tus s) = rs_written s @ l \<and> ?opened l \<le> 1
      \<and> (own_pr_open rn (tx_noteURL c) \<longrightarrow> ?opened l = 0)"
    using assms(1,2)
  proof (induction tus arbitrary: c s)
    case Nil
    then show ?case by simp
  next
    case (Cons tu tus)
    obtain route url where n: "tracks_thread rt d (after_note rn c route url) (rs_registry (note_turn_step rn tu s))"
      "rs_written (note_turn_step rn tu s) = rs_written s @ (case route of None \<Rightarrow> [] | Some x \<Rightarrow> [x])"
      "landed_by rn (tu_moment tu) (tu_note tu) c route url"
      using note_turn_tracked [OF Cons.prems(1)] Cons.prems(2) by (metis list.set_intros(1))
    obtain l where l: "rs_written (fold (note_turn_step rn) tus (note_turn_step rn tu s)) = rs_written (note_turn_step rn tu s) @ l"
      "?opened l \<le> 1" "own_pr_open rn (tx_noteURL (after_note rn c route url)) \<longrightarrow> ?opened l = 0"
      using Cons.IH [OF n(1)] Cons.prems(2) by auto
    show ?case
    proof (cases "route = Some RouteOpenPR")
      case True
      have "own_pr_open rn url" using n(3) True assms(3) by (auto simp: landed_by_def forge_keeps_open_def own_pr_open_def)
      moreover have "\<not> own_pr_open rn (tx_noteURL c)"
        using n(3) True open_target_found [of rn "tx_noteURL c" True "noteTargets c"] by (auto simp: landed_by_def noteTargets_def)
      ultimately show ?thesis using l n(2) True by (simp add: after_note_def)
    next
      case False
      then have "tx_noteURL (after_note rn c route url) = tx_noteURL c" by (simp add: after_note_def split: option.split)
      then show ?thesis using l n(2) False by (cases route) auto
    qed
  qed
  then show ?thesis by (auto simp: landed_since_def)
qed

section \<open>The write budget\<close>

text \<open>Other goroutines that do not write to the forge meanwhile.\<close>

definition leaves_budget :: "others \<Rightarrow> bool" where
  "leaves_budget f \<longleftrightarrow> (\<forall>x. snd (f x) = snd x)"

definition kept_or_slid :: "moment \<Rightarrow> window \<Rightarrow> gotime list \<Rightarrow> bool" where
  "kept_or_slid mo w kept \<longleftrightarrow> kept = w_recent w \<or> kept = slide (w_window w) (mo_allow mo) (w_recent w)"

lemma allow_write_limited:
  assumes "0 < w_max w" and "allow_write mo (Some w) = (ok, v)"
  shows "v = Some (w\<lparr>w_recent := slide (w_window w) (mo_allow mo) (w_recent w) @ (if ok then [mo_allow' mo] else [])\<rparr>)"
  using assms by (auto simp: allow_write_def RateLimit.Allow_def slideLocked_def Let_def split: if_splits prod.splits)

lemma write_note_charge:
  assumes lim: "rs_forgeWrites s = Some w" "0 < w_max w" and o: "leaves_budget (mo_duringForge mo)"
    and r: "write_note rn mo tc n s = ((reply, kw, err), s')"
  shows "rs_forgeWrites s' = Some (w\<lparr>w_recent := slide (w_window w) (mo_allow mo) (w_recent w)
      @ (if kw \<noteq> None then [mo_allow' mo] else [])\<rparr>)
    \<and> (kw \<noteq> None \<longleftrightarrow> rs_written s' \<noteq> rs_written s) \<and> (err \<longrightarrow> kw = None)"
  using r
proof (cases rule: write_note_cases)
  case (throttled v)
  then show ?thesis using allow_write_limited [OF lim(2), of mo False v] lim(1) by simp
next
  case (failed v calls)
  then have v: "v = Some (w\<lparr>w_recent := slide (w_window w) (mo_allow mo) (w_recent w) @ [mo_allow' mo]\<rparr>)"
    using allow_write_limited [OF lim(2), of mo True v] lim(1) by simp
  then show ?thesis using failed o lim(2) by (simp add: leaves_budget_def refund_write_def Refund_def)
next
  case (added v calls route num url)
  then show ?thesis using allow_write_limited [OF lim(2), of mo True v] lim(1) o by (simp add: leaves_budget_def)
next
  case (opened v calls url kw' entry)
  then show ?thesis using allow_write_limited [OF lim(2), of mo True v] lim(1) o by (simp add: leaves_budget_def Let_def)
qed

text \<open>
  C21: Only a landed write is charged. When no other thread touches the shared write budget meanwhile, a
  note leaves on it what was there before, less what has left the window, and exactly one token
  more when a write landed: a refused note, a note over the cap and a note the forge failed cost
  nothing. A refused note makes no forge call either.
\<close>

theorem only_landed_writes_are_charged:
  assumes lim: "rs_forgeWrites s = Some w" "0 < w_max w"
    and o: "leaves_budget (mo_beforeWrite mo)" "leaves_budget (mo_duringForge mo)" "leaves_budget (mo_beforeCount mo)"
    and r: "record_note rn mo tc n s = (rep, s')"
  shows "\<exists>kept. kept_or_slid mo w kept \<and> rs_forgeWrites s' = Some (w\<lparr>w_recent :=
      kept @ (if rs_written s' \<noteq> rs_written s then [mo_allow' mo] else [])\<rparr>)"
proof -
  obtain fresh r1 where g: "Get (mo_recordGet mo) (tx_root tc) (rs_registry s) = (fresh, r1)" by (metis prod.exhaust)
  define tc' where "tc' = (case fresh of Some f \<Rightarrow> f | None \<Rightarrow> tc)"
  let ?s1 = "meanwhile (mo_beforeWrite mo) (s\<lparr>rs_registry := r1\<rparr>)"
  obtain reply kw err s2 where w: "write_note rn mo tc' n ?s1 = ((reply, kw, err), s2)" by (metis prod.exhaust)
  show ?thesis
  proof (cases "tx_notes tc' \<ge> maxNotes rn")
    case True
    then have "s' = s\<lparr>rs_registry := r1\<rparr>" using r g by (simp add: record_note_def tc'_def)
    then show ?thesis using lim(1) by (intro exI [of _ "w_recent w"]) (simp add: kept_or_slid_def)
  next
    case False
    have c: "rs_forgeWrites s2 = Some (w\<lparr>w_recent := slide (w_window w) (mo_allow mo) (w_recent w)
        @ (if kw \<noteq> None then [mo_allow' mo] else [])\<rparr>)" "kw \<noteq> None \<longleftrightarrow> rs_written s2 \<noteq> rs_written s" "err \<longrightarrow> kw = None"
      using write_note_charge [OF _ lim(2) o(2) w] lim(1) o(1) by (simp_all add: leaves_budget_def)
    have "rs_forgeWrites s' = rs_forgeWrites s2" "rs_written s' = rs_written s2"
      using r g w False o(3) c(3)
      by (auto simp: record_note_def tc'_def [symmetric] leaves_budget_def Let_def split: if_splits option.splits prod.splits)
    then show ?thesis using c
      by (intro exI [of _ "slide (w_window w) (mo_allow mo) (w_recent w)"]) (simp add: kept_or_slid_def)
  qed
qed

section \<open>A thread, step by step\<close>

text \<open>
  A thread \<open>r\<close> with two notes at most, on a forge whose pull request 7 stays open, or that always
  fails. The chat model is absent. The write budget is one write per 100 units of time.
\<close>

definition demo_context :: thread_context where
  "demo_context = zero_context\<lparr>tx_root := ''r'', tx_at := 5\<rparr>"

definition demo_responder :: "bool \<Rightarrow> responder" where
  "demo_responder up =
     \<lparr>rn_maxNotesPerThread = 2, rn_maxNoteBytes = 0, rn_forgeRepo = [], rn_silenceMax = 0, rn_feedbackEnabled = False,
      rn_announces = True, rn_replies = True, rn_chat = None, rn_silence = None, rn_isPROpen = \<lambda>_ _. Inr True,
      rn_append = \<lambda>_ _. None, rn_comment = \<lambda>_ _. None,
      rn_openPR = \<lambda>_ _. (if up then Inr ''/pull/7'' else Inl ''down''), rn_parseURL = \<lambda>_. None,
      rn_texts = \<lparr>ne_redact = \<lambda>t. t, ne_stamp = \<lambda>_. ''now'', ne_hasWord = \<lambda>s. s \<noteq> []\<rparr>, rn_noteKey = \<lambda>a b c. a @ b @ c\<rparr>"

definition demo_moment :: moment where
  "demo_moment =
     \<lparr>mo_get = 10, mo_create = 10, mo_create' = 10, mo_createIO = AppendOk, mo_recordGet = 10, mo_at = 11, mo_allow = 11,
      mo_allow' = 11, mo_urlIO = AppendOk, mo_countIO = AppendOk,
      mo_chat = \<lparr>cm_cancelled = False, cm_allow = \<lparr>tm_slide = 10, tm_call = 10, tm_reserve = 10\<rparr>, cm_record = 12, cm_record' = 12\<rparr>,
      mo_beforeWrite = id, mo_duringForge = id, mo_beforeCount = id\<rparr>"

definition demo_state :: "int \<Rightarrow> responder_state" where
  "demo_state maxWrites =
     \<lparr>rs_registry = \<lparr>rg_path = ''/r'', rg_ttl = 0, rg_maxLive = 2, rg_byID = [(''r'', demo_context)], rg_order = [''r''],
        rg_file = None, rg_torn = False\<rparr>,
      rs_forgeWrites = Some (New_window maxWrites 100), rs_forge = [], rs_written = [], rs_announced = [], rs_silenced = [],
      rs_chat = \<lparr>cs_budget = None, cs_prompts = [], cs_denied = []\<rparr>, rs_replied = []\<rparr>"

definition demo_turn :: note_turn where
  "demo_turn = \<lparr>tu_context = demo_context, tu_note = HumanNote ''U'' ''fact'', tu_moment = demo_moment, tu_before = id\<rparr>"

lemma demo_tracked: "tracks_thread ''r'' 0 demo_context (rs_registry (demo_state m))"
  by (simp add: tracks_thread_def registry_ok_def live_ok_def reg_live_def reg_enabled_def demo_state_def demo_context_def)

lemma demo_guarded: "under_guard ''r'' demo_turn \<and> in_time 0 (tx_at demo_context) demo_turn"
  by (simp add: under_guard_def in_time_def demo_turn_def demo_moment_def demo_context_def leaves_thread_def)

lemma demo_forge: "forge_keeps_open (demo_responder True)"
proof -
  have "PRNumber ''/pull/7'' = Some 7" by code_simp
  then show ?thesis by (simp add: forge_keeps_open_def demo_responder_def prNumberOn_def)
qed

lemma demo_thread_run: "landed_since (demo_state 0) (fold (note_turn_step (demo_responder True)) [demo_turn, demo_turn, demo_turn] (demo_state 0))
    = [RouteOpenPR, RouteAppend]"
  by code_simp

lemma notes_within_cap_witness:
  "int (length (landed_since (demo_state 0)
     (fold (note_turn_step (demo_responder True)) [demo_turn, demo_turn, demo_turn] (demo_state 0)))) \<le> 2"
  using notes_within_cap [OF demo_tracked [of 0], of "[demo_turn, demo_turn, demo_turn]" "demo_responder True"] demo_guarded
  by (simp add: demo_responder_def maxNotes_def demo_context_def zero_context_def)

lemma thread_keeps_one_pull_request_witness:
  "length (filter ((=) RouteOpenPR) (landed_since (demo_state 0)
     (fold (note_turn_step (demo_responder True)) [demo_turn, demo_turn, demo_turn] (demo_state 0)))) \<le> 1"
  using thread_keeps_one_pull_request [OF demo_tracked [of 0] _ demo_forge, of "[demo_turn, demo_turn, demo_turn]"] demo_guarded
  by simp

lemma only_landed_writes_are_charged_witness:
  "rs_forgeWrites (snd (record_note (demo_responder False) demo_moment demo_context (HumanNote ''U'' ''fact'') (demo_state 1)))
     = Some (New_window 1 100)"
proof -
  let ?r = "record_note (demo_responder False) demo_moment demo_context (HumanNote ''U'' ''fact'') (demo_state 1)"
  have "rs_written (snd ?r) = []" by code_simp
  moreover obtain kept where "kept_or_slid demo_moment (New_window 1 100) kept"
      "rs_forgeWrites (snd ?r) = Some ((New_window 1 100)\<lparr>w_recent :=
        kept @ (if rs_written (snd ?r) \<noteq> rs_written (demo_state 1) then [mo_allow' demo_moment] else [])\<rparr>)"
    using only_landed_writes_are_charged [of "demo_state 1" "New_window 1 100" demo_moment "demo_responder False"
        demo_context "HumanNote ''U'' ''fact''" "fst ?r" "snd ?r"]
    by (auto simp: demo_state_def New_window_def demo_moment_def leaves_budget_def)
  ultimately show ?thesis by (simp add: kept_or_slid_def New_window_def slide_def demo_state_def)
qed

lemma only_meant_commands_act_witness:
  "rs_forge (snd (Handle (demo_responder True) demo_moment demo_context ''U'' ''is there a note: here?'' (demo_state 0))) = []"
proof -
  let ?h = "Handle (demo_responder True) demo_moment demo_context ''U'' ''is there a note: here?'' (demo_state 0)"
  have "pa_intent (Parse ''is there a note: here?'') = IntentNote" "\<not> pa_anchored (Parse ''is there a note: here?'')"
    by code_simp+
  then show ?thesis
    using only_meant_commands_act [of "demo_responder True" demo_moment demo_context "''U''" "''is there a note: here?''"
        "demo_state 0" "fst ?h" "snd ?h"]
    by (auto simp: demo_responder_def demo_state_def)
qed

end
