(* ===== verification/NoteSafety.thy ===== *)
theory NoteSafety
  imports ThreadText
begin

text \<open>
  What a chat message can do to the knowledge base through a note: it never becomes a section of the
  entry it lands in, and its text and the entry's title carry no markup.
\<close>

section \<open>Section lines\<close>

definition section_line :: "string \<Rightarrow> bool" where
  "section_line l \<longleftrightarrow> okf_heading (headingText (trim_space l))"

abbreviation quiet :: "string \<Rightarrow> bool" where
  "quiet \<equiv> all_lines (\<lambda>l. \<not> section_line l)"

abbreviation quiet_block :: "string \<Rightarrow> bool" where
  "quiet_block \<equiv> line_block (\<lambda>l. \<not> section_line l)"

text \<open>A line that reads as a section holds nothing but white space, hashes and letters.\<close>

definition plain_char :: "char \<Rightarrow> bool" where
  "plain_char c \<longleftrightarrow> is_space c \<or> c = CHR ''#'' \<or> is_lower c \<or> is_upper c"

definition odd_line :: "string \<Rightarrow> bool" where
  "odd_line l \<longleftrightarrow> (\<exists>c \<in> set l. \<not> plain_char c)"

lemma trim_space_parts: "\<exists>a b. s = a @ trim_space s @ b \<and> (\<forall>c \<in> set a \<union> set b. is_space c)"
proof -
  let ?d = "dropWhile is_space s"
  let ?b = "rev (takeWhile is_space (rev ?d))"
  have "rev (rev ?d) = rev (takeWhile is_space (rev ?d) @ dropWhile is_space (rev ?d))" by simp
  then have "?d = trim_space s @ ?b" by (simp only: rev_append rev_rev_ident trim_space_def)
  then have "s = takeWhile is_space s @ trim_space s @ ?b" by (metis takeWhile_dropWhile_id)
  moreover have "\<forall>c \<in> set (takeWhile is_space s) \<union> set ?b. is_space c" by (auto dest: set_takeWhileD)
  ultimately show ?thesis by blast
qed

lemma headingText_parts:
  assumes "headingText t \<noteq> []"
  shows "\<exists>i r. t = replicate i (CHR ''#'') @ CHR '' '' # r \<and> headingText t = trim_space (CHR '' '' # r)"
proof -
  let ?i = "length (takeWhile (\<lambda>c. c = CHR ''#'') t)"
  have i: "?i < length t" "t ! ?i = CHR '' ''" "headingText t = trim_space (drop ?i t)"
    using assms by (auto simp: headingText_def Let_def split: if_splits)
  have "takeWhile (\<lambda>c. c = CHR ''#'') t = replicate ?i (CHR ''#'')"
    by (rule replicate_eqI) (auto dest: set_takeWhileD)
  then have "t = replicate ?i (CHR ''#'') @ drop ?i t"
    by (metis append_take_drop_id takeWhile_eq_take)
  moreover have "drop ?i t = CHR '' '' # drop (Suc ?i) t" using i(1,2) by (metis Cons_nth_drop_Suc)
  ultimately show ?thesis using i(3) by metis
qed

lemma okf_heading_letters: "okf_heading h \<Longrightarrow> c \<in> set h \<Longrightarrow> is_lower c \<or> is_upper c"
proof -
  assume "okf_heading h" "c \<in> set h"
  then have "ascii_lower c \<in> set (to_lower ''Symptom'' @ to_lower ''Cause'' @ to_lower ''Resolution'')"
    unfolding okf_heading_def okfSectionNames_def to_lower_def by (auto simp del: set_append)
  then have "is_lower (ascii_lower c)"
    by (auto simp: to_lower_def ascii_lower_def is_lower_def split: if_splits)
  then show ?thesis by (auto simp: ascii_lower_def is_lower_def is_upper_def split: if_splits)
qed

lemma okf_heading_Nil [simp]: "\<not> okf_heading []"
  by (simp add: okf_heading_def okfSectionNames_def to_lower_def)

lemma section_line_plain:
  assumes "section_line l" and "c \<in> set l"
  shows "plain_char c"
proof -
  let ?t = "trim_space l"
  have h: "okf_heading (headingText ?t)" using assms(1) by (simp add: section_line_def)
  then have "headingText ?t \<noteq> []" by auto
  then obtain i r where t: "?t = replicate i (CHR ''#'') @ CHR '' '' # r" "headingText ?t = trim_space (CHR '' '' # r)"
    using headingText_parts by blast
  obtain a b where l: "l = a @ ?t @ b" "\<forall>c \<in> set a \<union> set b. is_space c" using trim_space_parts by blast
  obtain a' b' where r: "CHR '' '' # r = a' @ headingText ?t @ b'" "\<forall>c \<in> set a' \<union> set b'. is_space c"
    using trim_space_parts [of "CHR '' '' # r"] t(2) by auto
  have "set l = set a \<union> set ?t \<union> set b" by (subst l(1)) auto
  moreover have "set ?t \<subseteq> {CHR ''#''} \<union> set (CHR '' '' # r)" by (subst t(1)) auto
  moreover have "set (CHR '' '' # r) = set a' \<union> set (headingText ?t) \<union> set b'" by (subst r(1)) auto
  ultimately have "c \<in> set a \<union> set b \<union> set a' \<union> set b' \<or> c = CHR ''#'' \<or> c \<in> set (headingText ?t)" using assms(2) by blast
  then show ?thesis using l(2) r(2) okf_heading_letters [OF h] by (auto simp: plain_char_def)
qed

lemma odd_not_section: "odd_line l \<Longrightarrow> \<not> section_line l"
  using section_line_plain by (auto simp: odd_line_def)

lemma odd_append [simp]: "odd_line (a @ b) \<longleftrightarrow> odd_line a \<or> odd_line b"
  by (auto simp: odd_line_def)

lemma odd_Cons [simp]: "odd_line (c # b) \<longleftrightarrow> \<not> plain_char c \<or> odd_line b"
  by (auto simp: odd_line_def)

lemma odd_chars [simp]: "\<not> plain_char (CHR ''&'')" "\<not> plain_char (CHR ''`'')" "\<not> plain_char (CHR ''>'')" "\<not> plain_char (CHR ''<'')"
  "\<not> plain_char (CHR '':'')" "\<not> plain_char (CHR ''*'')" "\<not> plain_char (CHR 0x5C)" "\<not> plain_char (CHR 0xF0)" "\<not> plain_char (CHR ''-'')"
  by (simp_all add: plain_char_def is_space_def is_lower_def is_upper_def)

lemma section_line_Nil [simp]: "\<not> section_line []"
  by (simp add: section_line_def trim_space_def headingText_def)

section \<open>Quiet texts\<close>

lemmas quiet_newline = all_lines_newline [where P = "\<lambda>l. \<not> section_line l"]
lemmas quiet_block_append = line_block_append [where P = "\<lambda>l. \<not> section_line l"]
lemmas quiet_block_text = line_block_text [where P = "\<lambda>l. \<not> section_line l"]

lemma quiet_newline1 [simp]: "quiet (newline # b) \<longleftrightarrow> quiet b"
  using quiet_newline [of "[]" b] by simp

lemma quiet_odd: "newline \<notin> set l \<Longrightarrow> odd_line l \<Longrightarrow> quiet l"
  by (simp add: all_lines_one odd_not_section)

lemma quiet_block_line: "newline \<notin> set l \<Longrightarrow> odd_line l \<Longrightarrow> quiet_block (l @ [newline])"
  by (intro quiet_block_text quiet_odd)

lemma quiet_block_empty [simp]: "quiet_block []" "quiet_block [newline]"
  by (simp_all add: line_block_newline)

lemma quiet_block_quiet: "quiet_block s \<Longrightarrow> quiet s"
  using line_block_then [of "\<lambda>l. \<not> section_line l" s "[]"] by simp

section \<open>Replacements keep a text quiet\<close>

text \<open>The lines of a text, of which the first continues the line \<open>cur\<close>.\<close>

definition lines_from :: "string \<Rightarrow> string \<Rightarrow> string list" where
  "lines_from cur s = (cur @ hd (lines_of s)) # tl (lines_of s)"

lemma lines_from_Nil [simp]: "lines_from cur [] = [cur]"
  by (simp add: lines_from_def)

lemma lines_from_Cons [simp]: "lines_from cur (c # s) = (if c = newline then cur # lines_from [] s else lines_from (cur @ [c]) s)"
  using split_nonempty [of newline s] by (cases "lines_of s") (auto simp: lines_from_def)

lemma lines_from_start: "lines_of s = lines_from [] s"
  using split_nonempty [of newline s] by (simp add: lines_from_def)

definition kept_lines :: "string list \<Rightarrow> string list \<Rightarrow> bool" where
  "kept_lines A B \<longleftrightarrow> (\<forall>l \<in> set B. l \<in> set A \<or> odd_line l)"

definition same_or_odd :: "string \<Rightarrow> string \<Rightarrow> bool" where
  "same_or_odd cur cur' \<longleftrightarrow> cur' = cur \<or> odd_line cur'"

lemma same_or_odd_simps [simp]: "same_or_odd x x" "odd_line y \<Longrightarrow> same_or_odd x y" "same_or_odd x y \<Longrightarrow> same_or_odd (x @ z) (y @ z)"
  by (auto simp: same_or_odd_def)

lemma kept_Cons: "same_or_odd a b \<Longrightarrow> kept_lines A B \<Longrightarrow> kept_lines (a # A) (b # B)"
  by (auto simp: kept_lines_def same_or_odd_def)

lemma kept_more: "kept_lines A B \<Longrightarrow> kept_lines (a # A) B"
  by (auto simp: kept_lines_def)

lemma kept_common:
  assumes "same_or_odd cur cur'" and "\<And>c c'. same_or_odd c c' \<Longrightarrow> kept_lines (lines_from c x) (lines_from c' y)"
  shows "kept_lines (lines_from cur (w @ x)) (lines_from cur' (w @ y))"
  using assms(1)
proof (induction w arbitrary: cur cur')
  case (Cons a w)
  then show ?case by (auto intro!: kept_Cons)
qed (use assms(2) in simp)

lemma kept_step:
  assumes "same_or_odd cur cur'" and "\<And>c c'. same_or_odd c c' \<Longrightarrow> kept_lines (lines_from c x) (lines_from c' y)"
  shows "kept_lines (lines_from cur (a # x)) (lines_from cur' (a # y))"
  using kept_common [OF assms, of "[a]"] by simp

lemma kept_tags: "same_or_odd cur cur' \<Longrightarrow> kept_lines (lines_from cur s) (lines_from cur' (escape_tags s))"
proof (induction s arbitrary: cur cur' rule: escape_tags.induct)
  case (1 a b s)
  show ?case
  proof (cases "a = CHR ''<'' \<and> tag_char b")
    case True
    then have "b \<noteq> newline" by (auto simp: newline_def tag_char_def is_lower_def is_upper_def)
    then show ?thesis using 1(1) [OF True, of "cur @ ''<'' @ [b]" "cur' @ ''&lt;'' @ [b]"] True by (simp add: newline_def)
  next
    case False
    then have "escape_tags (a # b # s) = a # escape_tags (b # s)" by auto
    then show ?thesis using kept_step [OF 1(3) 1(2) [OF False]] by simp
  qed
qed (auto simp: kept_lines_def same_or_odd_def)

lemma kept_images: "same_or_odd cur cur' \<Longrightarrow> kept_lines (lines_from cur s) (lines_from cur' (escape_images s))"
proof (induction s arbitrary: cur cur' rule: escape_images.induct)
  case (1 a b s)
  show ?case
  proof (cases "a = CHR ''!'' \<and> b = CHR ''[''")
    case True
    then show ?thesis using 1(1) [OF True, of "cur @ ''!['' " "cur' @ ''!&#91;''"] by (simp add: newline_def)
  next
    case False
    then have "escape_images (a # b # s) = a # escape_images (b # s)" by auto
    then show ?thesis using kept_step [OF 1(3) 1(2) [OF False]] by simp
  qed
qed (auto simp: kept_lines_def same_or_odd_def)

lemma kept_skip: "(\<And>c. kept_lines (lines_from c x) Z) \<Longrightarrow> kept_lines (lines_from cur (w @ x)) Z"
  by (induction w arbitrary: cur) (auto intro: kept_more)

lemma lines_from_append: "newline \<notin> set w \<Longrightarrow> lines_from cur (w @ y) = lines_from (cur @ w) y"
  by (induction w arbitrary: cur) auto

lemma image_at_parts:
  assumes "image_at s = Some (alt, after)"
  shows "\<exists>url. s = ''!['' @ alt @ '']('' @ url @ '')'' @ after"
proof -
  obtain rest x where 1: "cut_byte (CHR '']'') (drop 2 s) = (alt, rest, True)" "has_prefix rest ''(''" and p: "has_prefix s ''![''"
      and 2: "cut_byte (CHR '')'') (drop 1 rest) = (x, after, True)"
    using assms by (auto simp: image_at_def split: if_splits prod.splits)
  from p obtain s' where s: "s = ''!['' @ s'" by (auto simp: has_prefix_iff)
  have s': "s' = alt @ CHR '']'' # rest" using cut_byte_eq [OF 1(1)] s by simp
  obtain r where r: "rest = ''('' @ r" using 1(2) by (auto simp: has_prefix_iff)
  have r': "r = x @ CHR '')'' # after" using cut_byte_eq [OF 2] r by simp
  show ?thesis using s s' r r' by (intro exI [of _ x]) simp
qed

lemma kept_neutralized: "same_or_odd cur cur' \<Longrightarrow> kept_lines (lines_from cur s) (lines_from cur' (NeutralizeImages s))"
proof (induction s arbitrary: cur cur' rule: NeutralizeImages.induct)
  case 1
  then show ?case by (auto simp: kept_lines_def same_or_odd_def)
next
  case (2 c s)
  show ?case
  proof (cases "image_at (c # s)")
    case None
    then show ?thesis using kept_step [OF 2(3) 2(1) [OF None]] by simp
  next
    case (Some p)
    obtain alt after where p: "p = (alt, after)" by (metis prod.exhaust)
    obtain url where s: "c # s = ''!['' @ alt @ '']('' @ url @ '')'' @ after" using image_at_parts Some p by blast
    note IH = 2(2) [OF Some p [symmetric]]
    have skip: "kept_lines (lines_from x ('']('' @ url @ '')'' @ after)) (lines_from y (NeutralizeImages after))" if "odd_line y" for x y
    proof -
      have "kept_lines (lines_from x (('']('' @ url @ '')'') @ after)) (lines_from y (NeutralizeImages after))"
        by (rule kept_skip) (rule IH, simp add: that)
      then show ?thesis by simp
    qed
    have out: "NeutralizeImages (c # s) = image_label alt @ NeutralizeImages after" using Some p by simp
    show ?thesis
    proof (cases "alt = []")
      case True
      have "lines_from cur' (NeutralizeImages (c # s)) = lines_from (cur' @ ''`[image]`'') (NeutralizeImages after)"
        unfolding out image_label_def True by (simp add: lines_from_append newline_def del: append_Cons)
      then show ?thesis using skip [of "cur' @ ''`[image]`''" "cur @ ''![''"] s True by (simp add: newline_def)
    next
      case False
      let ?o = "cur' @ ''`[image: ''"
      have "kept_lines (lines_from (cur @ ''!['') (alt @ '']('' @ url @ '')'' @ after)) (lines_from ?o (alt @ '']`'' @ NeutralizeImages after))"
      proof (rule kept_common)
        show "same_or_odd (cur @ ''!['') ?o" by simp
        fix x y
        have "lines_from y ('']`'' @ NeutralizeImages after) = lines_from (y @ '']`'') (NeutralizeImages after)"
          by (rule lines_from_append) (simp add: newline_def)
        then show "kept_lines (lines_from x ('']('' @ url @ '')'' @ after)) (lines_from y ('']`'' @ NeutralizeImages after))"
          using skip [of "y @ '']`''" x] by simp
      qed
      moreover have "lines_from cur (c # s) = lines_from (cur @ ''!['') (alt @ '']('' @ url @ '')'' @ after)"
        unfolding s by (rule lines_from_append) (simp add: newline_def)
      moreover have "lines_from cur' (NeutralizeImages (c # s)) = lines_from ?o (alt @ '']`'' @ NeutralizeImages after)"
        unfolding out image_label_def using False by (simp add: lines_from_append newline_def del: append_Cons)
      ultimately show ?thesis by simp
    qed
  qed
qed

lemma kept_quiet: "kept_lines (lines_of s) (lines_of s') \<Longrightarrow> quiet s \<Longrightarrow> quiet s'"
  using odd_not_section by (auto simp: kept_lines_def all_lines_def)

lemma quiet_replacements:
  assumes "quiet s"
  shows "quiet (escape_tags s)" and "quiet (escape_images s)" and "quiet (NeutralizeImages s)"
  using assms kept_quiet [of s] kept_tags [of "[]" "[]" s] kept_images [of "[]" "[]" s] kept_neutralized [of "[]" "[]" s]
  by (simp_all add: lines_from_start)

section \<open>The body of a note is quiet\<close>

lemma atx_mirrors: "atxHeadingText = headingText"
  by (simp add: fun_eq_iff atxHeadingText_def headingText_def)

lemma section_line_hash:
  assumes "section_line l"
  shows "CHR ''#'' \<in> set l"
proof -
  have n: "headingText (trim_space l) \<noteq> []" using assms by (auto simp: section_line_def)
  then obtain i r where t: "trim_space l = replicate i (CHR ''#'') @ CHR '' '' # r" using headingText_parts by blast
  have "i \<noteq> 0" by (rule notI) (use n t in \<open>simp add: headingText_def\<close>)
  then have "CHR ''#'' \<in> set (trim_space l)" using t by simp
  then show ?thesis using trim_space_parts [of l] by (metis Un_iff set_append)
qed

lemma line_chars: "l \<in> set (lines_of s) \<Longrightarrow> set l \<subseteq> set s"
proof (induction s arbitrary: l)
  case (Cons x s)
  then show ?case using split_nonempty [of newline s] by (cases "lines_of s") (auto split: if_splits, blast)
qed simp

lemma lines_of_lines: "\<forall>l \<in> set ls. newline \<notin> set l \<Longrightarrow> concat (map lines_of ls) = ls"
  by (induction ls) (simp_all add: split_one)

lemma escape_line_quiet:
  assumes n: "newline \<notin> set l"
  shows "newline \<notin> set (escape_line l) \<and> \<not> section_line (escape_line l)"
proof (cases "section_line l")
  case False
  then show ?thesis using n by (auto simp: escape_line_def atx_mirrors Let_def section_line_def)
next
  case True
  then have e: "escape_line l = escape_hash l" by (auto simp: escape_line_def atx_mirrors Let_def section_line_def)
  obtain a b where d: "dropWhile (\<lambda>c. c \<noteq> CHR ''#'') l = a # b"
    using section_line_hash [OF True] by (cases "dropWhile (\<lambda>c. c \<noteq> CHR ''#'') l") auto
  then have "set b \<subseteq> set l" by (metis set_dropWhileD set_subset_Cons subset_code(1))
  then have "newline \<notin> set (escape_hash l)" "odd_line (escape_hash l)"
    using n d by (auto simp: escape_hash_def newline_def dest: set_takeWhileD)
  then show ?thesis using e odd_not_section by simp
qed

lemma escaped_quiet: "quiet (escapeOKFSections s)"
proof (cases "CHR ''#'' \<in> set s")
  case True
  have e: "newline \<notin> set (escape_line l) \<and> \<not> section_line (escape_line l)" if "l \<in> set (lines_of s)" for l
    using escape_line_quiet split_free [OF that] .
  then have "concat (map lines_of (map escape_line (lines_of s))) = map escape_line (lines_of s)"
    by (intro lines_of_lines) auto
  then have "lines_of (escapeOKFSections s) = map escape_line (lines_of s)"
    using True by (simp add: escapeOKFSections_def split_join)
  then show ?thesis using e by (simp add: all_lines_def)
next
  case False
  then show ?thesis using section_line_hash line_chars by (auto simp: escapeOKFSections_def all_lines_def)
qed

lemma noteText_quiet: "quiet (noteText ne s m)"
  unfolding noteText_def neutralizeImages_def neutralizeHTML_def by (intro quiet_replacements escaped_quiet)

lemma blockquote_quiet: "quiet (blockquote s)"
proof -
  let ?ls = "map ((@) ''> '') (lines_of (mandatory_breaks s))"
  have "concat (map lines_of ?ls) = ?ls"
    by (rule lines_of_lines) (auto simp: newline_def dest: split_free [unfolded newline_def])
  then have "lines_of (blockquote s) = ?ls" by (simp add: blockquote_def split_join)
  then show ?thesis by (auto simp: all_lines_def odd_not_section)
qed

lemma noteField_flat [simp]: "newline \<notin> set (noteField ne s)"
  by (simp add: noteField_def SingleLine_flat)

lemma newline_not [simp]: "newline \<noteq> CHR ''#''" "newline \<noteq> CHR '' ''"
  by (simp_all add: newline_def)

text \<open>What the transport and the clock write holds no line break.\<close>

definition flat_setting :: "note_env \<Rightarrow> thread_context \<Rightarrow> gotime \<Rightarrow> bool" where
  "flat_setting ne tc t \<longleftrightarrow> newline \<notin> set (tx_transport tc) \<and> newline \<notin> set (ne_stamp ne t)"

lemma note_header_quiet:
  assumes "flat_setting ne tc t"
  shows "quiet_block (note_header ne tc n t)"
proof -
  let ?who = "noteField ne (nt_author n)"
  have tr: "newline \<notin> set (transportName (tx_transport tc))" "newline \<notin> set (ne_stamp ne t)"
    using assms by (auto simp: flat_setting_def transportName_def newline_def)
  have w: "newline \<notin> set ?who" by simp
  show ?thesis
  proof (cases "modelDrafted n")
    case True
    have "quiet_block (((''### '' @ robot @ '' Proposed operator note '' @ em_dash @ '' drafted by RunLore'') @ [newline]) @ [newline]
        @ ((''RunLore'' @ [CHR 0x27] @ ''s chat model wrote this from **@'' @ ?who @ ''**'' @ [CHR 0x27] @ ''s message via ''
          @ transportName (tx_transport tc) @ '' on '' @ ne_stamp ne t @ ''. @'' @ ?who @ '' did not write it.'') @ [newline]))"
      by (intro quiet_block_append quiet_block_line quiet_block_empty) (use tr w in \<open>simp_all add: robot_def em_dash_def newline_def\<close>)
    then show ?thesis using True by (simp add: note_header_def Let_def)
  next
    case False
    have "quiet_block (((''### '' @ memo @ '' Operator note'') @ [newline]) @ [newline]
        @ ((''From **@'' @ ?who @ ''** via '' @ transportName (tx_transport tc) @ '' on '' @ ne_stamp ne t @ ''.'') @ [newline]))"
      by (intro quiet_block_append quiet_block_line quiet_block_empty) (use tr w in \<open>simp_all add: memo_def newline_def\<close>)
    then show ?thesis using False by (simp add: note_header_def Let_def)
  qed
qed

lemma NoteBody_quiet:
  assumes "flat_setting ne tc t"
  shows "quiet_block (NoteBody ne tc n t m)"
proof -
  let ?who = "noteField ne (nt_author n)"
  let ?title = "noteField ne (tx_title tc)"
  have w: "newline \<notin> set ?who" "newline \<notin> set ?title" by simp_all
  have thread: "quiet_block ((''Thread: '' @ ?title) @ [newline])"
    by (rule quiet_block_line) (use w in \<open>simp_all add: newline_def\<close>)
  have proposed: "quiet_block (''**Proposed note:**'' @ [newline] @ [newline])"
    using quiet_block_append [OF quiet_block_line [of "''**Proposed note:**''"] quiet_block_empty(2)] by (simp add: newline_def)
  have wrote: "quiet_block ((''**What @'' @ ?who @ '' actually wrote:**'') @ [newline])"
    by (rule quiet_block_line) (use w in \<open>simp_all add: newline_def\<close>)
  have told: "quiet_block (noteText ne x m @ [newline])" for x by (intro quiet_block_text noteText_quiet)
  have quote: "quiet_block (blockquote x @ [newline])" for x by (intro quiet_block_text blockquote_quiet)
  note blocks = note_header_quiet [OF assms] thread proposed wrote told quote quiet_block_empty
  have "quiet_block (note_header ne tc n t
      @ (if ?title \<noteq> [] then (''Thread: '' @ ?title) @ [newline] else [])
      @ [newline]
      @ (if modelDrafted n then ''**Proposed note:**'' @ [newline] @ [newline] else [])
      @ (noteText ne (nt_text n) m @ [newline])
      @ (if modelDrafted n
         then [newline] @ ((''**What @'' @ ?who @ '' actually wrote:**'') @ [newline]) @ [newline]
           @ (blockquote (noteText ne (nt_draftedFrom n) m) @ [newline])
         else []))"
    by (cases "modelDrafted n"; cases "?title = []"; simp only: if_True if_False not_True_eq_False not_False_eq_True simp_thms;
        intro quiet_block_append blocks)
  moreover have "[newline, newline] = [newline] @ [newline]" by simp
  ultimately show ?thesis by (simp only: NoteBody_def Let_def append_assoc)
qed

lemma context_line_quiet: "newline \<notin> set label \<Longrightarrow> quiet_block (context_line ne label v)"
proof -
  assume "newline \<notin> set label"
  then have "quiet_block ((''- '' @ label @ '': `'' @ noteField ne v @ ''`'') @ [newline])"
    by (intro quiet_block_line) (simp_all add: newline_def noteField_flat [unfolded newline_def])
  then show ?thesis by (simp add: context_line_def)
qed

lemma ConceptEntry_quiet:
  assumes "flat_setting ne tc t"
  shows "quiet_block (ke_body (ConceptEntry ne tc n t m))"
proof -
  have "\<not> section_line ''### Context''" by code_simp
  then have c: "quiet_block (''### Context'' @ [newline])"
    by (intro quiet_block_text) (simp add: all_lines_def split_one newline_def)
  have "quiet_block (NoteBody ne tc n t m
      @ (if tx_recalledEntry tc \<noteq> [] \<or> tx_triggerKey tc \<noteq> [] \<or> tx_resource tc \<noteq> []
         then [newline] @ (''### Context'' @ [newline]) @ [newline]
           @ context_line ne ''Corrects or extends'' (tx_recalledEntry tc) @ context_line ne ''Resource'' (tx_resource tc)
           @ context_line ne ''Trigger key'' (tx_triggerKey tc) @ context_line ne ''Verdict at delivery'' (tx_verdict tc)
         else []))"
    by (cases "tx_recalledEntry tc \<noteq> [] \<or> tx_triggerKey tc \<noteq> [] \<or> tx_resource tc \<noteq> []";
        simp only: if_True if_False; intro quiet_block_append NoteBody_quiet assms c context_line_quiet quiet_block_empty; simp add: newline_def)
  moreover have "[newline, newline] = [newline] @ [newline]" by simp
  moreover have "ke_body (ConceptEntry ne tc n t m) = NoteBody ne tc n t m
      @ (if tx_recalledEntry tc \<noteq> [] \<or> tx_triggerKey tc \<noteq> [] \<or> tx_resource tc \<noteq> []
         then [newline] @ ''### Context'' @ [newline, newline]
           @ context_line ne ''Corrects or extends'' (tx_recalledEntry tc) @ context_line ne ''Resource'' (tx_resource tc)
           @ context_line ne ''Trigger key'' (tx_triggerKey tc) @ context_line ne ''Verdict at delivery'' (tx_verdict tc)
         else [])"
    by (simp add: ConceptEntry_def Let_def)
  ultimately show ?thesis by (simp only: append_assoc)
qed

end
