(* ===== verification/NoteEntry.thy ===== *)
theory NoteEntry
  imports NoteSafety
begin

text \<open>
  The file of the entry that a thread's notes make: rendered when the first note opens a pull request,
  grown by the later ones, and read back by the catalog and by the merge gate. And the entry's title.
\<close>

section \<open>Reading the file\<close>

definition file_of :: "string \<Rightarrow> string \<Rightarrow> string" where
  "file_of head y = head @ newline # ''---'' @ y"

text \<open>What a YAML encoder writes for a mapping: it ends a line, and no line of it starts with three dashes.\<close>

definition yaml_block :: "string \<Rightarrow> bool" where
  "yaml_block fm \<longleftrightarrow> fm \<noteq> [] \<and> last fm = newline \<and> \<not> contains_str (''---'' @ newline # butlast fm) (newline # ''---'')"

lemma cut_str_first:
  "\<not> contains_str h (newline # ''---'') \<Longrightarrow> cut_str (h @ newline # ''---'' @ y) (newline # ''---'') = Some (h, y)"
proof (induction h)
  case (Cons c h)
  have "\<not> has_prefix (c # h @ newline # ''---'' @ y) (newline # ''---'')"
  proof
    assume p: "has_prefix (c # h @ newline # ''---'' @ y) (newline # ''---'')"
    consider "h = []" | a where "h = [a]" | a b where "h = [a, b]" | a b d r where "h = a # b # d # r"
      by (metis list.exhaust)
    then show False using p Cons.prems by cases (auto simp: newline_def)
  qed
  then show ?case using Cons by simp
qed simp

lemma split_file:
  assumes "\<not> contains_str head (newline # ''---'')" and "has_prefix head ''---''"
  shows "snd (SplitFrontmatter (file_of head y)) = trim_prefix y [newline]"
proof -
  have "has_prefix (file_of head y) ''---''" using assms(2) by (auto simp: has_prefix_iff file_of_def)
  then show ?thesis using cut_str_first [OF assms(1), of y] by (simp add: SplitFrontmatter_def file_of_def)
qed

lemma trim_right_after: "x \<noteq> [] \<Longrightarrow> last x \<noteq> c \<Longrightarrow> trim_right c (x @ y) = x @ trim_right c y"
  by (induction y rule: rev_induct) (cases x rule: rev_cases; auto simp: trim_right_def)+

lemma quiet_replicate [simp]: "quiet (replicate n newline)"
  by (induction n) simp_all

lemma quiet_more_newlines: "quiet (a @ replicate n newline) \<longleftrightarrow> quiet a"
  by (cases n) (simp_all add: quiet_newline)

lemma quiet_trim_right: "quiet s \<Longrightarrow> quiet (trim_right newline s)"
  using trim_right_split [of s newline] quiet_more_newlines by metis

lemma quiet_dropWhile: "quiet s \<Longrightarrow> quiet (dropWhile (\<lambda>c. c = newline) s)"
  by (induction s) auto

lemma quiet_trim_newlines: "quiet s \<Longrightarrow> quiet (trim_newlines s)"
  by (simp add: trim_newlines_def quiet_trim_right quiet_dropWhile)

lemma append_in_file:
  assumes "quiet y" and "quiet block"
  shows "\<exists>y'. AppendBlock (file_of head y) block = file_of head y' \<and> quiet y'"
proof -
  have cur: "trim_right newline (file_of head y) = file_of head (trim_right newline y)"
    using trim_right_after [of "head @ newline # ''---''" newline y] by (simp add: file_of_def newline_def)
  let ?y = "trim_right newline y @ [newline, newline] @ trim_newlines block @ [newline]"
  have "quiet ?y" using assms by (simp add: quiet_newline quiet_trim_right quiet_trim_newlines)
  then show ?thesis using assms(1) cur
    by (cases "trim_newlines block = []") (auto simp: AppendBlock_def Let_def file_of_def)
qed

lemma quiet_marked: "quiet b \<Longrightarrow> newline \<notin> set k \<Longrightarrow> quiet (WithNoteMarker b k)"
proof -
  assume "quiet b" "newline \<notin> set k"
  then have "quiet (NoteMarker k)" by (intro quiet_odd) (simp_all add: NoteMarker_def newline_def)
  then show ?thesis using \<open>quiet b\<close> by (simp add: WithNoteMarker_def quiet_newline)
qed

section \<open>The entry of a thread\<close>

record delivered_note =
  dn_context :: thread_context
  dn_note :: thread_note
  dn_at :: gotime
  dn_key :: string

text \<open>\<open>write\<close> with \<open>OpenPR\<close>, whose body the forge renders defused, and \<open>addToPR\<close> with \<open>AppendToEntryOnPR\<close>.\<close>

definition first_note :: "note_env \<Rightarrow> (kb_entry \<Rightarrow> file_meta \<Rightarrow> applied_resolution option \<Rightarrow> string) \<Rightarrow> file_meta \<Rightarrow> int
     \<Rightarrow> delivered_note \<Rightarrow> string" where
  "first_note ne marshal fm m d =
     (let e = ConceptEntry ne (dn_context d) (dn_note d) (dn_at d) m
      in Render marshal (e\<lparr>ke_body := NeutralizeImages (WithNoteMarker (ke_body e) (dn_key d))\<rparr>) fm)"

definition later_note :: "note_env \<Rightarrow> int \<Rightarrow> delivered_note \<Rightarrow> string \<Rightarrow> string" where
  "later_note ne m d file = fst (append_note (NoteBody ne (dn_context d) (dn_note d) (dn_at d) m) (dn_key d) file)"

definition note_file :: "note_env \<Rightarrow> (kb_entry \<Rightarrow> file_meta \<Rightarrow> applied_resolution option \<Rightarrow> string) \<Rightarrow> file_meta \<Rightarrow> int
     \<Rightarrow> delivered_note \<Rightarrow> delivered_note list \<Rightarrow> string" where
  "note_file ne marshal fm m d ds = fold (later_note ne m) ds (first_note ne marshal fm m d)"

definition flat_note :: "note_env \<Rightarrow> delivered_note \<Rightarrow> bool" where
  "flat_note ne d \<longleftrightarrow> flat_setting ne (dn_context d) (dn_at d) \<and> newline \<notin> set (dn_key d)"

lemma rendered_file:
  assumes "yaml_block (marshal e fm (rendered_resolution e))"
  shows "\<exists>head. Render marshal e fm = file_of head (newline # newline # ke_body e @ [newline])
    \<and> \<not> contains_str head (newline # ''---'') \<and> has_prefix head ''---''"
proof -
  let ?f = "marshal e fm (rendered_resolution e)"
  have "?f = butlast ?f @ [newline]" using assms by (metis append_butlast_last_id yaml_block_def)
  then have "Render marshal e fm = ''---'' @ [newline] @ (butlast ?f @ [newline]) @ ''---'' @ [newline, newline] @ ke_body e @ [newline]"
    unfolding Render_def by simp
  then show ?thesis using assms
    by (intro exI [of _ "''---'' @ newline # butlast ?f"]) (simp add: file_of_def yaml_block_def)
qed

lemma later_in_file:
  assumes "quiet y" and "flat_note ne d"
  shows "\<exists>y'. later_note ne m d (file_of head y) = file_of head y' \<and> quiet y'"
proof (cases "HasNoteMarker (file_of head y) (dn_key d)")
  case True
  then show ?thesis using assms(1) by (auto simp: later_note_def append_note_def)
next
  case False
  have "quiet (NoteBody ne (dn_context d) (dn_note d) (dn_at d) m)"
    using assms(2) NoteBody_quiet quiet_block_quiet by (simp add: flat_note_def)
  then have "quiet (WithNoteMarker (NeutralizeImages (NoteBody ne (dn_context d) (dn_note d) (dn_at d) m)) (dn_key d))"
    using assms(2) by (simp add: quiet_marked quiet_replacements flat_note_def)
  from append_in_file [OF assms(1) this] show ?thesis using False by (simp add: later_note_def append_note_def)
qed

lemma file_body_quiet:
  assumes "\<And>e fm r. yaml_block (marshal e fm r)" and "list_all (flat_note ne) (d # ds)"
  shows "quiet (snd (SplitFrontmatter (note_file ne marshal fm m d ds)))"
proof -
  let ?e = "ConceptEntry ne (dn_context d) (dn_note d) (dn_at d) m"
  have "quiet (ke_body ?e)" using assms(2) ConceptEntry_quiet quiet_block_quiet by (simp add: flat_note_def)
  then have b: "quiet (NeutralizeImages (WithNoteMarker (ke_body ?e) (dn_key d)))"
    using assms(2) by (simp add: quiet_marked quiet_replacements flat_note_def)
  obtain head where h: "first_note ne marshal fm m d
        = file_of head (newline # newline # NeutralizeImages (WithNoteMarker (ke_body ?e) (dn_key d)) @ [newline])"
      "\<not> contains_str head (newline # ''---'')" "has_prefix head ''---''"
    using rendered_file [of marshal "?e\<lparr>ke_body := NeutralizeImages (WithNoteMarker (ke_body ?e) (dn_key d))\<rparr>" fm, OF assms(1)]
    by (auto simp: first_note_def Let_def)
  have grown: "\<exists>y'. fold (later_note ne m) ds (file_of head y) = file_of head y' \<and> quiet y'" if "quiet y" for y
    using that assms(2)
  proof (induction ds arbitrary: y)
    case (Cons x ds)
    then obtain y1 where "later_note ne m x (file_of head y) = file_of head y1" "quiet y1" using later_in_file by fastforce
    then show ?case using Cons by simp
  qed auto
  have "quiet (newline # newline # NeutralizeImages (WithNoteMarker (ke_body ?e) (dn_key d)) @ [newline])"
    using b by (simp add: quiet_newline)
  from grown [OF this] obtain y where y: "note_file ne marshal fm m d ds = file_of head y" "quiet y"
    unfolding note_file_def h(1) by blast
  have "quiet (trim_prefix y [newline])" using y(2) by (cases y) (auto simp: trim_prefix_def)
  then show ?thesis using split_file [OF h(2,3)] y(1) by simp
qed

section \<open>No forged sections\<close>

lemma section_loop_quiet:
  "\<forall>(l, f) \<in> set ls. to_lower (headingText (trim_space l)) \<noteq> to_lower want \<Longrightarrow> section_loop want False [] ls = []"
  by (induction ls) (auto simp: Let_def)

lemma quiet_Section:
  assumes "quiet (en_body e)" and "name \<in> set okfSectionNames"
  shows "Section e name = []"
proof -
  have "trim_space name = name" using assms(2) by (auto simp: okfSectionNames_def trim_space_def is_space_def)
  moreover have "to_lower (headingText (trim_space l)) \<noteq> to_lower name" if "l \<in> set (lines_of (en_body e))" for l
    using assms that by (auto simp: all_lines_def section_line_def okf_heading_def list_ex_iff)
  then have "section_loop name False [] (zip (lines_of (en_body e)) (FencedLines (lines_of (en_body e)))) = []"
    by (intro section_loop_quiet) (auto dest: set_zip_leftD)
  ultimately show ?thesis by (simp add: Section_def Let_def str_join_def truncateRunes_def)
qed

lemma trim_space_lead: "trim_space (CHR '' '' # s) = trim_space s"
  by (simp add: trim_space_def is_space_def)

lemma gate_heading_text: "gate_heading l = Some k \<Longrightarrow> k = to_lower (headingText (trim_space l))"
  by (auto simp: gate_heading_def headingText_def Let_def has_prefix_iff trim_space_lead split: if_splits)

lemma sections_loop_other:
  "\<forall>(l, f) \<in> set ls. gate_heading l \<noteq> Some k \<Longrightarrow> cur \<noteq> k \<Longrightarrow> sections_loop cur buf out ls k = out k"
proof (induction ls arbitrary: cur buf out)
  case (Cons p ls)
  then show ?case by (cases p) (auto simp: flush_section_def split: option.split if_splits)
qed (simp add: flush_section_def)

lemma quiet_gate: "quiet s \<Longrightarrow> \<not> HasIncidentSections s"
proof -
  assume q: "quiet s"
  have "gate_heading l \<noteq> Some ''cause''" if "l \<in> set (lines_of s)" for l
  proof
    assume "gate_heading l = Some ''cause''"
    then have "to_lower (headingText (trim_space l)) = ''cause''" using gate_heading_text by metis
    moreover have "to_lower ''Cause'' = ''cause''" by code_simp
    ultimately have "section_line l" by (simp add: section_line_def okf_heading_def okfSectionNames_def)
    then show False using q that by (simp add: all_lines_def)
  qed
  then have "gate_Sections s ''cause'' = None"
    unfolding gate_Sections_def Let_def by (subst sections_loop_other) (auto dest: set_zip_leftD)
  then show ?thesis by (simp add: HasIncidentSections_def requiredIncidentSections_def mget_def)
qed

text \<open>
  C25: A note is evidence, never a section. Whatever people and the model write into a thread's
  notes, however many notes its entry collects, and whatever the alert's fields hold, the file's body
  has no symptom, cause or resolution: recall has nothing to quote from it as a known cause, and the
  merge gate never takes it for an incident. This holds for the body as the forges write it, with
  images defused and markers added.
\<close>

theorem notes_forge_no_section:
  assumes "\<And>e fm r. yaml_block (marshal e fm r)" and "list_all (flat_note ne) (d # ds)"
    and "en_body e = snd (SplitFrontmatter (note_file ne marshal fm m d ds))"
  shows "list_all (\<lambda>name. Section e name = []) okfSectionNames \<and> \<not> HasIncidentSections (en_body e)"
  using file_body_quiet [OF assms(1,2)] quiet_Section quiet_gate by (simp add: assms(3) list_all_iff)

definition plain_env :: note_env where
  "plain_env = \<lparr>ne_redact = \<lambda>t. t, ne_stamp = \<lambda>_. ''2026-01-01T00:00:00Z'', ne_hasWord = \<lambda>s. s \<noteq> []\<rparr>"

definition plain_yaml :: "kb_entry \<Rightarrow> file_meta \<Rightarrow> applied_resolution option \<Rightarrow> string" where
  "plain_yaml e fm r = ''type: Concept'' @ [newline]"

definition forging_note :: delivered_note where
  "forging_note =
     \<lparr>dn_context = zero_context, dn_note = HumanNote ''U'' (''x'' @ [newline] @ ''## Cause'' @ [newline] @ ''mine''), dn_at = 5, dn_key = ''k''\<rparr>"

lemma notes_forge_no_section_witness:
  "Section (zero_entry\<lparr>en_body := snd (SplitFrontmatter
     (note_file plain_env plain_yaml \<lparr>fm_timestamp = [], fm_status = [], fm_lastValidated = []\<rparr> 0 forging_note [forging_note]))\<rparr>) ''Cause'' = []
   \<and> Section (zero_entry\<lparr>en_body := nt_text (dn_note forging_note)\<rparr>) ''Cause'' = ''mine''"
proof -
  have "yaml_block (plain_yaml x y z)" for x y z by (simp add: yaml_block_def plain_yaml_def newline_def)
  moreover have "list_all (flat_note plain_env) [forging_note, forging_note]" by code_simp
  ultimately have "list_all (\<lambda>name. Section (zero_entry\<lparr>en_body := snd (SplitFrontmatter
     (note_file plain_env plain_yaml \<lparr>fm_timestamp = [], fm_status = [], fm_lastValidated = []\<rparr> 0 forging_note [forging_note]))\<rparr>) name = [])
     okfSectionNames"
    using notes_forge_no_section [where marshal = plain_yaml and ne = plain_env and d = forging_note and ds = "[forging_note]"
        and e = "zero_entry\<lparr>en_body := snd (SplitFrontmatter (note_file plain_env plain_yaml
          \<lparr>fm_timestamp = [], fm_status = [], fm_lastValidated = []\<rparr> 0 forging_note [forging_note]))\<rparr>"]
    by simp
  moreover have "Section (zero_entry\<lparr>en_body := nt_text (dn_note forging_note)\<rparr>) ''Cause'' = ''mine''" by code_simp
  ultimately show ?thesis by (simp add: okfSectionNames_def)
qed

end
