(* ===== verification/NoteTitle.thy ===== *)
theory NoteTitle
  imports NoteEntry
begin

text \<open>
  The title of a note's entry and the text of its body hold no markup; the fields around them do.
\<close>

section \<open>Titles and texts are inert\<close>

definition infix_of :: "string \<Rightarrow> string \<Rightarrow> bool" where
  "infix_of x s \<longleftrightarrow> (\<exists>a b. s = a @ x @ b)"

lemma infix_of_inert: "infix_of x s \<Longrightarrow> inert s \<Longrightarrow> inert x"
  by (auto simp: infix_of_def inert_append)

lemma infix_of_set: "infix_of x s \<Longrightarrow> set x \<subseteq> set s"
  by (auto simp: infix_of_def)

lemma infix_of_trans: "infix_of x y \<Longrightarrow> infix_of y z \<Longrightarrow> infix_of x z"
  unfolding infix_of_def by (metis append.assoc)

lemma infix_of_refl [simp]: "infix_of s s"
  unfolding infix_of_def by (metis append_Nil append_Nil2)

lemma infix_of_suffix: "s = a @ x \<Longrightarrow> infix_of x s"
  unfolding infix_of_def by (metis append_Nil2)

lemma infix_of_prefix: "s = x @ b \<Longrightarrow> infix_of x s"
  unfolding infix_of_def by (metis append_Nil)

lemma infix_of_trim: "infix_of (trim_space s) s"
  using trim_space_parts [of s] by (auto simp: infix_of_def)

lemma infix_of_drop: "infix_of (drop n s) s"
  by (metis append_take_drop_id infix_of_suffix)

lemma infix_of_take: "infix_of (take n s) s"
  by (metis append_take_drop_id infix_of_prefix)

lemma infix_of_cut: "infix_of (cutToRuneBoundary s n) s"
  using cut_is_prefix [of s n] infix_of_prefix by blast

lemma infix_of_heading: "infix_of (atxHeadingText s) s"
proof (cases "atxHeadingText s = []")
  case True
  then show ?thesis using infix_of_prefix [of s "[]" s] by simp
next
  case False
  then have "atxHeadingText s = trim_space (drop (length (takeWhile (\<lambda>c. c = CHR ''#'') s)) s)"
    by (auto simp: atxHeadingText_def Let_def split: if_splits)
  then show ?thesis using infix_of_trans [OF infix_of_trim infix_of_drop] by metis
qed

lemma infix_of_stripped: "infix_of (strip_markup k s) s"
proof (induction k s rule: strip_markup.induct)
  case (2 k s)
  let ?h = "atxHeadingText s"
  let ?rest = "trim_space (drop 2 s)"
  have rest: "infix_of ?rest s" by (rule infix_of_trans [OF infix_of_trim infix_of_drop])
  show ?case
  proof (cases "?h = []")
    case True
    show ?thesis
    proof (cases "length s \<ge> 2 \<and> s ! 0 \<in> set leadingMarkupMarkers \<and> s ! 1 = CHR '' ''")
      case marked: True
      then have "strip_markup (Suc k) s = strip_markup k ?rest" using True by (simp add: Let_def)
      then show ?thesis using infix_of_trans [OF 2(2) rest] True marked by simp
    qed (use True in auto)
  next
    case False
    then have "strip_markup (Suc k) s = strip_markup k ?h" by (simp add: Let_def)
    then show ?thesis using infix_of_trans [OF 2(1) infix_of_heading] False by simp
  qed
qed simp

lemma runes_concat [simp]: "concat (runes s) = s"
  by (induction s rule: runes.induct) simp_all

lemma infix_of_dangling: "infix_of (trim_dangling s) s"
proof -
  let ?r = "rev (runes s)"
  have "s = concat (rev (takeWhile (\<lambda>r. r \<in> set dangling) ?r @ dropWhile (\<lambda>r. r \<in> set dangling) ?r))" by simp
  then have "s = trim_dangling s @ concat (rev (takeWhile (\<lambda>r. r \<in> set dangling) ?r))"
    by (simp only: rev_append concat_append trim_dangling_def)
  then show ?thesis by (rule infix_of_prefix)
qed

lemma infix_of_length: "infix_of x s \<Longrightarrow> length x \<le> length s"
  by (auto simp: infix_of_def)

lemma truncateWords_parts:
  obtains "truncateWords s n = []" | "truncateWords s n = s" "int (length s) \<le> n"
  | x where "truncateWords s n = x @ ellipsis" "infix_of x s" "int (length x) \<le> n - 1"
proof -
  let ?kept = "cutToRuneBoundary s (n - 1)"
  let ?i = "length ?kept - Suc (length (takeWhile (\<lambda>c. c \<noteq> CHR '' '') (rev ?kept)))"
  let ?k = "if CHR '' '' \<in> set ?kept \<and> ?i > 0 \<and> 2 * ?i \<ge> length ?kept then take ?i ?kept else ?kept"
  consider "n \<le> 0" | "0 < n" "int (length s) \<le> n" | "\<not> (n \<le> 0 \<or> int (length s) \<le> n)" by linarith
  then show thesis
  proof cases
    case 1
    then show thesis using that(1) by (simp add: truncateWords_def)
  next
    case 2
    then show thesis using that(2) by (simp add: truncateWords_def)
  next
    case 3
    then have False: "\<not> (n \<le> 0 \<or> int (length s) \<le> n)" .
    have k: "infix_of ?k ?kept" using infix_of_take by auto
    then have "infix_of (trim_dangling ?k) ?kept" using infix_of_trans [OF infix_of_dangling] by blast
    then have "infix_of (trim_dangling ?k) s" "length (trim_dangling ?k) \<le> length ?kept"
      using infix_of_trans [OF _ infix_of_cut] infix_of_length by blast+
    moreover have "int (length ?kept) \<le> n - 1" using cut_bounded [of "n - 1" s] False by simp
    moreover have "truncateWords s n = trim_dangling ?k @ ellipsis" using False by (simp add: truncateWords_def Let_def)
    ultimately show thesis using that(3) [of "trim_dangling ?k"] by simp
  qed
qed

lemma truncateWords_fits: "0 \<le> n \<Longrightarrow> int (length (truncateWords s n)) \<le> n + 2"
  by (cases rule: truncateWords_parts [of s n]) (auto simp: ellipsis_def)

text \<open>One line of text without markup, and what keeps it so.\<close>

definition safe_line :: "string \<Rightarrow> bool" where
  "safe_line s \<longleftrightarrow> inert s \<and> newline \<notin> set s"

lemma safe_infix: "infix_of x s \<Longrightarrow> safe_line s \<Longrightarrow> safe_line x"
  using infix_of_inert infix_of_set by (fastforce simp: safe_line_def)

lemma safe_truncated: "safe_line s \<Longrightarrow> safe_line (truncateWords s n)"
proof (cases rule: truncateWords_parts [of s n])
  case (3 x)
  moreover assume "safe_line s"
  ultimately have "safe_line x" using safe_infix by blast
  then show ?thesis using 3(1)
    by (auto simp: safe_line_def inert_append ellipsis_def newline_def tag_char_def is_lower_def is_upper_def)
qed (auto simp: safe_line_def)

lemma inert_Cons: "inert (c # s) \<longleftrightarrow>
    \<not> (s \<noteq> [] \<and> (c = CHR ''!'' \<and> hd s = CHR ''['' \<or> c = CHR ''<'' \<and> tag_char (hd s))) \<and> inert s"
  by (cases s) auto

lemma safe_prefixed: "safe_line s \<Longrightarrow> safe_line (noteTitlePrefix @ s)" "safe_line s \<Longrightarrow> safe_line (''Operator note on '' @ s)"
  by (simp_all add: safe_line_def inert_Cons noteTitlePrefix_def newline_def)

lemma escape_tags_newlines: "newline \<notin> set s \<Longrightarrow> newline \<notin> set (escape_tags s)"
  by (induction s rule: escape_tags.induct) (auto simp: newline_def)

lemma escape_images_newlines: "newline \<notin> set s \<Longrightarrow> newline \<notin> set (escape_images s)"
  by (induction s rule: escape_images.induct) (auto simp: newline_def)

lemma Fields_chars: "\<forall>x \<in> set (Fields_walk w rs). set x \<subseteq> set w \<union> set (concat rs)"
proof (induction w rs rule: Fields_walk.induct)
  case (2 w r rs)
  then show ?case by (cases "unicode_space (rune_value r)"; cases "w = []") auto
qed simp

lemma noteLine_safe: "safe_line (noteLine ne s)"
proof -
  let ?f = "Fields (noteField ne s)"
  have w: "set x \<subseteq> set (noteField ne s)" if "x \<in> set ?f" for x
    using Fields_chars [of "[]" "runes (noteField ne s)"] that by (auto simp: Fields_def)
  have "newline \<notin> set x" if "x \<in> set ?f" for x using w [OF that] noteField_flat by blast
  then have "newline \<notin> set (str_join '' '' ?f)"
    by (cases ?f) (auto simp: str_join_def)
  then show ?thesis
    by (simp add: safe_line_def noteLine_def defuseMarkup_def neutralizeImages_def neutralizeHTML_def defused_inert escape_tags_newlines escape_images_newlines)
qed

lemma noteClaim_safe: "safe_line (noteClaim ne s m)"
proof -
  have "safe_line (stripLeadingMarkup x)" if "safe_line x" for x
    using safe_infix [OF infix_of_trans [OF infix_of_stripped infix_of_trim] that] by (simp add: stripLeadingMarkup_def)
  then show ?thesis using safe_truncated noteLine_safe by (auto simp: noteClaim_def Let_def safe_line_def)
qed

text \<open>
  C29: What a note puts into the catalog is inert. The title of its entry is never empty, one line
  of at most 92 bytes (the merge gate allows 120), and neither the title nor the text of the note's
  body opens an image, a tag, a comment or a declaration, whatever was written, by whom, and under
  whatever alert.
\<close>

theorem note_title_and_text_inert:
  "let title = ke_title (ConceptEntry ne tc n t m) in
     title \<noteq> [] \<and> newline \<notin> set title \<and> length title \<le> 92 \<and> inert title \<and> inert (noteText ne (nt_text n) m)"
proof -
  let ?said = "noteClaim ne (nt_text n) m"
  have t: "ke_title (ConceptEntry ne tc n t m) = noteEntryTitle ne tc ?said" by (simp add: ConceptEntry_def Let_def)
  have "safe_line ''Operator note''" by code_simp
  then have "safe_line (noteEntryTitle ne tc ?said)"
    using safe_prefixed(1) [OF safe_truncated [OF noteClaim_safe]] safe_truncated [OF safe_prefixed(2) [OF noteLine_safe]]
    by (simp add: noteEntryTitle_def Let_def)
  moreover have "int (length (noteEntryTitle ne tc ?said)) \<le> 92"
    using truncateWords_fits [of 75 ?said] truncateWords_fits [of 90 "''Operator note on '' @ noteLine ne (tx_title tc)"]
    by (auto simp: noteEntryTitle_def Let_def noteTitlePrefix_def maxNoteTitle_def)
  moreover have "noteEntryTitle ne tc ?said \<noteq> []"
  proof -
    have "truncateWords s 90 \<noteq> []" if "s \<noteq> []" for s
      using that by (auto simp: truncateWords_def Let_def ellipsis_def)
    then show ?thesis by (simp add: noteEntryTitle_def Let_def noteTitlePrefix_def maxNoteTitle_def)
  qed
  moreover have "inert (noteText ne (nt_text n) m)"
    by (simp add: noteText_def neutralizeImages_def neutralizeHTML_def defused_inert)
  ultimately show ?thesis by (simp add: t Let_def safe_line_def)
qed

text \<open>
  The fields around the text are not defused. A thread's title comes from an alert; its line in the
  note's body keeps an image or a tag, and the comment route posts that body as it is.
\<close>

theorem thread_title_keeps_markup:
  "NoteBody plain_env (zero_context\<lparr>tx_title := ''![x](http://e/p.gif)''\<rparr>) (HumanNote ''U'' ''fact'') 5 0
     = ''### '' @ memo @ '' Operator note'' @ [newline, newline] @ ''From **@U** via chat on 2026-01-01T00:00:00Z.'' @ [newline]
       @ ''Thread: ![x](http://e/p.gif)'' @ [newline, newline] @ ''fact'' @ [newline]"
  by code_simp

text \<open>
  An image that a title opens and does not close takes the note with it: the rendering of the entry
  drops everything up to the next closing parenthesis, in the note's own text.
\<close>

theorem open_image_swallows_note:
  "NeutralizeImages (NoteBody plain_env (zero_context\<lparr>tx_title := ''![x](''\<rparr>) (HumanNote ''U'' ''the disk was full (vol 1)'') 5 0)
     = ''### '' @ memo @ '' Operator note'' @ [newline, newline] @ ''From **@U** via chat on 2026-01-01T00:00:00Z.'' @ [newline]
       @ ''Thread: `[image: x]`'' @ [newline]"
  by code_simp

end
