(* ===== verification/Spec2Isabelle.thy ===== *)
theory Spec2Isabelle
  imports Prelude GoDuration Workload RateLimit AuditLog Action ApprovalRun LedgerTypes LedgerFold LedgerTally LedgerEpisodes LedgerCheckpoint
    LedgerStore LedgerRun LedgerTrust LedgerReads Requests RecurrenceGate Coalescer InvestigationQueue Globs TriggerPolicy
    Intake Flush SourceAllowlist Catalog Chat Spend Compaction Findings ToolOutput Verify Ladder Rerank Recall RecallGuards
    Targets Seed Delivery Loop LoopSteps LoopGuards Conversation LoopTrust LoopSpend ThreadBudget RootLock ThreadRegistry RegistryRun
    OkfBundle OkfGuards ThreadGrammar ThreadNote ThreadText ThreadPrompt ThreadChat ThreadResponder ResponderGuards
    NoteSafety NoteEntry NoteTitle
begin

text \<open>
  \<^bold>\<open>RunLore, verified.\<close> RunLore (Go) turns alerts and GitOps failures into root-cause
  investigations run by a language model, remembers their outcome, and recalls what a team already
  knows. This library models its decision logic and proves what the operators rely on. It is about
  what the program does with whatever the model, the cluster, the catalog search and the network
  answer: those are parameters.

  \<^bold>\<open>The path of an incident, and the theory of each part.\<close>
  \<^item> A webhook is decoded and matched against the trigger policy (\<open>internal/config/config.go\<close>,
    \<open>internal/trigger/dedup.go\<close>: theory \<open>TriggerPolicy\<close>), held back when it may resolve by itself, and
    delivered (\<open>internal/source\<close>, \<open>internal/investigate/debounce.go\<close>: \<open>Intake\<close>).
  \<^item> Correlated alerts are folded into one batch per key (\<open>internal/coalesce\<close>: \<open>Coalescer\<close>); the sink of
    \<open>internal/app/serve.go\<close> queues a batch as one request (\<open>Flush\<close>).
  \<^item> The queue (\<open>internal/investigate/investigate.go\<close>: \<open>Requests\<close>, \<open>InvestigationQueue\<close>) starts
    investigations within a budget (\<open>internal/ratelimit\<close>: \<open>RateLimit\<close>), over client-go's workqueue.
  \<^item> The loop first asks the recurrence gate (\<open>recurrence.go\<close>: \<open>RecurrenceGate\<close>), then instant recall
    (\<open>recall.go\<close>, \<open>rerank.go\<close>, \<open>internal/catalog\<close>: \<open>Catalog\<close>, \<open>Rerank\<close>, \<open>Recall\<close>, \<open>RecallGuards\<close>), and
    otherwise seeds a prompt (\<open>Seed\<close>) and runs the model, step by step, over the tools (\<open>loop.go\<close>: \<open>Chat\<close>,
    \<open>Findings\<close>, \<open>ToolOutput\<close>, \<open>Loop\<close>), under the spend guard and the compaction of its history (\<open>cost.go\<close>,
    \<open>budget.go\<close>, \<open>compact.go\<close>, \<open>summarize.go\<close>: \<open>Spend\<close>, \<open>Compaction\<close>, \<open>Ladder\<close>). Findings are reviewed
    by a second pass (\<open>verify.go\<close>, \<open>confirm.go\<close>: \<open>Verify\<close>), their actions held to the resources the run
    has seen (\<open>observedresources.go\<close>: \<open>Targets\<close>), then redacted and delivered (\<open>Delivery\<close>). The lemmas on
    whole runs are in \<open>LoopSteps\<close> (how one step ends), \<open>LoopGuards\<close> (results and steps), \<open>Conversation\<close>
    (the histories sent), \<open>LoopTrust\<close> (recall, review, redaction) and \<open>LoopSpend\<close> (tokens).
  \<^item> A proposed action passes the gate and, unattended or approved, reaches the executor
    (\<open>internal/action\<close>: \<open>Action\<close>; \<open>ApprovalRun\<close> interleaves approvals, each a thread with the claim, the gate and the
    call as separate steps); every attempt is handed to the auditor, whose records form a hash chain
    (\<open>internal/audit\<close>: \<open>AuditLog\<close>).
  \<^item> The outcome ledger (\<open>internal/outcome\<close>: \<open>LedgerTypes\<close>, \<open>LedgerFold\<close>, \<open>LedgerStore\<close>,
    \<open>LedgerCheckpoint\<close>, \<open>LedgerRun\<close>) is an append-only file folded into the state that recall, the gate and
    the coalescer read: \<open>LedgerTally\<close>, \<open>LedgerEpisodes\<close>, \<open>LedgerTrust\<close> and \<open>LedgerReads\<close> relate that
    state to the history it stands for.
  \<^item> People talk about a result in its chat thread (\<open>internal/thread\<close>). A message is read by a small grammar
    (\<open>grammar.go\<close>: \<open>ThreadGrammar\<close>); it may be answered by one completion of the chat model, whose prompt and
    budget are \<open>chat.go\<close> and \<open>budget.go\<close> (\<open>ThreadPrompt\<close>, \<open>ThreadChat\<close>, \<open>ThreadBudget\<close>), and may become a note in the
    knowledge base (\<open>note.go\<close>, \<open>responder.go\<close>, \<open>mention.go\<close>: \<open>ThreadNote\<close>, \<open>ThreadText\<close>, \<open>ThreadResponder\<close>, with the
    lemmas on runs in \<open>ResponderGuards\<close>). Threads are kept in a bounded, persistent registry with one guard per
    root (\<open>registry.go\<close>, \<open>thread.go\<close>: \<open>ThreadRegistry\<close>, \<open>RegistryRun\<close>, \<open>RootLock\<close>).
  \<^item> A note lands in a file of the knowledge bundle, which the catalog and the merge gate read back
    (\<open>internal/okf\<close>, \<open>internal/catalog/load.go\<close>, \<open>internal/kbvalidate\<close>, \<open>internal/forge/github/noteappend.go\<close>:
    \<open>OkfBundle\<close>, \<open>OkfGuards\<close>). \<open>NoteSafety\<close>, \<open>NoteEntry\<close> and \<open>NoteTitle\<close> follow a text from the message to that file.
  \<^item> Workload and cloud resource identity (\<open>internal/providers\<close>: \<open>Workload\<close>) and the repository allow list
    (\<open>internal/sourcerepo\<close>: \<open>SourceAllowlist\<close>) are used by several of these. \<open>Prelude\<close>, \<open>GoDuration\<close> and
    \<open>Globs\<close> hold what the code uses of Go's library: strings, times, durations, \<open>path.Match\<close>.

  \<^bold>\<open>State and operations.\<close> A Go struct is a record whose fields carry a two-letter prefix, an
  operation is a definition under its Go name from the state to the result and the next state. A mutex-protected
  method is one step; where goroutines interleave between critical sections (the queue, the approvals, the hold)
  a step relation ranges over all interleavings. Errors are values of a sum or an option. A Go map that is
  iterated over is an association list, any other a partial function. Loops over slices are structural
  recursion; the investigation loop recurses on the steps that are left, so every function here is total.

  \<^bold>\<open>Interfaces.\<close> Where one part relies on another through a contract, the contract is a locale
  interpreted on the model's own definitions: \<open>journal\<close> (an append-only file and its fold: the ledger, the registry of threads),
  \<open>observation_tally\<close> (one live observation per key: votes, verifications), \<open>recording_limiter\<close>,
  \<open>sliding_limiter\<close> and \<open>refunding_limiter\<close> (the chat's budget; the queue's budget, the unattended actions), \<open>recurrence_stats\<close> (what the gate reads:
  the ledger), \<open>enqueuer\<close> and \<open>cancelling_enqueuer\<close> (what intake hands to: the queue), \<open>outcome_stats\<close> (what
  recall reads: the ledger).

  \<^bold>\<open>What the lemmas show.\<close> \<^emph>\<open>Intake to queue:\<close> no alert is lost between the hold, the batches and the queue,
  criticals never wait, one investigation per cooldown unless a vote contests it, starts stay within the budget, a payload replaced
  while it is being investigated survives. \<^emph>\<open>Recall:\<close> only trusted, in-scope entries fire, at most two paid
  calls, nothing the ledger holds in low regard. \<^emph>\<open>The loop:\<close> every run that the gate admits and that does
  not end in a model error delivers exactly one result, within its step budget; the tokens it spends exceed
  the ceiling by a bounded amount; the review only lowers confidence; every conversation it sends answers
  each tool call exactly where it was made, compacted or not; automatic execution ignores instant recall
  and the standing answer of the ledger, a recalled answer is delivered only after its review, and every string
  the redacting walk visits in what is delivered went through redaction.
  \<^emph>\<open>Actions:\<close> the unattended executor stays inside the envelope under every interleaving, an approval
  executes at most once however many race for it, every execution is handed to the auditor, and no unattended
  action names a target the run has not observed. \<^emph>\<open>Ledger:\<close> while writes are clean a restart is invisible, with or without compaction; the counters recall
  reads are those of all lines ever appended, the latest observation of each vote and fix room counting once. \<^emph>\<open>Threads:\<close> only a meant command reaches the forge, one writer per thread at
  a time and, while the thread stays tracked, no more notes than the cap, all on one pull request while it is open; completions are paid for and
  stay within the ceiling of calls; the registry survives a restart when its writes reached the file. \<^emph>\<open>Notes:\<close> whatever a message holds, it
  forges no section of an entry and no line of the prompt's framing, an entry's title and link stay inert, and
  the bundle's files only grow.

  \<^bold>\<open>Abstractions.\<close> Confidences, scores, prices and the calibration ratio are rationals where the code has
  \<open>float64\<close>, except that the product with the constant 0.7 of the compaction target is rounded as a double,
  since the rounding shows. Names are ASCII and texts are bytes of valid UTF-8. \<open>time.Duration\<close> is an integer
  in the 64-bit range, and token counts, sequence numbers and lengths stay below their 64-bit bounds. SHA-256, JSON
  decoding, YAML encoding, \<open>time.Parse\<close>, redaction, the clock, the catalog search, the cluster, the tools and the model are
  parameters; hypotheses about them (no hash collision on the records at hand, a non-decreasing clock) are
  stated in the theorems that use them. Metrics and log lines are left out, except where a counter stands for
  an effect that a property counts.

  \<^bold>\<open>Bounds and fuel.\<close> The loop runs over a list of \<open>maxSteps\<close> step numbers, the number the code counts to
  (20 by default); the matchers of \<open>Globs\<close>, the parsers of \<open>GoDuration\<close> and the readers of runes and images
  recurse on the text with a proved measure. No definition takes fuel beyond those.

  \<^bold>\<open>Not modelled.\<close> Clients of external systems (\<open>internal/providers\<close> beyond the types, \<open>model\<close>, \<open>gcplog\<close>,
  \<open>logs\<close>, \<open>metrics\<close>, \<open>network\<close>, \<open>forge\<close>, \<open>executor\<close>, \<open>embed\<close>), the HTTP server and the chat front ends
  (\<open>server\<close>, \<open>notify\<close>, \<open>slackcard\<close>), of the threads the escaping of replies, the dispatch limit of each transport and
  the announcer's goroutine, the investigation tools that format what those clients return, the curation
  pipeline (\<open>curate\<close>, \<open>curator\<close>, \<open>kbimport\<close>, the other rules of \<open>kbvalidate\<close>), the software factory (\<open>factory\<close>), the evaluation harness, configuration parsing, wiring
  (\<open>internal/app\<close>, \<open>cmd\<close>) and telemetry. They are input and output around the decisions modelled here, or
  separate features; the manifest lists each with its reason.
\<close>

end
